(* ===== verification/Pickle_Prelude.thy ===== *)
theory Pickle_Prelude
  imports Main "HOL-Library.Word" "HOL-Library.AList"
begin

unbundle bit_operations_syntax

text \<open>
  Shared ground of the development: the machine types of the Rust sources, Rust strings as lists
  of Unicode scalar values with the character classes the code asks about, the two map types of
  the standard library (\<open>HashMap\<close> and \<open>BTreeMap\<close>) behind one contract, the external code the
  program calls (hashing, signatures, base32) bundled as a record of parameters, and the generic
  lemmas and fact collections the component theories rest on.
\<close>

section \<open>Fact collections\<close>

named_theorems perm_bits \<open>bit-level readings of permission masks\<close>
named_theorems quiet_intros \<open>operations that only touch control queues\<close>
named_theorems wf_intros \<open>operations that keep the server state well formed\<close>

section \<open>Machine types\<close>

type_synonym u8 = "8 word"
type_synonym u16 = "16 word"
type_synonym u32 = "32 word"
type_synonym u64 = "64 word"
type_synonym bytes = "u8 list"

text \<open>A \<open>usize\<close> that counts elements of an in-memory collection is a \<open>nat\<close>.\<close>

section \<open>Rust strings\<close>

text \<open>
  A \<open>str\<close> is a sequence of Unicode scalar values, here their code points; \<open>len()\<close> counts UTF-8
  bytes and \<open>chars()\<close> counts scalar values, so the two are kept apart.
\<close>

type_synonym ustring = "nat list"

definition u :: "string \<Rightarrow> ustring" where
  "u s = map of_char s"

definition utf8_len_char :: "nat \<Rightarrow> nat" where
  "utf8_len_char c = (if c < 128 then 1 else if c < 2048 then 2 else if c < 65536 then 3 else 4)"

definition utf8_len :: "ustring \<Rightarrow> nat" where
  "utf8_len s = sum_list (map utf8_len_char s)"

definition utf8_encode_char :: "nat \<Rightarrow> bytes" where
  "utf8_encode_char c =
     (if c < 128 then [of_nat c]
      else if c < 2048 then [of_nat (192 + c div 64), of_nat (128 + c mod 64)]
      else if c < 65536 then
        [of_nat (224 + c div 4096), of_nat (128 + c div 64 mod 64), of_nat (128 + c mod 64)]
      else [of_nat (240 + c div 262144), of_nat (128 + c div 4096 mod 64),
            of_nat (128 + c div 64 mod 64), of_nat (128 + c mod 64)])"

definition as_bytes :: "ustring \<Rightarrow> bytes" where
  "as_bytes s = concat (map utf8_encode_char s)"

text \<open>\<open>char::is_control\<close> (general category Cc) and \<open>char::is_whitespace\<close> (White_Space).\<close>

definition is_control :: "nat \<Rightarrow> bool" where
  "is_control c \<longleftrightarrow> c < 32 \<or> (127 \<le> c \<and> c < 160)"

definition is_whitespace :: "nat \<Rightarrow> bool" where
  "is_whitespace c \<longleftrightarrow>
     (9 \<le> c \<and> c \<le> 13) \<or> c = 32 \<or> c = 133 \<or> c = 160 \<or> c = 5760 \<or> (8192 \<le> c \<and> c \<le> 8202) \<or>
     c = 8232 \<or> c = 8233 \<or> c = 8239 \<or> c = 8287 \<or> c = 12288"

definition trim_start :: "ustring \<Rightarrow> ustring" where
  "trim_start s = dropWhile is_whitespace s"

definition trim :: "ustring \<Rightarrow> ustring" where
  "trim s = rev (dropWhile is_whitespace (rev (trim_start s)))"

text \<open>Decimal rendering, as \<open>format!("{n}")\<close> and \<open>to_string()\<close> do for unsigned integers.\<close>

fun dec :: "nat \<Rightarrow> ustring" where
  "dec n = (if n < 10 then [48 + n] else dec (n div 10) @ [48 + n mod 10])"

declare dec.simps [simp del]

text \<open>
  \<open>Result::ok\<close>, and \<open>str::parse::<u32>()\<close> with the error kinds of \<open>ParseIntError\<close>: an optional
  plus sign, at least one digit, and at every character the digit is read before the overflow of
  the accumulator is noticed.
\<close>

fun ok :: "'e + 'a \<Rightarrow> 'a option" where
  "ok (Inl e) = None"
| "ok (Inr a) = Some a"

datatype int_error = EmptyInt | InvalidDigit | PosOverflow

fun parse_digits :: "nat \<Rightarrow> ustring \<Rightarrow> int_error + nat" where
  "parse_digits acc [] = Inr acc"
| "parse_digits acc (c # s) =
     (if \<not> (48 \<le> c \<and> c \<le> 57) then Inl InvalidDigit
      else if 2 ^ 32 \<le> 10 * acc + (c - 48) then Inl PosOverflow
      else parse_digits (10 * acc + (c - 48)) s)"

definition parse_u32 :: "ustring \<Rightarrow> int_error + u32" where
  "parse_u32 s =
     (case s of
        [] \<Rightarrow> Inl EmptyInt
      | c # r \<Rightarrow>
          if r = [] \<and> (c = 43 \<or> c = 45) then Inl InvalidDigit
          else case parse_digits 0 (if c = 43 then r else s) of
                 Inl e \<Rightarrow> Inl e
               | Inr n \<Rightarrow> Inr (of_nat n))"

definition int_error_text :: "int_error \<Rightarrow> string" where
  "int_error_text e =
     (case e of EmptyInt \<Rightarrow> ''cannot parse integer from empty string''
      | InvalidDigit \<Rightarrow> ''invalid digit found in string''
      | PosOverflow \<Rightarrow> ''number too large to fit in target type'')"

lemma length_as_bytes: "length (as_bytes s) = utf8_len s"
  by (induction s) (auto simp: as_bytes_def utf8_len_def utf8_encode_char_def utf8_len_char_def)

lemma set_trim_subset: "set (trim s) \<subseteq> set s"
  by (auto simp: trim_def trim_start_def dest!: set_dropWhileD)

lemma trim_Nil [simp]: "trim [] = []"
  by (simp add: trim_def trim_start_def)

lemma trim_no_outer_whitespace:
  assumes "trim s \<noteq> []"
  shows "\<not> is_whitespace (hd (trim s))" and "\<not> is_whitespace (last (trim s))"
proof -
  let ?t = "dropWhile is_whitespace s"
  let ?r = "dropWhile is_whitespace (rev ?t)"
  have ne: "?r \<noteq> []" using assms by (simp add: trim_def trim_start_def)
  have "\<not> is_whitespace (hd ?r)" using hd_dropWhile [OF ne] .
  with ne show "\<not> is_whitespace (last (trim s))"
    by (simp add: trim_def trim_start_def last_rev)
  from ne have tne: "?t \<noteq> []" by (metis dropWhile.simps(1) rev.simps(1))
  obtain p where "rev ?t = p @ ?r"
    by (metis takeWhile_dropWhile_id)
  then have "?t = rev ?r @ rev p" by (metis rev_append rev_rev_ident)
  with ne have "hd (rev ?r) = hd ?t" by (metis hd_append2 rev_is_Nil_conv)
  with hd_dropWhile [OF tne] show "\<not> is_whitespace (hd (trim s))"
    by (simp add: trim_def trim_start_def)
qed

section \<open>Code the program calls\<close>

text \<open>
  What lives outside the repository is a parameter: SHA-256, Ed25519, unpadded base32, the
  Unicode case maps and the \<open>Debug\<close> rendering of a string. \<open>public_of\<close> maps a secret seed to
  its verifying key.
\<close>

record ext =
  sha256 :: "bytes \<Rightarrow> bytes"
  ed_verify :: "bytes \<Rightarrow> bytes \<Rightarrow> bytes \<Rightarrow> bool"
  ed_sign :: "bytes \<Rightarrow> bytes \<Rightarrow> bytes"
  public_of :: "bytes \<Rightarrow> bytes"
  base32_encode :: "bytes \<Rightarrow> ustring"
  base32_decode :: "ustring \<Rightarrow> bytes option"
  to_uppercase :: "ustring \<Rightarrow> ustring"
  to_lowercase :: "ustring \<Rightarrow> ustring"
  debug_str :: "ustring \<Rightarrow> ustring"

section \<open>Maps of the standard library\<close>

text \<open>
  Both map types are association lists with distinct keys; a \<open>BTreeMap\<close> keeps its keys sorted,
  which is the order its iterators follow, while a \<open>HashMap\<close> appends, its iteration order being
  unspecified. \<open>AList.update\<close>, \<open>AList.delete\<close> and \<open>AList.map_entry\<close> of the library are
  \<open>insert\<close>, \<open>remove\<close> and an update through \<open>get_mut\<close>.
\<close>

type_synonym ('k, 'v) hash_map = "('k \<times> 'v) list"
type_synonym ('k, 'v) btree_map = "('k \<times> 'v) list"

fun bt_insert :: "'k::linorder \<Rightarrow> 'v \<Rightarrow> ('k, 'v) btree_map \<Rightarrow> ('k, 'v) btree_map" where
  "bt_insert k v [] = [(k, v)]"
| "bt_insert k v ((k', v') # m) =
     (if k < k' then (k, v) # (k', v') # m
      else if k = k' then (k, v) # m
      else (k', v') # bt_insert k v m)"

definition hm_invar :: "('k, 'v) hash_map \<Rightarrow> bool" where
  "hm_invar m \<longleftrightarrow> distinct (map fst m)"

definition bt_invar :: "('k::linorder, 'v) btree_map \<Rightarrow> bool" where
  "bt_invar m \<longleftrightarrow> sorted_wrt (<) (map fst m)"

text \<open>The contract both types promise, and what its clients use.\<close>

locale kv_map =
  fixes insert :: "'k \<Rightarrow> 'v \<Rightarrow> ('k \<times> 'v) list \<Rightarrow> ('k \<times> 'v) list"
    and invar :: "('k \<times> 'v) list \<Rightarrow> bool"
  assumes lookup_insert: "invar m \<Longrightarrow> map_of (insert k v m) = (map_of m)(k \<mapsto> v)"
    and invar_empty: "invar []"
    and invar_insert: "invar m \<Longrightarrow> invar (insert k v m)"
    and invar_delete: "invar m \<Longrightarrow> invar (AList.delete k m)"
    and invar_map_entry: "invar m \<Longrightarrow> invar (AList.map_entry k f m)"
    and invar_map: "invar m \<Longrightarrow> invar (map (\<lambda>(k, v). (k, g k v)) m)"
    and invar_distinct: "invar m \<Longrightarrow> distinct (map fst m)"
begin

lemma insert_other: "invar m \<Longrightarrow> k \<noteq> k' \<Longrightarrow> map_of (insert k v m) k' = map_of m k'"
  by (simp add: lookup_insert)

lemma mem_iff_lookup: "invar m \<Longrightarrow> (k, v) \<in> set m \<longleftrightarrow> map_of m k = Some v"
  using invar_distinct by (simp add: map_of_eq_Some_iff)

lemma mem_insert:
  assumes "invar m"
  shows "(k', v') \<in> set (insert k v m) \<longleftrightarrow> (if k' = k then v' = v else (k', v') \<in> set m)"
  using assms by (simp add: mem_iff_lookup invar_insert lookup_insert eq_commute)

lemma keys_insert: "invar m \<Longrightarrow> fst ` set (insert k v m) = Set.insert k (fst ` set m)"
  by (metis dom_fun_upd dom_map_of_conv_image_fst lookup_insert option.distinct(1))

lemma length_insert:
  assumes "invar m"
  shows "length (insert k v m) = (if k \<in> fst ` set m then length m else Suc (length m))"
proof -
  have "length (insert k v m) = card (fst ` set (insert k v m))"
    using invar_distinct [OF invar_insert [OF assms]]
    by (metis distinct_card length_map set_map)
  also have "\<dots> = card (Set.insert k (fst ` set m))"
    by (simp add: keys_insert assms)
  also have "\<dots> = (if k \<in> fst ` set m then length m else Suc (length m))"
    using invar_distinct [OF assms] distinct_card [of "map fst m"]
    by (simp add: card_insert_if insert_absorb)
  finally show ?thesis .
qed

end

lemma map_of_bt_insert: "map_of (bt_insert k v m) = (map_of m)(k \<mapsto> v)"
  by (induction k v m rule: bt_insert.induct) (auto simp: fun_eq_iff)

lemma keys_bt_insert: "fst ` set (bt_insert k v m) = insert k (fst ` set m)"
  by (induction k v m rule: bt_insert.induct) auto

lemma bt_invar_bt_insert: "bt_invar m \<Longrightarrow> bt_invar (bt_insert k v m)"
  by (induction k v m rule: bt_insert.induct) (auto simp: bt_invar_def keys_bt_insert)

lemma map_fst_map_entry [simp]: "map fst (AList.map_entry k f m) = map fst m"
  by (induction m) auto

lemma map_fst_map_val [simp]: "map (fst \<circ> (\<lambda>(k, v). (k, g k v))) m = map fst m"
  by (induction m) auto

lemma sorted_wrt_map_fst_delete:
  "sorted_wrt R (map fst m) \<Longrightarrow> sorted_wrt R (map fst (AList.delete k m))"
  by (induction m) (auto simp: delete_keys)

interpretation hm: kv_map "AList.update :: 'k \<Rightarrow> 'v \<Rightarrow> _" "hm_invar"
  by unfold_locales
    (auto simp: hm_invar_def update_conv' distinct_update distinct_delete)

interpretation bt: kv_map "bt_insert :: 'k::linorder \<Rightarrow> 'v \<Rightarrow> _" "bt_invar"
proof unfold_locales
  fix m :: "('k \<times> 'v) list"
  assume "bt_invar m"
  then show "distinct (map fst m)"
    unfolding bt_invar_def by (simp add: strict_sorted_iff)
qed (auto simp: map_of_bt_insert bt_invar_bt_insert, auto simp: bt_invar_def sorted_wrt_map_fst_delete)

section \<open>Little-endian integers\<close>

text \<open>\<open>to_le_bytes\<close> and \<open>from_le_bytes\<close> of an integer of \<open>n\<close> bytes.\<close>

definition to_le_bytes :: "nat \<Rightarrow> 'a::len word \<Rightarrow> bytes" where
  "to_le_bytes n w = map (\<lambda>i. ucast (drop_bit (8 * i) w)) [0..<n]"

fun from_le_bytes :: "bytes \<Rightarrow> 'a::len word" where
  "from_le_bytes [] = 0"
| "from_le_bytes (b # bs) = ucast b OR push_bit 8 (from_le_bytes bs)"

lemma length_to_le_bytes [simp]: "length (to_le_bytes n w) = n"
  by (simp add: to_le_bytes_def)

lemma bit_to_le_bytes: "i < n \<Longrightarrow> bit (to_le_bytes n w ! i) j \<longleftrightarrow> j < 8 \<and> bit w (8 * i + j)"
  by (auto simp: to_le_bytes_def bit_simps)

lemma bit_from_le_bytes:
  "bit (from_le_bytes bs :: 'a::len word) k \<longleftrightarrow>
     k < LENGTH('a) \<and> k div 8 < length bs \<and> bit (bs ! (k div 8)) (k mod 8)"
proof (induction bs arbitrary: k)
  case Nil
  then show ?case by simp
next
  case (Cons b bs)
  show ?case
  proof (cases "k < 8")
    case True
    then show ?thesis by (auto simp: bit_simps)
  next
    case False
    then obtain m where m: "k = 8 + m" by (metis le_Suc_ex not_less)
    moreover have "\<not> bit b k" using False bit_imp_le_length [of b k] by auto
    moreover have "(8 + m) div 8 = Suc (m div 8)" using div_add_self1 [of 8 m] by simp
    ultimately show ?thesis by (auto simp: bit_simps Cons.IH)
  qed
qed

lemma from_to_le_bytes [simp]:
  "LENGTH('a) = 8 * n \<Longrightarrow> from_le_bytes (to_le_bytes n w) = (w :: 'a::len word)"
proof (rule bit_word_eqI)
  fix k
  assume "LENGTH('a) = 8 * n" and k: "k < LENGTH('a)"
  then have "k div 8 < n" by auto
  then show "bit (from_le_bytes (to_le_bytes n w) :: 'a word) k = bit w k"
    using k by (simp add: bit_from_le_bytes bit_to_le_bytes)
qed

lemma to_from_le_bytes:
  assumes "LENGTH('a::len) = 8 * n" and "length bs = n"
  shows "to_le_bytes n (from_le_bytes bs :: 'a word) = bs"
proof (rule nth_equalityI)
  fix i
  assume i: "i < length (to_le_bytes n (from_le_bytes bs :: 'a word))"
  show "to_le_bytes n (from_le_bytes bs :: 'a word) ! i = bs ! i"
  proof (rule bit_word_eqI)
    fix j
    assume j: "j < LENGTH(8)"
    then have "8 * i + j < LENGTH('a)" using i assms(1) by auto
    moreover have "(8 * i + j) div 8 = i" "(8 * i + j) mod 8 = j" using j by auto
    ultimately show "bit (to_le_bytes n (from_le_bytes bs :: 'a word) ! i) j = bit (bs ! i) j"
      using i j assms by (simp add: bit_to_le_bytes bit_from_le_bytes)
  qed
qed (simp add: assms)

lemma to_le_bytes_inject:
  "LENGTH('a) = 8 * n \<Longrightarrow> to_le_bytes n v = to_le_bytes n w \<longleftrightarrow> v = (w :: 'a::len word)"
  by (metis from_to_le_bytes)

section \<open>Generic lemmas\<close>

lemma find_Some_mem: "List.find P xs = Some x \<Longrightarrow> x \<in> set xs \<and> P x"
  by (auto simp: find_Some_iff)

lemma find_distinct:
  assumes "distinct (map f xs)" and "x \<in> set xs"
  shows "List.find (\<lambda>y. f y = f x) xs = Some x"
  using assms by (induction xs) (auto simp: image_iff)

lemma find_None_mem: "List.find P xs = None \<longleftrightarrow> (\<forall>x\<in>set xs. \<not> P x)"
  by (auto simp: find_None_iff)

lemma map_of_map_val: "map_of (map (\<lambda>(k, v). (k, g k v)) m) k = map_option (g k) (map_of m k)"
  by (induction m) auto

end
