(* ===== verification/Pickle_Perms.thy ===== *)
theory Pickle_Perms
  imports Pickle_Prelude
begin

unbundle bit_operations_syntax

text \<open>
  The permission model shared by server and client (\<open>pickle-proto/src/perms.rs\<close>): masks, roles,
  channel overwrites, the resolution of a member's permissions and the two rank rules. Resolution
  is shown to implement a bit-by-bit precedence rule stated independently of it, to keep
  server-wide bits out of the reach of overwrites, and not to depend on how grants and overwrites
  are stored; rank is shown to be a strict order in which the owner is untouchable.
\<close>

section \<open>Masks\<close>

type_synonym role_id = u32
type_synonym permissions = u64
type_synonym fingerprint = bytes

definition EVERYONE_ROLE_ID :: role_id where "EVERYONE_ROLE_ID = 0"

definition ADMINISTRATOR :: permissions where "ADMINISTRATOR = push_bit 0 1"
definition MANAGE_SERVER :: permissions where "MANAGE_SERVER = push_bit 1 1"
definition MANAGE_ROLES :: permissions where "MANAGE_ROLES = push_bit 2 1"
definition MANAGE_CHANNELS :: permissions where "MANAGE_CHANNELS = push_bit 3 1"
definition KICK_MEMBERS :: permissions where "KICK_MEMBERS = push_bit 4 1"
definition BAN_MEMBERS :: permissions where "BAN_MEMBERS = push_bit 5 1"
definition VIEW_CHANNEL :: permissions where "VIEW_CHANNEL = push_bit 16 1"
definition SEND_MESSAGES :: permissions where "SEND_MESSAGES = push_bit 17 1"
definition READ_HISTORY :: permissions where "READ_HISTORY = push_bit 18 1"
definition MANAGE_MESSAGES :: permissions where "MANAGE_MESSAGES = push_bit 19 1"
definition CONNECT :: permissions where "CONNECT = push_bit 20 1"
definition SPEAK :: permissions where "SPEAK = push_bit 21 1"
definition MUTE_MEMBERS :: permissions where "MUTE_MEMBERS = push_bit 22 1"
definition MOVE_MEMBERS :: permissions where "MOVE_MEMBERS = push_bit 23 1"

definition ALL_BITS :: permissions where
  "ALL_BITS = ADMINISTRATOR OR MANAGE_SERVER OR MANAGE_ROLES OR MANAGE_CHANNELS OR KICK_MEMBERS
      OR BAN_MEMBERS OR VIEW_CHANNEL OR SEND_MESSAGES OR READ_HISTORY OR MANAGE_MESSAGES
      OR CONNECT OR SPEAK OR MUTE_MEMBERS OR MOVE_MEMBERS"

definition CHANNEL_SCOPED :: permissions where
  "CHANNEL_SCOPED = VIEW_CHANNEL OR SEND_MESSAGES OR READ_HISTORY OR MANAGE_MESSAGES
      OR CONNECT OR SPEAK OR MUTE_MEMBERS OR MOVE_MEMBERS"

definition NONE :: permissions where "NONE = 0"

definition DEFAULT_EVERYONE :: permissions where
  "DEFAULT_EVERYONE = VIEW_CHANNEL OR SEND_MESSAGES OR READ_HISTORY OR CONNECT OR SPEAK"

definition contains :: "permissions \<Rightarrow> permissions \<Rightarrow> bool" where
  "contains p bits \<longleftrightarrow> p AND bits = bits"

definition union :: "permissions \<Rightarrow> permissions \<Rightarrow> permissions" where
  "union p bits = p OR bits"

definition without :: "permissions \<Rightarrow> permissions \<Rightarrow> permissions" where
  "without p bits = p AND NOT bits"

definition intersect :: "permissions \<Rightarrow> permissions \<Rightarrow> permissions" where
  "intersect p bits = p AND bits"

definition is_empty :: "permissions \<Rightarrow> bool" where
  "is_empty p \<longleftrightarrow> p = 0"

section \<open>Roles and overwrites\<close>

record role =
  r_id :: role_id
  r_name :: ustring
  r_color :: "u32 option"
  r_position :: u32
  r_permissions :: permissions

datatype overwrite_target = TRole role_id | TMember fingerprint

record overwrite =
  o_target :: overwrite_target
  o_allow :: permissions
  o_deny :: permissions

definition role_permissions :: "role list \<Rightarrow> role_id \<Rightarrow> permissions" where
  "role_permissions roles i =
     (case List.find (\<lambda>r. r_id r = i) roles of Some r \<Rightarrow> r_permissions r | None \<Rightarrow> NONE)"

definition overwrite_for_role :: "overwrite list \<Rightarrow> role_id \<Rightarrow> overwrite option" where
  "overwrite_for_role ows i = List.find (\<lambda>o'. o_target o' = TRole i) ows"

definition overwrite_for_member :: "overwrite list \<Rightarrow> fingerprint \<Rightarrow> overwrite option" where
  "overwrite_for_member ows m = List.find (\<lambda>o'. o_target o' = TMember m) ows"

section \<open>Resolution\<close>

text \<open>Step 1 of \<open>resolve\<close>: @everyone plus the explicit grants, folded in list order.\<close>

definition base_permissions :: "role list \<Rightarrow> role_id list \<Rightarrow> permissions" where
  "base_permissions roles member_roles =
     fold (\<lambda>i base. base OR role_permissions roles i) member_roles
       (role_permissions roles EVERYONE_ROLE_ID)"

text \<open>One overwrite: its denies removed, then its allows added, both masked to channel bits.\<close>

definition apply_overwrite :: "overwrite option \<Rightarrow> permissions \<Rightarrow> permissions" where
  "apply_overwrite ow perms =
     (case ow of
        Some w \<Rightarrow> (without perms (intersect (o_deny w) CHANNEL_SCOPED))
                   OR intersect (o_allow w) CHANNEL_SCOPED
      | None \<Rightarrow> perms)"

text \<open>Step 4: the union of all role denies and of all role allows.\<close>

definition role_overwrites :: "overwrite list \<Rightarrow> role_id list \<Rightarrow> permissions \<times> permissions" where
  "role_overwrites ows member_roles =
     fold (\<lambda>i (denies, allows).
             case overwrite_for_role ows i of
               Some w \<Rightarrow> (denies OR o_deny w, allows OR o_allow w)
             | None \<Rightarrow> (denies, allows))
       member_roles (NONE, NONE)"

definition resolve ::
  "role list \<Rightarrow> role_id list \<Rightarrow> fingerprint \<Rightarrow> bool \<Rightarrow> overwrite list option \<Rightarrow> permissions" where
  "resolve roles member_roles member owner channel_overwrites =
     (if owner then ALL_BITS
      else let base = base_permissions roles member_roles in
        if contains base ADMINISTRATOR then ALL_BITS
        else case channel_overwrites of
               None \<Rightarrow> base
             | Some ows \<Rightarrow>
                 let perms = apply_overwrite (overwrite_for_role ows EVERYONE_ROLE_ID) base;
                     (denies, allows) = role_overwrites ows member_roles;
                     perms = without perms (intersect denies CHANNEL_SCOPED);
                     perms = perms OR intersect allows CHANNEL_SCOPED;
                     perms = apply_overwrite (overwrite_for_member ows member) perms
                 in if \<not> contains perms VIEW_CHANNEL then NONE else perms)"

section \<open>Rank\<close>

definition role_position :: "role list \<Rightarrow> role_id \<Rightarrow> u32 option" where
  "role_position roles i = map_option r_position (List.find (\<lambda>r. r_id r = i) roles)"

definition top_role_position :: "role list \<Rightarrow> role_id list \<Rightarrow> u32" where
  "top_role_position roles member_roles =
     (let ps = List.map_filter (role_position roles) member_roles
      in if ps = [] then 0 else Max (set ps))"

definition can_act_on ::
  "role list \<Rightarrow> role_id list \<Rightarrow> bool \<Rightarrow> role_id list \<Rightarrow> bool \<Rightarrow> bool" where
  "can_act_on roles actor_roles actor_owner target_roles target_owner =
     (if target_owner then False
      else if actor_owner then True
      else top_role_position roles actor_roles > top_role_position roles target_roles)"

definition can_manage_role :: "role list \<Rightarrow> role_id list \<Rightarrow> bool \<Rightarrow> role_id \<Rightarrow> bool" where
  "can_manage_role roles actor_roles actor_owner i =
     (if actor_owner then True
      else case List.find (\<lambda>r. r_id r = i) roles of
             None \<Rightarrow> False
           | Some target \<Rightarrow> r_position target < top_role_position roles actor_roles)"

section \<open>Reading masks bit by bit\<close>

lemmas perm_consts = ADMINISTRATOR_def MANAGE_SERVER_def MANAGE_ROLES_def MANAGE_CHANNELS_def
  KICK_MEMBERS_def BAN_MEMBERS_def VIEW_CHANNEL_def SEND_MESSAGES_def READ_HISTORY_def
  MANAGE_MESSAGES_def CONNECT_def SPEAK_def MUTE_MEMBERS_def MOVE_MEMBERS_def

lemmas perm_ops = contains_def union_def without_def intersect_def is_empty_def NONE_def

lemma bit_flag [perm_bits]: "bit (push_bit k 1 :: u64) n \<longleftrightarrow> n = k \<and> k < 64"
  unfolding bit_push_bit_iff bit_1_iff possible_bit_word by auto

lemma bit_NONE [perm_bits]: "\<not> bit NONE n"
  by (simp add: NONE_def)

lemma bit_CHANNEL_SCOPED [perm_bits]: "bit CHANNEL_SCOPED n \<longleftrightarrow> 16 \<le> n \<and> n \<le> 23"
  unfolding CHANNEL_SCOPED_def perm_consts bit_or_iff bit_flag by auto

lemma bit_ALL_BITS [perm_bits]: "bit ALL_BITS n \<longleftrightarrow> n \<le> 5 \<or> (16 \<le> n \<and> n \<le> 23)"
  unfolding ALL_BITS_def perm_consts bit_or_iff bit_flag by auto

lemma contains_iff: "contains p b \<longleftrightarrow> (\<forall>n. bit b n \<longrightarrow> bit p n)"
  unfolding contains_def bit_eq_iff bit_and_iff possible_bit_word
  using bit_imp_le_length [of b] by blast

lemma contains_flag: "k < 64 \<Longrightarrow> contains p (push_bit k 1) \<longleftrightarrow> bit p k"
  unfolding contains_iff bit_flag by auto

lemma contains_VIEW [perm_bits]: "contains p VIEW_CHANNEL \<longleftrightarrow> bit p 16"
  unfolding VIEW_CHANNEL_def by (rule contains_flag) simp

lemma contains_ADMIN [perm_bits]: "contains p ADMINISTRATOR \<longleftrightarrow> bit p 0"
  unfolding ADMINISTRATOR_def by (rule contains_flag) simp

lemma contains_refl [simp]: "contains p p" and contains_NONE [simp]: "contains p NONE"
  by (simp_all add: perm_ops)

lemma contains_trans: "contains a b \<Longrightarrow> contains b c \<Longrightarrow> contains a c"
  by (auto simp: contains_iff)

lemma contains_union: "contains p (a OR b) \<longleftrightarrow> contains p a \<and> contains p b"
  by (auto simp: contains_iff bit_or_iff)

lemma bit_base_permissions [perm_bits]:
  "bit (base_permissions roles ids) n \<longleftrightarrow>
     (\<exists>i\<in>insert EVERYONE_ROLE_ID (set ids). bit (role_permissions roles i) n)"
proof -
  have "bit (fold (\<lambda>i b. b OR role_permissions roles i) ids b) n \<longleftrightarrow>
          bit b n \<or> (\<exists>i\<in>set ids. bit (role_permissions roles i) n)" for b
    by (induction ids arbitrary: b) (auto simp: bit_or_iff)
  then show ?thesis by (simp add: base_permissions_def)
qed

lemma bit_role_overwrites [perm_bits]:
  "bit (fst (role_overwrites ows ids)) n \<longleftrightarrow>
     (\<exists>i\<in>set ids. \<exists>w. overwrite_for_role ows i = Some w \<and> bit (o_deny w) n)"
  "bit (snd (role_overwrites ows ids)) n \<longleftrightarrow>
     (\<exists>i\<in>set ids. \<exists>w. overwrite_for_role ows i = Some w \<and> bit (o_allow w) n)"
proof -
  let ?f = "\<lambda>i (d :: u64, a :: u64). case overwrite_for_role ows i of
              Some w \<Rightarrow> (d OR o_deny w, a OR o_allow w) | None \<Rightarrow> (d, a)"
  have "(bit (fst (fold ?f ids (d, a))) n \<longleftrightarrow> bit d n \<or>
           (\<exists>i\<in>set ids. \<exists>w. overwrite_for_role ows i = Some w \<and> bit (o_deny w) n)) \<and>
        (bit (snd (fold ?f ids (d, a))) n \<longleftrightarrow> bit a n \<or>
           (\<exists>i\<in>set ids. \<exists>w. overwrite_for_role ows i = Some w \<and> bit (o_allow w) n))" for d a
    by (induction ids arbitrary: d a) (auto simp: bit_or_iff split: option.splits)
  then show
    "bit (fst (role_overwrites ows ids)) n \<longleftrightarrow>
       (\<exists>i\<in>set ids. \<exists>w. overwrite_for_role ows i = Some w \<and> bit (o_deny w) n)"
    "bit (snd (role_overwrites ows ids)) n \<longleftrightarrow>
       (\<exists>i\<in>set ids. \<exists>w. overwrite_for_role ows i = Some w \<and> bit (o_allow w) n)"
    by (auto simp: role_overwrites_def perm_bits)
qed

lemma bit_apply_overwrite [perm_bits]:
  "bit (apply_overwrite ow p) n \<longleftrightarrow>
     (case ow of None \<Rightarrow> bit p n
      | Some w \<Rightarrow> if 16 \<le> n \<and> n \<le> 23 then bit (o_allow w) n \<or> (bit p n \<and> \<not> bit (o_deny w) n)
                 else bit p n)"
proof -
  have "n < 64" if "bit p n" using that bit_imp_le_length [of p n] by simp
  then show ?thesis
    by (auto simp: apply_overwrite_def perm_ops bit_simps bit_CHANNEL_SCOPED split: option.splits)
qed

section \<open>The precedence rule\<close>

text \<open>
  An abstract reading of channel overwrites: each source of exceptions gives a verdict on a bit,
  and the first verdict that is not silent decides, the member's own overwrite before the roles',
  the roles' before @everyone's, and the base permissions last. Within the roles an allow beats a
  deny.
\<close>

datatype verdict = Allow | Deny | Silent

definition verdict_of :: "overwrite option \<Rightarrow> nat \<Rightarrow> verdict" where
  "verdict_of ow n =
     (case ow of None \<Rightarrow> Silent
      | Some w \<Rightarrow> if bit (o_allow w) n then Allow else if bit (o_deny w) n then Deny else Silent)"

definition roles_verdict :: "overwrite list \<Rightarrow> role_id list \<Rightarrow> nat \<Rightarrow> verdict" where
  "roles_verdict ows ids n =
     (if \<exists>i\<in>set ids. verdict_of (overwrite_for_role ows i) n = Allow then Allow
      else if \<exists>i\<in>set ids. verdict_of (overwrite_for_role ows i) n = Deny then Deny
      else Silent)"

fun decide :: "verdict list \<Rightarrow> bool \<Rightarrow> bool" where
  "decide [] b = b"
| "decide (Allow # vs) b = True"
| "decide (Deny # vs) b = False"
| "decide (Silent # vs) b = decide vs b"

definition precedence_bit ::
  "role list \<Rightarrow> role_id list \<Rightarrow> fingerprint \<Rightarrow> overwrite list \<Rightarrow> nat \<Rightarrow> bool" where
  "precedence_bit roles ids m ows n =
     (let base = bit (base_permissions roles ids) n in
      if bit CHANNEL_SCOPED n
      then decide [verdict_of (overwrite_for_member ows m) n, roles_verdict ows ids n,
                   verdict_of (overwrite_for_role ows EVERYONE_ROLE_ID) n] base
      else base)"

lemma decide_Cons:
  "decide (v # vs) b \<longleftrightarrow> v = Allow \<or> (v = Silent \<and> decide vs b)"
  by (cases v) auto

lemma bit_apply_overwrite_verdict:
  "bit (apply_overwrite ow p) n =
     (if bit CHANNEL_SCOPED n then decide [verdict_of ow n] (bit p n) else bit p n)"
  by (auto simp: perm_bits verdict_of_def decide_Cons split: option.splits)

lemma bit_role_overwrites_verdict:
  assumes "n < 64"
  shows "bit ((without p (intersect (fst (role_overwrites ows ids)) CHANNEL_SCOPED))
            OR intersect (snd (role_overwrites ows ids)) CHANNEL_SCOPED) n =
     (if bit CHANNEL_SCOPED n then decide [roles_verdict ows ids n] (bit p n) else bit p n)"
proof -
  have a: "bit (snd (role_overwrites ows ids)) n \<longleftrightarrow>
       (\<exists>i\<in>set ids. verdict_of (overwrite_for_role ows i) n = Allow)"
    by (auto simp: perm_bits verdict_of_def split: option.splits if_splits)
  have d: "bit (fst (role_overwrites ows ids)) n \<longleftrightarrow>
       (\<exists>i\<in>set ids. \<exists>w. overwrite_for_role ows i = Some w \<and> bit (o_deny w) n)"
    by (simp add: perm_bits)
  have d': "(\<exists>i\<in>set ids. \<exists>w. overwrite_for_role ows i = Some w \<and> bit (o_deny w) n) \<longleftrightarrow>
       (\<exists>i\<in>set ids. verdict_of (overwrite_for_role ows i) n = Deny)"
    if "\<not> (\<exists>i\<in>set ids. verdict_of (overwrite_for_role ows i) n = Allow)"
    using that by (fastforce simp: verdict_of_def split: option.splits if_splits)
  show ?thesis
    using assms d' by (auto simp: perm_ops bit_simps a d decide_Cons roles_verdict_def)
qed

lemma bit_resolve_channel:
  assumes "\<not> owner" and "\<not> contains (base_permissions roles ids) ADMINISTRATOR"
  shows "bit (resolve roles ids m owner (Some ows)) n \<longleftrightarrow>
           precedence_bit roles ids m ows 16 \<and> precedence_bit roles ids m ows n"
proof -
  let ?r = "role_overwrites ows ids"
  define p0 where
    "p0 = apply_overwrite (overwrite_for_role ows EVERYONE_ROLE_ID) (base_permissions roles ids)"
  define p1 where
    "p1 = (without p0 (intersect (fst ?r) CHANNEL_SCOPED)) OR intersect (snd ?r) CHANNEL_SCOPED"
  define p2 where "p2 = apply_overwrite (overwrite_for_member ows m) p1"
  have res: "resolve roles ids m owner (Some ows) = (if bit p2 16 then p2 else NONE)"
    using assms
    by (simp add: resolve_def Let_def p0_def p1_def p2_def contains_VIEW split: prod.splits)
  have bits: "bit p2 k \<longleftrightarrow> precedence_bit roles ids m ows k" if "k < 64" for k
    using that
    by (auto simp: p2_def p1_def p0_def precedence_bit_def Let_def bit_apply_overwrite_verdict
        bit_role_overwrites_verdict decide_Cons)
  have "bit p2 n \<Longrightarrow> n < 64" using bit_imp_le_length [of p2 n] by simp
  moreover have "precedence_bit roles ids m ows n \<Longrightarrow> n < 64"
    using bit_imp_le_length [of "base_permissions roles ids" n]
      bit_imp_le_length [of CHANNEL_SCOPED n]
    by (auto simp: precedence_bit_def Let_def split: if_splits)
  ultimately show ?thesis using bits [of n] bits [of 16] res by (auto simp: perm_bits)
qed

lemma resolve_privileged:
  "owner \<or> contains (base_permissions roles ids) ADMINISTRATOR \<Longrightarrow>
     resolve roles ids m owner ows = ALL_BITS"
  by (auto simp: resolve_def Let_def)

lemma resolve_server_wide:
  "\<not> owner \<Longrightarrow> \<not> contains (base_permissions roles ids) ADMINISTRATOR \<Longrightarrow>
     resolve roles ids m owner None = base_permissions roles ids"
  by (simp add: resolve_def Let_def)

lemma bit_resolve:
  "bit (resolve roles ids m owner (Some ows)) n =
     (if owner \<or> contains (base_permissions roles ids) ADMINISTRATOR then bit ALL_BITS n
      else precedence_bit roles ids m ows 16 \<and> precedence_bit roles ids m ows n)"
  by (simp add: bit_resolve_channel resolve_privileged)

text \<open>
  C1. Resolution implements the precedence rule bit for bit: the owner and administrators hold
  every known permission, and for everyone else a bit is set in a channel exactly when the rule
  grants it and also grants \<open>VIEW_CHANNEL\<close>.
\<close>

theorem resolve_refines_precedence:
  "bit (resolve roles ids m owner (Some ows)) n =
     (if owner \<or> contains (base_permissions roles ids) ADMINISTRATOR then bit ALL_BITS n
      else precedence_bit roles ids m ows 16 \<and> precedence_bit roles ids m ows n)"
  by (rule bit_resolve)

text \<open>
  No overwrite smuggles in a server-wide permission: a bit outside the channel-scoped group
  that a member holds in a channel is one the member also holds server-wide.
\<close>

theorem overwrites_cannot_grant_server_bits:
  assumes "\<not> bit CHANNEL_SCOPED n" and "bit (resolve roles ids m owner (Some ows)) n"
  shows "bit (resolve roles ids m owner None) n"
proof (cases "owner \<or> contains (base_permissions roles ids) ADMINISTRATOR")
  case True
  with assms show ?thesis by (simp add: resolve_privileged)
next
  case False
  with assms show ?thesis
    by (simp add: bit_resolve precedence_bit_def resolve_server_wide)
qed

theorem overwrites_cannot_grant_server_bits_witness:
  "bit (resolve [\<lparr>r_id = 0, r_name = [], r_color = None, r_position = 0,
                   r_permissions = VIEW_CHANNEL OR KICK_MEMBERS\<rparr>] [] [] False None) 4"
proof (rule overwrites_cannot_grant_server_bits)
  show "\<not> bit CHANNEL_SCOPED (4::nat)" by (simp add: perm_bits)
  show "bit (resolve [\<lparr>r_id = 0, r_name = [], r_color = None, r_position = 0,
                   r_permissions = VIEW_CHANNEL OR KICK_MEMBERS\<rparr>] [] [] False
               (Some [\<lparr>o_target = TMember [], o_allow = ADMINISTRATOR, o_deny = SPEAK\<rparr>])) 4"
    by code_simp
qed

lemma resolve_NONE_or_view:
  "resolve roles ids m owner (Some ows) = NONE \<or>
   contains (resolve roles ids m owner (Some ows)) VIEW_CHANNEL"
  by (auto simp: resolve_def Let_def perm_bits split: prod.splits)

text \<open>
  A channel a member cannot view grants nothing in it: whatever the roles and overwrites,
  the resolved mask is empty or contains \<open>VIEW_CHANNEL\<close>, so holding any permission in a channel
  includes being able to see it.
\<close>

theorem resolve_masks_hidden_channels:
  "contains (resolve roles ids m owner (Some ows)) VIEW_CHANNEL \<or>
   (\<forall>n. \<not> bit (resolve roles ids m owner (Some ows)) n)"
  using resolve_NONE_or_view [of roles ids m owner ows] by (auto simp: perm_bits)

section \<open>Independence from storage order\<close>

lemma find_set_eq:
  assumes "distinct (map f xs)" and "distinct (map f ys)" and "set xs = set ys"
  shows "List.find (\<lambda>x. f x = k) xs = List.find (\<lambda>x. f x = k) ys"
proof (cases "\<exists>x\<in>set xs. f x = k")
  case True
  then obtain x where "x \<in> set xs" "f x = k" by blast
  with assms show ?thesis using find_distinct [of f xs x] find_distinct [of f ys x] by auto
next
  case False
  with assms(3) have "List.find (\<lambda>x. f x = k) xs = None" "List.find (\<lambda>x. f x = k) ys = None"
    by (auto simp: find_None_mem)
  then show ?thesis by simp
qed

lemma roles_verdict_cong:
  assumes "set ids = set ids'"
    and "\<And>i. overwrite_for_role ows i = overwrite_for_role ows' i"
  shows "roles_verdict ows ids n = roles_verdict ows' ids' n"
  using assms by (simp add: roles_verdict_def)

text \<open>
  What a member may do depends on which roles, grants and overwrites exist, not on the order
  the database returned them in: two listings of the same roles (with distinct ids), the same
  grants and the same overwrites (with distinct targets) resolve alike.
\<close>

theorem resolve_ignores_storage_order:
  assumes "distinct (map r_id roles)" "distinct (map r_id roles')" "set roles = set roles'"
    and "set ids = set ids'"
    and "distinct (map o_target ows)" "distinct (map o_target ows')" "set ows = set ows'"
  shows "resolve roles ids m owner (Some ows) = resolve roles' ids' m owner (Some ows')"
    (is "?l = ?r")
proof -
  have "role_permissions roles i = role_permissions roles' i" for i
    using find_set_eq [OF assms(1-3)] by (simp add: role_permissions_def)
  then have base: "base_permissions roles ids = base_permissions roles' ids'"
    using assms(4) by (auto simp: bit_eq_iff perm_bits)
  have find: "List.find (\<lambda>w. o_target w = t) ows = List.find (\<lambda>w. o_target w = t) ows'" for t
    by (rule find_set_eq [OF assms(5-7)])
  then have role: "overwrite_for_role ows i = overwrite_for_role ows' i"
    and member: "overwrite_for_member ows m = overwrite_for_member ows' m" for i
    by (simp_all add: overwrite_for_role_def overwrite_for_member_def)
  have "precedence_bit roles ids m ows n = precedence_bit roles' ids' m ows' n" for n
    by (simp add: precedence_bit_def base role member roles_verdict_cong [OF assms(4) role])
  then have "bit ?l n = bit ?r n" for n
    by (simp only: bit_resolve base)
  then show ?thesis by (simp add: bit_eq_iff)
qed

theorem resolve_ignores_storage_order_witness:
  "let w1 = \<lparr>o_target = TRole 1, o_allow = SPEAK, o_deny = CONNECT\<rparr>;
       w2 = \<lparr>o_target = TMember [7], o_allow = CONNECT, o_deny = 0\<rparr>;
       r0 = \<lparr>r_id = 0, r_name = [], r_color = None, r_position = 0, r_permissions = VIEW_CHANNEL\<rparr>;
       r1 = \<lparr>r_id = 1, r_name = [], r_color = None, r_position = 1, r_permissions = KICK_MEMBERS\<rparr>
   in resolve [r0, r1] [1, 9] [7] False (Some [w1, w2]) =
      resolve [r1, r0] [9, 1, 1] [7] False (Some [w2, w1])"
  unfolding Let_def by (rule resolve_ignores_storage_order) auto

section \<open>Rank is a strict order\<close>

lemma top_role_position_ge:
  assumes "i \<in> set ids" and "List.find (\<lambda>r. r_id r = i) roles = Some r"
  shows "r_position r \<le> top_role_position roles ids"
proof -
  have "r_position r \<in> set (List.map_filter (role_position roles) ids)"
    using assms by (force simp: map_filter_def role_position_def)
  then show ?thesis by (auto simp: top_role_position_def Let_def)
qed

lemma top_role_position_cases:
  obtains "top_role_position roles ids = 0"
  | i r where "i \<in> set ids" "List.find (\<lambda>r. r_id r = i) roles = Some r"
      "top_role_position roles ids = r_position r"
proof (cases "List.map_filter (role_position roles) ids = []")
  case True
  with that(1) show ?thesis by (simp add: top_role_position_def)
next
  case False
  then have "top_role_position roles ids \<in> set (List.map_filter (role_position roles) ids)"
    using Max_in [of "set (List.map_filter (role_position roles) ids)"]
    by (simp add: top_role_position_def Let_def)
  with that(2) show ?thesis by (auto simp: map_filter_def role_position_def)
qed

abbreviation acts :: "role list \<Rightarrow> role_id list \<times> bool \<Rightarrow> role_id list \<times> bool \<Rightarrow> bool" where
  "acts roles x y \<equiv> can_act_on roles (fst x) (snd x) (fst y) (snd y)"

text \<open>
  Acting on others is a strict order on members, each given by grants and an ownership flag:
  nobody acts on themselves, two members never act on each other (equal rank blocks both ways),
  it is transitive, and nobody at all acts on an owner.
\<close>

theorem can_act_on_strict_order:
  "\<not> acts roles x x \<and> (acts roles x y \<longrightarrow> \<not> acts roles y x) \<and>
   (acts roles x y \<and> acts roles y z \<longrightarrow> acts roles x z) \<and> (snd y \<longrightarrow> \<not> acts roles x y)"
  by (auto simp: can_act_on_def split: if_splits)

theorem can_act_on_strict_order_witness:
  "can_act_on [\<lparr>r_id = 1, r_name = [], r_color = None, r_position = 1, r_permissions = 0\<rparr>]
      [] True [] False"
proof -
  let ?r = "[\<lparr>r_id = 1, r_name = [], r_color = None, r_position = 1, r_permissions = 0\<rparr>] :: role list"
  have a: "can_act_on ?r [] True [1] False" and b: "can_act_on ?r [1] False [] False"
    by code_simp+
  show ?thesis
    using can_act_on_strict_order [where roles = ?r and x = "([], True)" and y = "([1], False)"
        and z = "([], False)"] a b by simp
qed

text \<open>
  Managing a role takes a strictly senior one: when somebody who is not the owner may edit,
  delete, grant or revoke a role, they hold another role that ranks strictly above it, and that
  senior role of theirs is itself out of their reach (so holders of one top role cannot strip
  each other).
\<close>

theorem managing_takes_a_senior_role:
  assumes "can_manage_role roles ids False i"
  shows "\<exists>j\<in>set ids. \<exists>ri rj. List.find (\<lambda>r. r_id r = i) roles = Some ri \<and>
           List.find (\<lambda>r. r_id r = j) roles = Some rj \<and> r_position ri < r_position rj \<and>
           \<not> can_manage_role roles ids False j"
proof -
  from assms obtain ri where ri: "List.find (\<lambda>r. r_id r = i) roles = Some ri"
    and lt: "r_position ri < top_role_position roles ids"
    by (auto simp: can_manage_role_def split: option.splits)
  show ?thesis
  proof (rule top_role_position_cases [of roles ids])
    assume "top_role_position roles ids = 0"
    with lt show ?thesis by simp
  next
    fix j rj
    assume "j \<in> set ids" "List.find (\<lambda>r. r_id r = j) roles = Some rj"
      "top_role_position roles ids = r_position rj"
    with ri lt show ?thesis by (intro bexI [of _ j]) (auto simp: can_manage_role_def)
  qed
qed

theorem managing_takes_a_senior_role_witness:
  "let mk = (\<lambda>i p. \<lparr>r_id = i, r_name = [], r_color = None, r_position = p, r_permissions = 0\<rparr>);
       roles = [mk 0 0, mk 1 1, mk 2 2]
   in \<exists>j\<in>set [2]. \<exists>ri rj. List.find (\<lambda>r. r_id r = 1) roles = Some ri \<and>
        List.find (\<lambda>r. r_id r = j) roles = Some rj \<and> r_position ri < r_position rj \<and>
        \<not> can_manage_role roles [2] False j"
  unfolding Let_def by (rule managing_takes_a_senior_role) code_simp

end
