(* ===== verification/Pickle_Identity.thy ===== *)
theory Pickle_Identity
  imports Pickle_Perms
begin

unbundle bit_operations_syntax

text \<open>
  Identities (\<open>pickle-identity/src/lib.rs\<close>, \<open>pow.rs\<close>): fingerprints and their text form, the
  bytes that are signed at login and in the greeting, and the proof of work with its mining loop.
  SHA-256, Ed25519, base32 and the Unicode case maps are the parameters of the record \<open>ext\<close>.
\<close>

section \<open>Fingerprints\<close>

datatype identity_error = MalformedKey | MalformedSignature | IdBadSignature | BadFingerprint

definition fingerprint_of :: "ext \<Rightarrow> bytes \<Rightarrow> fingerprint" where
  "fingerprint_of cr key = sha256 cr key"

definition HYPHEN :: nat where "HYPHEN = 45"

fun chunks4 :: "ustring \<Rightarrow> ustring list" where
  "chunks4 (a # b # c # d # e # s) = [a, b, c, d] # chunks4 (e # s)"
| "chunks4 [] = []"
| "chunks4 s = [s]"

fun join_hyphen :: "ustring list \<Rightarrow> ustring" where
  "join_hyphen [] = []"
| "join_hyphen [g] = g"
| "join_hyphen (g # gs) = g @ HYPHEN # join_hyphen gs"

definition fingerprint_to_string :: "ext \<Rightarrow> fingerprint \<Rightarrow> ustring" where
  "fingerprint_to_string cr fp = join_hyphen (chunks4 (to_lowercase cr (base32_encode cr fp)))"

definition fingerprint_short :: "ext \<Rightarrow> fingerprint \<Rightarrow> ustring" where
  "fingerprint_short cr fp =
     (let full = to_lowercase cr (base32_encode cr fp); hd12 = take 12 full
      in take 4 hd12 @ HYPHEN # take 4 (drop 4 hd12) @ HYPHEN # take 4 (drop 8 hd12))"

definition fingerprint_parse :: "ext \<Rightarrow> ustring \<Rightarrow> identity_error + fingerprint" where
  "fingerprint_parse cr s =
     (let cleaned = to_uppercase cr (filter (\<lambda>c. \<not> is_whitespace c \<and> c \<noteq> HYPHEN) s)
      in case base32_decode cr cleaned of
           None \<Rightarrow> Inl BadFingerprint
         | Some bs \<Rightarrow> if length bs = 32 then Inr bs else Inl BadFingerprint)"

section \<open>Public identities and what they sign\<close>

record public_identity =
  pi_key :: bytes
  pi_counter :: u64

record identity =
  id_secret :: bytes
  id_counter :: u64

definition b_lit :: "string \<Rightarrow> bytes" where "b_lit s = map of_char s"

definition AUTH_CONTEXT :: bytes where "AUTH_CONTEXT = b_lit ''pickle-auth-v1''"
definition SERVER_HELLO_CONTEXT :: bytes where
  "SERVER_HELLO_CONTEXT = b_lit ''pickle-server-hello-v1''"

definition auth_challenge :: "bytes \<Rightarrow> bytes \<Rightarrow> bytes" where
  "auth_challenge nonce cert_hash = AUTH_CONTEXT @ nonce @ cert_hash"

definition server_hello_challenge :: "bytes \<Rightarrow> bytes \<Rightarrow> ustring \<Rightarrow> bytes" where
  "server_hello_challenge nonce cert_hash server_name =
     (let name = as_bytes server_name
      in SERVER_HELLO_CONTEXT @ nonce @ cert_hash
           @ to_le_bytes 8 (of_nat (length name) :: u64) @ name)"

definition pi_fingerprint :: "ext \<Rightarrow> public_identity \<Rightarrow> fingerprint" where
  "pi_fingerprint cr p = fingerprint_of cr (pi_key p)"

definition pi_verify_auth ::
  "ext \<Rightarrow> public_identity \<Rightarrow> bytes \<Rightarrow> bytes \<Rightarrow> bytes \<Rightarrow> identity_error + unit" where
  "pi_verify_auth cr p nonce cert_hash sig =
     (if ed_verify cr (pi_key p) (auth_challenge nonce cert_hash) sig then Inr ()
      else Inl IdBadSignature)"

definition pi_verify_server_hello ::
  "ext \<Rightarrow> public_identity \<Rightarrow> bytes \<Rightarrow> bytes \<Rightarrow> ustring \<Rightarrow> bytes \<Rightarrow> identity_error + unit" where
  "pi_verify_server_hello cr p nonce cert_hash server_name sig =
     (if ed_verify cr (pi_key p) (server_hello_challenge nonce cert_hash server_name) sig
      then Inr () else Inl IdBadSignature)"

definition id_public :: "ext \<Rightarrow> identity \<Rightarrow> public_identity" where
  "id_public cr i = \<lparr>pi_key = public_of cr (id_secret i), pi_counter = id_counter i\<rparr>"

definition id_fingerprint :: "ext \<Rightarrow> identity \<Rightarrow> fingerprint" where
  "id_fingerprint cr i = fingerprint_of cr (public_of cr (id_secret i))"

definition sign_auth :: "ext \<Rightarrow> identity \<Rightarrow> bytes \<Rightarrow> bytes \<Rightarrow> bytes" where
  "sign_auth cr i nonce cert_hash = ed_sign cr (id_secret i) (auth_challenge nonce cert_hash)"

definition sign_server_hello :: "ext \<Rightarrow> identity \<Rightarrow> bytes \<Rightarrow> bytes \<Rightarrow> ustring \<Rightarrow> bytes" where
  "sign_server_hello cr i nonce cert_hash server_name =
     ed_sign cr (id_secret i) (server_hello_challenge nonce cert_hash server_name)"

section \<open>Proof of work\<close>

definition POW_CONTEXT :: bytes where "POW_CONTEXT = b_lit ''pickle-identity-pow-v1''"
definition PROGRESS_INTERVAL :: nat where "PROGRESS_INTERVAL = 2 ^ 16"

definition leading_zeros8 :: "u8 \<Rightarrow> nat" where
  "leading_zeros8 b = length (takeWhile (\<lambda>i. \<not> bit b i) [7, 6, 5, 4, 3, 2, 1, 0])"

fun leading_zero_bits :: "bytes \<Rightarrow> nat" where
  "leading_zero_bits [] = 0"
| "leading_zero_bits (b # bs) =
     (if b = 0 then 8 + leading_zero_bits bs else leading_zeros8 b)"

definition security_level :: "ext \<Rightarrow> bytes \<Rightarrow> u64 \<Rightarrow> nat" where
  "security_level cr key counter =
     leading_zero_bits (sha256 cr (POW_CONTEXT @ key @ to_le_bytes 8 counter))"

definition pi_security_level :: "ext \<Rightarrow> public_identity \<Rightarrow> nat" where
  "pi_security_level cr p = security_level cr (pi_key p) (pi_counter p)"

record mine_progress =
  mp_counter :: u64
  mp_best_level :: nat
  mp_hashes :: u64

record mine_report =
  mr_counter :: u64
  mr_level :: nat
  mr_hashes :: u64
  mr_cancelled :: bool

text \<open>
  The loop of \<open>mine\<close>, with the security level of a counter as a function; it may search for ever,
  so not returning is \<open>None\<close>. The callback is a function of its sample: \<open>hashes\<close> differs at every
  call, so any callback with its own state has this form within one run.
\<close>

partial_function (option) mine_loop ::
  "(u64 \<Rightarrow> nat) \<Rightarrow> nat \<Rightarrow> (mine_progress \<Rightarrow> bool) \<Rightarrow> u64 \<Rightarrow> nat \<Rightarrow> u64 \<Rightarrow> u64 \<Rightarrow> mine_report option"
where
  "mine_loop level target progress best_counter best_level hashes counter =
     (if best_level < target then
        let counter = counter + 1;
            hashes = hashes + 1;
            l = level counter;
            (best_level, best_counter) =
              (if l > best_level then (l, counter) else (best_level, best_counter))
        in if unat hashes mod PROGRESS_INTERVAL = 0 \<and>
              \<not> progress \<lparr>mp_counter = counter, mp_best_level = best_level, mp_hashes = hashes\<rparr>
           then Some \<lparr>mr_counter = best_counter, mr_level = best_level, mr_hashes = hashes,
                      mr_cancelled = True\<rparr>
           else mine_loop level target progress best_counter best_level hashes counter
      else Some \<lparr>mr_counter = best_counter, mr_level = best_level, mr_hashes = hashes,
                 mr_cancelled = False\<rparr>)"

definition mine ::
  "ext \<Rightarrow> bytes \<Rightarrow> u64 \<Rightarrow> nat \<Rightarrow> (mine_progress \<Rightarrow> bool) \<Rightarrow> mine_report option" where
  "mine cr key start target progress =
     mine_loop (security_level cr key) target progress start (security_level cr key start) 0 start"

definition id_mine ::
  "ext \<Rightarrow> identity \<Rightarrow> nat \<Rightarrow> (mine_progress \<Rightarrow> bool) \<Rightarrow> (identity \<times> mine_report) option" where
  "id_mine cr i target progress =
     (case mine cr (public_of cr (id_secret i)) (id_counter i) target progress of
        None \<Rightarrow> None
      | Some r \<Rightarrow>
          Some (if mr_level r > security_level cr (public_of cr (id_secret i)) (id_counter i)
                then i\<lparr>id_counter := mr_counter r\<rparr> else i, r))"

definition expected_hashes :: "u32 \<Rightarrow> u64" where
  "expected_hashes level = (if unat level < 64 then push_bit (unat level) 1 else - 1)"

section \<open>Fingerprint text\<close>

lemma filter_join_chunks:
  assumes "\<forall>c\<in>set s. P c" and "\<not> P HYPHEN"
  shows "filter P (join_hyphen (chunks4 s)) = s"
  using assms(1)
proof (induction s rule: chunks4.induct)
  case (1 a b c d e s)
  moreover have "chunks4 (e # s) \<noteq> []" by (cases "(e # s)" rule: chunks4.cases) auto
  then have "join_hyphen (chunks4 (a # b # c # d # e # s)) =
      [a, b, c, d] @ HYPHEN # join_hyphen (chunks4 (e # s))"
    by (cases "chunks4 (e # s)") auto
  ultimately show ?case using assms(2) by simp
qed (auto simp: assms(2))

text \<open>
  What is documented of base32 and of the case maps on its alphabet: decoding inverts encoding,
  upper-casing undoes lower-casing, and the text has no blanks or hyphens.
\<close>

definition base32_roundtrips :: "ext \<Rightarrow> bool" where
  "base32_roundtrips cr \<longleftrightarrow>
     (\<forall>b. base32_decode cr (base32_encode cr b) = Some b \<and>
          to_uppercase cr (to_lowercase cr (base32_encode cr b)) = base32_encode cr b \<and>
          (\<forall>c\<in>set (to_lowercase cr (base32_encode cr b)). \<not> is_whitespace c \<and> c \<noteq> HYPHEN))"

lemma fingerprint_parse_padded:
  assumes "base32_roundtrips cr" and "length fp = 32" and "\<forall>c\<in>set (l @ r). is_whitespace c"
  shows "fingerprint_parse cr (l @ fingerprint_to_string cr fp @ r) = Inr fp"
proof -
  let ?P = "\<lambda>c. \<not> is_whitespace c \<and> c \<noteq> HYPHEN"
  have "filter ?P l = []" "filter ?P r = []" using assms(3) by (auto simp: filter_empty_conv)
  moreover have "filter ?P (fingerprint_to_string cr fp) = to_lowercase cr (base32_encode cr fp)"
    unfolding fingerprint_to_string_def
    by (rule filter_join_chunks) (use assms(1) in \<open>auto simp: base32_roundtrips_def\<close>)
  ultimately show ?thesis
    using assms(1,2) by (simp add: fingerprint_parse_def base32_roundtrips_def)
qed

lemma fingerprint_parse_to_string:
  "base32_roundtrips cr \<Longrightarrow> length fp = 32 \<Longrightarrow>
     fingerprint_parse cr (fingerprint_to_string cr fp) = Inr fp"
  using fingerprint_parse_padded [of cr fp "[]" "[]"] by simp

lemma fingerprint_to_string_inject:
  "base32_roundtrips cr \<Longrightarrow> length a = 32 \<Longrightarrow> length b = 32 \<Longrightarrow>
     fingerprint_to_string cr a = fingerprint_to_string cr b \<longleftrightarrow> a = b"
  by (metis fingerprint_parse_to_string sum.inject(2))

text \<open>
  A fingerprint read back from its displayed text is the same fingerprint: with base32 as
  documented, parsing the grouped, hyphenated, lower-case rendering of any 32-byte fingerprint,
  with blanks around it, returns that fingerprint; and so two fingerprints never share a text.
\<close>

theorem fingerprint_text_roundtrip:
  assumes "base32_roundtrips cr" and "length fp = 32" and "\<forall>c\<in>set (l @ r). is_whitespace c"
  shows "fingerprint_parse cr (l @ fingerprint_to_string cr fp @ r) = Inr fp"
  using assms by (rule fingerprint_parse_padded)

text \<open>
  A concrete instance of the parameters, for evaluating the model on examples: a transparent
  hash and signature, base32 replaced by two letters per byte.
\<close>

fun nibbles_decode :: "ustring \<Rightarrow> bytes option" where
  "nibbles_decode [] = Some []"
| "nibbles_decode (a # b # s) =
     map_option (Cons (of_nat (16 * (a - 65) + (b - 65)))) (nibbles_decode s)"
| "nibbles_decode [a] = None"

definition nibbles_encode :: "bytes \<Rightarrow> ustring" where
  "nibbles_encode bs = concat (map (\<lambda>b. [65 + unat b div 16, 65 + unat b mod 16]) bs)"

definition sample_ext :: ext where
  "sample_ext = \<lparr>sha256 = (\<lambda>b. b), ed_verify = (\<lambda>k m s. s = k @ m), ed_sign = (\<lambda>k m. k @ m),
     public_of = (\<lambda>k. k), base32_encode = nibbles_encode, base32_decode = nibbles_decode,
     to_uppercase = map (\<lambda>c. c - 32), to_lowercase = map (\<lambda>c. c + 32), debug_str = (\<lambda>s. s)\<rparr>"

lemma nibbles_decode_encode: "nibbles_decode (nibbles_encode b) = Some b"
proof (induction b)
  case (Cons w b)
  have "16 * (unat w div 16) + unat w mod 16 = unat w" by simp
  then show ?case using Cons by (simp add: nibbles_encode_def)
qed (simp add: nibbles_encode_def)

lemma nibbles_encode_range: "c \<in> set (nibbles_encode b) \<Longrightarrow> 65 \<le> c \<and> c \<le> 80"
proof -
  have "unat w div 16 \<le> 15" for w :: u8
  proof -
    have "unat w < 2 ^ LENGTH(8)" by (rule unsigned_less)
    then show ?thesis by simp
  qed
  moreover have "unat w mod 16 \<le> 15" for w :: u8
    using mod_less_divisor [of 16 "unat w"] by linarith
  ultimately show "c \<in> set (nibbles_encode b) \<Longrightarrow> 65 \<le> c \<and> c \<le> 80"
    by (auto simp: nibbles_encode_def)
qed

lemma sample_base32: "base32_roundtrips sample_ext"
  unfolding base32_roundtrips_def
proof (intro allI conjI ballI)
  fix b c
  show "base32_decode sample_ext (base32_encode sample_ext b) = Some b"
    by (simp add: sample_ext_def nibbles_decode_encode)
  show "to_uppercase sample_ext (to_lowercase sample_ext (base32_encode sample_ext b)) =
      base32_encode sample_ext b"
    by (simp add: sample_ext_def comp_def)
  assume "c \<in> set (to_lowercase sample_ext (base32_encode sample_ext b))"
  then show "\<not> is_whitespace c" "c \<noteq> HYPHEN"
    by (auto simp: sample_ext_def is_whitespace_def HYPHEN_def dest!: nibbles_encode_range)
qed

theorem fingerprint_text_roundtrip_witness:
  "fingerprint_parse sample_ext
     ([32] @ fingerprint_to_string sample_ext (replicate 32 7) @ [10, 32]) = Inr (replicate 32 7)"
  by (rule fingerprint_text_roundtrip [OF sample_base32]) (auto simp: is_whitespace_def)

section \<open>Challenges\<close>

lemma b_lit_lengths [simp]: "length AUTH_CONTEXT = 14" "length SERVER_HELLO_CONTEXT = 22"
  by (simp_all add: AUTH_CONTEXT_def SERVER_HELLO_CONTEXT_def b_lit_def)

lemma auth_challenge_inject:
  assumes "length n = 32" "length n' = 32"
  shows "auth_challenge n c = auth_challenge n' c' \<longleftrightarrow> n = n' \<and> c = c'"
  using assms by (auto simp: auth_challenge_def)

lemma server_hello_challenge_inject:
  assumes "length n = 32" "length n' = 32" "length c = 32" "length c' = 32"
  shows "server_hello_challenge n c s = server_hello_challenge n' c' s' \<longleftrightarrow>
           n = n' \<and> c = c' \<and> as_bytes s = as_bytes s'"
  using assms by (auto simp: server_hello_challenge_def Let_def)

lemma contexts_differ: "AUTH_CONTEXT @ x \<noteq> SERVER_HELLO_CONTEXT @ y"
proof
  assume "AUTH_CONTEXT @ x = SERVER_HELLO_CONTEXT @ y"
  then have "(AUTH_CONTEXT @ x) ! 7 = (SERVER_HELLO_CONTEXT @ y) ! 7" by simp
  then show False by (simp add: AUTH_CONTEXT_def SERVER_HELLO_CONTEXT_def b_lit_def nth_append)
qed

text \<open>
  C18. A login signature is good for one server and one connection only. With Ed25519 accepting
  a signature on exactly the message it was made for, the signature a client makes for a nonce
  and a certificate hash verifies on a server if and only if that server issued this nonce and
  presents this certificate, so a hostile server cannot relay it; and a greeting signature never
  passes as a login signature, nor a login signature as a greeting.
\<close>

theorem login_signature_is_bound:
  assumes sound: "\<And>s m m'. ed_verify cr (public_of cr s) m (ed_sign cr s m') \<longleftrightarrow> m = m'"
    and len: "length n = 32" "length n' = 32"
  shows "(pi_verify_auth cr (id_public cr i) n c (sign_auth cr i n' c') = Inr () \<longleftrightarrow>
            n = n' \<and> c = c') \<and>
         pi_verify_auth cr (id_public cr i) n c (sign_server_hello cr i n' c' nm) \<noteq> Inr () \<and>
         pi_verify_server_hello cr (id_public cr i) n c nm (sign_auth cr i n' c') \<noteq> Inr ()"
proof (intro conjI)
  show "pi_verify_auth cr (id_public cr i) n c (sign_auth cr i n' c') = Inr () \<longleftrightarrow>
          n = n' \<and> c = c'"
    using len by (simp add: pi_verify_auth_def id_public_def sign_auth_def sound
        auth_challenge_inject)
  have ne: "auth_challenge x y \<noteq> server_hello_challenge x' y' z" for x y x' y' z
    using contexts_differ by (auto simp: auth_challenge_def server_hello_challenge_def Let_def)
  then show "pi_verify_auth cr (id_public cr i) n c (sign_server_hello cr i n' c' nm) \<noteq> Inr ()"
    by (simp add: pi_verify_auth_def id_public_def sign_server_hello_def sound)
  from ne [THEN not_sym]
  show "pi_verify_server_hello cr (id_public cr i) n c nm (sign_auth cr i n' c') \<noteq> Inr ()"
    by (simp add: pi_verify_server_hello_def id_public_def sign_auth_def sound)
qed

theorem login_signature_is_bound_witness:
  "let i = \<lparr>id_secret = [1], id_counter = 0\<rparr>; n = replicate 32 5 in
   pi_verify_auth sample_ext (id_public sample_ext i) n [8]
       (sign_auth sample_ext i n [8]) = Inr () \<and>
   pi_verify_auth sample_ext (id_public sample_ext i) n [8]
       (sign_auth sample_ext i n [9]) \<noteq> Inr ()"
proof -
  have s: "\<And>s m m'. ed_verify sample_ext (public_of sample_ext s) m (ed_sign sample_ext s m') \<longleftrightarrow>
      m = m'"
    by (auto simp: sample_ext_def)
  show ?thesis
    using login_signature_is_bound [where cr = sample_ext, OF s, of "replicate 32 5" "replicate 32 5"]
    by (simp add: Let_def)
qed

section \<open>Proof of work\<close>

definition msb_bits :: "bytes \<Rightarrow> bool list" where
  "msb_bits d = concat (map (\<lambda>b. map (bit b) [7, 6, 5, 4, 3, 2, 1, 0]) d)"

lemma byte_has_set_bit:
  assumes "b \<noteq> (0 :: u8)"
  shows "True \<in> set (map (bit b) [7, 6, 5, 4, 3, 2, 1, 0])"
proof (rule ccontr)
  assume "\<not> ?thesis"
  then have "\<not> bit b n" if "n < 8" for n
    using that by (auto simp: less_Suc_eq numeral_eq_Suc)
  then have "b = 0" by (intro bit_word_eqI) simp
  with assms show False by simp
qed

lemma leading_zeros8_takeWhile:
  "leading_zeros8 b = length (takeWhile Not (map (bit b) [7, 6, 5, 4, 3, 2, 1, 0]))"
  unfolding leading_zeros8_def takeWhile_map length_map by (simp only: comp_def)

lemma leading_zero_bits_takeWhile: "leading_zero_bits d = length (takeWhile Not (msb_bits d))"
proof (induction d)
  case Nil
  then show ?case by (simp add: msb_bits_def)
next
  case (Cons b d)
  let ?bs = "map (bit b) [7, 6, 5, 4, 3, 2, 1, 0]"
  have msb: "msb_bits (b # d) = ?bs @ msb_bits d" by (simp add: msb_bits_def)
  show ?case
  proof (cases "b = 0")
    case True
    with Cons msb show ?thesis by simp
  next
    case False
    then have "takeWhile Not (?bs @ msb_bits d) = takeWhile Not ?bs"
      using byte_has_set_bit takeWhile_append1 [of True ?bs Not] by blast
    with False msb show ?thesis by (simp add: leading_zeros8_takeWhile del: list.map)
  qed
qed

text \<open>
  The security level is the number of zero bits the digest starts with, read most
  significant bit first, and no digest of \<open>n\<close> bytes scores more than \<open>8 n\<close> (so at most 256 for
  SHA-256).
\<close>

theorem security_level_counts_zero_bits:
  "security_level cr key counter =
     length (takeWhile Not (msb_bits (sha256 cr (POW_CONTEXT @ key @ to_le_bytes 8 counter)))) \<and>
   security_level cr key counter \<le> 8 * length (sha256 cr (POW_CONTEXT @ key @ to_le_bytes 8 counter))"
proof -
  have "length (msb_bits d) = 8 * length d" for d
    by (induction d) (auto simp: msb_bits_def)
  then show ?thesis
    unfolding security_level_def leading_zero_bits_takeWhile by (metis length_takeWhile_le)
qed

lemma mine_loop_sound:
  assumes "mine_loop level target progress bc bl h c = Some r" and "level bc = bl"
  shows "level (mr_counter r) = mr_level r \<and> bl \<le> mr_level r \<and>
         (\<not> mr_cancelled r \<longrightarrow> target \<le> mr_level r)"
proof -
  have "level bc = bl \<longrightarrow> level (mr_counter r) = mr_level r \<and> bl \<le> mr_level r \<and>
         (\<not> mr_cancelled r \<longrightarrow> target \<le> mr_level r)"
  proof (rule mine_loop.raw_induct [where P = "\<lambda>level target progress bc bl h c r.
      level bc = bl \<longrightarrow> level (mr_counter r) = mr_level r \<and> bl \<le> mr_level r \<and>
         (\<not> mr_cancelled r \<longrightarrow> target \<le> mr_level r)", OF _ assms(1)])
  qed (fastforce simp: Let_def split: if_splits)
  with assms(2) show ?thesis by blast
qed

lemma mine_loop_returns:
  assumes "target \<le> level (c + of_nat (Suc k))"
  shows "\<exists>r. mine_loop level target progress bc bl h c = Some r"
  using assms
proof (induction k arbitrary: c bc bl h)
  case 0
  have fin: "\<exists>r. mine_loop level target progress b l h' c' = Some r" if "target \<le> l" for b l h' c'
    using that by (subst mine_loop.simps) simp
  from 0 show ?case
    by (subst mine_loop.simps) (auto simp: Let_def intro!: fin)
next
  case (Suc k)
  from Suc.prems have "target \<le> level ((c + 1) + of_nat (Suc k))" by (simp add: algebra_simps)
  then have "\<exists>r. mine_loop level target progress b l h' (c + 1) = Some r" for b l h'
    by (rule Suc.IH)
  then show ?case by (subst mine_loop.simps) (auto simp: Let_def)
qed

text \<open>
  C19. Mining: if some counter after the starting one reaches the target, \<open>mine\<close> returns (it
  may be cancelled first); what it reports is the true level of the counter it reports, never
  worse than the starting counter, and at least the target unless it was cancelled; and mining an
  identity keeps its keypair and so its fingerprint, and never lowers its level.
\<close>

theorem mining_is_sound_and_returns:
  assumes "target \<le> security_level cr (public_of cr (id_secret i)) (id_counter i + of_nat (Suc k))"
  shows "\<exists>i' r. id_mine cr i target progress = Some (i', r) \<and>
     mr_level r = security_level cr (public_of cr (id_secret i)) (mr_counter r) \<and>
     (mr_cancelled r \<or> target \<le> pi_security_level cr (id_public cr i')) \<and>
     pi_security_level cr (id_public cr i) \<le> pi_security_level cr (id_public cr i') \<and>
     id_fingerprint cr i' = id_fingerprint cr i"
proof -
  let ?key = "public_of cr (id_secret i)"
  from mine_loop_returns [where level = "security_level cr ?key", OF assms] obtain r where
    r: "mine cr ?key (id_counter i) target progress = Some r"
    unfolding mine_def by blast
  from mine_loop_sound [OF r [unfolded mine_def]]
  have snd: "security_level cr ?key (mr_counter r) = mr_level r"
    "security_level cr ?key (id_counter i) \<le> mr_level r"
    "\<not> mr_cancelled r \<longrightarrow> target \<le> mr_level r" by auto
  show ?thesis
    using snd r by (auto simp: id_mine_def id_public_def pi_security_level_def id_fingerprint_def)
qed

theorem mining_is_sound_and_returns_witness:
  "let cr = sample_ext\<lparr>sha256 := (\<lambda>b. drop 22 b)\<rparr>; i = \<lparr>id_secret = [], id_counter = 0\<rparr> in
   \<exists>i' r. id_mine cr i 3 (\<lambda>_. False) = Some (i', r) \<and>
     mr_level r = security_level cr (public_of cr (id_secret i)) (mr_counter r) \<and>
     (mr_cancelled r \<or> 3 \<le> pi_security_level cr (id_public cr i')) \<and>
     pi_security_level cr (id_public cr i) \<le> pi_security_level cr (id_public cr i') \<and>
     id_fingerprint cr i' = id_fingerprint cr i"
  unfolding Let_def
  by (rule mining_is_sound_and_returns [where k = 0]) code_simp

end
