(* ===== verification/Pickle_Voice.thy ===== *)
theory Pickle_Voice
  imports Pickle_Prelude
begin

unbundle bit_operations_syntax

text \<open>
  Voice datagrams (\<open>pickle-proto/src/voice.rs\<close>): the two hand-encoded packet layouts, their
  decoders with every refusal, and the wrap-around comparison of sequence numbers. The decoders
  are shown to accept exactly the images of the encoders (with a payload Opus can produce), the
  two directions never to be mistaken for each other, and the comparison to be correct across
  the rollover.
\<close>

section \<open>Geometry\<close>

type_synonym client_id = u32

definition SAMPLE_RATE :: nat where "SAMPLE_RATE = 48000"
definition FRAME_MS :: nat where "FRAME_MS = 20"
definition SAMPLES_PER_FRAME :: nat where "SAMPLES_PER_FRAME = SAMPLE_RATE div 1000 * FRAME_MS"
definition MAX_OPUS_PACKET :: nat where "MAX_OPUS_PACKET = 1275"
definition UPSTREAM_HEADER_LEN :: nat where "UPSTREAM_HEADER_LEN = 6"
definition DOWNSTREAM_HEADER_LEN :: nat where "DOWNSTREAM_HEADER_LEN = 10"
definition MAX_DATAGRAM_LEN :: nat where
  "MAX_DATAGRAM_LEN = DOWNSTREAM_HEADER_LEN + MAX_OPUS_PACKET"
definition TAG_UPSTREAM :: u8 where "TAG_UPSTREAM = 1"
definition TAG_DOWNSTREAM :: u8 where "TAG_DOWNSTREAM = 2"
definition FLAG_BURST_START :: u8 where "FLAG_BURST_START = push_bit 0 1"
definition FLAG_BURST_END :: u8 where "FLAG_BURST_END = push_bit 1 1"

lemmas voice_consts = MAX_OPUS_PACKET_def UPSTREAM_HEADER_LEN_def DOWNSTREAM_HEADER_LEN_def
  MAX_DATAGRAM_LEN_def TAG_UPSTREAM_def TAG_DOWNSTREAM_def

section \<open>Packets\<close>

datatype voice_decode_error = TooShort nat | UnknownTag u8 | PayloadTooLarge nat

record voice_upstream =
  vu_seq :: u32
  vu_flags :: u8
  vu_payload :: bytes

record voice_downstream =
  vd_sender :: client_id
  vd_seq :: u32
  vd_flags :: u8
  vd_payload :: bytes

definition upstream_encode :: "voice_upstream \<Rightarrow> bytes" where
  "upstream_encode p = TAG_UPSTREAM # to_le_bytes 4 (vu_seq p) @ vu_flags p # vu_payload p"

definition upstream_decode :: "bytes \<Rightarrow> voice_decode_error + voice_upstream" where
  "upstream_decode d =
     (if length d < UPSTREAM_HEADER_LEN then Inl (TooShort (length d))
      else if d ! 0 \<noteq> TAG_UPSTREAM then Inl (UnknownTag (d ! 0))
      else
        let sq = from_le_bytes (take 4 (drop 1 d));
            flags = d ! 5;
            payload = drop UPSTREAM_HEADER_LEN d
        in if length payload > MAX_OPUS_PACKET then Inl (PayloadTooLarge (length payload))
           else Inr \<lparr>vu_seq = sq, vu_flags = flags, vu_payload = payload\<rparr>)"

definition into_downstream :: "voice_upstream \<Rightarrow> client_id \<Rightarrow> voice_downstream" where
  "into_downstream p sender =
     \<lparr>vd_sender = sender, vd_seq = vu_seq p, vd_flags = vu_flags p, vd_payload = vu_payload p\<rparr>"

definition downstream_encode :: "voice_downstream \<Rightarrow> bytes" where
  "downstream_encode p =
     TAG_DOWNSTREAM # to_le_bytes 4 (vd_sender p) @ to_le_bytes 4 (vd_seq p)
       @ vd_flags p # vd_payload p"

definition downstream_decode :: "bytes \<Rightarrow> voice_decode_error + voice_downstream" where
  "downstream_decode d =
     (if length d < DOWNSTREAM_HEADER_LEN then Inl (TooShort (length d))
      else if d ! 0 \<noteq> TAG_DOWNSTREAM then Inl (UnknownTag (d ! 0))
      else
        let sender = from_le_bytes (take 4 (drop 1 d));
            sq = from_le_bytes (take 4 (drop 5 d));
            flags = d ! 9;
            payload = drop DOWNSTREAM_HEADER_LEN d
        in if length payload > MAX_OPUS_PACKET then Inl (PayloadTooLarge (length payload))
           else Inr \<lparr>vd_sender = sender, vd_seq = sq, vd_flags = flags, vd_payload = payload\<rparr>)"

definition starts_burst :: "voice_downstream \<Rightarrow> bool" where
  "starts_burst p \<longleftrightarrow> vd_flags p AND FLAG_BURST_START \<noteq> 0"

definition ends_burst :: "voice_downstream \<Rightarrow> bool" where
  "ends_burst p \<longleftrightarrow> vd_flags p AND FLAG_BURST_END \<noteq> 0"

definition seq_newer_than :: "u32 \<Rightarrow> u32 \<Rightarrow> bool" where
  "seq_newer_than a b \<longleftrightarrow> a \<noteq> b \<and> a - b < (- 1) div 2"

section \<open>Exactness of the codecs\<close>

lemma split_at_header:
  assumes "n < length d"
  shows "d = take n d @ d ! n # drop (Suc n) d"
  using assms by (metis id_take_nth_drop)

lemma take4_to_le [simp]: "take 4 (to_le_bytes 4 (w :: u32) @ r) = to_le_bytes 4 w"
  by simp

lemma upstream_decode_encode:
  "length (vu_payload p) \<le> MAX_OPUS_PACKET \<Longrightarrow> upstream_decode (upstream_encode p) = Inr p"
  by (simp add: upstream_decode_def upstream_encode_def voice_consts nth_append)

lemma upstream_encode_decode:
  assumes "upstream_decode d = Inr p"
  shows "upstream_encode p = d \<and> length (vu_payload p) \<le> MAX_OPUS_PACKET"
proof -
  from assms have len: "6 \<le> length d" and tag: "d ! 0 = TAG_UPSTREAM"
    and p: "p = \<lparr>vu_seq = from_le_bytes (take 4 (drop 1 d)), vu_flags = d ! 5,
                 vu_payload = drop 6 d\<rparr>" and pl: "length (drop 6 d) \<le> MAX_OPUS_PACKET"
    by (auto simp: upstream_decode_def UPSTREAM_HEADER_LEN_def Let_def split: if_splits)
  have "d = d ! 0 # drop 1 d" using len split_at_header [of 0 d] by fastforce
  also have "drop 1 d = take 4 (drop 1 d) @ d ! 5 # drop 6 d"
    using len split_at_header [of 4 "drop 1 d"] by (simp add: numeral_eq_Suc)
  finally have d: "d = d ! 0 # take 4 (drop 1 d) @ d ! 5 # drop 6 d" .
  have "to_le_bytes 4 (from_le_bytes (take 4 (drop 1 d)) :: u32) = take 4 (drop 1 d)"
    using len by (intro to_from_le_bytes) auto
  then have "upstream_encode p = d" by (subst d) (simp add: upstream_encode_def p tag)
  with pl show ?thesis by (simp add: p)
qed

lemma downstream_decode_encode:
  "length (vd_payload p) \<le> MAX_OPUS_PACKET \<Longrightarrow> downstream_decode (downstream_encode p) = Inr p"
  by (simp add: downstream_decode_def downstream_encode_def voice_consts nth_append)

lemma downstream_encode_decode:
  assumes "downstream_decode d = Inr p"
  shows "downstream_encode p = d \<and> length (vd_payload p) \<le> MAX_OPUS_PACKET"
proof -
  from assms have len: "10 \<le> length d" and tag: "d ! 0 = TAG_DOWNSTREAM"
    and p: "p = \<lparr>vd_sender = from_le_bytes (take 4 (drop 1 d)),
                 vd_seq = from_le_bytes (take 4 (drop 5 d)), vd_flags = d ! 9,
                 vd_payload = drop 10 d\<rparr>" and pl: "length (drop 10 d) \<le> MAX_OPUS_PACKET"
    by (auto simp: downstream_decode_def DOWNSTREAM_HEADER_LEN_def Let_def split: if_splits)
  have "d = d ! 0 # drop 1 d" using len split_at_header [of 0 d] by fastforce
  also have "drop 1 d = take 4 (drop 1 d) @ drop 5 d"
    using append_take_drop_id [of 4 "drop 1 d"] by simp
  also have "drop 5 d = take 4 (drop 5 d) @ d ! 9 # drop 10 d"
    using len split_at_header [of 4 "drop 5 d"] by simp
  finally have d: "d = d ! 0 # take 4 (drop 1 d) @ take 4 (drop 5 d) @ d ! 9 # drop 10 d" .
  have "to_le_bytes 4 (from_le_bytes (take 4 (drop 1 d)) :: u32) = take 4 (drop 1 d)"
    "to_le_bytes 4 (from_le_bytes (take 4 (drop 5 d)) :: u32) = take 4 (drop 5 d)"
    using len by (auto intro!: to_from_le_bytes)
  then have "downstream_encode p = d" by (subst d) (simp add: downstream_encode_def p tag)
  with pl show ?thesis by (simp add: p)
qed

text \<open>
  C17. The datagram codecs are exact in both directions: a byte string decodes to a packet
  precisely when it is that packet's encoding and the payload fits an Opus frame. So encoding
  then decoding gives the packet back, and nothing else is ever accepted.
\<close>

theorem voice_codecs_exact:
  "(upstream_decode d = Inr p \<longleftrightarrow>
      d = upstream_encode p \<and> length (vu_payload p) \<le> MAX_OPUS_PACKET) \<and>
   (downstream_decode d = Inr q \<longleftrightarrow>
      d = downstream_encode q \<and> length (vd_payload q) \<le> MAX_OPUS_PACKET)"
  using upstream_decode_encode [of p] upstream_encode_decode [of d p]
    downstream_decode_encode [of q] downstream_encode_decode [of d q] by auto

text \<open>
  A relayed packet cannot be replayed as a client's own: what the server sends for a frame
  (within the largest datagram, carrying the sender the server stamped) is refused by the
  upstream decoder by its tag, and no byte string at all is accepted by both decoders.
\<close>

theorem directions_do_not_mix:
  "upstream_decode (downstream_encode (into_downstream p s)) = Inl (UnknownTag TAG_DOWNSTREAM) \<and>
   (\<forall>r. downstream_decode d = Inr r \<longrightarrow> \<not> (\<exists>q. upstream_decode d = Inr q))"
proof
  show "upstream_decode (downstream_encode (into_downstream p s)) =
          Inl (UnknownTag TAG_DOWNSTREAM)"
    by (simp add: upstream_decode_def downstream_encode_def voice_consts)
  show "\<forall>r. downstream_decode d = Inr r \<longrightarrow> \<not> (\<exists>q. upstream_decode d = Inr q)"
    by (auto dest!: upstream_encode_decode downstream_encode_decode
        simp: upstream_encode_def downstream_encode_def TAG_UPSTREAM_def TAG_DOWNSTREAM_def)
qed

theorem directions_do_not_mix_witness:
  "downstream_decode [2, 7,0,0,0, 9,0,0,0, 1, 42] =
     Inr \<lparr>vd_sender = 7, vd_seq = 9, vd_flags = 1, vd_payload = [42]\<rparr> \<and>
   \<not> (\<exists>q. upstream_decode [2, 7,0,0,0, 9,0,0,0, 1, 42] = Inr q)"
proof -
  have "downstream_decode [2, 7,0,0,0, 9,0,0,0, 1, 42] =
     Inr \<lparr>vd_sender = 7, vd_seq = 9, vd_flags = 1, vd_payload = [42]\<rparr>"
    by code_simp
  with directions_do_not_mix [of undefined undefined "[2, 7,0,0,0, 9,0,0,0, 1, 42]"]
  show ?thesis by simp
qed

lemma downstream_encode_length:
  "length (vu_payload p) \<le> MAX_OPUS_PACKET \<Longrightarrow>
     length (downstream_encode (into_downstream p s)) \<le> MAX_DATAGRAM_LEN"
  by (simp add: downstream_encode_def into_downstream_def voice_consts)

section \<open>Sequence numbers\<close>

lemma half_max_u32: "(- 1 :: u32) div 2 = 2147483647"
  by simp

lemma seq_newer_than_unat:
  "seq_newer_than a b \<longleftrightarrow> 0 < unat (a - b) \<and> unat (a - b) < 2147483647"
  unfolding seq_newer_than_def half_max_u32 word_less_nat_alt
  by (auto simp: unat_gt_0)

lemma unat_minus_swap:
  fixes a b :: u32
  assumes "a \<noteq> b"
  shows "unat (b - a) = 4294967296 - unat (a - b)"
proof -
  have "unat a < 2 ^ LENGTH(32)" "unat b < 2 ^ LENGTH(32)" by (rule unsigned_less)+
  moreover have "unat a \<noteq> unat b" using assms by (simp add: word_unat_eq_iff)
  ultimately show ?thesis by (auto simp: unat_sub_if')
qed

text \<open>
  Sequence comparison survives the rollover: a number is newer than another exactly when it
  lies 1 to \<open>2^31 - 2\<close> steps ahead of it, counting across the wrap; it is never newer in both
  directions, and of two different numbers one is newer unless they are within one step of half
  the number space apart, where neither is.
\<close>

theorem seq_newer_than_correct:
  "(seq_newer_than (b + of_nat k) b \<longleftrightarrow> k mod 4294967296 \<in> {1..2147483646}) \<and>
   \<not> (seq_newer_than a b \<and> seq_newer_than b a) \<and>
   (a = b \<or> seq_newer_than a b \<or> seq_newer_than b a \<or>
     unat (a - b) \<in> {2147483647..2147483649})"
proof (intro conjI)
  show "seq_newer_than (b + of_nat k) b \<longleftrightarrow> k mod 4294967296 \<in> {1..2147483646}"
    by (auto simp: seq_newer_than_unat unat_of_nat)
  show "\<not> (seq_newer_than a b \<and> seq_newer_than b a)"
    using unat_minus_swap [of a b] by (cases "a = b") (auto simp: seq_newer_than_unat)
  have "unat (a - b) < 2 ^ LENGTH(32)" by (rule unsigned_less)
  moreover have "a \<noteq> b \<Longrightarrow> 0 < unat (a - b)" by (simp add: unat_gt_0)
  ultimately show "a = b \<or> seq_newer_than a b \<or> seq_newer_than b a \<or>
     unat (a - b) \<in> {2147483647..2147483649}"
    using unat_minus_swap [of a b] by (auto simp: seq_newer_than_unat)
qed

end
