(* ===== verification/Pickle_Proto.thy ===== *)
theory Pickle_Proto
  imports Pickle_Identity Pickle_Voice
begin

text \<open>
  The wire vocabulary (\<open>pickle-proto/src/lib.rs\<close>): handshake frames, channels, users, chat
  messages and the two control-message enums, constructor for constructor. Boxes and arrays are
  the values they hold.
\<close>

type_synonym channel_id = u32
type_synonym message_id = u64

definition PROTOCOL_VERSION :: u16 where "PROTOCOL_VERSION = 2"
definition ALPN :: bytes where "ALPN = b_lit ''pickle/2''"

section \<open>Channels and users\<close>

datatype channel_kind = Voice | Text | VoiceAndText

definition has_voice :: "channel_kind \<Rightarrow> bool" where
  "has_voice k \<longleftrightarrow> k = Voice \<or> k = VoiceAndText"

definition has_text :: "channel_kind \<Rightarrow> bool" where
  "has_text k \<longleftrightarrow> k = Text \<or> k = VoiceAndText"

record channel =
  ch_id :: channel_id
  ch_parent :: "channel_id option"
  ch_name :: ustring
  ch_topic :: ustring
  ch_kind :: channel_kind
  ch_max_users :: "u16 option"
  ch_order :: int
  ch_overwrites :: "overwrite list"

record voice_state =
  self_muted :: bool
  self_deafened :: bool
  server_muted :: bool
  speaking :: bool

definition voice_state_default :: voice_state where
  "voice_state_default =
     \<lparr>self_muted = False, self_deafened = False, server_muted = False, speaking = False\<rparr>"

record user_info =
  ui_client_id :: client_id
  ui_identity :: public_identity
  ui_nickname :: ustring
  ui_channel :: "channel_id option"
  ui_voice :: voice_state
  ui_connected_at :: u64
  ui_roles :: "role_id list"
  ui_owner :: bool

definition ui_fingerprint :: "ext \<Rightarrow> user_info \<Rightarrow> fingerprint" where
  "ui_fingerprint cr i = pi_fingerprint cr (ui_identity i)"

datatype disconnect_reason = Quit | TimedOut | Kicked | Banned | ServerShutdown

section \<open>Handshake\<close>

record server_hello =
  sh_protocol_version :: u16
  sh_server_name :: ustring
  sh_server_identity :: public_identity
  sh_nonce :: bytes
  sh_min_security_level :: u32
  sh_requires_password :: bool
  sh_signature :: bytes

record client_auth =
  ca_protocol_version :: u16
  ca_identity :: public_identity
  ca_nickname :: ustring
  ca_password :: "ustring option"
  ca_client_version :: ustring
  ca_signature :: bytes

record server_limits =
  max_message_len :: u32
  max_nickname_len :: u32
  lim_max_users :: u32
  lim_history_enabled :: bool

definition server_limits_default :: server_limits where
  "server_limits_default =
     \<lparr>max_message_len = 4000, max_nickname_len = 32, lim_max_users = 64,
      lim_history_enabled = True\<rparr>"

record auth_ok =
  ok_client_id :: client_id
  ok_channels :: "channel list"
  ok_users :: "user_info list"
  ok_roles :: "role list"
  ok_default_channel :: "channel_id option"
  ok_limits :: server_limits

datatype auth_failure =
    ProtocolMismatch u16
  | SecurityLevelTooLow u32 u32
  | BadSignature
  | PasswordRequired
  | BadPassword
  | AuthBanned ustring "u64 option"
  | ServerFull
  | NicknameRejected ustring

section \<open>Text chat\<close>

record attachment =
  at_id :: u64
  at_filename :: ustring
  at_byte_len :: u64
  at_mime :: ustring
  at_content_hash :: bytes

record reaction =
  re_emoji :: ustring
  re_reactors :: "fingerprint list"

record chat_message =
  cm_id :: message_id
  cm_channel :: channel_id
  cm_author :: "client_id option"
  cm_author_fingerprint :: fingerprint
  cm_author_nickname :: ustring
  cm_sent_at :: u64
  cm_edited_at :: "u64 option"
  cm_content :: ustring
  cm_reply_to :: "message_id option"
  cm_attachments :: "attachment list"
  cm_reactions :: "reaction list"

record ban_entry =
  be_fingerprint :: fingerprint
  be_reason :: ustring
  be_until :: "u64 option"
  be_issued_by :: fingerprint
  be_issued_at :: u64

datatype error_code =
    NotAuthenticated | NoSuchChannel | NoSuchMessage | ChannelFull | ChannelPasswordRequired
  | NotPermitted | RateLimited | MessageTooLong | Malformed | Internal

section \<open>Control messages\<close>

datatype (plugins only: code size) client_control =
    Auth client_auth
  | JoinChannel channel_id
  | LeaveChannel
  | SetVoiceState bool bool
  | SetNickname ustring
  | SendMessage channel_id ustring "message_id option" u64
  | EditMessage message_id ustring
  | DeleteMessage message_id
  | React message_id ustring bool
  | FetchHistory channel_id "message_id option" u16
  | Typing channel_id
  | Ping u64
  | Kick u64 client_id ustring
  | Ban u64 fingerprint ustring "u64 option"
  | Unban u64 fingerprint
  | ListBans u64
  | SetServerMute u64 client_id bool
  | MoveMember u64 client_id "channel_id option"
  | CreateRole u64 ustring permissions
  | UpdateRole u64 role_id "ustring option" "u32 option option" "permissions option"
  | DeleteRole u64 role_id
  | ReorderRoles u64 "(role_id \<times> u32) list"
  | SetMemberRoles u64 fingerprint "role_id list"
  | SetChannelOverwrite u64 channel_id overwrite_target permissions permissions
  | DeleteChannelOverwrite u64 channel_id overwrite_target
  | CreateChannel u64 ustring "channel_id option" ustring channel_kind "u16 option" int
  | UpdateChannel u64 channel_id "channel_id option" ustring ustring channel_kind "u16 option" int
  | DeleteChannel u64 channel_id

datatype (plugins only: code size) server_control =
    Hello server_hello
  | AuthOk auth_ok
  | AuthFailed auth_failure
  | UserJoined user_info
  | UserLeft client_id disconnect_reason
  | UserMoved client_id "channel_id option" "channel_id option"
  | UserUpdated user_info
  | VoiceActivity client_id bool
  | ChannelCreated channel
  | ChannelUpdated channel
  | ChannelRemoved channel_id
  | MessagePosted chat_message "u64 option"
  | MessageEdited message_id ustring u64
  | MessageDeleted message_id
  | ReactionUpdated message_id reaction
  | History channel_id "chat_message list" bool
  | STyping client_id channel_id
  | Pong u64
  | Error error_code ustring
  | RoleCreated role
  | RoleUpdated role
  | RoleDeleted role_id
  | RolesReordered "(role_id \<times> u32) list"
  | BanList "ban_entry list"
  | Ack u64
  | CommandFailed u64 error_code ustring

end
