(* ===== verification/Pickle_Store.thy ===== *)
theory Pickle_Store
  imports Pickle_Proto
begin

text \<open>
  The durable store (\<open>pickle-server/src/store.rs\<close> over the schema in \<open>migrations/\<close>). A table is
  the list of its rows with the columns the schema gives it: \<open>BIGINT\<close> is \<open>int\<close>, \<open>TEXT\<close> is a
  string, and the casts of the code (\<open>as i64\<close>, \<open>as u64\<close>) are written out. Every call to the
  database may fail, by a schedule \<open>st_up\<close> that theorems leave arbitrary; a statement that
  violates a primary key fails as well, and a transaction fails as a whole.
\<close>

section \<open>Tables\<close>

record message_row =
  m_id :: int
  m_channel :: int
  m_author_fingerprint :: ustring
  m_author_nickname :: ustring
  m_sent_at :: int
  m_edited_at :: "int option"
  m_content :: ustring
  m_reply_to :: "int option"

record role_row =
  rr_id :: int
  rr_name :: ustring
  rr_position :: int
  rr_color :: "int option"
  rr_permissions :: int

record overwrite_row =
  or_channel :: int
  or_target_kind :: int
  or_target :: ustring
  or_allow :: int
  or_deny :: int

record channel_row =
  cr_id :: int
  cr_parent :: "int option"
  cr_name :: ustring
  cr_topic :: ustring
  cr_kind :: ustring
  cr_max_users :: "int option"
  cr_sort_order :: int

record ban_row =
  b_fingerprint :: ustring
  b_reason :: ustring
  b_until :: "int option"
  b_issued_by :: ustring
  b_issued_at :: int

record db =
  t_messages :: "message_row list"
  t_roles :: "role_row list"
  t_role_members :: "(ustring \<times> int) list"
  t_overwrites :: "overwrite_row list"
  t_channels :: "channel_row list"
  t_bans :: "ban_row list"

record store =
  st_db :: db
  st_ops :: nat
  st_up :: "nat \<Rightarrow> bool"

datatype store_error = Connect | Migrate | Query

definition empty_db :: db where
  "empty_db = \<lparr>t_messages = [], t_roles = [], t_role_members = [], t_overwrites = [],
     t_channels = [], t_bans = []\<rparr>"

section \<open>Calls and casts\<close>

text \<open>One call: it fails when the database is down or the statement itself fails (\<open>None\<close>).\<close>

definition attempt :: "(db \<Rightarrow> ('a \<times> db) option) \<Rightarrow> store \<Rightarrow> (store_error + 'a) \<times> store" where
  "attempt q s =
     (let s' = s\<lparr>st_ops := Suc (st_ops s)\<rparr>
      in if \<not> st_up s (st_ops s) then (Inl Query, s')
         else case q (st_db s) of
                None \<Rightarrow> (Inl Query, s')
              | Some (a, d) \<Rightarrow> (Inr a, s'\<lparr>st_db := d\<rparr>))"

definition i64_of_u32 :: "u32 \<Rightarrow> int" where "i64_of_u32 w = uint w"
definition i64_of_u64 :: "u64 \<Rightarrow> int" where "i64_of_u64 w = sint w"
definition u32_of_i64 :: "int \<Rightarrow> u32" where "u32_of_i64 i = word_of_int i"
definition u64_of_i64 :: "int \<Rightarrow> u64" where "u64_of_i64 i = word_of_int i"
definition u16_of_i64 :: "int \<Rightarrow> u16" where "u16_of_i64 i = word_of_int i"
definition i32_of_i64 :: "int \<Rightarrow> int" where "i32_of_i64 i = sint (word_of_int i :: u32)"

text \<open>\<open>collect::<Result<_, _>>()\<close>: the first failure wins.\<close>

fun collect :: "'a option list \<Rightarrow> 'a list option" where
  "collect [] = Some []"
| "collect (x # xs) =
     (case x of None \<Rightarrow> None | Some y \<Rightarrow> map_option (Cons y) (collect xs))"

section \<open>Rows\<close>

definition overwrite_key :: "ext \<Rightarrow> overwrite_target \<Rightarrow> int \<times> ustring" where
  "overwrite_key cr t =
     (case t of TRole i \<Rightarrow> (0, dec (unat i)) | TMember fp \<Rightarrow> (1, fingerprint_to_string cr fp))"

definition kind_str :: "channel_kind \<Rightarrow> ustring" where
  "kind_str k = (case k of Voice \<Rightarrow> u ''voice'' | Text \<Rightarrow> u ''text''
                  | VoiceAndText \<Rightarrow> u ''voice_and_text'')"

definition kind_from_str :: "ustring \<Rightarrow> channel_kind" where
  "kind_from_str s =
     (if s = u ''voice'' then Voice else if s = u ''text'' then Text else VoiceAndText)"

definition row_to_role :: "role_row \<Rightarrow> role" where
  "row_to_role r =
     \<lparr>r_id = u32_of_i64 (rr_id r), r_name = rr_name r, r_color = map_option u32_of_i64 (rr_color r),
      r_position = u32_of_i64 (rr_position r), r_permissions = u64_of_i64 (rr_permissions r)\<rparr>"

definition role_to_row :: "role \<Rightarrow> role_row" where
  "role_to_row r =
     \<lparr>rr_id = i64_of_u32 (r_id r), rr_name = r_name r, rr_position = i64_of_u32 (r_position r),
      rr_color = map_option i64_of_u32 (r_color r), rr_permissions = i64_of_u64 (r_permissions r)\<rparr>"

definition row_to_channel :: "channel_row \<Rightarrow> channel" where
  "row_to_channel r =
     \<lparr>ch_id = u32_of_i64 (cr_id r), ch_parent = map_option u32_of_i64 (cr_parent r),
      ch_name = cr_name r, ch_topic = cr_topic r, ch_kind = kind_from_str (cr_kind r),
      ch_max_users = map_option u16_of_i64 (cr_max_users r),
      ch_order = i32_of_i64 (cr_sort_order r), ch_overwrites = []\<rparr>"

definition channel_to_row :: "channel \<Rightarrow> channel_row" where
  "channel_to_row c =
     \<lparr>cr_id = i64_of_u32 (ch_id c), cr_parent = map_option i64_of_u32 (ch_parent c),
      cr_name = ch_name c, cr_topic = ch_topic c, cr_kind = kind_str (ch_kind c),
      cr_max_users = map_option uint (ch_max_users c), cr_sort_order = ch_order c\<rparr>"

definition parsed :: "ext \<Rightarrow> ustring \<Rightarrow> fingerprint option" where
  "parsed cr s = (case fingerprint_parse cr s of Inl _ \<Rightarrow> None | Inr fp \<Rightarrow> Some fp)"

definition row_to_ban :: "ext \<Rightarrow> ban_row \<Rightarrow> ban_entry option" where
  "row_to_ban cr r =
     (case parsed cr (b_fingerprint r) of
        None \<Rightarrow> None
      | Some fp \<Rightarrow>
          (case parsed cr (b_issued_by r) of
             None \<Rightarrow> None
           | Some by \<Rightarrow>
               Some \<lparr>be_fingerprint = fp, be_reason = b_reason r,
                     be_until = map_option u64_of_i64 (b_until r), be_issued_by = by,
                     be_issued_at = u64_of_i64 (b_issued_at r)\<rparr>))"

definition ban_to_row :: "ext \<Rightarrow> ban_entry \<Rightarrow> ban_row" where
  "ban_to_row cr b =
     \<lparr>b_fingerprint = fingerprint_to_string cr (be_fingerprint b), b_reason = be_reason b,
      b_until = map_option i64_of_u64 (be_until b),
      b_issued_by = fingerprint_to_string cr (be_issued_by b),
      b_issued_at = i64_of_u64 (be_issued_at b)\<rparr>"

definition row_to_message :: "ext \<Rightarrow> message_row \<Rightarrow> chat_message option" where
  "row_to_message cr r =
     (case parsed cr (m_author_fingerprint r) of
        None \<Rightarrow> None
      | Some fp \<Rightarrow>
          Some \<lparr>cm_id = u64_of_i64 (m_id r), cm_channel = u32_of_i64 (m_channel r),
                cm_author = None, cm_author_fingerprint = fp,
                cm_author_nickname = m_author_nickname r, cm_sent_at = u64_of_i64 (m_sent_at r),
                cm_edited_at = map_option u64_of_i64 (m_edited_at r), cm_content = m_content r,
                cm_reply_to = map_option u64_of_i64 (m_reply_to r), cm_attachments = [],
                cm_reactions = []\<rparr>)"

definition message_to_row :: "ext \<Rightarrow> chat_message \<Rightarrow> message_row" where
  "message_to_row cr m =
     \<lparr>m_id = i64_of_u64 (cm_id m), m_channel = i64_of_u32 (cm_channel m),
      m_author_fingerprint = fingerprint_to_string cr (cm_author_fingerprint m),
      m_author_nickname = cm_author_nickname m, m_sent_at = i64_of_u64 (cm_sent_at m),
      m_edited_at = map_option i64_of_u64 (cm_edited_at m), m_content = cm_content m,
      m_reply_to = map_option i64_of_u64 (cm_reply_to m)\<rparr>"

section \<open>Messages\<close>

definition MAX_HISTORY_LIMIT :: nat where "MAX_HISTORY_LIMIT = 200"

record history_page =
  h_messages :: "chat_message list"
  h_reached_start :: bool

definition highest_message_id :: "store \<Rightarrow> (store_error + message_id option) \<times> store" where
  "highest_message_id = attempt (\<lambda>d.
     Some (case t_messages d of [] \<Rightarrow> None
           | ms \<Rightarrow> Some (u64_of_i64 (Max (set (map m_id ms)))), d))"

definition insert_message :: "ext \<Rightarrow> chat_message \<Rightarrow> store \<Rightarrow> (store_error + unit) \<times> store" where
  "insert_message cr m = attempt (\<lambda>d.
     let row = message_to_row cr m
     in if m_id row \<in> set (map m_id (t_messages d)) then None
        else Some ((), d\<lparr>t_messages := t_messages d @ [row]\<rparr>))"

text \<open>The rows a history query matches, in ascending id order.\<close>

definition matching :: "db \<Rightarrow> channel_id \<Rightarrow> message_id option \<Rightarrow> message_row list" where
  "matching d channel before =
     sort_key m_id (filter (\<lambda>r. m_channel r = i64_of_u32 channel \<and>
       (case before of None \<Rightarrow> True | Some b \<Rightarrow> m_id r < i64_of_u64 b)) (t_messages d))"

definition clamp_limit :: "u16 \<Rightarrow> nat" where
  "clamp_limit limit = max 1 (min (unat limit) MAX_HISTORY_LIMIT)"

definition history ::
  "ext \<Rightarrow> channel_id \<Rightarrow> message_id option \<Rightarrow> u16 \<Rightarrow> store \<Rightarrow> (store_error + history_page) \<times> store"
where
  "history cr channel before limit = attempt (\<lambda>d.
     let limit = clamp_limit limit;
         probe = limit + 1;
         rows = take probe (rev (matching d channel before));
         reached_start = (length rows \<le> limit)
     in case collect (map (row_to_message cr) (take limit rows)) of
          None \<Rightarrow> None
        | Some messages \<Rightarrow>
            Some (\<lparr>h_messages = rev messages, h_reached_start = reached_start\<rparr>, d))"

definition prune_before :: "u64 \<Rightarrow> store \<Rightarrow> (store_error + nat) \<times> store" where
  "prune_before cutoff = attempt (\<lambda>d.
     let kept = filter (\<lambda>r. \<not> m_sent_at r < i64_of_u64 cutoff) (t_messages d)
     in Some (length (t_messages d) - length kept, d\<lparr>t_messages := kept\<rparr>))"

definition channel_cutoff :: "nat \<Rightarrow> int \<Rightarrow> db \<Rightarrow> int option" where
  "channel_cutoff keep channel d =
     (let ids = rev (sort (map m_id (filter (\<lambda>r. m_channel r = channel) (t_messages d))))
      in if keep < length ids then Some (ids ! keep) else None)"

fun prune_channels ::
  "nat \<Rightarrow> int list \<Rightarrow> nat \<Rightarrow> store \<Rightarrow> (store_error + nat) \<times> store" where
  "prune_channels keep [] removed s = (Inr removed, s)"
| "prune_channels keep (c # cs) removed s =
     (case attempt (\<lambda>d. Some (channel_cutoff keep c d, d)) s of
        (Inl e, s') \<Rightarrow> (Inl e, s')
      | (Inr None, s') \<Rightarrow> prune_channels keep cs removed s'
      | (Inr (Some cutoff), s') \<Rightarrow>
          (case attempt (\<lambda>d.
              let kept = filter (\<lambda>r. \<not> (m_channel r = c \<and> m_id r \<le> cutoff)) (t_messages d)
              in Some (length (t_messages d) - length kept, d\<lparr>t_messages := kept\<rparr>)) s' of
             (Inl e, s'') \<Rightarrow> (Inl e, s'')
           | (Inr n, s'') \<Rightarrow> prune_channels keep cs (removed + n) s''))"

definition prune_to_limit :: "u32 \<Rightarrow> store \<Rightarrow> (store_error + nat) \<times> store" where
  "prune_to_limit keep s =
     (case attempt (\<lambda>d. Some (remdups (map m_channel (t_messages d)), d)) s of
        (Inl e, s') \<Rightarrow> (Inl e, s')
      | (Inr cs, s') \<Rightarrow> prune_channels (unat keep) cs 0 s')"

definition message_count :: "store \<Rightarrow> (store_error + nat) \<times> store" where
  "message_count = attempt (\<lambda>d. Some (length (t_messages d), d))"

section \<open>Roles, grants and overwrites\<close>

definition load_roles :: "store \<Rightarrow> (store_error + role list) \<times> store" where
  "load_roles = attempt (\<lambda>d. Some (map row_to_role (sort_key rr_position (t_roles d)), d))"

definition insert_role :: "role \<Rightarrow> store \<Rightarrow> (store_error + unit) \<times> store" where
  "insert_role r = attempt (\<lambda>d.
     if rr_id (role_to_row r) \<in> set (map rr_id (t_roles d)) then None
     else Some ((), d\<lparr>t_roles := t_roles d @ [role_to_row r]\<rparr>))"

definition store_update_role :: "role \<Rightarrow> store \<Rightarrow> (store_error + unit) \<times> store" where
  "store_update_role r = attempt (\<lambda>d.
     Some ((), d\<lparr>t_roles := map (\<lambda>row. if rr_id row = i64_of_u32 (r_id r)
       then row\<lparr>rr_name := r_name r, rr_color := map_option i64_of_u32 (r_color r),
                rr_permissions := i64_of_u64 (r_permissions r)\<rparr>
       else row) (t_roles d)\<rparr>))"

definition store_delete_role :: "role_id \<Rightarrow> store \<Rightarrow> (store_error + unit) \<times> store" where
  "store_delete_role i = attempt (\<lambda>d.
     Some ((), d\<lparr>t_role_members := filter (\<lambda>(_, r). r \<noteq> i64_of_u32 i) (t_role_members d),
                 t_overwrites := filter (\<lambda>o'. \<not> (or_target_kind o' = 0 \<and>
                                    or_target o' = dec (unat i))) (t_overwrites d),
                 t_roles := filter (\<lambda>r. rr_id r \<noteq> i64_of_u32 i) (t_roles d)\<rparr>))"

definition set_position_row :: "role_id \<times> u32 \<Rightarrow> role_row list \<Rightarrow> role_row list" where
  "set_position_row p rows =
     map (\<lambda>row. if rr_id row = i64_of_u32 (fst p)
                 then row\<lparr>rr_position := i64_of_u32 (snd p)\<rparr> else row) rows"

definition set_role_positions :: "(role_id \<times> u32) list \<Rightarrow> store \<Rightarrow> (store_error + unit) \<times> store"
where
  "set_role_positions positions = attempt (\<lambda>d.
     Some ((), d\<lparr>t_roles := fold set_position_row positions (t_roles d)\<rparr>))"

fun insert_grants :: "ustring \<Rightarrow> role_id list \<Rightarrow> (ustring \<times> int) list \<Rightarrow> (ustring \<times> int) list option"
where
  "insert_grants fp [] g = Some g"
| "insert_grants fp (r # rs) g =
     (if (fp, i64_of_u32 r) \<in> set g then None
      else insert_grants fp rs (g @ [(fp, i64_of_u32 r)]))"

definition replace_member_roles ::
  "ext \<Rightarrow> fingerprint \<Rightarrow> role_id list \<Rightarrow> store \<Rightarrow> (store_error + unit) \<times> store" where
  "replace_member_roles cr fp roles = attempt (\<lambda>d.
     let key = fingerprint_to_string cr fp;
         cleared = filter (\<lambda>(f, _). f \<noteq> key) (t_role_members d)
     in map_option (\<lambda>g. ((), d\<lparr>t_role_members := g\<rparr>)) (insert_grants key roles cleared))"

definition same_key :: "int \<Rightarrow> int \<times> ustring \<Rightarrow> overwrite_row \<Rightarrow> bool" where
  "same_key channel key r \<longleftrightarrow> or_channel r = channel \<and> (or_target_kind r, or_target r) = key"

definition upsert_overwrite ::
  "ext \<Rightarrow> channel_id \<Rightarrow> overwrite \<Rightarrow> store \<Rightarrow> (store_error + unit) \<times> store" where
  "upsert_overwrite cr channel ow = attempt (\<lambda>d.
     let key = overwrite_key cr (o_target ow);
         c = i64_of_u32 channel;
         row = \<lparr>or_channel = c, or_target_kind = fst key, or_target = snd key,
                or_allow = i64_of_u64 (o_allow ow), or_deny = i64_of_u64 (o_deny ow)\<rparr>
     in Some ((), d\<lparr>t_overwrites :=
          (if \<exists>r\<in>set (t_overwrites d). same_key c key r
           then map (\<lambda>r. if same_key c key r then row else r) (t_overwrites d)
           else t_overwrites d @ [row])\<rparr>))"

definition delete_overwrite ::
  "ext \<Rightarrow> channel_id \<Rightarrow> overwrite_target \<Rightarrow> store \<Rightarrow> (store_error + unit) \<times> store" where
  "delete_overwrite cr channel target = attempt (\<lambda>d.
     Some ((), d\<lparr>t_overwrites :=
       filter (\<lambda>r. \<not> same_key (i64_of_u32 channel) (overwrite_key cr target) r)
         (t_overwrites d)\<rparr>))"

definition load_role_members ::
  "ext \<Rightarrow> store \<Rightarrow> (store_error + (fingerprint \<times> role_id) list) \<times> store" where
  "load_role_members cr = attempt (\<lambda>d.
     Some (List.map_filter (\<lambda>(raw, role).
       map_option (\<lambda>fp. (fp, u32_of_i64 role)) (parsed cr raw)) (t_role_members d), d))"

definition load_overwrites ::
  "ext \<Rightarrow> store \<Rightarrow> (store_error + (channel_id \<times> overwrite) list) \<times> store" where
  "load_overwrites cr = attempt (\<lambda>d.
     Some (List.map_filter (\<lambda>r.
       let target = (if or_target_kind r = 0 then map_option TRole (ok (parse_u32 (or_target r)))
                     else if or_target_kind r = 1 then map_option TMember (parsed cr (or_target r))
                     else None)
       in map_option (\<lambda>t. (u32_of_i64 (or_channel r),
            \<lparr>o_target = t, o_allow = u64_of_i64 (or_allow r), o_deny = u64_of_i64 (or_deny r)\<rparr>))
          target) (t_overwrites d), d))"

section \<open>Channels and bans\<close>

definition load_channels :: "store \<Rightarrow> (store_error + channel list) \<times> store" where
  "load_channels = attempt (\<lambda>d.
     Some (map row_to_channel (sort_key cr_sort_order (sort_key cr_id (t_channels d))), d))"

definition insert_channel :: "channel \<Rightarrow> store \<Rightarrow> (store_error + unit) \<times> store" where
  "insert_channel c = attempt (\<lambda>d.
     if cr_id (channel_to_row c) \<in> set (map cr_id (t_channels d)) then None
     else Some ((), d\<lparr>t_channels := t_channels d @ [channel_to_row c]\<rparr>))"

definition store_update_channel :: "channel \<Rightarrow> store \<Rightarrow> (store_error + unit) \<times> store" where
  "store_update_channel c = attempt (\<lambda>d.
     Some ((), d\<lparr>t_channels := map (\<lambda>row. if cr_id row = i64_of_u32 (ch_id c)
       then channel_to_row c else row) (t_channels d)\<rparr>))"

definition store_delete_channel :: "channel_id \<Rightarrow> store \<Rightarrow> (store_error + unit) \<times> store" where
  "store_delete_channel i = attempt (\<lambda>d.
     Some ((), d\<lparr>t_overwrites := filter (\<lambda>r. or_channel r \<noteq> i64_of_u32 i) (t_overwrites d),
                 t_channels := filter (\<lambda>r. cr_id r \<noteq> i64_of_u32 i) (t_channels d)\<rparr>))"

definition insert_ban :: "ext \<Rightarrow> ban_entry \<Rightarrow> store \<Rightarrow> (store_error + unit) \<times> store" where
  "insert_ban cr b = attempt (\<lambda>d.
     let row = ban_to_row cr b
     in Some ((), d\<lparr>t_bans :=
          (if \<exists>r\<in>set (t_bans d). b_fingerprint r = b_fingerprint row
           then map (\<lambda>r. if b_fingerprint r = b_fingerprint row then row else r) (t_bans d)
           else t_bans d @ [row])\<rparr>))"

definition delete_ban :: "ext \<Rightarrow> fingerprint \<Rightarrow> store \<Rightarrow> (store_error + unit) \<times> store" where
  "delete_ban cr fp = attempt (\<lambda>d.
     Some ((), d\<lparr>t_bans := filter (\<lambda>r. b_fingerprint r \<noteq> fingerprint_to_string cr fp) (t_bans d)\<rparr>))"

definition store_list_bans :: "ext \<Rightarrow> store \<Rightarrow> (store_error + ban_entry list) \<times> store" where
  "store_list_bans cr = attempt (\<lambda>d.
     map_option (\<lambda>bs. (bs, d))
       (collect (map (row_to_ban cr) (sort_key (\<lambda>r. - b_issued_at r) (t_bans d)))))"

definition active_ban ::
  "ext \<Rightarrow> fingerprint \<Rightarrow> u64 \<Rightarrow> store \<Rightarrow> (store_error + ban_entry option) \<times> store" where
  "active_ban cr fp now = attempt (\<lambda>d.
     case List.find (\<lambda>r. b_fingerprint r = fingerprint_to_string cr fp) (t_bans d) of
       None \<Rightarrow> Some (None, d)
     | Some row \<Rightarrow>
         (case row_to_ban cr row of
            None \<Rightarrow> None
          | Some ban \<Rightarrow>
              Some (case be_until ban of
                      Some until \<Rightarrow> if until \<le> now then None else Some ban
                    | None \<Rightarrow> Some ban, d)))"

section \<open>The contract of a call\<close>

lemma attempt_down [simp]: "\<not> st_up s (st_ops s) \<Longrightarrow>
    attempt q s = (Inl Query, s\<lparr>st_ops := Suc (st_ops s)\<rparr>)"
  by (simp add: attempt_def)

lemma attempt_up:
  "st_up s (st_ops s) \<Longrightarrow>
     attempt q s = (case q (st_db s) of
        None \<Rightarrow> (Inl Query, s\<lparr>st_ops := Suc (st_ops s)\<rparr>)
      | Some (a, d) \<Rightarrow> (Inr a, s\<lparr>st_ops := Suc (st_ops s), st_db := d\<rparr>))"
  by (simp add: attempt_def Let_def split: option.splits prod.splits)

lemma attempt_schedule [simp]: "st_up (snd (attempt q s)) = st_up s"
  by (simp add: attempt_def Let_def split: option.splits prod.splits)

lemma attempt_Inl_db: "fst (attempt q s) = Inl e \<Longrightarrow> st_db (snd (attempt q s)) = st_db s"
  by (auto simp: attempt_def Let_def split: option.splits prod.splits if_splits)

lemma attempt_Inr:
  "attempt q s = (Inr a, s') \<Longrightarrow> q (st_db s) = Some (a, st_db s')"
  by (auto simp: attempt_def Let_def split: option.splits prod.splits if_splits)

lemma sint_u64_roundtrip:
  "- (2 ^ 63) \<le> i \<Longrightarrow> i < 2 ^ 63 \<Longrightarrow> i64_of_u64 (u64_of_i64 i) = i"
  unfolding i64_of_u64_def u64_of_i64_def
  by (simp add: signed_of_int signed_take_bit_int_eq_self)

lemma u64_roundtrip [simp]: "u64_of_i64 (i64_of_u64 w) = w"
  by (simp add: u64_of_i64_def i64_of_u64_def)

lemma u32_roundtrip [simp]: "u32_of_i64 (i64_of_u32 w) = w"
  by (simp add: u32_of_i64_def i64_of_u32_def)

lemma i64_of_u32_inject [simp]: "i64_of_u32 v = i64_of_u32 w \<longleftrightarrow> v = w"
  by (metis u32_roundtrip)

lemma i64_of_u64_inject [simp]: "i64_of_u64 v = i64_of_u64 w \<longleftrightarrow> v = w"
  by (metis u64_roundtrip)

lemma collect_map_Some: "\<forall>x\<in>set xs. f x \<noteq> None \<Longrightarrow> collect (map f xs) = Some (map (the \<circ> f) xs)"
  by (induction xs) auto

section \<open>History\<close>

lemma history_exact:
  assumes up: "st_up s (st_ops s)"
    and readable: "\<forall>r\<in>set (matching (st_db s) channel before). row_to_message cr r \<noteq> None"
  shows "let M = matching (st_db s) channel before; L = clamp_limit limit in
     history cr channel before limit s =
       (Inr \<lparr>h_messages = map (the \<circ> row_to_message cr) (drop (length M - L) M),
             h_reached_start = (length M \<le> L)\<rparr>, s\<lparr>st_ops := Suc (st_ops s)\<rparr>)"
proof -
  let ?M = "matching (st_db s) channel before" and ?L = "clamp_limit limit"
  have "\<forall>r\<in>set (take ?L (rev ?M)). row_to_message cr r \<noteq> None"
    using readable by (auto dest: in_set_takeD)
  then have "collect (map (row_to_message cr) (take ?L (rev ?M))) =
      Some (map (the \<circ> row_to_message cr) (take ?L (rev ?M)))"
    by (rule collect_map_Some)
  moreover have "take ?L (take (?L + 1) (rev ?M)) = take ?L (rev ?M)" by simp
  moreover have "rev (map f (take ?L (rev ?M))) = map f (drop (length ?M - ?L) ?M)" for f :: "message_row \<Rightarrow> chat_message"
    by (metis length_rev rev_map rev_rev_ident rev_take)
  moreover have "length (take (?L + 1) (rev ?M)) \<le> ?L \<longleftrightarrow> length ?M \<le> ?L" by auto
  ultimately show ?thesis
    by (simp add: history_def attempt_up [OF up] Let_def)
qed

text \<open>
  A page of history is exact: when the database answers, a request for a channel returns the
  newest matching messages, oldest first, as many as asked for between 1 and 200, nothing from
  another channel and nothing at or after \<open>before\<close>; and it says that the start was reached
  precisely when nothing older was left out. The database is not changed.
\<close>

theorem history_page_is_exact:
  assumes "st_up s (st_ops s)"
    and "\<forall>r\<in>set (matching (st_db s) channel before). row_to_message cr r \<noteq> None"
  shows "\<exists>older page. sort_key m_id (filter (\<lambda>r. m_channel r = i64_of_u32 channel \<and>
             (case before of None \<Rightarrow> True | Some b \<Rightarrow> m_id r < i64_of_u64 b))
             (t_messages (st_db s))) = older @ page \<and>
           fst (history cr channel before limit s) =
             Inr \<lparr>h_messages = map (the \<circ> row_to_message cr) page,
                  h_reached_start = (older = [])\<rparr> \<and>
           length page \<le> clamp_limit limit \<and> clamp_limit limit \<in> {1..200} \<and>
           (older = [] \<or> length page = clamp_limit limit) \<and>
           snd (history cr channel before limit s) = s\<lparr>st_ops := Suc (st_ops s)\<rparr>"
proof -
  let ?M = "matching (st_db s) channel before" and ?L = "clamp_limit limit"
  let ?n = "length ?M - ?L"
  note h = history_exact [OF assms, of limit, unfolded Let_def]
  have "?M = take ?n ?M @ drop ?n ?M" by simp
  moreover have "take ?n ?M = [] \<longleftrightarrow> length ?M \<le> ?L" by auto
  moreover have "?L \<in> {1..200}" by (auto simp: clamp_limit_def MAX_HISTORY_LIMIT_def)
  ultimately show ?thesis
    using h unfolding matching_def [symmetric]
    by (intro exI [of _ "take ?n ?M"] exI [of _ "drop ?n ?M"]) auto
qed

text \<open>A store holding given messages, with the database answering every call.\<close>

definition store_with :: "db \<Rightarrow> store" where
  "store_with d = \<lparr>st_db = d, st_ops = 0, st_up = (\<lambda>_. True)\<rparr>"

definition sample_message :: "u64 \<Rightarrow> channel_id \<Rightarrow> chat_message" where
  "sample_message i c = \<lparr>cm_id = i, cm_channel = c, cm_author = Some 1,
     cm_author_fingerprint = replicate 32 7, cm_author_nickname = u ''alice'', cm_sent_at = 5,
     cm_edited_at = None, cm_content = u ''hi'', cm_reply_to = None, cm_attachments = [],
     cm_reactions = []\<rparr>"

lemma parsed_to_string [simp]:
  "base32_roundtrips cr \<Longrightarrow> length fp = 32 \<Longrightarrow> parsed cr (fingerprint_to_string cr fp) = Some fp"
  by (simp add: parsed_def fingerprint_parse_to_string)

lemma row_to_message_to_row:
  assumes "base32_roundtrips cr" and "length (cm_author_fingerprint m) = 32"
  shows "row_to_message cr (message_to_row cr m) =
    Some (m\<lparr>cm_author := None, cm_attachments := [], cm_reactions := []\<rparr>)"
  using assms
  by (cases m) (simp add: row_to_message_def message_to_row_def option.map_comp comp_def option.map_ident)

theorem history_page_is_exact_witness:
  "let s = store_with (empty_db\<lparr>t_messages :=
            map (message_to_row sample_ext) [sample_message 1 7, sample_message 2 8]\<rparr>)
   in \<exists>older page. sort_key m_id (filter (\<lambda>r. m_channel r = i64_of_u32 7 \<and>
             (case None of None \<Rightarrow> True | Some b \<Rightarrow> m_id r < i64_of_u64 b))
             (t_messages (st_db s))) = older @ page \<and>
           fst (history sample_ext 7 None 1 s) =
             Inr \<lparr>h_messages = map (the \<circ> row_to_message sample_ext) page,
                  h_reached_start = (older = [])\<rparr> \<and>
           length page \<le> clamp_limit 1 \<and> clamp_limit 1 \<in> {1..200} \<and>
           (older = [] \<or> length page = clamp_limit 1) \<and>
           snd (history sample_ext 7 None 1 s) = s\<lparr>st_ops := Suc (st_ops s)\<rparr>"
  unfolding Let_def
  by (rule history_page_is_exact)
    (auto simp: store_with_def matching_def empty_db_def row_to_message_to_row sample_base32
      sample_message_def)

section \<open>Paging backwards\<close>

text \<open>A reader that keeps asking for the page before the oldest message it holds.\<close>

fun read_back ::
  "ext \<Rightarrow> channel_id \<Rightarrow> u16 \<Rightarrow> nat \<Rightarrow> message_id option \<Rightarrow> store \<Rightarrow> chat_message list option" where
  "read_back cr channel limit 0 before s = None"
| "read_back cr channel limit (Suc n) before s =
     (case history cr channel before limit s of
        (Inl e, _) \<Rightarrow> None
      | (Inr p, s') \<Rightarrow>
          if h_reached_start p then Some (h_messages p)
          else map_option (\<lambda>older. older @ h_messages p)
                 (read_back cr channel limit n (Some (cm_id (hd (h_messages p)))) s'))"

definition message_table_ok :: "ext \<Rightarrow> db \<Rightarrow> bool" where
  "message_table_ok cr d \<longleftrightarrow>
     distinct (map m_id (t_messages d)) \<and>
     (\<forall>r\<in>set (t_messages d). - (2 ^ 63) \<le> m_id r \<and> m_id r < 2 ^ 63 \<and>
        row_to_message cr r \<noteq> None)"

lemma set_matching:
  "set (matching d channel before) = {r \<in> set (t_messages d). m_channel r = i64_of_u32 channel \<and>
     (case before of None \<Rightarrow> True | Some b \<Rightarrow> m_id r < i64_of_u64 b)}"
  by (auto simp: matching_def)

lemma matching_strict:
  assumes "distinct (map m_id (t_messages d))"
  shows "sorted_wrt (\<lambda>a b. m_id a < m_id b) (matching d channel before)"
proof -
  let ?M = "matching d channel before"
  have "sorted (map m_id ?M)" by (simp add: matching_def)
  moreover have "distinct (map m_id ?M)"
    using assms by (simp add: matching_def distinct_map inj_on_def)
  ultimately have "sorted_wrt (<) (map m_id ?M)" by (simp add: strict_sorted_iff)
  then show ?thesis by (simp add: sorted_wrt_map)
qed

lemma filter_less_take:
  assumes "sorted_wrt (\<lambda>a b. f a < (f b :: int)) xs" and "k < length xs"
  shows "filter (\<lambda>r. f r < f (xs ! k)) xs = take k xs"
proof -
  have xs: "xs = take k xs @ drop k xs" by simp
  have "f a < f (xs ! k)" if "a \<in> set (take k xs)" for a
    using that assms by (auto simp: in_set_conv_nth sorted_wrt_iff_nth_less)
  then have "filter (\<lambda>r. f r < f (xs ! k)) (take k xs) = take k xs" by (auto simp: filter_id_conv)
  moreover have "f (xs ! k) \<le> f b" if "b \<in> set (drop k xs)" for b
  proof -
    from that obtain i where "i < length (drop k xs)" "b = drop k xs ! i"
      by (metis in_set_conv_nth)
    then have i: "k + i < length xs" "b = xs ! (k + i)" by auto
    then show ?thesis
      using assms(1) by (cases i) (auto simp: sorted_wrt_iff_nth_less intro: less_imp_le)
  qed
  then have "filter (\<lambda>r. f r < f (xs ! k)) (drop k xs) = []" by (force simp: filter_empty_conv)
  ultimately show ?thesis by (metis append_Nil2 filter_append xs)
qed

lemma matching_before:
  assumes "message_table_ok cr d" and "k < length (matching d channel before)"
  shows "matching d channel (Some (u64_of_i64 (m_id (matching d channel before ! k)))) =
           take k (matching d channel before)"
proof -
  let ?M = "matching d channel before"
  define x where "x = m_id (?M ! k)"
  have mem: "?M ! k \<in> set (t_messages d)"
    and P: "case before of None \<Rightarrow> True | Some b \<Rightarrow> x < i64_of_u64 b"
    unfolding x_def using nth_mem [OF assms(2), unfolded set_matching] by auto
  have b: "i64_of_u64 (u64_of_i64 x) = x"
    unfolding x_def using assms(1) mem
    by (intro sint_u64_roundtrip) (auto simp: message_table_ok_def)
  have "matching d channel (Some (u64_of_i64 x)) = filter (\<lambda>r. m_id r < x) ?M"
    unfolding matching_def filter_sort filter_filter b option.case
    using P by (intro arg_cong [where f = "sort_key m_id"] filter_cong) (auto split: option.splits)
  then show ?thesis
    using filter_less_take [OF matching_strict assms(2)] assms(1)
    by (simp add: message_table_ok_def x_def)
qed

lemma cm_id_row: "row_to_message cr r \<noteq> None \<Longrightarrow> cm_id (the (row_to_message cr r)) = u64_of_i64 (m_id r)"
  by (auto simp: row_to_message_def split: option.splits)

lemma matching_readable:
  "message_table_ok cr d \<Longrightarrow> \<forall>r\<in>set (matching d channel before). row_to_message cr r \<noteq> None"
  by (auto simp: message_table_ok_def set_matching)

lemma read_back_all:
  assumes "message_table_ok cr (st_db s)" and "\<forall>i. st_up s i"
    and "length (matching (st_db s) channel before) < n"
  shows "read_back cr channel limit n before s =
           Some (map (the \<circ> row_to_message cr) (matching (st_db s) channel before))"
  using assms
proof (induction n arbitrary: before s)
  case 0
  then show ?case by simp
next
  case (Suc n)
  let ?M = "matching (st_db s) channel before" and ?f = "the \<circ> row_to_message cr"
  let ?k = "length ?M - clamp_limit limit" and ?s = "s\<lparr>st_ops := Suc (st_ops s)\<rparr>"
  have h: "history cr channel before limit s =
      (Inr \<lparr>h_messages = map ?f (drop ?k ?M), h_reached_start = (length ?M \<le> clamp_limit limit)\<rparr>, ?s)"
    using history_exact [of s channel before cr limit] Suc.prems matching_readable
    by (simp add: Let_def)
  show ?case
  proof (cases "length ?M \<le> clamp_limit limit")
    case True
    then show ?thesis by (simp add: h)
  next
    case False
    have L: "0 < clamp_limit limit" by (simp add: clamp_limit_def)
    with False have k: "?k < length ?M" by auto
    have "cm_id (hd (map ?f (drop ?k ?M))) = u64_of_i64 (m_id (?M ! ?k))"
      using k matching_readable [OF Suc.prems(1), of channel before]
      by (simp add: hd_drop_conv_nth hd_map cm_id_row)
    moreover have "read_back cr channel limit n (Some (u64_of_i64 (m_id (?M ! ?k)))) ?s =
        Some (map ?f (take ?k ?M))"
      using Suc.IH [of ?s "Some (u64_of_i64 (m_id (?M ! ?k)))"] Suc.prems k
        matching_before [OF Suc.prems(1) k] by simp
    ultimately show ?thesis
      using False by (simp add: h flip: map_append)
  qed
qed

text \<open>
  C15. Paging backwards loses nothing and repeats nothing: a reader that starts with no \<open>before\<close>
  and keeps asking for the page before its oldest message, at whatever page size, ends after at
  most one request per message plus one and holds every message of the channel in id order.
\<close>

theorem paging_back_reads_everything:
  assumes "message_table_ok cr (st_db s)" and "\<forall>i. st_up s i"
  shows "read_back cr channel limit (Suc (length (t_messages (st_db s)))) None s =
    Some (map (the \<circ> row_to_message cr)
      (sort_key m_id (filter (\<lambda>r. m_channel r = i64_of_u32 channel) (t_messages (st_db s)))))"
  using read_back_all [OF assms, of channel None "Suc (length (t_messages (st_db s)))" limit]
  by (simp add: matching_def le_imp_less_Suc)

theorem paging_back_reads_everything_witness:
  "let s = store_with (empty_db\<lparr>t_messages :=
            map (message_to_row sample_ext) [sample_message 2 7, sample_message 1 7]\<rparr>)
   in read_back sample_ext 7 1 (Suc (length (t_messages (st_db s)))) None s =
    Some (map (the \<circ> row_to_message sample_ext)
      (sort_key m_id (filter (\<lambda>r. m_channel r = i64_of_u32 7) (t_messages (st_db s)))))"
  unfolding Let_def
  by (rule paging_back_reads_everything)
    (auto simp: store_with_def message_table_ok_def empty_db_def row_to_message_to_row
      sample_base32 sample_message_def message_to_row_def i64_of_u64_def parsed_to_string
      row_to_message_def)

section \<open>Pruning\<close>

definition of_channel :: "db \<Rightarrow> int \<Rightarrow> message_row list" where
  "of_channel d c = sort_key m_id (filter (\<lambda>r. m_channel r = c) (t_messages d))"

lemma of_channel_strict:
  assumes "distinct (map m_id (t_messages d))"
  shows "sorted_wrt (\<lambda>a b. m_id a < m_id b) (of_channel d c)"
proof -
  have "distinct (map m_id (of_channel d c))"
    using assms by (simp add: of_channel_def distinct_map inj_on_def)
  then have "sorted_wrt (<) (map m_id (of_channel d c))"
    by (simp add: strict_sorted_iff of_channel_def)
  then show ?thesis by (simp add: sorted_wrt_map)
qed

lemma filter_greater_drop:
  assumes "sorted_wrt (\<lambda>a b. f a < (f b :: int)) xs" and "k < length xs"
  shows "filter (\<lambda>r. \<not> f r \<le> f (xs ! k)) xs = drop (Suc k) xs"
proof -
  have xs: "xs = take (Suc k) xs @ drop (Suc k) xs" by simp
  have "f a \<le> f (xs ! k)" if "a \<in> set (take (Suc k) xs)" for a
  proof -
    from that obtain i where "i \<le> k" "a = xs ! i"
      using assms(2) by (auto simp: in_set_conv_nth less_Suc_eq_le)
    then show ?thesis
      using assms by (cases "i = k") (auto simp: sorted_wrt_iff_nth_less intro: less_imp_le)
  qed
  then have "filter (\<lambda>r. \<not> f r \<le> f (xs ! k)) (take (Suc k) xs) = []" by (auto simp: filter_empty_conv)
  moreover have "f (xs ! k) < f b" if "b \<in> set (drop (Suc k) xs)" for b
  proof -
    from that obtain i where "i < length (drop (Suc k) xs)" "b = drop (Suc k) xs ! i"
      by (metis in_set_conv_nth)
    then show ?thesis
      using assms(1) by (auto simp: sorted_wrt_iff_nth_less)
  qed
  then have "filter (\<lambda>r. \<not> f r \<le> f (xs ! k)) (drop (Suc k) xs) = drop (Suc k) xs"
    by (force simp: filter_id_conv)
  ultimately show ?thesis by (metis append_Nil filter_append xs)
qed

lemma insort_map: "insort (f x) (map f ys) = map f (insort_key f x ys)"
  by (induction ys) auto

lemma sort_map: "sort (map f xs) = map f (sort_key f xs)"
  by (induction xs) (simp_all add: insort_map)

lemma channel_cutoff_of:
  "channel_cutoff keep c d =
     (let M = of_channel d c in
      if keep < length M then Some (m_id (M ! (length M - 1 - keep))) else None)"
  by (simp add: channel_cutoff_def of_channel_def Let_def rev_nth sort_map)

definition prune_one :: "int \<Rightarrow> int \<Rightarrow> db \<Rightarrow> db" where
  "prune_one c cutoff d =
     d\<lparr>t_messages := filter (\<lambda>r. \<not> (m_channel r = c \<and> m_id r \<le> cutoff)) (t_messages d)\<rparr>"

lemma of_channel_prune_one:
  assumes "distinct (map m_id (t_messages d))" and "channel_cutoff keep c d = Some cutoff"
  shows "of_channel (prune_one c cutoff d) c' =
    (if c' = c then drop (length (of_channel d c) - keep) (of_channel d c) else of_channel d c')"
proof (cases "c' = c")
  case True
  let ?M = "of_channel d c"
  have k: "keep < length ?M" and cut: "cutoff = m_id (?M ! (length ?M - 1 - keep))"
    using assms(2) by (auto simp: channel_cutoff_of Let_def split: if_splits)
  have "of_channel (prune_one c cutoff d) c = filter (\<lambda>r. \<not> m_id r \<le> cutoff) ?M"
    unfolding of_channel_def prune_one_def filter_sort
    by (auto intro!: arg_cong [where f = "sort_key m_id"] filter_cong)
  also have "\<dots> = drop (Suc (length ?M - 1 - keep)) ?M"
    unfolding cut by (rule filter_greater_drop [OF of_channel_strict [OF assms(1)]]) (use k in simp)
  finally show ?thesis using k True by (simp add: Suc_diff_Suc)
next
  case False
  then show ?thesis
    by (auto simp: of_channel_def prune_one_def intro!: arg_cong [where f = "sort_key m_id"] filter_cong)
qed

lemma prune_channels_spec:
  assumes "distinct (map m_id (t_messages (st_db s)))" and "\<forall>i. st_up s i"
  shows "\<exists>n s'. prune_channels keep cs removed s = (Inr n, s') \<and>
    n + length (t_messages (st_db s')) = removed + length (t_messages (st_db s)) \<and>
    (\<forall>c. of_channel (st_db s') c =
      (if c \<in> set cs then drop (length (of_channel (st_db s) c) - keep) (of_channel (st_db s) c)
       else of_channel (st_db s) c))"
  using assms
proof (induction cs arbitrary: removed s)
  case Nil
  then show ?case by simp
next
  case (Cons c cs)
  let ?s = "s\<lparr>st_ops := Suc (st_ops s)\<rparr>"
  show ?case
  proof (cases "channel_cutoff keep c (st_db s)")
    case None
    then have "length (of_channel (st_db s) c) \<le> keep"
      by (simp add: channel_cutoff_of Let_def split: if_splits)
    moreover have "prune_channels keep (c # cs) removed s = prune_channels keep cs removed ?s"
      using Cons.prems None by (simp add: attempt_up)
    moreover obtain n s' where "prune_channels keep cs removed ?s = (Inr n, s')"
      "n + length (t_messages (st_db s')) = removed + length (t_messages (st_db s))"
      "\<forall>c. of_channel (st_db s') c =
        (if c \<in> set cs then drop (length (of_channel (st_db s) c) - keep) (of_channel (st_db s) c)
         else of_channel (st_db s) c)"
      using Cons.IH [of ?s removed] Cons.prems by auto
    ultimately show ?thesis by auto
  next
    case (Some cutoff)
    let ?d = "prune_one c cutoff (st_db s)"
    let ?t = "s\<lparr>st_ops := Suc (Suc (st_ops s)), st_db := ?d\<rparr>"
    let ?n = "length (t_messages (st_db s)) - length (t_messages ?d)"
    have "distinct (map m_id (t_messages ?d))"
      using Cons.prems(1) by (simp add: prune_one_def distinct_map inj_on_def)
    moreover have "length (t_messages ?d) \<le> length (t_messages (st_db s))"
      by (simp add: prune_one_def)
    moreover have "prune_channels keep (c # cs) removed s = prune_channels keep cs (removed + ?n) ?t"
      using Cons.prems Some by (simp add: attempt_up Let_def prune_one_def)
    moreover obtain n s' where "prune_channels keep cs (removed + ?n) ?t = (Inr n, s')"
      "n + length (t_messages (st_db s')) = removed + ?n + length (t_messages ?d)"
      "\<forall>c. of_channel (st_db s') c =
        (if c \<in> set cs then drop (length (of_channel ?d c) - keep) (of_channel ?d c)
         else of_channel ?d c)"
      using Cons.IH [of ?t "removed + ?n"] Cons.prems calculation(1) by auto
    ultimately show ?thesis
      by (auto simp: of_channel_prune_one [OF Cons.prems(1) Some])
  qed
qed

text \<open>
  Retention keeps exactly the newest messages: pruning to a limit leaves in every channel its
  newest \<open>keep\<close> messages and nothing else, whatever the other channels hold, and reports the
  number of rows it removed.
\<close>

theorem prune_to_limit_keeps_newest:
  assumes "distinct (map m_id (t_messages (st_db s)))" and "\<forall>i. st_up s i"
  shows "\<exists>n s'. prune_to_limit keep s = (Inr n, s') \<and>
    n + length (t_messages (st_db s')) = length (t_messages (st_db s)) \<and>
    (\<forall>c. of_channel (st_db s') c =
      drop (length (of_channel (st_db s) c) - unat keep) (of_channel (st_db s) c))"
proof -
  let ?cs = "remdups (map m_channel (t_messages (st_db s)))" and ?s = "s\<lparr>st_ops := Suc (st_ops s)\<rparr>"
  have "of_channel (st_db s) c = []" if "c \<notin> set ?cs" for c
  proof -
    have "filter (\<lambda>r. m_channel r = c) (t_messages (st_db s)) = []"
      using that by (auto simp: filter_empty_conv)
    then show ?thesis by (simp add: of_channel_def)
  qed
  moreover obtain n s' where "prune_channels (unat keep) ?cs 0 ?s = (Inr n, s')"
    "n + length (t_messages (st_db s')) = 0 + length (t_messages (st_db s))"
    "\<forall>c. of_channel (st_db s') c =
      (if c \<in> set ?cs then drop (length (of_channel (st_db s) c) - unat keep) (of_channel (st_db s) c)
       else of_channel (st_db s) c)"
    using prune_channels_spec [of ?s "unat keep" ?cs 0] assms by auto
  ultimately show ?thesis
    using assms by (force simp: prune_to_limit_def attempt_up)
qed

theorem prune_to_limit_keeps_newest_witness:
  "let s = store_with (empty_db\<lparr>t_messages :=
            map (message_to_row sample_ext) [sample_message 1 7, sample_message 2 7]\<rparr>)
   in \<exists>n s'. prune_to_limit 1 s = (Inr n, s') \<and>
    n + length (t_messages (st_db s')) = length (t_messages (st_db s)) \<and>
    (\<forall>c. of_channel (st_db s') c =
      drop (length (of_channel (st_db s) c) - unat (1 :: u32)) (of_channel (st_db s) c))"
  unfolding Let_def
  by (rule prune_to_limit_keeps_newest)
    (simp_all add: store_with_def empty_db_def sample_message_def message_to_row_def)

end
