(* ===== verification/Pickle_Config.thy ===== *)
theory Pickle_Config
  imports Pickle_Proto
begin

text \<open>
  The server configuration (\<open>pickle-server/src/config.rs\<close>) and the channels it seeds
  (\<open>build_channels\<close> of \<open>state.rs\<close>): defaults, validation, the overlay of \<open>PICKLE_*\<close> variables, and
  loading or creating the file. The TOML reader and writer and the parser of socket addresses are
  parameters.
\<close>

section \<open>The configuration record\<close>

datatype socket_addr = SocketV4 "u8 list" u16 | SocketV6 "u16 list" u16

record channel_config =
  cc_name :: ustring
  cc_topic :: ustring
  cc_kind :: channel_kind
  cc_parent :: "ustring option"
  cc_max_users :: "u16 option"
  cc_order :: int

record server_config =
  bind_addr :: socket_addr
  cfg_name :: ustring
  min_security_level :: u32
  cfg_password :: "ustring option"
  cfg_owner :: "ustring option"
  max_users :: u32
  database_url :: "ustring option"
  cfg_history_enabled :: bool
  history_retention_days :: "u32 option"
  history_max_messages_per_channel :: "u32 option"
  cfg_channels :: "channel_config list"

datatype config_error =
    ConfigIo bool
  | ConfigParse ustring
  | ConfigInvalid ustring
  | ConfigEnv ustring ustring ustring

definition DEFAULT_PORT :: u16 where "DEFAULT_PORT = 42071"

definition default_bind :: socket_addr where
  "default_bind = SocketV4 [0, 0, 0, 0] DEFAULT_PORT"

definition default_channels :: "channel_config list" where
  "default_channels =
    [\<lparr>cc_name = u ''Lobby'', cc_topic = u ''Say hello'', cc_kind = Text, cc_parent = None,
      cc_max_users = None, cc_order = 0\<rparr>,
     \<lparr>cc_name = u ''Off topic'', cc_topic = u ''Everything that is not the topic'', cc_kind = Text,
      cc_parent = None, cc_max_users = None, cc_order = 1\<rparr>,
     \<lparr>cc_name = u ''General'', cc_topic = u ''Hang out'', cc_kind = VoiceAndText,
      cc_parent = None, cc_max_users = None, cc_order = 2\<rparr>,
     \<lparr>cc_name = u ''AFK'', cc_topic = [], cc_kind = Voice, cc_parent = None, cc_max_users = None,
      cc_order = 100\<rparr>]"

definition config_default :: server_config where
  "config_default =
     \<lparr>bind_addr = default_bind, cfg_name = u ''Pickle Server'', min_security_level = 8,
      cfg_password = None, cfg_owner = None, max_users = 64, database_url = None,
      cfg_history_enabled = True, history_retention_days = None,
      history_max_messages_per_channel = None, cfg_channels = default_channels\<rparr>"

section \<open>Validation\<close>

fun validate_names ::
  "ext \<Rightarrow> channel_config list \<Rightarrow> ustring list \<Rightarrow> config_error + ustring list" where
  "validate_names cr [] seen = Inr seen"
| "validate_names cr (c # cs) seen =
     (if trim (cc_name c) = [] then Inl (ConfigInvalid (u ''channel names cannot be empty''))
      else if cc_name c \<in> set seen then
        Inl (ConfigInvalid (u ''duplicate channel name '' @ debug_str cr (cc_name c) @
          u ''; names are how parents are referenced''))
      else validate_names cr cs (cc_name c # seen))"

fun validate_parents :: "ext \<Rightarrow> channel_config list \<Rightarrow> ustring list \<Rightarrow> config_error + unit" where
  "validate_parents cr [] seen = Inr ()"
| "validate_parents cr (c # cs) seen =
     (case cc_parent c of
        None \<Rightarrow> validate_parents cr cs seen
      | Some p \<Rightarrow>
          if p \<notin> set seen then
            Inl (ConfigInvalid (u ''channel '' @ debug_str cr (cc_name c) @ u '' names a parent '' @
              debug_str cr p @ u '' that does not exist''))
          else if p = cc_name c then
            Inl (ConfigInvalid (u ''channel '' @ debug_str cr (cc_name c) @ u '' is its own parent''))
          else validate_parents cr cs seen)"

definition validate :: "ext \<Rightarrow> server_config \<Rightarrow> config_error + unit" where
  "validate cr config =
     (if cfg_channels config = [] then
        Inl (ConfigInvalid (u ''at least one channel is required '' @ [8212] @
          u '' clients need somewhere to land''))
      else case validate_names cr (cfg_channels config) [] of
             Inl e \<Rightarrow> Inl e
           | Inr seen \<Rightarrow>
               (case validate_parents cr (cfg_channels config) seen of
                  Inl e \<Rightarrow> Inl e
                | Inr _ \<Rightarrow>
                    if \<not> (\<exists>c\<in>set (cfg_channels config). cc_parent c = None) then
                      Inl (ConfigInvalid (u ''at least one channel must be top-level''))
                    else Inr ()))"

section \<open>The environment\<close>

definition env_read :: "(ustring \<Rightarrow> ustring option) \<Rightarrow> string \<Rightarrow> (ustring \<times> ustring) option" where
  "env_read get name =
     (let key = u ''PICKLE_'' @ u name
      in case map_option trim (get key) of
           None \<Rightarrow> None
         | Some v \<Rightarrow> if v = [] then None else Some (key, v))"

text \<open>
  The overlay works on the configuration in place, one variable after the other, and a failure
  stops it where it is.
\<close>

type_synonym env_step = "server_config \<Rightarrow> (config_error + unit) \<times> server_config"

fun run_steps :: "env_step list \<Rightarrow> env_step" where
  "run_steps [] c = (Inr (), c)"
| "run_steps (f # fs) c =
     (case f c of (Inl e, c') \<Rightarrow> (Inl e, c') | (Inr _, c') \<Rightarrow> run_steps fs c')"

definition env_bind ::
  "(ustring \<Rightarrow> ustring + socket_addr) \<Rightarrow> (ustring \<Rightarrow> ustring option) \<Rightarrow> env_step" where
  "env_bind parse_addr get c =
     (case env_read get ''BIND'' of
        None \<Rightarrow> (Inr (), c)
      | Some (k, v) \<Rightarrow>
          (case parse_addr v of
             Inl e \<Rightarrow> (Inl (ConfigEnv k v e), c)
           | Inr a \<Rightarrow> (Inr (), c\<lparr>bind_addr := a\<rparr>)))"

definition env_name :: "(ustring \<Rightarrow> ustring option) \<Rightarrow> env_step" where
  "env_name get c =
     (case env_read get ''NAME'' of
        None \<Rightarrow> (Inr (), c) | Some (_, v) \<Rightarrow> (Inr (), c\<lparr>cfg_name := v\<rparr>))"

definition env_level :: "(ustring \<Rightarrow> ustring option) \<Rightarrow> env_step" where
  "env_level get c =
     (case env_read get ''MIN_SECURITY_LEVEL'' of
        None \<Rightarrow> (Inr (), c)
      | Some (k, v) \<Rightarrow>
          (case parse_u32 v of
             Inl e \<Rightarrow> (Inl (ConfigEnv k v (u (int_error_text e))), c)
           | Inr n \<Rightarrow> (Inr (), c\<lparr>min_security_level := n\<rparr>)))"

definition env_password :: "(ustring \<Rightarrow> ustring option) \<Rightarrow> env_step" where
  "env_password get c =
     (case env_read get ''PASSWORD'' of
        None \<Rightarrow> (Inr (), c) | Some (_, v) \<Rightarrow> (Inr (), c\<lparr>cfg_password := Some v\<rparr>))"

definition env_owner :: "ext \<Rightarrow> (ustring \<Rightarrow> ustring option) \<Rightarrow> env_step" where
  "env_owner cr get c =
     (case env_read get ''OWNER'' of
        None \<Rightarrow> (Inr (), c)
      | Some (k, v) \<Rightarrow>
          (case fingerprint_parse cr v of
             Inl _ \<Rightarrow> (Inl (ConfigEnv k v (u ''fingerprint is not valid base32'')), c)
           | Inr _ \<Rightarrow> (Inr (), c\<lparr>cfg_owner := Some v\<rparr>)))"

definition env_database_url :: "(ustring \<Rightarrow> ustring option) \<Rightarrow> env_step" where
  "env_database_url get c =
     (case env_read get ''DATABASE_URL'' of
        None \<Rightarrow> (Inr (), c) | Some (_, v) \<Rightarrow> (Inr (), c\<lparr>database_url := Some v\<rparr>))"

definition apply_env_from ::
  "ext \<Rightarrow> (ustring \<Rightarrow> ustring + socket_addr) \<Rightarrow> (ustring \<Rightarrow> ustring option) \<Rightarrow> env_step" where
  "apply_env_from cr parse_addr get =
     run_steps [env_bind parse_addr get, env_name get, env_level get, env_password get,
       env_owner cr get, env_database_url get]"

section \<open>The file\<close>

text \<open>What the file system holds at the configuration path.\<close>

datatype config_file = NotFound | Unreadable | Contents ustring

definition load_config ::
  "ext \<Rightarrow> (ustring \<Rightarrow> ustring + server_config) \<Rightarrow> config_file \<Rightarrow> config_error + server_config" where
  "load_config cr from_toml f =
     (case f of
        NotFound \<Rightarrow> Inl (ConfigIo True)
      | Unreadable \<Rightarrow> Inl (ConfigIo False)
      | Contents raw \<Rightarrow>
          (case from_toml raw of
             Inl e \<Rightarrow> Inl (ConfigParse e)
           | Inr c \<Rightarrow> (case validate cr c of Inl e \<Rightarrow> Inl e | Inr _ \<Rightarrow> Inr c)))"

definition finish_load ::
  "ext \<Rightarrow> (ustring \<Rightarrow> ustring + socket_addr) \<Rightarrow> (ustring \<Rightarrow> ustring option) \<Rightarrow> server_config \<Rightarrow>
     config_error + server_config" where
  "finish_load cr parse_addr get c =
     (case apply_env_from cr parse_addr get c of
        (Inl e, _) \<Rightarrow> Inl e
      | (Inr _, c') \<Rightarrow> (case validate cr c' of Inl e \<Rightarrow> Inl e | Inr _ \<Rightarrow> Inr c'))"

definition load_or_create ::
  "ext \<Rightarrow> (ustring \<Rightarrow> ustring + server_config) \<Rightarrow> (server_config \<Rightarrow> ustring) \<Rightarrow>
     (ustring \<Rightarrow> ustring + socket_addr) \<Rightarrow> (ustring \<Rightarrow> ustring option) \<Rightarrow> bool \<Rightarrow> config_file \<Rightarrow>
     (config_error + server_config) \<times> config_file" where
  "load_or_create cr from_toml to_toml parse_addr get writable f =
     (case (case load_config cr from_toml f of
              Inl (ConfigIo True) \<Rightarrow>
                if writable then (Inr config_default, Contents (to_toml config_default))
                else (Inl (ConfigIo False), f)
            | other \<Rightarrow> (other, f)) of
        (Inl e, f') \<Rightarrow> (Inl e, f')
      | (Inr c, f') \<Rightarrow> (finish_load cr parse_addr get c, f'))"

section \<open>Seeding channels\<close>

definition channel_ids :: "channel_config list \<Rightarrow> (ustring, channel_id) hash_map" where
  "channel_ids cs =
     fold (\<lambda>(i, c) m. AList.update (cc_name c) (of_nat i + 1) m) (enumerate 0 cs) []"

definition build_channels :: "server_config \<Rightarrow> channel list" where
  "build_channels config =
     (let ids = channel_ids (cfg_channels config)
      in map (\<lambda>(i, c).
          \<lparr>ch_id = of_nat i + 1, ch_parent = Option.bind (cc_parent c) (map_of ids),
           ch_name = cc_name c, ch_topic = cc_topic c, ch_kind = cc_kind c,
           ch_max_users = cc_max_users c, ch_order = cc_order c, ch_overwrites = []\<rparr>)
          (enumerate 0 (cfg_channels config)))"

section \<open>What validation accepts\<close>

lemma validate_names_iff:
  "validate_names cr cs seen = Inr seen' \<longleftrightarrow>
     seen' = rev (map cc_name cs) @ seen \<and> (\<forall>c\<in>set cs. trim (cc_name c) \<noteq> []) \<and>
     distinct (map cc_name cs) \<and> set (map cc_name cs) \<inter> set seen = {}"
  by (induction cs arbitrary: seen) auto

lemma validate_parents_iff:
  "validate_parents cr cs seen = Inr () \<longleftrightarrow>
     (\<forall>c\<in>set cs. \<forall>p. cc_parent c = Some p \<longrightarrow> p \<in> set seen \<and> p \<noteq> cc_name c)"
  by (induction cs) (auto split: option.splits)

definition config_ok :: "server_config \<Rightarrow> bool" where
  "config_ok config \<longleftrightarrow>
     (let cs = cfg_channels config; names = map cc_name cs in
      cs \<noteq> [] \<and> distinct names \<and> (\<forall>n\<in>set names. trim n \<noteq> []) \<and>
      (\<forall>c\<in>set cs. \<forall>p\<in>set_option (cc_parent c). p \<in> set names \<and> p \<noteq> cc_name c) \<and>
      (\<exists>c\<in>set cs. cc_parent c = None))"

lemma validate_iff: "validate cr config = Inr () \<longleftrightarrow> config_ok config"
proof (cases "validate_names cr (cfg_channels config) []")
  case (Inl e)
  then have "\<not> config_ok config"
    using validate_names_iff [of cr "cfg_channels config" "[]" "rev (map cc_name (cfg_channels config))"]
    by (auto simp: config_ok_def Let_def)
  then show ?thesis using Inl by (simp add: validate_def)
next
  case (Inr seen)
  note n = Inr [unfolded validate_names_iff]
  have "validate_parents cr (cfg_channels config) seen = Inr () \<longleftrightarrow>
      (\<forall>c\<in>set (cfg_channels config). \<forall>p\<in>set_option (cc_parent c).
         p \<in> set (map cc_name (cfg_channels config)) \<and> p \<noteq> cc_name c)"
    using n unfolding validate_parents_iff by auto
  then show ?thesis
    using n Inr by (auto simp: validate_def config_ok_def Let_def split: sum.splits)
qed

section \<open>What the environment may change\<close>

lemma run_steps_inv:
  assumes "\<And>f c. f \<in> set fs \<Longrightarrow> P c \<Longrightarrow> P (snd (f c))" and "P c"
  shows "P (snd (run_steps fs c))"
  using assms
proof (induction fs arbitrary: c)
  case Nil
  then show ?case by simp
next
  case (Cons f fs)
  have "P (snd (f c))" by (rule Cons.prems(1)) (use Cons.prems(2) in auto)
  moreover have "P (snd (run_steps fs (snd (f c))))"
    by (rule Cons.IH) (use Cons.prems(1) calculation in auto)
  ultimately show ?case by (cases "f c") (auto split: sum.splits)
qed

lemmas env_steps = env_bind_def env_name_def env_level_def env_password_def env_owner_def
  env_database_url_def

lemma apply_env_frame:
  "let c' = snd (apply_env_from cr parse_addr get c) in
     cfg_channels c' = cfg_channels c \<and> max_users c' = max_users c \<and>
     cfg_history_enabled c' = cfg_history_enabled c"
  unfolding apply_env_from_def Let_def
  by (rule run_steps_inv) (auto simp: env_steps split: option.splits sum.splits)

lemma config_ok_channels: "cfg_channels c' = cfg_channels c \<Longrightarrow> config_ok c' = config_ok c"
  by (simp add: config_ok_def)

lemma validate_not_io: "validate cr c \<noteq> Inl (ConfigIo b)"
proof -
  have "validate_names cr cs seen \<noteq> Inl (ConfigIo b)" for cs seen
    by (induction cs arbitrary: seen) auto
  moreover have "validate_parents cr cs seen \<noteq> Inl (ConfigIo b)" for cs seen
    by (induction cs) (auto split: option.splits)
  ultimately show ?thesis by (auto simp: validate_def split: sum.splits)
qed

lemma finish_load_ok: "case finish_load cr parse_addr get c of Inl _ \<Rightarrow> True | Inr c' \<Rightarrow> config_ok c'"
  using validate_iff by (auto simp: finish_load_def split: sum.splits prod.splits)

text \<open>
  The configuration a server starts with is sound, and the environment stays out of the file:
  whatever \<open>load_or_create\<close> returns passes validation (channels named, distinct, with existing
  parents other than themselves and one of them top level), and the file afterwards is the file
  before or, where there was none, the default configuration without any environment value.
\<close>

theorem load_or_create_sound:
  "case load_or_create cr from_toml to_toml parse_addr get writable f of
     (r, f') \<Rightarrow>
       (case r of Inl _ \<Rightarrow> True | Inr c \<Rightarrow> config_ok c) \<and>
       f' = (if f = NotFound \<and> writable then Contents (to_toml config_default) else f)"
proof (cases "load_config cr from_toml f")
  case (Inr c)
  then have "f \<noteq> NotFound" by (auto simp: load_config_def)
  then show ?thesis
    using finish_load_ok [of cr parse_addr get c] by (simp add: load_or_create_def Inr)
next
  case (Inl e)
  then have "e = ConfigIo True \<longleftrightarrow> f = NotFound"
    by (auto simp: load_config_def validate_not_io split: config_file.splits sum.splits)
  then show ?thesis
    using finish_load_ok [of cr parse_addr get config_default]
    by (auto simp: load_or_create_def Inl split: config_error.splits bool.splits)
qed

section \<open>What the seed builds\<close>

lemma channel_ids_snoc:
  "channel_ids (cs @ [c]) = AList.update (cc_name c) (of_nat (length cs) + 1) (channel_ids cs)"
  by (simp add: channel_ids_def enumerate_append_eq)

lemma channel_ids_lookup:
  assumes "distinct (map cc_name cs)" and "i < length cs"
  shows "map_of (channel_ids cs) (cc_name (cs ! i)) = Some (of_nat i + 1)"
  using assms
proof (induction cs rule: rev_induct)
  case Nil
  then show ?case by simp
next
  case (snoc c cs)
  show ?case
  proof (cases "i = length cs")
    case True
    then show ?thesis by (simp add: channel_ids_snoc update_conv')
  next
    case False
    with snoc.prems have i: "i < length cs" by simp
    then have "cc_name (cs ! i) \<noteq> cc_name c"
      using snoc.prems(1) nth_mem [OF i] by (metis distinct_append image_eqI list.set_intros(1)
          list.simps(9) map_append not_distinct_conv_prefix set_map)
    then show ?thesis
      using snoc i by (simp add: channel_ids_snoc update_conv' nth_append)
  qed
qed

lemma build_channels_nth:
  assumes "i < length (cfg_channels config)"
  shows "build_channels config ! i =
    (let c = cfg_channels config ! i in
     \<lparr>ch_id = of_nat i + 1,
      ch_parent = Option.bind (cc_parent c) (map_of (channel_ids (cfg_channels config))),
      ch_name = cc_name c, ch_topic = cc_topic c, ch_kind = cc_kind c,
      ch_max_users = cc_max_users c, ch_order = cc_order c, ch_overwrites = []\<rparr>)"
  using assms by (simp add: build_channels_def Let_def nth_enumerate_eq)

lemma length_build_channels [simp]: "length (build_channels config) = length (cfg_channels config)"
  by (simp add: build_channels_def Let_def)

lemma distinct_seed_ids:
  assumes "length (cfg_channels config) < 2 ^ 32"
  shows "distinct (map ch_id (build_channels config))"
proof -
  have "map ch_id (build_channels config) = map (\<lambda>i. of_nat i + 1) [0..<length (cfg_channels config)]"
    by (rule nth_equalityI) (simp_all add: build_channels_nth Let_def)
  moreover have "inj_on (\<lambda>i. of_nat i + 1 :: u32) {0..<length (cfg_channels config)}"
  proof (rule inj_onI)
    fix x y
    assume "x \<in> {0..<length (cfg_channels config)}" "y \<in> {0..<length (cfg_channels config)}"
      "of_nat x + 1 = (of_nat y + 1 :: u32)"
    then have "of_nat x = (of_nat y :: u32)" "x < 2 ^ 32" "y < 2 ^ 32" using assms by auto
    then show "x = y" by (simp add: word_of_nat_eq_iff take_bit_nat_eq_self)
  qed
  ultimately show ?thesis by (simp add: distinct_map)
qed

lemma seeded_parent:
  assumes ok: "config_ok config" and d: "distinct (map ch_id (build_channels config))"
    and i: "i < length (cfg_channels config)"
    and p: "cc_parent (cfg_channels config ! i) = Some p"
  shows "\<exists>q\<in>set (build_channels config). ch_name q = p \<and>
    ch_parent (build_channels config ! i) = Some (ch_id q) \<and> ch_id q \<noteq> ch_id (build_channels config ! i)"
proof -
  let ?cs = "cfg_channels config" and ?B = "build_channels config"
  have names: "distinct (map cc_name ?cs)" using ok by (simp add: config_ok_def Let_def)
  have "\<forall>c\<in>set ?cs. \<forall>p\<in>set_option (cc_parent c). p \<in> set (map cc_name ?cs) \<and> p \<noteq> cc_name c"
    using ok unfolding config_ok_def Let_def by blast
  from this [rule_format, OF nth_mem [OF i], of p] p
  have "p \<in> set (map cc_name ?cs)" "p \<noteq> cc_name (?cs ! i)" by auto
  then obtain j where j: "j < length ?cs" "p = cc_name (?cs ! j)" and "j \<noteq> i"
    unfolding in_set_conv_nth length_map by (metis nth_map)
  have "ch_id (?B ! j) \<noteq> ch_id (?B ! i)"
    using nth_eq_iff_index_eq [OF d, of j i] i j(1) \<open>j \<noteq> i\<close> by simp
  moreover have "ch_parent (?B ! i) = Some (ch_id (?B ! j))"
    using i j p channel_ids_lookup [OF names j(1)] by (simp add: build_channels_nth Let_def)
  moreover have "ch_name (?B ! j) = p" using j by (simp add: build_channels_nth Let_def)
  moreover have "?B ! j \<in> set ?B" by (rule nth_mem) (simp add: j)
  ultimately show ?thesis by blast
qed

text \<open>
  The seed realises the template: for a valid configuration the seeded channels follow it one
  by one under pairwise distinct ids, and the parent a channel names by name is, by id, the seeded
  channel of that name, another one than itself.
\<close>

theorem seeded_channels_follow_config:
  assumes "config_ok config" and "length (cfg_channels config) < 2 ^ 32"
  shows "distinct (map ch_id (build_channels config)) \<and>
    list_all2 (\<lambda>c t. ch_name c = cc_name t \<and> ch_topic c = cc_topic t \<and> ch_kind c = cc_kind t \<and>
        ch_max_users c = cc_max_users t \<and> ch_order c = cc_order t \<and> ch_overwrites c = [] \<and>
        (case cc_parent t of
           None \<Rightarrow> ch_parent c = None
         | Some p \<Rightarrow> \<exists>q\<in>set (build_channels config).
             ch_name q = p \<and> ch_parent c = Some (ch_id q) \<and> ch_id q \<noteq> ch_id c))
      (build_channels config) (cfg_channels config)"
  using distinct_seed_ids [OF assms(2)] seeded_parent [OF assms(1)]
  by (auto simp: list_all2_conv_all_nth build_channels_nth Let_def split: option.splits)

definition sample_config :: server_config where
  "sample_config = config_default\<lparr>cfg_channels :=
     [\<lparr>cc_name = [66], cc_topic = [], cc_kind = Text, cc_parent = Some [65],
       cc_max_users = None, cc_order = 0\<rparr>,
      \<lparr>cc_name = [65], cc_topic = [], cc_kind = Text, cc_parent = None,
       cc_max_users = None, cc_order = 1\<rparr>]\<rparr>"

theorem seeded_channels_follow_config_witness:
  "distinct (map ch_id (build_channels sample_config)) \<and>
    list_all2 (\<lambda>c t. ch_name c = cc_name t \<and> ch_topic c = cc_topic t \<and> ch_kind c = cc_kind t \<and>
        ch_max_users c = cc_max_users t \<and> ch_order c = cc_order t \<and> ch_overwrites c = [] \<and>
        (case cc_parent t of
           None \<Rightarrow> ch_parent c = None
         | Some p \<Rightarrow> \<exists>q\<in>set (build_channels sample_config).
             ch_name q = p \<and> ch_parent c = Some (ch_id q) \<and> ch_id q \<noteq> ch_id c))
      (build_channels sample_config) (cfg_channels sample_config)"
proof (rule seeded_channels_follow_config)
  show "config_ok sample_config"
    by (simp add: config_ok_def sample_config_def Let_def trim_def trim_start_def is_whitespace_def)
qed (simp add: sample_config_def)

end
