(* ===== verification/Pickle_State.thy ===== *)
theory Pickle_State
  imports Pickle_Store Pickle_Config
begin

text \<open>
  The authoritative server state (\<open>pickle-server/src/state.rs\<close>): the roster, the channel map, the
  permission inputs, bounded control queues, fan-out, and the voice relay. The locks of the code
  serialise each operation, so an operation is a function from state to state; the clock is an
  argument. A control queue is the list of frames not yet drained, with a flag for a receiver that
  is gone; a transport records the datagrams handed to it and whether it was closed.
\<close>

section \<open>State\<close>

definition CONTROL_QUEUE_DEPTH :: nat where "CONTROL_QUEUE_DEPTH = 64"

record connected_client =
  c_info :: user_info
  c_queue :: "server_control list"
  c_gone :: bool
  c_datagrams :: "bytes list"

record perm_state =
  ps_roles :: "role list"
  ps_members :: "(fingerprint, role_id list) hash_map"

record shared =
  s_config :: server_config
  s_identity :: identity
  s_cert_hash :: bytes
  s_limits :: server_limits
  s_perms :: perm_state
  s_owner :: "fingerprint option"
  s_store :: "store option"
  s_next_client_id :: client_id
  s_clients :: "(client_id, connected_client) hash_map"
  s_channels :: "(channel_id, channel) btree_map"
  s_next_message_id :: message_id
  s_closed :: "(client_id \<times> u32 \<times> bytes) list"

definition default_roles :: "role list" where
  "default_roles =
    [\<lparr>r_id = EVERYONE_ROLE_ID, r_name = u ''everyone'', r_color = None, r_position = 0,
      r_permissions = DEFAULT_EVERYONE\<rparr>,
     \<lparr>r_id = 1, r_name = u ''moderator'', r_color = None, r_position = 1,
      r_permissions = union (union (union (union KICK_MEMBERS BAN_MEMBERS) MUTE_MEMBERS)
        MOVE_MEMBERS) MANAGE_MESSAGES\<rparr>,
     \<lparr>r_id = 2, r_name = u ''admin'', r_color = None, r_position = 2,
      r_permissions = ADMINISTRATOR\<rparr>]"

definition perm_state_defaults :: perm_state where
  "perm_state_defaults = \<lparr>ps_roles = default_roles, ps_members = []\<rparr>"

definition shared_new ::
  "ext \<Rightarrow> server_config \<Rightarrow> identity \<Rightarrow> bytes \<Rightarrow> channel list \<Rightarrow> perm_state \<Rightarrow> shared" where
  "shared_new cr config ident cert_hash channels perms =
     \<lparr>s_config = config, s_identity = ident, s_cert_hash = cert_hash,
      s_limits = server_limits_default\<lparr>lim_max_users := max_users config\<rparr>,
      s_perms = perms,
      s_owner = Option.bind (cfg_owner config) (\<lambda>raw. ok (fingerprint_parse cr raw)),
      s_store = None, s_next_client_id = 1, s_clients = [],
      s_channels = fold (\<lambda>c m. bt_insert (ch_id c) c m) channels [],
      s_next_message_id = 1, s_closed = []\<rparr>"

section \<open>Nicknames\<close>

definition sanitize_nickname :: "ustring \<Rightarrow> nat \<Rightarrow> ustring option" where
  "sanitize_nickname raw max_len =
     (let cleaned = take max_len (trim (filter (\<lambda>c. \<not> is_control c) raw))
      in if cleaned = [] then None else Some cleaned)"

section \<open>Reading the state\<close>

definition is_owner :: "shared \<Rightarrow> fingerprint \<Rightarrow> bool" where
  "is_owner s fp \<longleftrightarrow> s_owner s = Some fp"

definition member_roles :: "shared \<Rightarrow> fingerprint \<Rightarrow> role_id list" where
  "member_roles s fp = (case map_of (ps_members (s_perms s)) fp of Some rs \<Rightarrow> rs | None \<Rightarrow> [])"

text \<open>What \<open>resolve\<close> gives for a roster entry against the current inputs.\<close>

definition member_bits :: "ext \<Rightarrow> shared \<Rightarrow> user_info \<Rightarrow> overwrite list option \<Rightarrow> permissions" where
  "member_bits cr s i ows =
     resolve (ps_roles (s_perms s)) (ui_roles i) (ui_fingerprint cr i) (ui_owner i) ows"

definition can :: "ext \<Rightarrow> shared \<Rightarrow> client_id \<Rightarrow> channel_id \<Rightarrow> permissions \<Rightarrow> bool" where
  "can cr s client channel bits =
     (case map_of (s_clients s) client of
        None \<Rightarrow> False
      | Some entry \<Rightarrow>
          (case map_of (s_channels s) channel of
             None \<Rightarrow> False
           | Some target \<Rightarrow>
               contains (member_bits cr s (c_info entry) (Some (ch_overwrites target))) bits))"

definition can_globally :: "ext \<Rightarrow> shared \<Rightarrow> client_id \<Rightarrow> permissions \<Rightarrow> bool" where
  "can_globally cr s client bits =
     (case map_of (s_clients s) client of
        None \<Rightarrow> False
      | Some entry \<Rightarrow> contains (member_bits cr s (c_info entry) None) bits)"

definition can_view :: "ext \<Rightarrow> shared \<Rightarrow> user_info \<Rightarrow> channel \<Rightarrow> bool" where
  "can_view cr s i c \<longleftrightarrow> contains (member_bits cr s i (Some (ch_overwrites c))) VIEW_CHANNEL"

definition visible_channels :: "ext \<Rightarrow> shared \<Rightarrow> user_info \<Rightarrow> channel list" where
  "visible_channels cr s i = filter (can_view cr s i) (map snd (s_channels s))"

text \<open>\<open>min_by_key\<close> keeps the first of the smallest.\<close>

definition default_channel_for :: "ext \<Rightarrow> shared \<Rightarrow> user_info \<Rightarrow> channel_id option" where
  "default_channel_for cr s i =
     (let cs = filter (\<lambda>c. ch_parent c = None \<and> has_text (ch_kind c)) (visible_channels cr s i)
      in if cs = [] then None
         else Some (ch_id (hd (sort_key ch_order (sort_key ch_id cs)))))"

definition roles_snapshot :: "shared \<Rightarrow> role list" where
  "roles_snapshot s = ps_roles (s_perms s)"

definition channels_list :: "shared \<Rightarrow> channel list" where
  "channels_list s = map snd (s_channels s)"

definition users :: "shared \<Rightarrow> user_info list" where
  "users s = map (c_info \<circ> snd) (s_clients s)"

definition user :: "shared \<Rightarrow> client_id \<Rightarrow> user_info option" where
  "user s client = map_option c_info (map_of (s_clients s) client)"

definition client_fingerprint :: "ext \<Rightarrow> shared \<Rightarrow> client_id \<Rightarrow> fingerprint option" where
  "client_fingerprint cr s client =
     map_option (ui_fingerprint cr \<circ> c_info) (map_of (s_clients s) client)"

definition channel_get :: "shared \<Rightarrow> channel_id \<Rightarrow> channel option" where
  "channel_get s channel = map_of (s_channels s) channel"

definition history_enabled :: "shared \<Rightarrow> bool" where
  "history_enabled s \<longleftrightarrow> cfg_history_enabled (s_config s) \<and> s_store s \<noteq> None"

definition actor_outranks :: "ext \<Rightarrow> shared \<Rightarrow> client_id \<Rightarrow> fingerprint \<Rightarrow> bool" where
  "actor_outranks cr s actor target =
     (case map_of (s_clients s) actor of
        None \<Rightarrow> False
      | Some entry \<Rightarrow>
          can_act_on (ps_roles (s_perms s)) (ui_roles (c_info entry)) (ui_owner (c_info entry))
            (member_roles s target) (is_owner s target))"

definition sessions_for :: "ext \<Rightarrow> shared \<Rightarrow> fingerprint \<Rightarrow> nat" where
  "sessions_for cr s fp =
     length (filter (\<lambda>(_, e). ui_fingerprint cr (c_info e) = fp) (s_clients s))"

section \<open>Queues and fan-out\<close>

definition try_queue :: "server_control \<Rightarrow> connected_client \<Rightarrow> connected_client \<times> client_id option"
where
  "try_queue m e =
     (if c_gone e then (e, None)
      else if length (c_queue e) < CONTROL_QUEUE_DEPTH then
        (e\<lparr>c_queue := c_queue e @ [m]\<rparr>, None)
      else (e, Some (ui_client_id (c_info e))))"

text \<open>The loop shared by the fan-outs: queue for every chosen client, name those that overflow.\<close>

definition queue_where ::
  "(client_id \<Rightarrow> connected_client \<Rightarrow> bool) \<Rightarrow> server_control \<Rightarrow> shared \<Rightarrow> client_id list \<times> shared" where
  "queue_where P m s =
     (List.map_filter (\<lambda>(i, e). if P i e then snd (try_queue m e) else None) (s_clients s),
      s\<lparr>s_clients := map (\<lambda>(i, e). (i, if P i e then fst (try_queue m e) else e)) (s_clients s)\<rparr>)"

definition remove_client :: "client_id \<Rightarrow> shared \<Rightarrow> user_info option \<times> shared" where
  "remove_client client s =
     (user s client, s\<lparr>s_clients := AList.delete client (s_clients s)\<rparr>)"

fun drop_overflowed :: "client_id list \<Rightarrow> shared \<Rightarrow> shared" where
  "drop_overflowed [] s = s"
| "drop_overflowed (i # ids) s =
     (case remove_client i s of
        (None, s') \<Rightarrow> drop_overflowed ids s'
      | (Some _, s') \<Rightarrow>
          drop_overflowed ids (snd (queue_where (\<lambda>_ _. True) (UserLeft i Kicked) s')))"

definition send :: "client_id \<Rightarrow> server_control \<Rightarrow> shared \<Rightarrow> shared" where
  "send client m s =
     (let (overflowed, s') = queue_where (\<lambda>i _. i = client) m s in drop_overflowed overflowed s')"

definition broadcast :: "server_control \<Rightarrow> client_id option \<Rightarrow> shared \<Rightarrow> shared" where
  "broadcast m except s =
     (let (overflowed, s') = queue_where (\<lambda>i _. Some i \<noteq> except) m s
      in drop_overflowed overflowed s')"

definition broadcast_filtered ::
  "ext \<Rightarrow> server_control \<Rightarrow> channel_id \<Rightarrow> client_id option \<Rightarrow> shared \<Rightarrow> shared" where
  "broadcast_filtered cr m channel except s =
     (case map_of (s_channels s) channel of
        None \<Rightarrow> s
      | Some target \<Rightarrow>
          (let (overflowed, s') =
                 queue_where (\<lambda>i e. Some i \<noteq> except \<and> can_view cr s (c_info e) target) m s
           in drop_overflowed overflowed s'))"

definition disconnect_all :: "disconnect_reason \<Rightarrow> shared \<Rightarrow> shared" where
  "disconnect_all reason s =
     s\<lparr>s_clients := map (\<lambda>(i, e). (i, fst (try_queue (UserLeft i reason) e))) (s_clients s)\<rparr>"

section \<open>Voice\<close>

definition relay_voice :: "ext \<Rightarrow> client_id \<Rightarrow> voice_upstream \<Rightarrow> shared \<Rightarrow> shared" where
  "relay_voice cr from packet s =
     (case map_of (s_clients s) from of
        None \<Rightarrow> s
      | Some sender \<Rightarrow>
          if self_muted (ui_voice (c_info sender)) \<or> server_muted (ui_voice (c_info sender)) then s
          else case ui_channel (c_info sender) of
            None \<Rightarrow> s
          | Some channel \<Rightarrow>
              (case map_of (s_channels s) channel of
                 None \<Rightarrow> s
               | Some room \<Rightarrow>
                   if \<not> has_voice (ch_kind room) then s
                   else if \<not> contains (member_bits cr s (c_info sender) (Some (ch_overwrites room)))
                               SPEAK then s
                   else
                     let datagram = downstream_encode (into_downstream packet from)
                     in s\<lparr>s_clients := map (\<lambda>(i, e).
                          (i, if i = from \<or> ui_channel (c_info e) \<noteq> Some channel \<or>
                                 self_deafened (ui_voice (c_info e))
                              then e
                              else e\<lparr>c_datagrams := c_datagrams e @ [datagram]\<rparr>)) (s_clients s)\<rparr>))"

section \<open>Membership\<close>

definition fresh_info :: "ext \<Rightarrow> u64 \<Rightarrow> public_identity \<Rightarrow> ustring \<Rightarrow> shared \<Rightarrow> user_info" where
  "fresh_info cr now ident nickname s =
     \<lparr>ui_client_id = s_next_client_id s, ui_identity = ident, ui_nickname = nickname,
      ui_channel = None, ui_voice = voice_state_default, ui_connected_at = now,
      ui_roles = member_roles s (pi_fingerprint cr ident),
      ui_owner = is_owner s (pi_fingerprint cr ident)\<rparr>"

definition admit ::
  "ext \<Rightarrow> u64 \<Rightarrow> public_identity \<Rightarrow> ustring \<Rightarrow> shared \<Rightarrow> (auth_failure + user_info) \<times> shared" where
  "admit cr now ident nickname s =
     (let level = pi_security_level cr ident in
      if level < unat (min_security_level (s_config s)) then
        (Inl (SecurityLevelTooLow (min_security_level (s_config s)) (of_nat level)), s)
      else case sanitize_nickname nickname (unat (max_nickname_len (s_limits s))) of
        None \<Rightarrow>
          (Inl (NicknameRejected (u ''nickname must contain at least one printable character'')), s)
      | Some nickname \<Rightarrow>
          if length (s_clients s) \<ge> unat (max_users (s_config s)) then (Inl ServerFull, s)
          else
            let info = fresh_info cr now ident nickname s
            in (Inr info,
                s\<lparr>s_next_client_id := max (s_next_client_id s + 1) 1,
                  s_clients := AList.update (s_next_client_id s)
                    \<lparr>c_info = info, c_queue = [], c_gone = False, c_datagrams = []\<rparr>
                    (s_clients s)\<rparr>))"

text \<open>\<open>get_mut\<close> on a roster entry's info.\<close>

definition modify_info :: "client_id \<Rightarrow> (user_info \<Rightarrow> user_info) \<Rightarrow> shared \<Rightarrow> shared" where
  "modify_info client f s =
     s\<lparr>s_clients := AList.map_entry client (\<lambda>e. e\<lparr>c_info := f (c_info e)\<rparr>) (s_clients s)\<rparr>"

definition occupants :: "client_id \<Rightarrow> channel_id \<Rightarrow> shared \<Rightarrow> nat" where
  "occupants client channel s =
     length (filter (\<lambda>(_, e). ui_channel (c_info e) = Some channel \<and>
       ui_client_id (c_info e) \<noteq> client) (s_clients s))"

definition room_full :: "client_id \<Rightarrow> channel \<Rightarrow> channel_id \<Rightarrow> shared \<Rightarrow> bool" where
  "room_full client target channel s \<longleftrightarrow>
     (case ch_max_users target of None \<Rightarrow> False
      | Some mx \<Rightarrow> occupants client channel s \<ge> unat mx)"

definition join_channel ::
  "ext \<Rightarrow> client_id \<Rightarrow> channel_id \<Rightarrow> shared \<Rightarrow> (error_code + channel_id option) \<times> shared" where
  "join_channel cr client channel s =
     (case map_of (s_channels s) channel of
        None \<Rightarrow> (Inl NoSuchChannel, s)
      | Some target \<Rightarrow>
          (case map_of (s_clients s) client of
             None \<Rightarrow> (Inl NotAuthenticated, s)
           | Some me \<Rightarrow>
               let bits = member_bits cr s (c_info me) (Some (ch_overwrites target)) in
               if \<not> contains bits VIEW_CHANNEL then (Inl NoSuchChannel, s)
               else if \<not> has_voice (ch_kind target) then (Inl NotPermitted, s)
               else if \<not> contains bits CONNECT then (Inl NotPermitted, s)
               else if room_full client target channel s then (Inl ChannelFull, s)
               else (Inr (ui_channel (c_info me)),
                     modify_info client (\<lambda>i. i\<lparr>ui_channel := Some channel\<rparr>) s)))"

definition leave_channel :: "client_id \<Rightarrow> shared \<Rightarrow> channel_id option \<times> shared" where
  "leave_channel client s =
     (Option.bind (user s client) ui_channel, modify_info client (\<lambda>i. i\<lparr>ui_channel := None\<rparr>) s)"

definition voice_update :: "bool \<Rightarrow> bool \<Rightarrow> user_info \<Rightarrow> user_info" where
  "voice_update muted deafened i =
     (let v = (ui_voice i)\<lparr>self_muted := muted, self_deafened := deafened\<rparr>;
          v = (if deafened then v\<lparr>self_muted := True\<rparr> else v)
      in i\<lparr>ui_voice := v\<rparr>)"

definition set_voice_state ::
  "client_id \<Rightarrow> bool \<Rightarrow> bool \<Rightarrow> shared \<Rightarrow> user_info option \<times> shared" where
  "set_voice_state client muted deafened s =
     (let s' = modify_info client (voice_update muted deafened) s in (user s' client, s'))"

definition set_nickname :: "client_id \<Rightarrow> ustring \<Rightarrow> shared \<Rightarrow> user_info option \<times> shared" where
  "set_nickname client nickname s =
     (case sanitize_nickname nickname (unat (max_nickname_len (s_limits s))) of
        None \<Rightarrow> (None, s)
      | Some cleaned \<Rightarrow>
          let s' = modify_info client (\<lambda>i. i\<lparr>ui_nickname := cleaned\<rparr>) s in (user s' client, s'))"

definition set_server_muted :: "client_id \<Rightarrow> bool \<Rightarrow> shared \<Rightarrow> user_info option \<times> shared" where
  "set_server_muted client muted s =
     (let s' = modify_info client (\<lambda>i. i\<lparr>ui_voice := (ui_voice i)\<lparr>server_muted := muted\<rparr>\<rparr>) s
      in (user s' client, s'))"

definition force_move ::
  "client_id \<Rightarrow> channel_id option \<Rightarrow> shared \<Rightarrow> (error_code + channel_id option) \<times> shared" where
  "force_move client to s =
     (case (case to of
              None \<Rightarrow> None
            | Some channel \<Rightarrow>
                (case map_of (s_channels s) channel of
                   None \<Rightarrow> Some NoSuchChannel
                 | Some target \<Rightarrow>
                     if \<not> has_voice (ch_kind target) then Some NotPermitted
                     else if room_full client target channel s then Some ChannelFull
                     else None)) of
        Some e \<Rightarrow> (Inl e, s)
      | None \<Rightarrow>
          (case map_of (s_clients s) client of
             None \<Rightarrow> (Inl NotAuthenticated, s)
           | Some entry \<Rightarrow>
               (Inr (ui_channel (c_info entry)), modify_info client (\<lambda>i. i\<lparr>ui_channel := to\<rparr>) s)))"

definition eject ::
  "client_id \<Rightarrow> disconnect_reason \<Rightarrow> shared \<Rightarrow> connected_client option \<times> shared" where
  "eject victim reason s =
     (case map_of (s_clients s) victim of
        None \<Rightarrow> (None, s)
      | Some entry \<Rightarrow>
          (let entry' = fst (try_queue (UserLeft victim reason) entry);
               s' = s\<lparr>s_clients := AList.delete victim (s_clients s)\<rparr>
           in (Some entry', broadcast (UserLeft victim reason) None s')))"

definition close_transport :: "client_id \<Rightarrow> u32 \<Rightarrow> bytes \<Rightarrow> shared \<Rightarrow> shared" where
  "close_transport client code reason s = s\<lparr>s_closed := s_closed s @ [(client, code, reason)]\<rparr>"

section \<open>Messages\<close>

definition next_message_id :: "shared \<Rightarrow> message_id \<times> shared" where
  "next_message_id s = (s_next_message_id s, s\<lparr>s_next_message_id := s_next_message_id s + 1\<rparr>)"

definition resume_message_ids_after :: "message_id \<Rightarrow> shared \<Rightarrow> shared" where
  "resume_message_ids_after highest s =
     s\<lparr>s_next_message_id := max (s_next_message_id s) (highest + 1)\<rparr>"

definition attach_store :: "store \<Rightarrow> shared \<Rightarrow> shared" where
  "attach_store st s = s\<lparr>s_store := Some st\<rparr>"

definition build_message ::
  "ext \<Rightarrow> u64 \<Rightarrow> user_info \<Rightarrow> channel_id \<Rightarrow> ustring \<Rightarrow> message_id option \<Rightarrow> shared \<Rightarrow>
     chat_message \<times> shared" where
  "build_message cr now author channel content reply_to s =
     (let (i, s') = next_message_id s
      in (\<lparr>cm_id = i, cm_channel = channel, cm_author = Some (ui_client_id author),
           cm_author_fingerprint = pi_fingerprint cr (ui_identity author),
           cm_author_nickname = ui_nickname author, cm_sent_at = now, cm_edited_at = None,
           cm_content = content, cm_reply_to = reply_to, cm_attachments = [],
           cm_reactions = []\<rparr>, s'))"

section \<open>Permission inputs\<close>

definition swap_perm_state :: "perm_state \<Rightarrow> shared \<Rightarrow> shared" where
  "swap_perm_state next s = s\<lparr>s_perms := next\<rparr>"

definition visible_ids_by_client :: "ext \<Rightarrow> shared \<Rightarrow> (client_id \<times> channel_id list) list" where
  "visible_ids_by_client cr s =
     map (\<lambda>(_, e). (ui_client_id (c_info e), map ch_id (visible_channels cr s (c_info e))))
       (s_clients s)"

text \<open>The frames one client is sent, and the loop over the clients.\<close>

definition resync_frames ::
  "shared \<Rightarrow> channel_id list \<Rightarrow> channel_id list \<Rightarrow> channel_id list \<Rightarrow> server_control list" where
  "resync_frames s was now touched =
     List.map_filter (\<lambda>i. map_option ChannelCreated (map_of (s_channels s) i))
       (filter (\<lambda>i. i \<notin> set was) now) @
     map ChannelRemoved (filter (\<lambda>i. i \<notin> set now) was) @
     List.map_filter (\<lambda>i. if i \<in> set was \<and> i \<in> set now
         then map_option ChannelUpdated (map_of (s_channels s) i) else None) touched"

definition resync_visibility ::
  "ext \<Rightarrow> (client_id \<times> channel_id list) list \<Rightarrow> channel_id list \<Rightarrow> shared \<Rightarrow> shared" where
  "resync_visibility cr before touched s =
     (let after = map_of (rev (visible_ids_by_client cr s))
      in fold (\<lambda>(client, was) t.
           case after client of
             None \<Rightarrow> t
           | Some now \<Rightarrow> fold (send client) (resync_frames s was now touched) t) before s)"

definition update_live_member_roles ::
  "ext \<Rightarrow> fingerprint \<Rightarrow> role_id list \<Rightarrow> shared \<Rightarrow> user_info list \<times> shared" where
  "update_live_member_roles cr fp roles s =
     (let f = (\<lambda>e. if ui_fingerprint cr (c_info e) = fp
                    then e\<lparr>c_info := (c_info e)\<lparr>ui_roles := roles\<rparr>\<rparr> else e)
      in (map (c_info \<circ> f \<circ> snd)
            (filter (\<lambda>(_, e). ui_fingerprint cr (c_info e) = fp) (s_clients s)),
          s\<lparr>s_clients := map (\<lambda>(i, e). (i, f e)) (s_clients s)\<rparr>))"

definition strip_live_role :: "role_id \<Rightarrow> shared \<Rightarrow> user_info list \<times> shared" where
  "strip_live_role r s =
     (let f = (\<lambda>e. if r \<in> set (ui_roles (c_info e))
                    then e\<lparr>c_info := (c_info e)\<lparr>ui_roles := filter (\<lambda>x. x \<noteq> r)
                           (ui_roles (c_info e))\<rparr>\<rparr> else e)
      in (map (c_info \<circ> f \<circ> snd)
            (filter (\<lambda>(_, e). r \<in> set (ui_roles (c_info e))) (s_clients s)),
          s\<lparr>s_clients := map (\<lambda>(i, e). (i, f e)) (s_clients s)\<rparr>))"

definition set_channel_overwrite_mem :: "channel_id \<Rightarrow> overwrite \<Rightarrow> shared \<Rightarrow> bool \<times> shared" where
  "set_channel_overwrite_mem channel ow s =
     (map_of (s_channels s) channel \<noteq> None,
      s\<lparr>s_channels := AList.map_entry channel (\<lambda>c. c\<lparr>ch_overwrites :=
          filter (\<lambda>w. o_target w \<noteq> o_target ow) (ch_overwrites c) @ [ow]\<rparr>) (s_channels s)\<rparr>)"

definition remove_channel_overwrite :: "channel_id \<Rightarrow> overwrite_target \<Rightarrow> shared \<Rightarrow> bool \<times> shared"
where
  "remove_channel_overwrite channel target s =
     (map_of (s_channels s) channel \<noteq> None,
      s\<lparr>s_channels := AList.map_entry channel (\<lambda>c. c\<lparr>ch_overwrites :=
          filter (\<lambda>w. o_target w \<noteq> target) (ch_overwrites c)\<rparr>) (s_channels s)\<rparr>)"

definition strip_role_overwrites :: "role_id \<Rightarrow> shared \<Rightarrow> channel_id list \<times> shared" where
  "strip_role_overwrites r s =
     (map (ch_id \<circ> snd)
        (filter (\<lambda>(_, c). \<exists>w\<in>set (ch_overwrites c). o_target w = TRole r) (s_channels s)),
      s\<lparr>s_channels := map (\<lambda>(i, c).
          (i, if \<exists>w\<in>set (ch_overwrites c). o_target w = TRole r
              then c\<lparr>ch_overwrites := filter (\<lambda>w. o_target w \<noteq> TRole r) (ch_overwrites c)\<rparr>
              else c)) (s_channels s)\<rparr>)"

section \<open>Channels\<close>

definition next_channel_id :: "shared \<Rightarrow> channel_id" where
  "next_channel_id s =
     (if s_channels s = [] then 0 else Max (set (map fst (s_channels s)))) + 1"

text \<open>The parent walk of \<open>parent_would_cycle\<close>; no result when it never ends.\<close>

partial_function (option) parent_walk ::
  "(channel_id, channel) btree_map \<Rightarrow> channel_id \<Rightarrow> channel_id option \<Rightarrow> bool option" where
  "parent_walk chans child cursor =
     (case cursor of
        None \<Rightarrow> Some False
      | Some i \<Rightarrow>
          if i = child then Some True
          else parent_walk chans child (Option.bind (map_of chans i) ch_parent))"

definition parent_would_cycle :: "channel_id \<Rightarrow> channel_id option \<Rightarrow> shared \<Rightarrow> bool option" where
  "parent_would_cycle child parent s = parent_walk (s_channels s) child parent"

definition insert_channel_mem :: "channel \<Rightarrow> shared \<Rightarrow> shared" where
  "insert_channel_mem c s = s\<lparr>s_channels := bt_insert (ch_id c) c (s_channels s)\<rparr>"

definition update_channel_mem :: "channel \<Rightarrow> shared \<Rightarrow> bool \<times> shared" where
  "update_channel_mem c s =
     (map_of (s_channels s) (ch_id c) \<noteq> None,
      s\<lparr>s_channels := AList.map_entry (ch_id c)
          (\<lambda>existing. c\<lparr>ch_overwrites := ch_overwrites existing\<rparr>) (s_channels s)\<rparr>)"

definition remove_channel_mem :: "channel_id \<Rightarrow> shared \<Rightarrow> user_info list \<times> shared" where
  "remove_channel_mem channel s =
     (if map_of (s_channels s) channel = None then ([], s)
      else
        let f = (\<lambda>e. if ui_channel (c_info e) = Some channel
                      then e\<lparr>c_info := (c_info e)\<lparr>ui_channel := None\<rparr>\<rparr> else e)
        in (map (c_info \<circ> f \<circ> snd)
              (filter (\<lambda>(_, e). ui_channel (c_info e) = Some channel) (s_clients s)),
            s\<lparr>s_channels := AList.delete channel (s_channels s),
              s_clients := map (\<lambda>(i, e). (i, f e)) (s_clients s)\<rparr>))"

section \<open>A sample server\<close>

text \<open>
  A small concrete server: client 1 is the owner, client 2 a moderator, client 3 an ordinary
  member; all stand in the voice room 1, and channel 2 is a text channel hidden from @everyone.
\<close>

definition sample_key :: "client_id \<Rightarrow> bytes" where
  "sample_key i = replicate 32 (ucast i)"

definition sample_client :: "client_id \<Rightarrow> role_id list \<Rightarrow> bool \<Rightarrow> connected_client" where
  "sample_client i roles owner =
     \<lparr>c_info = \<lparr>ui_client_id = i, ui_identity = \<lparr>pi_key = sample_key i, pi_counter = 0\<rparr>,
        ui_nickname = u ''nick'', ui_channel = Some 1, ui_voice = voice_state_default,
        ui_connected_at = 0, ui_roles = roles, ui_owner = owner\<rparr>,
      c_queue = [], c_gone = False, c_datagrams = []\<rparr>"

definition sample_room :: channel where
  "sample_room = \<lparr>ch_id = 1, ch_parent = None, ch_name = u ''General'', ch_topic = [],
     ch_kind = VoiceAndText, ch_max_users = Some 3, ch_order = 0, ch_overwrites = []\<rparr>"

definition sample_hidden :: channel where
  "sample_hidden = \<lparr>ch_id = 2, ch_parent = None, ch_name = u ''Staff'', ch_topic = [],
     ch_kind = Text, ch_max_users = None, ch_order = 1,
     ch_overwrites = [\<lparr>o_target = TRole EVERYONE_ROLE_ID, o_allow = 0, o_deny = VIEW_CHANNEL\<rparr>]\<rparr>"

definition sample_db :: db where
  "sample_db = empty_db\<lparr>t_roles := map role_to_row default_roles,
     t_channels := [channel_to_row sample_room, channel_to_row sample_hidden]\<rparr>"

definition sample_shared :: shared where
  "sample_shared =
     (shared_new sample_ext
        (config_default\<lparr>min_security_level := 0,
           cfg_owner := Some (fingerprint_to_string sample_ext (sample_key 1))\<rparr>)
        \<lparr>id_secret = replicate 32 9, id_counter = 0\<rparr> (replicate 32 8)
        [sample_room, sample_hidden]
        \<lparr>ps_roles = default_roles, ps_members = [(sample_key 2, [1])]\<rparr>)
     \<lparr>s_next_client_id := 4,
      s_store := Some (store_with sample_db),
      s_clients := [(1, sample_client 1 [] True), (2, sample_client 2 [1] False),
                    (3, sample_client 3 [] False)]\<rparr>"

lemma length_sample_key [simp]: "length (sample_key i) = 32"
  by (simp add: sample_key_def)

lemma sample_shared_simps [simp]:
  "s_clients sample_shared = [(1, sample_client 1 [] True), (2, sample_client 2 [1] False),
                    (3, sample_client 3 [] False)]"
  "s_channels sample_shared = [(1, sample_room), (2, sample_hidden)]"
  "s_perms sample_shared = \<lparr>ps_roles = default_roles, ps_members = [(sample_key 2, [1])]\<rparr>"
  "s_owner sample_shared = Some (sample_key 1)"
  "s_store sample_shared = Some (store_with sample_db)"
  "s_limits sample_shared = server_limits_default"
  "max_users (s_config sample_shared) = 64"
  by (simp_all add: sample_shared_def shared_new_def sample_room_def sample_hidden_def
      fingerprint_parse_to_string [OF sample_base32] server_limits_default_def config_default_def)

end
