(* ===== verification/Pickle_Fanout.thy ===== *)
theory Pickle_Fanout
  imports Pickle_State
begin

text \<open>
  What fan-out does to the state. Sending can only lengthen control queues and take clients that
  overflow off the roster (\<open>quiet\<close>); everything the invariants of the later theories speak of
  besides is left alone, which the locale \<open>stable_invariant\<close> turns into one preservation lemma per
  sending operation. Delivery itself is exact: the chosen clients get the frame once, in order,
  the others get nothing but departures, and precisely the chosen clients whose queue was full are
  dropped.
\<close>

section \<open>Quiet steps\<close>

type_synonym entry_fn = "client_id \<Rightarrow> connected_client \<Rightarrow> connected_client option"

definition only_queues :: "entry_fn \<Rightarrow> bool" where
  "only_queues f \<longleftrightarrow> (\<forall>i e e'. f i e = Some e' \<longrightarrow>
     (\<exists>q. e' = e\<lparr>c_queue := c_queue e @ q\<rparr>) \<and>
     (length (c_queue e) \<le> CONTROL_QUEUE_DEPTH \<longrightarrow> length (c_queue e') \<le> CONTROL_QUEUE_DEPTH))"

definition map_entries ::
  "entry_fn \<Rightarrow> (client_id, connected_client) hash_map \<Rightarrow> (client_id, connected_client) hash_map" where
  "map_entries f m = List.map_filter (\<lambda>(i, e). map_option (Pair i) (f i e)) m"

definition quiet :: "shared \<Rightarrow> shared \<Rightarrow> bool" where
  "quiet s s' \<longleftrightarrow> (\<exists>f. only_queues f \<and> s' = s\<lparr>s_clients := map_entries f (s_clients s)\<rparr>)"

lemma map_entries_simps [simp]:
  "map_entries f [] = []"
  "map_entries f ((i, e) # m) =
     (case f i e of None \<Rightarrow> map_entries f m | Some e' \<Rightarrow> (i, e') # map_entries f m)"
  by (simp_all add: map_entries_def map_filter_simps split: option.splits)

lemma map_entries_comp:
  "map_entries g (map_entries f m) = map_entries (\<lambda>i e. Option.bind (f i e) (g i)) m"
  by (induction m) (auto split: option.splits)

lemma map_entries_Some: "map_entries (\<lambda>i e. Some (g i e)) m = map (\<lambda>(i, e). (i, g i e)) m"
  by (induction m) auto

lemma map_entries_id [simp]: "map_entries (\<lambda>i. Some) m = m"
  by (induction m) auto

lemma map_entries_delete: "map_entries (\<lambda>i e. if i = k then None else Some e) m = AList.delete k m"
  by (induction m) auto

lemma set_map_entries:
  "(i, e') \<in> set (map_entries f m) \<longleftrightarrow> (\<exists>e. (i, e) \<in> set m \<and> f i e = Some e')"
  by (induction m) (auto split: option.splits)

lemma keys_map_entries: "fst ` set (map_entries f m) \<subseteq> fst ` set m"
  by (auto simp: set_map_entries image_iff) force

lemma distinct_map_entries: "distinct (map fst m) \<Longrightarrow> distinct (map fst (map_entries f m))"
proof (induction m)
  case (Cons p m)
  then show ?case
    using keys_map_entries [of f m] by (cases p) (auto split: option.splits)
qed simp

lemma length_map_entries: "length (map_entries f m) \<le> length m"
  by (induction m) (auto split: option.splits)

lemma map_of_map_entries:
  "distinct (map fst m) \<Longrightarrow> map_of (map_entries f m) i = Option.bind (map_of m i) (f i)"
proof (induction m)
  case (Cons p m)
  obtain k e where p: "p = (k, e)" by (cases p)
  have "map_of (map_entries f m) k = None"
    using Cons.prems keys_map_entries [of f m] by (force simp: p map_of_eq_None_iff)
  then show ?case using Cons by (auto simp: p split: option.splits)
qed simp

lemma only_queues_id: "only_queues (\<lambda>i. Some)"
  by (auto simp: only_queues_def intro: exI [of _ "[]"])

lemma only_queues_comp:
  assumes "only_queues f" and "only_queues g"
  shows "only_queues (\<lambda>i e. Option.bind (f i e) (g i))"
  unfolding only_queues_def
proof (intro allI impI)
  fix i e e''
  assume "Option.bind (f i e) (g i) = Some e''"
  then obtain e' where e': "f i e = Some e'" "g i e' = Some e''" by (auto simp: bind_eq_Some_conv)
  obtain q where q: "e' = e\<lparr>c_queue := c_queue e @ q\<rparr>"
    using assms(1) e'(1) unfolding only_queues_def by blast
  obtain q' where q': "e'' = e'\<lparr>c_queue := c_queue e' @ q'\<rparr>"
    using assms(2) e'(2) unfolding only_queues_def by blast
  have "e'' = e\<lparr>c_queue := c_queue e @ q @ q'\<rparr>" by (simp add: q q')
  moreover have "length (c_queue e) \<le> CONTROL_QUEUE_DEPTH \<Longrightarrow> length (c_queue e'') \<le> CONTROL_QUEUE_DEPTH"
    using assms e' unfolding only_queues_def by blast
  ultimately show "(\<exists>q. e'' = e\<lparr>c_queue := c_queue e @ q\<rparr>) \<and>
    (length (c_queue e) \<le> CONTROL_QUEUE_DEPTH \<longrightarrow> length (c_queue e'') \<le> CONTROL_QUEUE_DEPTH)" by blast
qed

lemma quiet_refl [simp, quiet_intros]: "quiet s s"
  unfolding quiet_def by (rule exI [of _ "\<lambda>i. Some"]) (simp add: only_queues_id)

lemma quiet_trans [trans]:
  assumes "quiet s t" and "quiet t v"
  shows "quiet s v"
proof -
  obtain f g where "only_queues f" "t = s\<lparr>s_clients := map_entries f (s_clients s)\<rparr>"
    "only_queues g" "v = t\<lparr>s_clients := map_entries g (s_clients t)\<rparr>"
    using assms unfolding quiet_def by blast
  then show ?thesis
    unfolding quiet_def
    by (intro exI [of _ "\<lambda>i e. Option.bind (f i e) (g i)"]) (simp add: only_queues_comp map_entries_comp)
qed

lemma quietD:
  assumes "quiet s s'"
  shows "s' = s\<lparr>s_clients := s_clients s'\<rparr>"
    and "(i, e') \<in> set (s_clients s') \<Longrightarrow> \<exists>e q. (i, e) \<in> set (s_clients s) \<and>
           e' = e\<lparr>c_queue := c_queue e @ q\<rparr> \<and>
           (length (c_queue e) \<le> CONTROL_QUEUE_DEPTH \<longrightarrow> length (c_queue e') \<le> CONTROL_QUEUE_DEPTH)"
    and "distinct (map fst (s_clients s)) \<Longrightarrow> distinct (map fst (s_clients s'))"
    and "length (s_clients s') \<le> length (s_clients s)"
proof -
  obtain f where f: "only_queues f" and s': "s' = s\<lparr>s_clients := map_entries f (s_clients s)\<rparr>"
    using assms unfolding quiet_def by blast
  show "s' = s\<lparr>s_clients := s_clients s'\<rparr>" by (simp add: s')
  show "distinct (map fst (s_clients s)) \<Longrightarrow> distinct (map fst (s_clients s'))"
    by (simp add: s' distinct_map_entries)
  show "length (s_clients s') \<le> length (s_clients s)" by (simp add: s' length_map_entries)
  assume "(i, e') \<in> set (s_clients s')"
  then obtain e where e: "(i, e) \<in> set (s_clients s)" "f i e = Some e'"
    by (auto simp: s' set_map_entries)
  then show "\<exists>e q. (i, e) \<in> set (s_clients s) \<and> e' = e\<lparr>c_queue := c_queue e @ q\<rparr> \<and>
           (length (c_queue e) \<le> CONTROL_QUEUE_DEPTH \<longrightarrow> length (c_queue e') \<le> CONTROL_QUEUE_DEPTH)"
    using f unfolding only_queues_def by blast
qed

lemma quiet_fields:
  assumes "quiet s s'"
  shows "s_config s' = s_config s" "s_identity s' = s_identity s" "s_cert_hash s' = s_cert_hash s"
    "s_limits s' = s_limits s" "s_perms s' = s_perms s" "s_owner s' = s_owner s"
    "s_store s' = s_store s" "s_next_client_id s' = s_next_client_id s"
    "s_channels s' = s_channels s" "s_next_message_id s' = s_next_message_id s"
    "s_closed s' = s_closed s"
  using assms unfolding quiet_def by auto

section \<open>The sending operations are quiet\<close>

definition queue_one :: "(client_id \<Rightarrow> connected_client \<Rightarrow> bool) \<Rightarrow> server_control \<Rightarrow> entry_fn" where
  "queue_one P m i e = Some (if P i e then fst (try_queue m e) else e)"

lemma only_queues_queue_one: "only_queues (queue_one P m)"
  unfolding only_queues_def queue_one_def try_queue_def
  by (auto intro: exI [of _ "[]"] exI [of _ "[m]"])

lemma queue_where_clients: "snd (queue_where P m s) = s\<lparr>s_clients := map_entries (queue_one P m) (s_clients s)\<rparr>"
  by (simp add: queue_where_def queue_one_def [abs_def] map_entries_Some)

lemma quiet_queue_where [quiet_intros]: "quiet s (snd (queue_where P m s))"
  unfolding quiet_def queue_where_clients using only_queues_queue_one by blast

lemma quiet_delete [quiet_intros]: "quiet s (s\<lparr>s_clients := AList.delete i (s_clients s)\<rparr>)"
  unfolding quiet_def
  by (rule exI [of _ "\<lambda>k e. if k = i then None else Some e"])
    (auto simp: only_queues_def map_entries_delete intro: exI [of _ "[]"])

lemma quiet_remove_client [quiet_intros]: "quiet s (snd (remove_client i s))"
  by (simp add: remove_client_def quiet_delete)

lemma quiet_drop_overflowed [quiet_intros]: "quiet s (drop_overflowed ids s)"
proof (induction ids arbitrary: s)
  case (Cons i ids)
  let ?r = "snd (remove_client i s)"
  have "quiet s (drop_overflowed ids ?r)" by (rule quiet_trans [OF quiet_remove_client Cons.IH])
  moreover have "quiet s (drop_overflowed ids (snd (queue_where (\<lambda>_ _. True) (UserLeft i Kicked) ?r)))"
    by (rule quiet_trans [OF quiet_remove_client quiet_trans [OF quiet_queue_where Cons.IH]])
  ultimately show ?case by (cases "remove_client i s") (auto split: option.splits)
qed simp

text \<open>The common shape of \<open>send\<close> and the two broadcasts.\<close>

definition fan_out :: "(client_id \<Rightarrow> connected_client \<Rightarrow> bool) \<Rightarrow> server_control \<Rightarrow> shared \<Rightarrow> shared" where
  "fan_out P m s = (let (overflowed, s') = queue_where P m s in drop_overflowed overflowed s')"

lemma send_fan_out: "send client m = fan_out (\<lambda>i _. i = client) m"
  by (rule ext) (simp add: send_def fan_out_def)

lemma broadcast_fan_out: "broadcast m except = fan_out (\<lambda>i _. Some i \<noteq> except) m"
  by (rule ext) (simp add: broadcast_def fan_out_def)

lemma broadcast_filtered_fan_out:
  "broadcast_filtered cr m channel except s =
     (case map_of (s_channels s) channel of None \<Rightarrow> s
      | Some target \<Rightarrow> fan_out (\<lambda>i e. Some i \<noteq> except \<and> can_view cr s (c_info e) target) m s)"
  by (auto simp: broadcast_filtered_def fan_out_def split: option.splits)

lemma quiet_fan_out [quiet_intros]: "quiet s (fan_out P m s)"
  unfolding fan_out_def
  by (metis (mono_tags, lifting) case_prod_beta quiet_drop_overflowed quiet_queue_where quiet_trans)

lemma quiet_send [quiet_intros]: "quiet s (send client m s)"
  by (simp add: send_fan_out quiet_fan_out)

lemma quiet_broadcast [quiet_intros]: "quiet s (broadcast m except s)"
  by (simp add: broadcast_fan_out quiet_fan_out)

lemma quiet_broadcast_filtered [quiet_intros]: "quiet s (broadcast_filtered cr m channel except s)"
  by (simp add: broadcast_filtered_fan_out quiet_fan_out split: option.splits)

lemma quiet_fold:
  assumes "\<And>x s. x \<in> set xs \<Longrightarrow> quiet s (f x s)"
  shows "quiet s (fold f xs s)"
  using assms
proof (induction xs arbitrary: s)
  case (Cons x xs)
  have "quiet s (f x s)" by (rule Cons.prems) simp
  also have "quiet (f x s) (fold f xs (f x s))" by (rule Cons.IH) (simp add: Cons.prems)
  finally show ?case by simp
qed simp

lemma quiet_resync_visibility [quiet_intros]: "quiet s (resync_visibility cr before touched s)"
  unfolding resync_visibility_def Let_def
  by (rule quiet_fold) (auto split: option.splits intro!: quiet_fold quiet_send)

lemma quiet_eject [quiet_intros]: "quiet s (snd (eject victim reason s))"
  using quiet_trans [OF quiet_delete quiet_broadcast]
  by (auto simp: eject_def Let_def split: option.splits)

lemma quiet_disconnect_all [quiet_intros]: "quiet s (disconnect_all reason s)"
proof -
  let ?f = "\<lambda>i e. Some (fst (try_queue (UserLeft i reason) e))"
  have "only_queues ?f"
    unfolding only_queues_def try_queue_def
    by (auto intro: exI [of _ "[]"] exI [of _ "[_]"])
  then show ?thesis
    unfolding quiet_def disconnect_all_def map_entries_Some [symmetric] by blast
qed

section \<open>Invariants that fan-out cannot disturb\<close>

locale stable_invariant =
  fixes I :: "shared \<Rightarrow> bool"
  assumes stable: "I s \<Longrightarrow> quiet s s' \<Longrightarrow> I s'"
begin

lemma send_keeps: "I s \<Longrightarrow> I (send client m s)"
  by (erule stable) (rule quiet_send)

lemma broadcast_keeps: "I s \<Longrightarrow> I (broadcast m except s)"
  by (erule stable) (rule quiet_broadcast)

lemma broadcast_filtered_keeps: "I s \<Longrightarrow> I (broadcast_filtered cr m channel except s)"
  by (erule stable) (rule quiet_broadcast_filtered)

lemma resync_keeps: "I s \<Longrightarrow> I (resync_visibility cr before touched s)"
  by (erule stable) (rule quiet_resync_visibility)

lemma remove_keeps: "I s \<Longrightarrow> I (snd (remove_client client s))"
  by (erule stable) (rule quiet_remove_client)

lemma eject_keeps: "I s \<Longrightarrow> I (snd (eject victim reason s))"
  by (erule stable) (rule quiet_eject)

lemma disconnect_all_keeps: "I s \<Longrightarrow> I (disconnect_all reason s)"
  by (erule stable) (rule quiet_disconnect_all)

lemma broadcasts_keep: "I s \<Longrightarrow> I (fold (\<lambda>x. broadcast (f x) except) xs s)"
  by (erule stable) (auto intro: quiet_fold quiet_broadcast)

end

section \<open>Delivery is exact\<close>

definition keyed :: "shared \<Rightarrow> bool" where
  "keyed s \<longleftrightarrow> distinct (map fst (s_clients s)) \<and>
     (\<forall>(i, e)\<in>set (s_clients s). ui_client_id (c_info e) = i)"

lemma keyed_quiet: "keyed s \<Longrightarrow> quiet s s' \<Longrightarrow> keyed s'"
  using quietD(2,3) [of s s'] unfolding keyed_def by fastforce

interpretation keyed: stable_invariant keyed
  by unfold_locales (rule keyed_quiet)

lemma keyed_lookup: "keyed s \<Longrightarrow> map_of (s_clients s) i = Some e \<Longrightarrow> ui_client_id (c_info e) = i"
  unfolding keyed_def by (auto dest: map_of_SomeD)

text \<open>Departure notices, the only frames fan-out adds of its own.\<close>

definition departures :: "client_id set \<Rightarrow> server_control list \<Rightarrow> bool" where
  "departures ids ls \<longleftrightarrow> set ls \<subseteq> (\<lambda>j. UserLeft j Kicked) ` ids"

lemma departures_Nil [simp]: "departures ids []"
  by (simp add: departures_def)

lemma drop_overflowed_lookup:
  assumes "keyed s"
  shows "case map_of (s_clients s) i of
     None \<Rightarrow> map_of (s_clients (drop_overflowed ids s)) i = None
   | Some e \<Rightarrow>
       if i \<in> set ids then map_of (s_clients (drop_overflowed ids s)) i = None
       else \<exists>ls. map_of (s_clients (drop_overflowed ids s)) i =
                  Some (e\<lparr>c_queue := c_queue e @ ls\<rparr>) \<and> departures (set ids) ls"
  using assms
proof (induction ids arbitrary: s)
  case Nil
  then show ?case by (auto split: option.splits intro!: exI [of _ "[]"])
next
  case (Cons k ids)
  let ?m = "UserLeft k Kicked"
  let ?r = "snd (remove_client k s)"
  let ?t = "if user s k = None then ?r else snd (queue_where (\<lambda>_ _. True) ?m ?r)"
  have unfold: "drop_overflowed (k # ids) s = drop_overflowed ids ?t"
    by (simp add: remove_client_def split: option.splits)
  have kr: "keyed ?r" by (rule keyed.remove_keeps [OF Cons.prems])
  then have kt: "keyed ?t" using keyed_quiet quiet_queue_where by auto
  have r: "map_of (s_clients ?r) i = (if i = k then None else map_of (s_clients s) i)"
    by (simp add: remove_client_def delete_conv')
  have d: "distinct (map fst (s_clients ?r))" using kr by (simp add: keyed_def)
  have t: "map_of (s_clients ?t) i = (if i = k then None else
      map_option (\<lambda>e. if user s k = None then e else fst (try_queue ?m e)) (map_of (s_clients s) i))"
    using r d by (cases "map_of (s_clients s) i") (auto simp: queue_where_clients map_of_map_entries queue_one_def)
  have q: "\<exists>ls. (if user s k = None then e else fst (try_queue ?m e)) = e\<lparr>c_queue := c_queue e @ ls\<rparr> \<and>
      departures {k} ls" for e
    by (auto simp: try_queue_def departures_def intro: exI [of _ "[]"] exI [of _ "[?m]"])
  show ?case
  proof (cases "i = k \<or> map_of (s_clients s) i = None")
    case True
    then have "map_of (s_clients ?t) i = None" using t by auto
    with Cons.IH [OF kt] True show ?thesis unfolding unfold by (auto split: option.splits)
  next
    case False
    then obtain e where e: "map_of (s_clients s) i = Some e" "i \<noteq> k" by auto
    obtain ls where ls: "map_of (s_clients ?t) i = Some (e\<lparr>c_queue := c_queue e @ ls\<rparr>)" "departures {k} ls"
      using q [of e] t e by auto
    from Cons.IH [OF kt] ls e show ?thesis
      unfolding unfold
      by (auto simp: departures_def split: if_splits intro!: exI [of _ "ls @ _"])
  qed
qed

text \<open>A chosen client whose queue is full overflows.\<close>

definition overflows :: "connected_client \<Rightarrow> bool" where
  "overflows e \<longleftrightarrow> \<not> c_gone e \<and> length (c_queue e) \<ge> CONTROL_QUEUE_DEPTH"

lemma queue_where_overflowed:
  assumes "keyed s" and "map_of (s_clients s) i = Some e"
  shows "i \<in> set (fst (queue_where P m s)) \<longleftrightarrow> P i e \<and> overflows e"
proof -
  have "i \<in> set (fst (queue_where P m s)) \<longleftrightarrow>
      (\<exists>k e. (k, e) \<in> set (s_clients s) \<and> P k e \<and> overflows e \<and> ui_client_id (c_info e) = i)"
    by (auto simp: queue_where_def map_filter_def try_queue_def overflows_def image_iff
        split: if_splits) force+
  also have "\<dots> \<longleftrightarrow> P i e \<and> overflows e"
  proof -
    have "(k, x) \<in> set (s_clients s) \<and> ui_client_id (c_info x) = i \<longleftrightarrow> k = i \<and> x = e" for k x
      using assms unfolding keyed_def
      by (metis (mono_tags, lifting) case_prodD map_of_SomeD map_of_is_SomeI option.inject)
    then show ?thesis by metis
  qed
  finally show ?thesis .
qed

lemma fan_out_lookup:
  assumes k: "keyed s" and e: "map_of (s_clients s) i = Some e"
  shows "if P i e \<and> overflows e then map_of (s_clients (fan_out P m s)) i = None
    else \<exists>ls. map_of (s_clients (fan_out P m s)) i =
           Some (e\<lparr>c_queue := c_queue e @ (if P i e \<and> \<not> c_gone e then [m] else []) @ ls\<rparr>) \<and>
         departures {j. \<exists>x. map_of (s_clients s) j = Some x \<and> P j x \<and> overflows x} ls"
proof -
  let ?ov = "fst (queue_where P m s)" and ?t = "snd (queue_where P m s)"
  have f: "fan_out P m s = drop_overflowed ?ov ?t" by (simp add: fan_out_def prod.case_eq_if)
  have t: "map_of (s_clients ?t) i = Some (if P i e then fst (try_queue m e) else e)"
    using k e by (simp add: queue_where_clients map_of_map_entries keyed_def queue_one_def)
  have "set ?ov \<subseteq> {j. \<exists>x. map_of (s_clients s) j = Some x \<and> P j x \<and> overflows x}"
    using k unfolding keyed_def
    by (force simp: queue_where_def map_filter_def try_queue_def overflows_def split: if_splits)
  then have dep: "departures (set ?ov) ls \<Longrightarrow>
      departures {j. \<exists>x. map_of (s_clients s) j = Some x \<and> P j x \<and> overflows x} ls" for ls
    unfolding departures_def by blast
  have kt: "keyed ?t" by (rule keyed_quiet [OF k quiet_queue_where])
  have "(if P i e then fst (try_queue m e) else e) =
      e\<lparr>c_queue := c_queue e @ (if P i e \<and> \<not> c_gone e then [m] else [])\<rparr>"
    if "\<not> (P i e \<and> overflows e)"
    using that by (auto simp: try_queue_def overflows_def)
  with drop_overflowed_lookup [OF kt, of ?ov i] t dep queue_where_overflowed [OF k e]
  show ?thesis unfolding f by (auto split: if_splits)
qed

text \<open>
  C14. A channel message reaches exactly the members who may view the channel: after the filtered
  broadcast, a client other than the excluded one that may view the channel holds the frame once,
  right behind what its queue held before; every other client got no such frame; the only further
  frames anyone finds are departures of clients that were cut off; and precisely the chosen
  clients whose queue was already full are off the roster.
\<close>

theorem messages_reach_exactly_the_viewers:
  assumes "keyed s" and "map_of (s_channels s) channel = Some target"
    and "map_of (s_clients s) i = Some e"
  shows "let chosen = (Some i \<noteq> except \<and> can_view cr s (c_info e) target);
             s' = broadcast_filtered cr m channel except s in
    if chosen \<and> \<not> c_gone e \<and> CONTROL_QUEUE_DEPTH \<le> length (c_queue e)
    then map_of (s_clients s') i = None
    else \<exists>ls. map_of (s_clients s') i =
             Some (e\<lparr>c_queue := c_queue e @ (if chosen \<and> \<not> c_gone e then [m] else []) @ ls\<rparr>) \<and>
           (\<forall>x\<in>set ls. \<exists>j. x = UserLeft j Kicked)"
proof -
  let ?P = "\<lambda>i e. Some i \<noteq> except \<and> can_view cr s (c_info e) target"
  have "broadcast_filtered cr m channel except s = fan_out ?P m s"
    by (simp add: broadcast_filtered_fan_out assms(2))
  then show ?thesis
    using fan_out_lookup [OF assms(1,3), of ?P m]
    by (auto simp: Let_def overflows_def departures_def split: if_splits)
qed

lemma sample_keyed: "keyed sample_shared"
  by (simp add: keyed_def sample_client_def)

theorem messages_reach_exactly_the_viewers_witness:
  "let chosen = (Some (2 :: client_id) \<noteq> Some 1 \<and> can_view sample_ext sample_shared (c_info (sample_client 2 [1] False)) sample_room);
             s' = broadcast_filtered sample_ext (STyping 1 1) 1 (Some 1) sample_shared in
    if chosen \<and> \<not> c_gone (sample_client 2 [1] False) \<and>
       CONTROL_QUEUE_DEPTH \<le> length (c_queue (sample_client 2 [1] False))
    then map_of (s_clients s') 2 = None
    else \<exists>ls. map_of (s_clients s') 2 =
             Some ((sample_client 2 [1] False)\<lparr>c_queue := c_queue (sample_client 2 [1] False) @
               (if chosen \<and> \<not> c_gone (sample_client 2 [1] False) then [STyping 1 1] else []) @ ls\<rparr>) \<and>
           (\<forall>x\<in>set ls. \<exists>j. x = UserLeft j Kicked)"
  by (rule messages_reach_exactly_the_viewers [OF sample_keyed]) simp_all

end
