(* ===== verification/Pickle_Roster.thy ===== *)
theory Pickle_Roster
  imports Pickle_Fanout
begin

text \<open>
  The invariants of the server state and what the operations of \<open>Shared\<close> promise. \<open>wf\<close> says that
  the maps are well keyed, the server is within capacity, queues are within their bound, everybody
  deafened is muted, nicknames are clean, and every occupied channel exists; \<open>coherent\<close> says that
  the roles and the owner flag cached on a session agree with the permission inputs. The locale
  \<open>session_invariant\<close> is the contract under which the handlers of the later theories keep an
  invariant; both invariants are shown to meet it.
\<close>

section \<open>Nicknames\<close>

definition nickname_ok :: "nat \<Rightarrow> ustring \<Rightarrow> bool" where
  "nickname_ok n s \<longleftrightarrow> s \<noteq> [] \<and> length s \<le> n \<and> (\<forall>c\<in>set s. \<not> is_control c) \<and>
     \<not> is_whitespace (hd s)"

lemma sanitize_nickname_ok: "sanitize_nickname raw n = Some s \<Longrightarrow> nickname_ok n s"
proof -
  let ?t = "trim (filter (\<lambda>c. \<not> is_control c) raw)"
  assume "sanitize_nickname raw n = Some s"
  then have s: "s = take n ?t" "s \<noteq> []"
    by (auto simp: sanitize_nickname_def Let_def split: if_splits)
  then have "?t \<noteq> []" and "hd s = hd ?t" by auto
  moreover have "set s \<subseteq> set ?t" using s by (auto dest: in_set_takeD)
  moreover have "set ?t \<subseteq> {c. \<not> is_control c}" using set_trim_subset by fastforce
  ultimately show ?thesis
    using s trim_no_outer_whitespace(1) [of "filter (\<lambda>c. \<not> is_control c) raw"]
    by (auto simp: nickname_ok_def)
qed

text \<open>
  A nickname is sanitised, or refused only when nothing printable is left: the result keeps
  the printable characters in order without control characters, starts with a visible one, fits
  the limit, and a refusal means the trimmed text was empty (or the limit is zero).
\<close>

theorem sanitize_nickname_correct:
  "case sanitize_nickname raw n of
     None \<Rightarrow> n = 0 \<or> (\<forall>c\<in>set raw. is_control c \<or> is_whitespace c)
   | Some s \<Rightarrow> s \<noteq> [] \<and> length s \<le> n \<and> (\<forall>c\<in>set s. \<not> is_control c \<and> c \<in> set raw) \<and>
       \<not> is_whitespace (hd s) \<and>
       (\<exists>p q. filter (\<lambda>c. \<not> is_control c) raw = p @ s @ q \<and> (\<forall>c\<in>set p. is_whitespace c) \<and>
          (length s < n \<longrightarrow> (\<forall>c\<in>set q. is_whitespace c)))"
proof -
  let ?f = "filter (\<lambda>c. \<not> is_control c) raw"
  let ?p = "takeWhile is_whitespace ?f" and ?d = "dropWhile is_whitespace ?f"
  let ?q = "rev (takeWhile is_whitespace (rev ?d))"
  have "?d = trim ?f @ ?q"
    by (metis rev_append rev_rev_ident takeWhile_dropWhile_id trim_def trim_start_def)
  then have parts: "?f = ?p @ trim ?f @ ?q" by simp
  have ws: "\<forall>c\<in>set ?p. is_whitespace c" "\<forall>c\<in>set ?q. is_whitespace c"
    by (auto dest: set_takeWhileD)
  show ?thesis
  proof (cases "sanitize_nickname raw n")
    case None
    then have "n = 0 \<or> trim ?f = []" by (auto simp: sanitize_nickname_def Let_def split: if_splits)
    then have "n = 0 \<or> (\<forall>c\<in>set ?f. is_whitespace c)"
      using parts ws by (metis Un_iff append_Nil set_append)
    then show ?thesis using None by auto
  next
    case (Some s)
    then have s: "s = take n (trim ?f)" by (auto simp: sanitize_nickname_def Let_def split: if_splits)
    have "?f = ?p @ s @ (drop n (trim ?f) @ ?q)" using parts s by (metis append.assoc append_take_drop_id)
    moreover have "length s < n \<Longrightarrow> drop n (trim ?f) = []" using s by simp
    then have "length s < n \<Longrightarrow> \<forall>c\<in>set (drop n (trim ?f) @ ?q). is_whitespace c" using ws(2) by simp
    ultimately have "\<exists>p q. ?f = p @ s @ q \<and> (\<forall>c\<in>set p. is_whitespace c) \<and>
        (length s < n \<longrightarrow> (\<forall>c\<in>set q. is_whitespace c))"
      using ws(1) by blast
    moreover have "set s \<subseteq> set raw"
      using s set_trim_subset [of ?f] by (auto dest!: in_set_takeD)
    ultimately show ?thesis
      using sanitize_nickname_ok [OF Some] Some by (auto simp: nickname_ok_def)
  qed
qed

theorem sanitize_nickname_correct_witness:
  "case sanitize_nickname [32, 9, 65, 32, 66, 10, 32] 5 of
     None \<Rightarrow> (5 :: nat) = 0 \<or> (\<forall>c\<in>set [32, 9, 65, 32, 66, 10, 32]. is_control c \<or> is_whitespace c)
   | Some s \<Rightarrow> s \<noteq> [] \<and> length s \<le> 5 \<and>
       (\<forall>c\<in>set s. \<not> is_control c \<and> c \<in> set [32, 9, 65, 32, 66, 10, 32]) \<and>
       \<not> is_whitespace (hd s) \<and>
       (\<exists>p q. filter (\<lambda>c. \<not> is_control c) [32, 9, 65, 32, 66, 10, 32] = p @ s @ q \<and>
          (\<forall>c\<in>set p. is_whitespace c) \<and> (length s < 5 \<longrightarrow> (\<forall>c\<in>set q. is_whitespace c)))"
  by (rule sanitize_nickname_correct)

section \<open>The invariants\<close>

definition info_ok :: "shared \<Rightarrow> user_info \<Rightarrow> bool" where
  "info_ok s i \<longleftrightarrow>
     (self_deafened (ui_voice i) \<longrightarrow> self_muted (ui_voice i)) \<and>
     nickname_ok (unat (max_nickname_len (s_limits s))) (ui_nickname i) \<and>
     (\<forall>c. ui_channel i = Some c \<longrightarrow> map_of (s_channels s) c \<noteq> None)"

definition wf :: "shared \<Rightarrow> bool" where
  "wf s \<longleftrightarrow> keyed s \<and>
     (\<forall>(i, e)\<in>set (s_clients s). info_ok s (c_info e) \<and> length (c_queue e) \<le> CONTROL_QUEUE_DEPTH) \<and>
     length (s_clients s) \<le> unat (max_users (s_config s)) \<and>
     bt_invar (s_channels s) \<and> (\<forall>(i, c)\<in>set (s_channels s). ch_id c = i)"

definition cached_ok :: "ext \<Rightarrow> shared \<Rightarrow> user_info \<Rightarrow> bool" where
  "cached_ok cr s i \<longleftrightarrow> ui_roles i = member_roles s (ui_fingerprint cr i) \<and>
     ui_owner i = is_owner s (ui_fingerprint cr i)"

definition coherent :: "ext \<Rightarrow> shared \<Rightarrow> bool" where
  "coherent cr s \<longleftrightarrow> (\<forall>(i, e)\<in>set (s_clients s). cached_ok cr s (c_info e))"

text \<open>A change of one roster entry that the invariants allow.\<close>

definition modify_ok :: "shared \<Rightarrow> (user_info \<Rightarrow> user_info) \<Rightarrow> bool" where
  "modify_ok s f \<longleftrightarrow> (\<forall>i. info_ok s i \<longrightarrow> info_ok s (f i)) \<and>
     (\<forall>i. ui_client_id (f i) = ui_client_id i \<and> ui_identity (f i) = ui_identity i \<and>
          ui_roles (f i) = ui_roles i \<and> ui_owner (f i) = ui_owner i)"

locale session_invariant = stable_invariant +
  fixes cr :: ext
  assumes modify_keeps: "I s \<Longrightarrow> modify_ok s f \<Longrightarrow> I (modify_info client f s)"
    and admit_keeps: "I s \<Longrightarrow> I (snd (admit cr now ident nickname s))"
    and message_id_keeps: "I s \<Longrightarrow> I (s\<lparr>s_next_message_id := n\<rparr>)"
    and store_keeps: "I s \<Longrightarrow> I (s\<lparr>s_store := st\<rparr>)"
    and closed_keeps: "I s \<Longrightarrow> I (s\<lparr>s_closed := l\<rparr>)"
    and relay_keeps: "I s \<Longrightarrow> I (relay_voice cr from packet s)"
begin

lemma join_keeps: "I s \<Longrightarrow> I (snd (join_channel cr client channel s))"
  by (auto simp: join_channel_def Let_def split: option.splits
      intro!: modify_keeps simp: modify_ok_def info_ok_def)

lemma leave_keeps: "I s \<Longrightarrow> I (snd (leave_channel client s))"
  by (auto simp: leave_channel_def intro!: modify_keeps simp: modify_ok_def info_ok_def)

lemma set_voice_state_keeps: "I s \<Longrightarrow> I (snd (set_voice_state client muted deafened s))"
  by (auto simp: set_voice_state_def Let_def intro!: modify_keeps
      simp: modify_ok_def info_ok_def voice_update_def)

lemma set_server_muted_keeps: "I s \<Longrightarrow> I (snd (set_server_muted client muted s))"
  by (auto simp: set_server_muted_def Let_def intro!: modify_keeps simp: modify_ok_def info_ok_def)

lemma set_nickname_keeps: "I s \<Longrightarrow> I (snd (set_nickname client nickname s))"
  by (auto simp: set_nickname_def Let_def split: option.splits
      intro!: modify_keeps simp: modify_ok_def info_ok_def sanitize_nickname_ok)

lemma force_move_keeps: "I s \<Longrightarrow> I (snd (force_move client to s))"
  by (cases to) (auto simp: force_move_def split: option.splits
      intro!: modify_keeps simp: modify_ok_def info_ok_def)

lemma close_keeps: "I s \<Longrightarrow> I (close_transport client code reason s)"
  by (simp add: close_transport_def closed_keeps)

lemma build_message_keeps:
  "I s \<Longrightarrow> I (snd (build_message cr now author channel content reply_to s))"
  by (simp add: build_message_def next_message_id_def message_id_keeps)

end

section \<open>Both invariants meet the contract\<close>

lemma modify_info_entries:
  "(i, e') \<in> set (s_clients (modify_info client f s)) \<Longrightarrow>
     \<exists>e. (i, e) \<in> set (s_clients s) \<and> (e' = e \<or> e' = e\<lparr>c_info := f (c_info e)\<rparr>)"
proof -
  have "(i, e') \<in> set (AList.map_entry k g m) \<Longrightarrow> \<exists>e. (i, e) \<in> set m \<and> (e' = e \<or> e' = g e)"
    for k g and m :: "(client_id, connected_client) hash_map"
    by (induction m) (auto split: if_splits)
  then show "(i, e') \<in> set (s_clients (modify_info client f s)) \<Longrightarrow>
     \<exists>e. (i, e) \<in> set (s_clients s) \<and> (e' = e \<or> e' = e\<lparr>c_info := f (c_info e)\<rparr>)"
    by (simp add: modify_info_def)
qed

lemma info_ok_cong: "s_limits s' = s_limits s \<Longrightarrow> s_channels s' = s_channels s \<Longrightarrow> info_ok s' = info_ok s"
  by (simp add: info_ok_def fun_eq_iff)

lemma wf_quiet:
  assumes "wf s" and "quiet s s'"
  shows "wf s'"
proof -
  note f = quiet_fields [OF assms(2)] and d = quietD [OF assms(2)]
  have "info_ok s' = info_ok s" by (rule info_ok_cong) (simp_all add: f)
  then have "info_ok s' (c_info e') \<and> length (c_queue e') \<le> CONTROL_QUEUE_DEPTH"
    if "(i, e') \<in> set (s_clients s')" for i e'
    using d(2) [OF that] assms(1) unfolding wf_def by fastforce
  then show ?thesis
    using assms d(4) keyed_quiet [OF _ assms(2)] by (auto simp: wf_def f)
qed

lemma info_ok_modify [simp]: "info_ok (modify_info client f s) = info_ok s"
  by (rule info_ok_cong) (simp_all add: modify_info_def)

lemma keyed_modify: "keyed s \<Longrightarrow> modify_ok s f \<Longrightarrow> keyed (modify_info client f s)"
  using modify_info_entries [of _ _ client f s]
  by (fastforce simp: keyed_def modify_ok_def modify_info_def)

lemma length_map_entry: "length (AList.map_entry k f m) = length m"
  by (induction m) auto

lemma modify_info_fields [simp]:
  "s_channels (modify_info client f s) = s_channels s"
  "s_config (modify_info client f s) = s_config s"
  "s_perms (modify_info client f s) = s_perms s"
  "s_owner (modify_info client f s) = s_owner s"
  "length (s_clients (modify_info client f s)) = length (s_clients s)"
  by (simp_all add: modify_info_def length_map_entry)

lemma wf_modify:
  assumes "wf s" and "modify_ok s f"
  shows "wf (modify_info client f s)"
proof -
  have "info_ok s (c_info e') \<and> length (c_queue e') \<le> CONTROL_QUEUE_DEPTH"
    if "(i, e') \<in> set (s_clients (modify_info client f s))" for i e'
    using modify_info_entries [OF that] assms unfolding wf_def modify_ok_def by fastforce
  then show ?thesis
    using assms keyed_modify [OF _ assms(2)] by (auto simp: wf_def)
qed

definition fresh_client :: "user_info \<Rightarrow> connected_client" where
  "fresh_client i = \<lparr>c_info = i, c_queue = [], c_gone = False, c_datagrams = []\<rparr>"

lemma admit_exhaust:
  obtains (refused) f where "admit cr now ident nickname s = (Inl f, s)"
  | (admitted) n i where "sanitize_nickname nickname (unat (max_nickname_len (s_limits s))) = Some n"
      "length (s_clients s) < unat (max_users (s_config s))"
      "i = fresh_info cr now ident n s"
      "admit cr now ident nickname s =
         (Inr i, s\<lparr>s_next_client_id := max (s_next_client_id s + 1) 1,
                   s_clients := AList.update (s_next_client_id s) (fresh_client i) (s_clients s)\<rparr>)"
proof (cases "pi_security_level cr ident < unat (min_security_level (s_config s))")
  case True
  then show ?thesis by (intro refused) (simp add: admit_def Let_def)
next
  case level: False
  show ?thesis
  proof (cases "sanitize_nickname nickname (unat (max_nickname_len (s_limits s)))")
    case None
    then show ?thesis using level by (intro refused) (simp add: admit_def Let_def)
  next
    case (Some n)
    show ?thesis
    proof (cases "unat (max_users (s_config s)) \<le> length (s_clients s)")
      case True
      then show ?thesis using level Some by (intro refused) (simp add: admit_def Let_def)
    next
      case False
      then show ?thesis
        using level Some
        by (intro admitted [OF Some _ refl]) (simp_all add: admit_def Let_def fresh_client_def)
    qed
  qed
qed

lemma wf_admit:
  assumes "wf s"
  shows "wf (snd (admit cr now ident nickname s))"
proof (cases rule: admit_exhaust [of cr now ident nickname s])
  case (refused f)
  then show ?thesis using assms by simp
next
  case (admitted n i)
  let ?s = "snd (admit cr now ident nickname s)"
  have ok: "info_ok s i" "ui_client_id i = s_next_client_id s"
    using sanitize_nickname_ok [OF admitted(1)]
    by (simp_all add: admitted(3) info_ok_def fresh_info_def voice_state_default_def)
  note s' = admitted(4)
  have inv: "hm_invar (s_clients s)" using assms by (simp add: wf_def keyed_def hm_invar_def)
  have "info_ok ?s = info_ok s" by (rule info_ok_cong) (simp_all add: s')
  moreover have "hm_invar (s_clients ?s)" using hm.invar_insert [OF inv] by (simp add: s')
  moreover have "length (s_clients ?s) \<le> unat (max_users (s_config s))"
    using admitted(2) hm.length_insert [OF inv, of "s_next_client_id s" "fresh_client i"] by (simp add: s')
  ultimately show ?thesis
    using assms ok unfolding wf_def keyed_def hm_invar_def
    by (auto simp: s' hm.mem_insert [OF inv] fresh_client_def split: if_splits)
qed

lemma relay_entries:
  "\<exists>g. relay_voice cr from packet s =
     s\<lparr>s_clients := map (\<lambda>(i, e). (i, e\<lparr>c_datagrams := c_datagrams e @ g i e\<rparr>)) (s_clients s)\<rparr>"
proof -
  have id: "\<exists>g. s = s\<lparr>s_clients := map (\<lambda>(i, e). (i, e\<lparr>c_datagrams := c_datagrams e @ g i e\<rparr>)) (s_clients s)\<rparr>"
    by (rule exI [of _ "\<lambda>_ _. []"]) simp
  moreover have "\<exists>g. s\<lparr>s_clients := map (\<lambda>(i, e). (i, if P i e then e else e\<lparr>c_datagrams := c_datagrams e @ [d]\<rparr>)) (s_clients s)\<rparr> =
      s\<lparr>s_clients := map (\<lambda>(i, e). (i, e\<lparr>c_datagrams := c_datagrams e @ g i e\<rparr>)) (s_clients s)\<rparr>" for P d
    by (rule exI [of _ "\<lambda>i e. if P i e then [] else [d]"]) (auto intro!: arg_cong [where f = "\<lambda>c. s\<lparr>s_clients := c\<rparr>"])
  ultimately show ?thesis
    unfolding relay_voice_def Let_def by (auto split: option.splits)
qed

lemma relay_keeps_entries:
  assumes "(i, e') \<in> set (s_clients (relay_voice cr from packet s))"
  shows "\<exists>e d. (i, e) \<in> set (s_clients s) \<and> e' = e\<lparr>c_datagrams := d\<rparr>"
  using assms relay_entries [of cr "from" packet s] by auto blast

lemma relay_fields:
  "s_channels (relay_voice cr from packet s) = s_channels s"
  "s_config (relay_voice cr from packet s) = s_config s"
  "s_limits (relay_voice cr from packet s) = s_limits s"
  "s_perms (relay_voice cr from packet s) = s_perms s"
  "s_owner (relay_voice cr from packet s) = s_owner s"
  "length (s_clients (relay_voice cr from packet s)) = length (s_clients s)"
  "map fst (s_clients (relay_voice cr from packet s)) = map fst (s_clients s)"
  using relay_entries [of cr "from" packet s] by auto

lemma wf_relay: "wf s \<Longrightarrow> wf (relay_voice cr from packet s)"
proof -
  assume wf: "wf s"
  let ?s = "relay_voice cr from packet s"
  have "info_ok ?s = info_ok s" by (rule info_ok_cong) (simp_all add: relay_fields)
  moreover have "info_ok s (c_info e') \<and> length (c_queue e') \<le> CONTROL_QUEUE_DEPTH \<and> ui_client_id (c_info e') = i"
    if "(i, e') \<in> set (s_clients ?s)" for i e'
    using relay_keeps_entries [OF that] wf unfolding wf_def keyed_def by fastforce
  ultimately show ?thesis
    using wf by (auto simp: wf_def keyed_def relay_fields)
qed

lemma wf_frame: "wf s \<Longrightarrow> wf (s\<lparr>s_next_message_id := n\<rparr>)" "wf s \<Longrightarrow> wf (s\<lparr>s_store := st\<rparr>)"
    "wf s \<Longrightarrow> wf (s\<lparr>s_closed := l\<rparr>)"
  by (simp_all add: wf_def keyed_def info_ok_def)

interpretation wf: session_invariant wf cr for cr
  by unfold_locales (auto intro: wf_quiet wf_modify wf_admit wf_relay wf_frame)

lemma cached_ok_cong:
  "s_perms s' = s_perms s \<Longrightarrow> s_owner s' = s_owner s \<Longrightarrow> cached_ok cr s' = cached_ok cr s"
  by (simp add: cached_ok_def member_roles_def is_owner_def fun_eq_iff)

lemma coherent_quiet:
  assumes "coherent cr s" and "quiet s s'"
  shows "coherent cr s'"
proof -
  have "cached_ok cr s' = cached_ok cr s"
    by (rule cached_ok_cong) (simp_all add: quiet_fields [OF assms(2)])
  then show ?thesis
    using assms quietD(2) [OF assms(2)] unfolding coherent_def by fastforce
qed

lemma coherent_modify:
  assumes "coherent cr s" and "modify_ok s f"
  shows "coherent cr (modify_info client f s)"
proof -
  have "cached_ok cr (modify_info client f s) = cached_ok cr s" by (rule cached_ok_cong) simp_all
  moreover have "cached_ok cr s (f i) = cached_ok cr s i" for i
    using assms(2) by (simp add: modify_ok_def cached_ok_def ui_fingerprint_def)
  moreover have "cached_ok cr s (c_info e')" if "(i, e') \<in> set (s_clients (modify_info client f s))" for i e'
    using modify_info_entries [OF that] assms(1) calculation(2) unfolding coherent_def by auto
  ultimately show ?thesis unfolding coherent_def by auto
qed

lemma set_update_subset: "set (AList.update k v m) \<subseteq> insert (k, v) (set m)"
  by (induction m) auto

lemma coherent_admit:
  assumes "coherent cr s"
  shows "coherent cr (snd (admit cr now ident nickname s))"
proof (cases rule: admit_exhaust [of cr now ident nickname s])
  case (refused f)
  then show ?thesis using assms by simp
next
  case (admitted n i)
  let ?s = "snd (admit cr now ident nickname s)"
  have "cached_ok cr s i" by (simp add: admitted(3) cached_ok_def fresh_info_def ui_fingerprint_def)
  moreover have "cached_ok cr ?s = cached_ok cr s" by (rule cached_ok_cong) (simp_all add: admitted(4))
  ultimately show ?thesis
    using assms set_update_subset [of "s_next_client_id s" "fresh_client i" "s_clients s"]
    unfolding coherent_def by (auto simp: admitted(4) fresh_client_def)
qed

lemma coherent_relay:
  assumes "coherent cr s"
  shows "coherent cr (relay_voice cr from packet s)"
proof -
  let ?s = "relay_voice cr from packet s"
  have "cached_ok cr ?s = cached_ok cr s" by (rule cached_ok_cong) (simp_all add: relay_fields)
  moreover have "cached_ok cr s (c_info e')" if "(i, e') \<in> set (s_clients ?s)" for i e'
    using relay_keeps_entries [OF that] assms unfolding coherent_def by auto
  ultimately show ?thesis unfolding coherent_def by auto
qed

lemma coherent_frame:
  "coherent cr s \<Longrightarrow> coherent cr (s\<lparr>s_next_message_id := n\<rparr>)"
  "coherent cr s \<Longrightarrow> coherent cr (s\<lparr>s_store := st\<rparr>)"
  "coherent cr s \<Longrightarrow> coherent cr (s\<lparr>s_closed := l\<rparr>)"
  by (simp_all add: coherent_def cached_ok_def member_roles_def is_owner_def)

interpretation coherent: session_invariant "coherent cr" cr for cr
  by unfold_locales (auto intro: coherent_quiet coherent_modify coherent_admit coherent_relay coherent_frame)

lemma coherent_lookup:
  "coherent cr s \<Longrightarrow> map_of (s_clients s) i = Some e \<Longrightarrow> cached_ok cr s (c_info e)"
  unfolding coherent_def by (auto dest: map_of_SomeD)

section \<open>Admission\<close>

text \<open>
  Admission keeps its three rules and starts everybody from the same place: a client gets in
  exactly when its identity carries enough proof of work, its nickname survives sanitising and
  there is a free slot; it then holds the id the counter stood at, stands in no room, is neither
  muted nor deafened, carries the roles and ownership the permission inputs record for its
  fingerprint, and starts with an empty queue. A refusal changes nothing.
\<close>

theorem admission_rules:
  "case admit cr now ident nickname s of
     (Inl f, s') \<Rightarrow> s' = s \<and>
       (pi_security_level cr ident < unat (min_security_level (s_config s)) \<or>
        sanitize_nickname nickname (unat (max_nickname_len (s_limits s))) = None \<or>
        unat (max_users (s_config s)) \<le> length (s_clients s))
   | (Inr i, s') \<Rightarrow>
       unat (min_security_level (s_config s)) \<le> pi_security_level cr ident \<and>
       sanitize_nickname nickname (unat (max_nickname_len (s_limits s))) = Some (ui_nickname i) \<and>
       length (s_clients s) < unat (max_users (s_config s)) \<and>
       ui_client_id i = s_next_client_id s \<and> ui_identity i = ident \<and> ui_channel i = None \<and>
       ui_voice i = voice_state_default \<and> ui_roles i = member_roles s (pi_fingerprint cr ident) \<and>
       ui_owner i = is_owner s (pi_fingerprint cr ident) \<and>
       map_of (s_clients s') (s_next_client_id s) =
         Some \<lparr>c_info = i, c_queue = [], c_gone = False, c_datagrams = []\<rparr> \<and>
       s_channels s' = s_channels s \<and> s_perms s' = s_perms s"
  by (auto simp: admit_def fresh_info_def Let_def update_conv' split: option.splits)

section \<open>Rooms\<close>

lemma map_of_modify_info:
  "map_of (s_clients (modify_info client f s)) i =
     (if i = client then map_option (\<lambda>e. e\<lparr>c_info := f (c_info e)\<rparr>) (map_of (s_clients s) i)
      else map_of (s_clients s) i)"
  by (simp add: modify_info_def map_of_map_entry split: option.splits)

text \<open>
  Joining a voice room: it succeeds exactly when the channel exists, the member may view it
  and connect to it, it carries voice and it is not full of other people; then only the member's
  room changes, and the room it left is reported. A channel the member may not view answers as one
  that does not exist, whatever its kind and occupancy, and a refused join changes nothing.
\<close>

theorem join_channel_correct:
  assumes "map_of (s_clients s) client = Some me"
  shows "case join_channel cr client channel s of
     (Inr previous, s') \<Rightarrow>
       (\<exists>target. map_of (s_channels s) channel = Some target \<and>
          can_view cr s (c_info me) target \<and> has_voice (ch_kind target) \<and>
          contains (member_bits cr s (c_info me) (Some (ch_overwrites target))) CONNECT \<and>
          \<not> room_full client target channel s) \<and>
       previous = ui_channel (c_info me) \<and>
       s' = modify_info client (\<lambda>i. i\<lparr>ui_channel := Some channel\<rparr>) s
   | (Inl code, s') \<Rightarrow> s' = s \<and>
       (case map_of (s_channels s) channel of
          None \<Rightarrow> code = NoSuchChannel
        | Some target \<Rightarrow>
            if \<not> can_view cr s (c_info me) target then code = NoSuchChannel
            else if \<not> has_voice (ch_kind target) \<or>
                    \<not> contains (member_bits cr s (c_info me) (Some (ch_overwrites target))) CONNECT
                 then code = NotPermitted
            else code = ChannelFull \<and> room_full client target channel s)"
  using assms by (auto simp: join_channel_def can_view_def Let_def split: option.splits)

theorem join_channel_correct_witness:
  "case join_channel sample_ext 3 2 sample_shared of
     (Inr previous, s') \<Rightarrow>
       (\<exists>target. map_of (s_channels sample_shared) 2 = Some target \<and>
          can_view sample_ext sample_shared (c_info (sample_client 3 [] False)) target \<and>
          has_voice (ch_kind target) \<and>
          contains (member_bits sample_ext sample_shared (c_info (sample_client 3 [] False))
            (Some (ch_overwrites target))) CONNECT \<and>
          \<not> room_full 3 target 2 sample_shared) \<and>
       previous = ui_channel (c_info (sample_client 3 [] False)) \<and>
       s' = modify_info 3 (\<lambda>i. i\<lparr>ui_channel := Some 2\<rparr>) sample_shared
   | (Inl code, s') \<Rightarrow> s' = sample_shared \<and>
       (case map_of (s_channels sample_shared) 2 of
          None \<Rightarrow> code = NoSuchChannel
        | Some target \<Rightarrow>
            if \<not> can_view sample_ext sample_shared (c_info (sample_client 3 [] False)) target
            then code = NoSuchChannel
            else if \<not> has_voice (ch_kind target) \<or>
                    \<not> contains (member_bits sample_ext sample_shared
                        (c_info (sample_client 3 [] False)) (Some (ch_overwrites target))) CONNECT
                 then code = NotPermitted
            else code = ChannelFull \<and> room_full 3 target 2 sample_shared)"
  by (rule join_channel_correct) simp

section \<open>The voice relay\<close>

text \<open>Who may be heard right now, and in which room.\<close>

definition speaks_in :: "ext \<Rightarrow> shared \<Rightarrow> client_id \<Rightarrow> channel_id \<Rightarrow> bool" where
  "speaks_in cr s from channel \<longleftrightarrow>
     (\<exists>e room. map_of (s_clients s) from = Some e \<and> ui_channel (c_info e) = Some channel \<and>
        \<not> self_muted (ui_voice (c_info e)) \<and> \<not> server_muted (ui_voice (c_info e)) \<and>
        map_of (s_channels s) channel = Some room \<and> has_voice (ch_kind room) \<and>
        contains (member_bits cr s (c_info e) (Some (ch_overwrites room))) SPEAK)"

definition hears :: "shared \<Rightarrow> client_id \<Rightarrow> channel_id \<Rightarrow> client_id \<Rightarrow> connected_client \<Rightarrow> bool" where
  "hears s from channel i e \<longleftrightarrow> i \<noteq> from \<and> ui_channel (c_info e) = Some channel \<and>
     \<not> self_deafened (ui_voice (c_info e))"

lemma relay_silent:
  "\<nexists>channel. speaks_in cr s from channel \<Longrightarrow> relay_voice cr from packet s = s"
  by (auto simp: relay_voice_def speaks_in_def Let_def split: option.splits)

lemma relay_speaking:
  assumes "speaks_in cr s from channel"
  shows "relay_voice cr from packet s =
    s\<lparr>s_clients := map (\<lambda>(i, e). (i, if hears s from channel i e
        then e\<lparr>c_datagrams := c_datagrams e @ [downstream_encode (into_downstream packet from)]\<rparr>
        else e)) (s_clients s)\<rparr>"
  using assms
  by (auto simp: relay_voice_def speaks_in_def hears_def Let_def intro!: arg_cong [where f = "\<lambda>c. s\<lparr>s_clients := c\<rparr>"])

text \<open>
  C13. Voice goes to the room and nowhere else: a frame is relayed only when its sender is in the
  roster, unmuted by itself and by the server, and may speak in the voice room the server records
  for it; then every other member of that room who is not deafened gets it once, re-encoded under
  the sender's id, and nobody else's transport is touched. In every other case nothing is sent.
\<close>

theorem relay_voice_exact:
  "let s' = relay_voice cr from packet s in
     s' = s\<lparr>s_clients := s_clients s'\<rparr> \<and>
     (\<forall>i e. map_of (s_clients s) i = Some e \<longrightarrow>
        map_of (s_clients s') i =
          Some (if \<exists>channel. speaks_in cr s from channel \<and> hears s from channel i e
                then e\<lparr>c_datagrams := c_datagrams e @ [downstream_encode (into_downstream packet from)]\<rparr>
                else e)) \<and>
     (\<forall>i. map_of (s_clients s) i = None \<longrightarrow> map_of (s_clients s') i = None)"
proof (cases "\<exists>channel. speaks_in cr s from channel")
  case True
  then obtain channel where ch: "speaks_in cr s from channel" by blast
  then have "speaks_in cr s from c \<Longrightarrow> c = channel" for c by (auto simp: speaks_in_def)
  then have "(\<exists>c. speaks_in cr s from c \<and> hears s from c i e) \<longleftrightarrow> hears s from channel i e" for i e
    using ch by blast
  then show ?thesis
    unfolding relay_speaking [OF ch] Let_def by (simp add: map_of_map_val)
next
  case False
  then show ?thesis by (auto simp: relay_silent Let_def)
qed

theorem relay_voice_exact_witness:
  "let s' = relay_voice sample_ext 2 \<lparr>vu_seq = 5, vu_flags = 0, vu_payload = [1, 2]\<rparr> sample_shared in
     s' = sample_shared\<lparr>s_clients := s_clients s'\<rparr> \<and>
     (\<forall>i e. map_of (s_clients sample_shared) i = Some e \<longrightarrow>
        map_of (s_clients s') i =
          Some (if \<exists>channel. speaks_in sample_ext sample_shared 2 channel \<and> hears sample_shared 2 channel i e
                then e\<lparr>c_datagrams := c_datagrams e @
                  [downstream_encode (into_downstream \<lparr>vu_seq = 5, vu_flags = 0, vu_payload = [1, 2]\<rparr> 2)]\<rparr>
                else e)) \<and>
     (\<forall>i. map_of (s_clients sample_shared) i = None \<longrightarrow> map_of (s_clients s') i = None)"
  by (rule relay_voice_exact)

end
