(* ===== verification/Pickle_Moderation.thy ===== *)
theory Pickle_Moderation
  imports Pickle_Roster
begin

text \<open>
  The moderation commands (\<open>pickle-server/src/moderation.rs\<close>): kick, ban, unban, the ban list,
  server mute and moving members. Every handler checks the permission bit, then rank, then acts,
  and answers the actor by nonce. The awaits of a handler are database calls and a pause before a
  transport is closed; a handler is one step here.
\<close>

section \<open>Replies\<close>

definition CLOSE_KICKED :: u32 where "CLOSE_KICKED = 3"
definition CLOSE_BANNED :: u32 where "CLOSE_BANNED = 4"

definition ack :: "client_id \<Rightarrow> u64 \<Rightarrow> shared \<Rightarrow> shared" where
  "ack actor nonce s = send actor (Ack nonce) s"

definition refuse :: "client_id \<Rightarrow> u64 \<Rightarrow> error_code \<Rightarrow> string \<Rightarrow> shared \<Rightarrow> shared" where
  "refuse actor nonce code detail s = send actor (CommandFailed nonce code (u detail)) s"

text \<open>A call on the attached store, which the handlers have checked to be there.\<close>

definition db_call :: "(store \<Rightarrow> (store_error + 'a) \<times> store) \<Rightarrow> shared \<Rightarrow> (store_error + 'a) \<times> shared"
where
  "db_call q s =
     (case s_store s of
        None \<Rightarrow> (Inl Query, s)
      | Some st \<Rightarrow> (case q st of (r, st') \<Rightarrow> (r, s\<lparr>s_store := Some st'\<rparr>)))"

section \<open>Handlers\<close>

definition authorize_against_online ::
  "ext \<Rightarrow> client_id \<Rightarrow> u64 \<Rightarrow> permissions \<Rightarrow> client_id \<Rightarrow> shared \<Rightarrow> fingerprint option \<times> shared" where
  "authorize_against_online cr actor nonce flag target s =
     (if \<not> can_globally cr s actor flag then
        (None, refuse actor nonce NotPermitted ''you may not do that'' s)
      else case client_fingerprint cr s target of
        None \<Rightarrow> (None, refuse actor nonce Malformed ''no such client'' s)
      | Some fp \<Rightarrow>
          if \<not> actor_outranks cr s actor fp then
            (None, refuse actor nonce NotPermitted ''their highest role is not below yours'' s)
          else (Some fp, s))"

definition eject_and_close :: "client_id \<Rightarrow> disconnect_reason \<Rightarrow> shared \<Rightarrow> shared" where
  "eject_and_close victim reason s =
     (case eject victim reason s of
        (None, s') \<Rightarrow> s'
      | (Some entry, s') \<Rightarrow>
          (let (code, text) = (case reason of Banned \<Rightarrow> (CLOSE_BANNED, b_lit ''banned'')
                                | _ \<Rightarrow> (CLOSE_KICKED, b_lit ''kicked''))
           in close_transport victim code text s'))"

definition kick :: "ext \<Rightarrow> client_id \<Rightarrow> u64 \<Rightarrow> client_id \<Rightarrow> ustring \<Rightarrow> shared \<Rightarrow> shared" where
  "kick cr actor nonce target reason s =
     (case authorize_against_online cr actor nonce KICK_MEMBERS target s of
        (None, s') \<Rightarrow> s'
      | (Some fp, s') \<Rightarrow> ack actor nonce (eject_and_close target Kicked s'))"

definition sessions_of :: "ext \<Rightarrow> fingerprint \<Rightarrow> shared \<Rightarrow> client_id list" where
  "sessions_of cr fp s = map ui_client_id (filter (\<lambda>i. ui_fingerprint cr i = fp) (users s))"

definition ban ::
  "ext \<Rightarrow> u64 \<Rightarrow> client_id \<Rightarrow> u64 \<Rightarrow> fingerprint \<Rightarrow> ustring \<Rightarrow> u64 option \<Rightarrow> shared \<Rightarrow> shared" where
  "ban cr now actor nonce fp reason until s =
     (if \<not> can_globally cr s actor BAN_MEMBERS then
        refuse actor nonce NotPermitted ''you may not do that'' s
      else if Some fp = client_fingerprint cr s actor then
        refuse actor nonce NotPermitted ''you cannot ban yourself'' s
      else if \<not> actor_outranks cr s actor fp then
        refuse actor nonce NotPermitted ''their highest role is not below yours'' s
      else if s_store s = None then refuse actor nonce Internal ''no database'' s
      else
        let issued_by = (case client_fingerprint cr s actor of Some f \<Rightarrow> f | None \<Rightarrow> fp);
            entry = \<lparr>be_fingerprint = fp, be_reason = reason, be_until = until,
                     be_issued_by = issued_by, be_issued_at = now\<rparr>
        in case db_call (insert_ban cr entry) s of
             (Inl _, s') \<Rightarrow> refuse actor nonce Internal ''the ban was not saved'' s'
           | (Inr _, s') \<Rightarrow>
               ack actor nonce
                 (fold (\<lambda>v. eject_and_close v Banned) (sessions_of cr fp s') s'))"

definition unban :: "ext \<Rightarrow> client_id \<Rightarrow> u64 \<Rightarrow> fingerprint \<Rightarrow> shared \<Rightarrow> shared" where
  "unban cr actor nonce fp s =
     (if \<not> can_globally cr s actor BAN_MEMBERS then
        refuse actor nonce NotPermitted ''you may not do that'' s
      else if s_store s = None then refuse actor nonce Internal ''no database'' s
      else case db_call (delete_ban cr fp) s of
             (Inl _, s') \<Rightarrow> refuse actor nonce Internal ''the unban was not saved'' s'
           | (Inr _, s') \<Rightarrow> ack actor nonce s')"

definition list_bans :: "ext \<Rightarrow> client_id \<Rightarrow> u64 \<Rightarrow> shared \<Rightarrow> shared" where
  "list_bans cr actor nonce s =
     (if \<not> can_globally cr s actor BAN_MEMBERS then
        refuse actor nonce NotPermitted ''you may not do that'' s
      else if s_store s = None then refuse actor nonce Internal ''no database'' s
      else case db_call (store_list_bans cr) s of
             (Inl _, s') \<Rightarrow> refuse actor nonce Internal ''could not read the ban list'' s'
           | (Inr bans, s') \<Rightarrow> send actor (BanList bans) s')"

definition set_server_mute ::
  "ext \<Rightarrow> client_id \<Rightarrow> u64 \<Rightarrow> client_id \<Rightarrow> bool \<Rightarrow> shared \<Rightarrow> shared" where
  "set_server_mute cr actor nonce target muted s =
     (case authorize_against_online cr actor nonce MUTE_MEMBERS target s of
        (None, s') \<Rightarrow> s'
      | (Some _, s') \<Rightarrow>
          (case set_server_muted target muted s' of
             (None, s'') \<Rightarrow> refuse actor nonce Malformed ''no such client'' s''
           | (Some info, s'') \<Rightarrow> ack actor nonce (broadcast (UserUpdated info) None s'')))"

definition move_member ::
  "ext \<Rightarrow> client_id \<Rightarrow> u64 \<Rightarrow> client_id \<Rightarrow> channel_id option \<Rightarrow> shared \<Rightarrow> shared" where
  "move_member cr actor nonce target to s =
     (case authorize_against_online cr actor nonce MOVE_MEMBERS target s of
        (None, s') \<Rightarrow> s'
      | (Some _, s') \<Rightarrow>
          (case (case to of
                   None \<Rightarrow> None
                 | Some channel \<Rightarrow>
                     if \<not> can cr s' actor channel VIEW_CHANNEL then
                       Some (NoSuchChannel, ''no such channel'')
                     else if \<not> can cr s' actor channel CONNECT then
                       Some (NotPermitted, ''you cannot enter that channel yourself'')
                     else None) of
             Some (code, detail) \<Rightarrow> refuse actor nonce code detail s'
           | None \<Rightarrow>
               (case force_move target to s' of
                  (Inr from, s'') \<Rightarrow> ack actor nonce (broadcast (UserMoved target from to) None s'')
                | (Inl code, s'') \<Rightarrow> refuse actor nonce code ''could not move them'' s'')))"

section \<open>Quiet parts\<close>

lemma quiet_ack [quiet_intros]: "quiet s (ack actor nonce s)"
  by (simp add: ack_def quiet_send)

lemma quiet_refuse [quiet_intros]: "quiet s (refuse actor nonce code detail s)"
  by (simp add: refuse_def quiet_send)

lemma authorize_cases:
  "authorize_against_online cr actor nonce flag target s = (r, s') \<Longrightarrow>
     (case r of
        None \<Rightarrow> \<exists>code detail. s' = refuse actor nonce code detail s
      | Some fp \<Rightarrow> s' = s \<and> can_globally cr s actor flag \<and> client_fingerprint cr s target = Some fp \<and>
          actor_outranks cr s actor fp)"
  unfolding authorize_against_online_def by (auto split: if_splits option.splits)

section \<open>The handlers keep the session invariants\<close>

context session_invariant
begin

lemma ack_keeps: "I s \<Longrightarrow> I (ack actor nonce s)"
  by (erule stable) (rule quiet_ack)

lemma refuse_keeps: "I s \<Longrightarrow> I (refuse actor nonce code detail s)"
  by (erule stable) (rule quiet_refuse)

lemma db_call_keeps: "I s \<Longrightarrow> I (snd (db_call q s))"
  by (auto simp: db_call_def store_keeps split: option.splits prod.splits)

lemma authorize_keeps: "I s \<Longrightarrow> I (snd (authorize_against_online cr actor nonce flag target s))"
  unfolding authorize_against_online_def by (auto simp: refuse_keeps split: option.splits)

lemma eject_and_close_keeps: "I s \<Longrightarrow> I (eject_and_close victim reason s)"
  using eject_keeps [of s victim reason]
  by (auto simp: eject_and_close_def Let_def close_keeps split: option.splits prod.splits)

lemma eject_all_keeps: "I s \<Longrightarrow> I (fold (\<lambda>v. eject_and_close v reason) vs s)"
  by (induction vs arbitrary: s) (auto simp: eject_and_close_keeps)

lemma kick_keeps: "I s \<Longrightarrow> I (kick cr actor nonce target reason s)"
  using authorize_keeps [of s actor nonce KICK_MEMBERS target]
  by (auto simp: kick_def ack_keeps eject_and_close_keeps split: option.splits prod.splits)

lemma ban_keeps: "I s \<Longrightarrow> I (ban cr now actor nonce fp reason until s)"
proof -
  assume "I s"
  moreover from this have "db_call (insert_ban cr e) s = (r, s') \<Longrightarrow> I s'" for e r s'
    using db_call_keeps [of s "insert_ban cr e"] by simp
  ultimately show "I (ban cr now actor nonce fp reason until s)"
    by (auto simp: ban_def Let_def ack_keeps refuse_keeps eject_all_keeps
        split: option.splits prod.splits sum.splits)
qed

lemma unban_keeps: "I s \<Longrightarrow> I (unban cr actor nonce fp s)"
  using db_call_keeps [of s "delete_ban cr fp"]
  by (auto simp: unban_def ack_keeps refuse_keeps split: prod.splits sum.splits)

lemma list_bans_keeps: "I s \<Longrightarrow> I (list_bans cr actor nonce s)"
  using db_call_keeps [of s "store_list_bans cr"]
  by (auto simp: list_bans_def send_keeps refuse_keeps split: prod.splits sum.splits)

lemma set_server_mute_keeps: "I s \<Longrightarrow> I (set_server_mute cr actor nonce target muted s)"
  using authorize_keeps [of s actor nonce MUTE_MEMBERS target]
    set_server_muted_keeps [of "snd (authorize_against_online cr actor nonce MUTE_MEMBERS target s)" target muted]
  by (auto simp: set_server_mute_def ack_keeps refuse_keeps broadcast_keeps
      split: option.splits prod.splits)

lemma move_member_keeps: "I s \<Longrightarrow> I (move_member cr actor nonce target to s)"
  using authorize_keeps [of s actor nonce MOVE_MEMBERS target]
    force_move_keeps [of "snd (authorize_against_online cr actor nonce MOVE_MEMBERS target s)" target to]
  by (auto simp: move_member_def ack_keeps refuse_keeps broadcast_keeps
      split: option.splits prod.splits sum.splits)

end

section \<open>The owner is out of reach\<close>

lemma no_rank_over_owner: "is_owner s fp \<Longrightarrow> \<not> actor_outranks cr s actor fp"
  by (simp add: actor_outranks_def can_act_on_def split: option.splits)

lemma authorize_owner:
  assumes "client_fingerprint cr s target = Some fp" and "is_owner s fp"
  shows "\<exists>detail. authorize_against_online cr actor nonce flag target s =
    (None, refuse actor nonce NotPermitted detail s)"
  using assms no_rank_over_owner [of s fp cr actor]
  by (auto simp: authorize_against_online_def)

text \<open>
  C16. The owner is out of everybody's reach: whoever the actor is, kicking, muting or moving a
  session of the owner's fingerprint, and banning that fingerprint whether it is connected or not,
  is answered with \<open>NotPermitted\<close> and does nothing else.
\<close>

theorem owner_is_untouchable:
  assumes "is_owner s fp"
  shows "(\<exists>d. ban cr now actor nonce fp reason until s = refuse actor nonce NotPermitted d s) \<and>
    (client_fingerprint cr s target = Some fp \<longrightarrow>
      (\<exists>d. kick cr actor nonce target why s = refuse actor nonce NotPermitted d s) \<and>
      (\<exists>d. set_server_mute cr actor nonce target muted s = refuse actor nonce NotPermitted d s) \<and>
      (\<exists>d. move_member cr actor nonce target to s = refuse actor nonce NotPermitted d s))"
proof (intro conjI impI)
  show "\<exists>d. ban cr now actor nonce fp reason until s = refuse actor nonce NotPermitted d s"
    using no_rank_over_owner [OF assms, of cr actor] by (auto simp: ban_def)
next
  assume t: "client_fingerprint cr s target = Some fp"
  note a = authorize_owner [OF t assms, of actor nonce]
  show "\<exists>d. kick cr actor nonce target why s = refuse actor nonce NotPermitted d s"
    using a [of KICK_MEMBERS] by (auto simp: kick_def)
  show "\<exists>d. set_server_mute cr actor nonce target muted s = refuse actor nonce NotPermitted d s"
    using a [of MUTE_MEMBERS] by (auto simp: set_server_mute_def)
  show "\<exists>d. move_member cr actor nonce target to s = refuse actor nonce NotPermitted d s"
    using a [of MOVE_MEMBERS] by (auto simp: move_member_def)
qed

theorem owner_is_untouchable_witness:
  "(\<exists>d. ban sample_ext 0 2 7 (sample_key 1) [] None sample_shared =
       refuse 2 7 NotPermitted d sample_shared) \<and>
    (\<exists>d. kick sample_ext 2 7 1 [] sample_shared = refuse 2 7 NotPermitted d sample_shared) \<and>
    (\<exists>d. set_server_mute sample_ext 2 7 1 True sample_shared = refuse 2 7 NotPermitted d sample_shared) \<and>
    (\<exists>d. move_member sample_ext 2 7 1 None sample_shared = refuse 2 7 NotPermitted d sample_shared)"
proof -
  have o: "is_owner sample_shared (sample_key 1)" by (simp add: is_owner_def)
  have "client_fingerprint sample_ext sample_shared 1 = Some (sample_key 1)"
    by (simp add: client_fingerprint_def sample_client_def ui_fingerprint_def pi_fingerprint_def
        fingerprint_of_def sample_ext_def)
  then show ?thesis
    using owner_is_untouchable [OF o, of sample_ext 0 2 7 "[]" None 1 "[]" True None] by blast
qed

section \<open>Removal\<close>

lemma quiet_gone:
  assumes "quiet s s'" and "map_of (s_clients s) i = None"
  shows "map_of (s_clients s') i = None"
proof (cases "map_of (s_clients s') i")
  case (Some e')
  then obtain e where "(i, e) \<in> set (s_clients s)"
    using quietD(2) [OF assms(1)] by (blast dest: map_of_SomeD)
  then show ?thesis using assms(2) by (force simp: map_of_eq_None_iff)
qed

lemma eject_gone: "map_of (s_clients (snd (eject victim reason s))) victim = None"
proof (cases "map_of (s_clients s) victim")
  case (Some e)
  have "map_of (s_clients (s\<lparr>s_clients := AList.delete victim (s_clients s)\<rparr>)) victim = None"
    by (simp add: delete_conv')
  from quiet_gone [OF quiet_broadcast this] show ?thesis by (simp add: eject_def Some Let_def)
qed (simp add: eject_def)

lemma eject_and_close_clients:
  "s_clients (eject_and_close victim reason s) = s_clients (snd (eject victim reason s))"
  by (auto simp: eject_and_close_def close_transport_def Let_def split: option.splits prod.splits)

lemma eject_all_gone:
  "map_of (s_clients s) i = None \<or> i \<in> set vs \<Longrightarrow>
     map_of (s_clients (fold (\<lambda>v. eject_and_close v reason) vs s)) i = None"
proof (induction vs arbitrary: s)
  case (Cons v vs)
  have "map_of (s_clients (eject_and_close v reason s)) i = None" if "map_of (s_clients s) i = None \<or> i = v"
    using that quiet_gone [OF quiet_eject] eject_gone by (auto simp: eject_and_close_clients)
  with Cons show ?case by auto
qed simp

lemma eject_others:
  assumes "keyed s" and "map_of (s_clients s) i = Some e" and "i \<noteq> victim"
    and "map_of (s_clients s) victim \<noteq> None"
  shows "if overflows e then map_of (s_clients (snd (eject victim reason s))) i = None
    else \<exists>ls. map_of (s_clients (snd (eject victim reason s))) i =
      Some (e\<lparr>c_queue := c_queue e @ (if c_gone e then [] else [UserLeft victim reason]) @ ls\<rparr>) \<and>
      (\<forall>x\<in>set ls. \<exists>j. x = UserLeft j Kicked)"
proof -
  let ?t = "s\<lparr>s_clients := AList.delete victim (s_clients s)\<rparr>"
  have "keyed ?t" by (rule keyed_quiet [OF assms(1) quiet_delete])
  moreover have "map_of (s_clients ?t) i = Some e" using assms by (simp add: delete_conv')
  ultimately show ?thesis
    using fan_out_lookup [of ?t i e "\<lambda>_ _. True" "UserLeft victim reason"] assms(4)
    by (auto simp: eject_def broadcast_fan_out departures_def split: if_splits)
qed

lemma ack_entry:
  assumes "keyed s" and "map_of (s_clients s) i = Some e" and "i \<noteq> actor"
  shows "\<exists>ls. map_of (s_clients (ack actor nonce s)) i = Some (e\<lparr>c_queue := c_queue e @ ls\<rparr>) \<and>
    (\<forall>x\<in>set ls. \<exists>j. x = UserLeft j Kicked)"
  using fan_out_lookup [OF assms(1,2), of "\<lambda>i _. i = actor" "Ack nonce"] assms(3)
  by (auto simp: ack_def send_fan_out departures_def)

text \<open>
  A kick does what it says: an authorised kick takes the target off the roster and closes its
  transport with the code and text for a kick, and no other transport; every other client that is
  listening and has room finds the departure in its queue right behind what it held; and no
  membership, permission or channel changes otherwise.
\<close>

theorem kick_removes_and_announces:
  assumes "keyed s" and "can_globally cr s actor KICK_MEMBERS"
    and "client_fingerprint cr s target = Some fp" and "actor_outranks cr s actor fp"
  shows "let s' = kick cr actor nonce target why s in
    map_of (s_clients s') target = None \<and>
    s_closed s' = s_closed s @ [(target, CLOSE_KICKED, b_lit ''kicked'')] \<and>
    s_channels s' = s_channels s \<and> s_perms s' = s_perms s \<and> s_store s' = s_store s \<and>
    (\<forall>i e. map_of (s_clients s) i = Some e \<longrightarrow> i \<noteq> target \<longrightarrow> i \<noteq> actor \<longrightarrow> \<not> overflows e \<longrightarrow>
       (\<exists>ls. map_of (s_clients s') i =
          Some (e\<lparr>c_queue := c_queue e @ (if c_gone e then [] else [UserLeft target Kicked]) @ ls\<rparr>) \<and>
          (\<forall>x\<in>set ls. \<exists>j. x = UserLeft j Kicked)))"
proof -
  let ?j = "snd (eject target Kicked s)" and ?k = "eject_and_close target Kicked s"
  have on: "map_of (s_clients s) target \<noteq> None" using assms(3) by (auto simp: client_fingerprint_def)
  have s': "kick cr actor nonce target why s = ack actor nonce ?k"
    using assms by (simp add: kick_def authorize_against_online_def)
  have k: "?k = ?j\<lparr>s_closed := s_closed s @ [(target, CLOSE_KICKED, b_lit ''kicked'')]\<rparr>"
    using on quiet_fields(11) [OF quiet_eject [of s target Kicked]]
    by (auto simp: eject_and_close_def eject_def Let_def close_transport_def)
  note q = quiet_ack [of ?k actor nonce] and qj = quiet_eject [of s target Kicked]
  have kk: "keyed ?k" using keyed_quiet [OF assms(1) qj] by (simp add: k keyed_def)
  have "map_of (s_clients ?k) target = None" by (simp add: k eject_gone)
  then have gone: "map_of (s_clients (ack actor nonce ?k)) target = None" by (rule quiet_gone [OF q])
  have others: "\<exists>ls. map_of (s_clients (ack actor nonce ?k)) i =
      Some (e\<lparr>c_queue := c_queue e @ (if c_gone e then [] else [UserLeft target Kicked]) @ ls\<rparr>) \<and>
      (\<forall>x\<in>set ls. \<exists>j. x = UserLeft j Kicked)"
    if e: "map_of (s_clients s) i = Some e" "i \<noteq> target" "i \<noteq> actor" "\<not> overflows e" for i e
  proof -
    obtain ls where ls: "map_of (s_clients ?k) i =
        Some (e\<lparr>c_queue := c_queue e @ (if c_gone e then [] else [UserLeft target Kicked]) @ ls\<rparr>)"
      "\<forall>x\<in>set ls. \<exists>j. x = UserLeft j Kicked"
      using eject_others [OF assms(1) e(1,2) on, of Kicked] e(4) by (auto simp: k)
    from ack_entry [OF kk ls(1) e(3), of nonce] ls(2) show ?thesis
      by (auto intro!: exI [of _ "ls @ _"])
  qed
  show ?thesis
    unfolding s' Let_def using gone others quiet_fields [OF q] quiet_fields [OF qj] by (simp add: k)
qed

theorem kick_removes_and_announces_witness:
  "let s' = kick sample_ext 2 7 3 [] sample_shared in
    map_of (s_clients s') 3 = None \<and>
    s_closed s' = s_closed sample_shared @ [(3, CLOSE_KICKED, b_lit ''kicked'')] \<and>
    s_channels s' = s_channels sample_shared \<and> s_perms s' = s_perms sample_shared \<and>
    s_store s' = s_store sample_shared \<and>
    (\<forall>i e. map_of (s_clients sample_shared) i = Some e \<longrightarrow> i \<noteq> 3 \<longrightarrow> i \<noteq> 2 \<longrightarrow> \<not> overflows e \<longrightarrow>
       (\<exists>ls. map_of (s_clients s') i =
          Some (e\<lparr>c_queue := c_queue e @ (if c_gone e then [] else [UserLeft 3 Kicked]) @ ls\<rparr>) \<and>
          (\<forall>x\<in>set ls. \<exists>j. x = UserLeft j Kicked)))"
proof (rule kick_removes_and_announces [OF sample_keyed])
  show "can_globally sample_ext sample_shared 2 KICK_MEMBERS"
    by (simp add: can_globally_def member_bits_def) code_simp
  show "client_fingerprint sample_ext sample_shared 3 = Some (sample_key 3)"
    by (simp add: client_fingerprint_def) code_simp
  show "actor_outranks sample_ext sample_shared 2 (sample_key 3)"
    by (simp add: actor_outranks_def is_owner_def member_roles_def) code_simp
qed

section \<open>Bans\<close>

definition lapsed :: "u64 option \<Rightarrow> u64 \<Rightarrow> bool" where
  "lapsed until now \<longleftrightarrow> (case until of None \<Rightarrow> False | Some t \<Rightarrow> t \<le> now)"

lemma row_to_ban_to_row:
  "base32_roundtrips cr \<Longrightarrow> length (be_fingerprint b) = 32 \<Longrightarrow> length (be_issued_by b) = 32 \<Longrightarrow>
     row_to_ban cr (ban_to_row cr b) = Some b"
  by (cases b) (simp add: row_to_ban_def ban_to_row_def option.map_comp comp_def option.map_ident)

lemma find_upsert:
  assumes "f row = k"
  shows "List.find (\<lambda>r. f r = k)
    (if \<exists>r\<in>set rows. f r = k then map (\<lambda>r. if f r = k then row else r) rows else rows @ [row]) = Some row"
proof (cases "\<exists>r\<in>set rows. f r = k")
  case True
  then have "List.find (\<lambda>r. f r = k) (map (\<lambda>r. if f r = k then row else r) rows) = Some row"
    using assms by (induction rows) auto
  then show ?thesis using True by simp
next
  case False
  then have "List.find (\<lambda>r. f r = k) (rows @ [row]) = Some row"
    using assms by (induction rows) auto
  then show ?thesis using False by simp
qed

lemma b_fingerprint_row: "b_fingerprint (ban_to_row cr b) = fingerprint_to_string cr (be_fingerprint b)"
  by (simp add: ban_to_row_def)

lemma ban_row_found:
  assumes "insert_ban cr b st = (Inr (), st')"
  shows "List.find (\<lambda>r. b_fingerprint r = fingerprint_to_string cr (be_fingerprint b)) (t_bans (st_db st')) =
    Some (ban_to_row cr b)"
proof -
  let ?key = "fingerprint_to_string cr (be_fingerprint b)" and ?row = "ban_to_row cr b"
  have "t_bans (st_db st') = (if \<exists>r\<in>set (t_bans (st_db st)). b_fingerprint r = ?key
       then map (\<lambda>r. if b_fingerprint r = ?key then ?row else r) (t_bans (st_db st))
       else t_bans (st_db st) @ [?row])"
    using arg_cong [where f = "\<lambda>x. t_bans (snd (the x))",
      OF attempt_Inr [OF assms [unfolded insert_ban_def], unfolded Let_def b_fingerprint_row]]
    by simp
  then show ?thesis
    using find_upsert [of b_fingerprint ?row ?key "t_bans (st_db st)"] by (simp only: b_fingerprint_row)
qed

lemma active_ban_of_row:
  assumes "base32_roundtrips cr" and "length (be_fingerprint b) = 32" and "length (be_issued_by b) = 32"
    and "List.find (\<lambda>r. b_fingerprint r = fingerprint_to_string cr (be_fingerprint b)) (t_bans (st_db st)) =
      Some (ban_to_row cr b)"
    and "st_up st (st_ops st)"
  shows "fst (active_ban cr (be_fingerprint b) now st) = Inr (if lapsed (be_until b) now then None else Some b)"
  using row_to_ban_to_row [OF assms(1-3)] assms(4)
  by (simp add: active_ban_def attempt_up [OF assms(5)] lapsed_def split: option.splits)

lemma fold_eject_quiet:
  "\<exists>l t. fold (\<lambda>v. eject_and_close v reason) vs s = t\<lparr>s_closed := l\<rparr> \<and> quiet s t"
proof (induction vs arbitrary: s)
  case Nil
  show ?case by (rule exI [of _ "s_closed s"], rule exI [of _ s]) simp
next
  case (Cons v vs)
  let ?e = "snd (eject v reason s)"
  obtain l where l: "eject_and_close v reason s = ?e\<lparr>s_closed := l\<rparr>"
    by (cases "eject v reason s"; cases "fst (eject v reason s)")
      (auto simp: eject_and_close_def close_transport_def Let_def split: option.splits prod.splits
        intro: that [of "s_closed ?e"])
  obtain l' t where t: "fold (\<lambda>v. eject_and_close v reason) vs (?e\<lparr>s_closed := l\<rparr>) = t\<lparr>s_closed := l'\<rparr>"
    "quiet (?e\<lparr>s_closed := l\<rparr>) t" using Cons by blast
  then obtain f where f: "only_queues f" "t = ?e\<lparr>s_closed := l, s_clients := map_entries f (s_clients ?e)\<rparr>"
    unfolding quiet_def by auto
  have "quiet ?e (?e\<lparr>s_clients := map_entries f (s_clients ?e)\<rparr>)" using f unfolding quiet_def by auto
  then have "quiet s (?e\<lparr>s_clients := map_entries f (s_clients ?e)\<rparr>)" by (rule quiet_trans [OF quiet_eject])
  moreover have "t\<lparr>s_closed := l'\<rparr> = (?e\<lparr>s_clients := map_entries f (s_clients ?e)\<rparr>)\<lparr>s_closed := l'\<rparr>"
    by (simp add: f)
  ultimately show ?case using l t by auto
qed

text \<open>
  A ban holds: once an authorised ban is stored, no session of that fingerprint is on the
  roster, and the store answers every later question about it with the ban, exactly until it
  lapses (never, without an end). It survives because it is in the database, which is where the
  handshake asks.
\<close>

theorem ban_is_stored_and_enforced:
  assumes "keyed s" and "base32_roundtrips cr" and "length fp = 32" and "length by = 32"
    and "client_fingerprint cr s actor = Some by" and "fp \<noteq> by"
    and "can_globally cr s actor BAN_MEMBERS" and "actor_outranks cr s actor fp"
    and "s_store s = Some st" and "st_up st (st_ops st)"
  shows "let s' = ban cr now actor nonce fp reason until s in
    (\<forall>(i, e)\<in>set (s_clients s'). ui_fingerprint cr (c_info e) \<noteq> fp) \<and>
    (\<exists>st'. s_store s' = Some st' \<and>
       (\<forall>later. st_up st' (st_ops st') \<longrightarrow>
          fst (active_ban cr fp later st') =
            Inr (if lapsed until later then None
                 else Some \<lparr>be_fingerprint = fp, be_reason = reason, be_until = until,
                            be_issued_by = by, be_issued_at = now\<rparr>)))"
proof -
  let ?b = "\<lparr>be_fingerprint = fp, be_reason = reason, be_until = until, be_issued_by = by, be_issued_at = now\<rparr>"
  obtain st' where ins: "insert_ban cr ?b st = (Inr (), st')"
    using assms(10) by (cases "insert_ban cr ?b st") (auto simp: insert_ban_def attempt_up Let_def)
  let ?s = "s\<lparr>s_store := Some st'\<rparr>"
  let ?f = "fold (\<lambda>v. eject_and_close v Banned) (sessions_of cr fp ?s) ?s"
  have s': "ban cr now actor nonce fp reason until s = ack actor nonce ?f"
    using assms ins by (simp add: ban_def db_call_def Let_def)
  obtain l t where t: "?f = t\<lparr>s_closed := l\<rparr>" "quiet ?s t" using fold_eject_quiet by blast
  note q = quiet_ack [of ?f actor nonce]
  have gone: "ui_fingerprint cr (c_info e') \<noteq> fp" if mem: "(i, e') \<in> set (s_clients (ack actor nonce ?f))" for i e'
  proof
    assume fp: "ui_fingerprint cr (c_info e') = fp"
    obtain e'' where e'': "(i, e'') \<in> set (s_clients ?f)" "c_info e'' = c_info e'"
      using quietD(2) [OF q mem] by auto
    then obtain e where e: "(i, e) \<in> set (s_clients s)" "c_info e = c_info e'"
      using quietD(2) [OF t(2)] t(1) by fastforce
    then have "ui_client_id (c_info e) = i" using assms(1) by (auto simp: keyed_def)
    then have "i \<in> set (sessions_of cr fp ?s)" using e fp by (force simp: sessions_of_def users_def)
    from eject_all_gone [OF disjI2 [OF this]] e''(1) show False
      by (metis map_of_eq_None_iff image_eqI fst_conv)
  qed
  have "s_store (ack actor nonce ?f) = Some st'"
    using quiet_fields(7) [OF q] quiet_fields(7) [OF t(2)] t(1) by simp
  with gone show ?thesis
    unfolding s' Let_def using active_ban_of_row [OF assms(2) _ _ ban_row_found [OF ins]] assms(3,4) by auto
qed

lemma sample_ban_authorised:
  "client_fingerprint sample_ext sample_shared 2 = Some (sample_key 2)" "sample_key 3 \<noteq> sample_key 2"
  "can_globally sample_ext sample_shared 2 BAN_MEMBERS"
  "actor_outranks sample_ext sample_shared 2 (sample_key 3)"
  "s_store sample_shared = Some (store_with sample_db)"
  "st_up (store_with sample_db) (st_ops (store_with sample_db))"
proof -
  show "client_fingerprint sample_ext sample_shared 2 = Some (sample_key 2)"
    by (simp add: client_fingerprint_def) code_simp
  show "sample_key 3 \<noteq> sample_key 2" by code_simp
  show "can_globally sample_ext sample_shared 2 BAN_MEMBERS"
    by (simp add: can_globally_def member_bits_def) code_simp
  show "actor_outranks sample_ext sample_shared 2 (sample_key 3)"
    by (simp add: actor_outranks_def is_owner_def member_roles_def) code_simp
qed (simp_all add: store_with_def)

theorem ban_is_stored_and_enforced_witness:
  "let s' = ban sample_ext 5 2 7 (sample_key 3) [] (Some 9) sample_shared in
    (\<forall>(i, e)\<in>set (s_clients s'). ui_fingerprint sample_ext (c_info e) \<noteq> sample_key 3) \<and>
    (\<exists>st'. s_store s' = Some st' \<and>
       (\<forall>later. st_up st' (st_ops st') \<longrightarrow>
          fst (active_ban sample_ext (sample_key 3) later st') =
            Inr (if lapsed (Some 9) later then None
                 else Some \<lparr>be_fingerprint = sample_key 3, be_reason = [], be_until = Some 9,
                            be_issued_by = sample_key 2, be_issued_at = 5\<rparr>)))"
  by (rule ban_is_stored_and_enforced [OF sample_keyed sample_base32 _ _ sample_ban_authorised]) simp_all

end
