(* ===== verification/Pickle_Admin.thy ===== *)
theory Pickle_Admin
  imports Pickle_Moderation
begin

text \<open>
  Role, overwrite and channel management (\<open>pickle-server/src/admin.rs\<close>): the commands that change
  who may do what and which channels there are. Each follows the order of the code: standing,
  checks, database, memory, announcements, reply. A command that walks the channel tree returns
  nothing when that walk does not end. (\<open>ack\<close> and \<open>refuse\<close> are the same two helpers as in the
  moderation commands.)
\<close>

section \<open>Standing\<close>

record actor =
  a_roles :: "role_id list"
  a_owner :: bool
  a_base :: permissions

definition may_grant :: "actor \<Rightarrow> permissions \<Rightarrow> bool" where
  "may_grant a bits \<longleftrightarrow> a_owner a \<or> contains (a_base a) ADMINISTRATOR \<or> contains (a_base a) bits"

definition actor_of :: "ext \<Rightarrow> client_id \<Rightarrow> u64 \<Rightarrow> shared \<Rightarrow> actor option \<times> shared" where
  "actor_of cr client nonce s =
     (if \<not> can_globally cr s client MANAGE_ROLES then
        (None, refuse client nonce NotPermitted ''you may not manage roles'' s)
      else case client_fingerprint cr s client of
        None \<Rightarrow> (None, s)
      | Some fp \<Rightarrow>
          (let roles = member_roles s fp;
               owner = is_owner s fp;
               base = resolve (ps_roles (s_perms s)) roles fp owner None
           in (Some \<lparr>a_roles = roles, a_owner = owner, a_base = base\<rparr>, s)))"

definition shifted_positions :: "role list \<Rightarrow> (role_id \<times> u32) list" where
  "shifted_positions roles =
     map (\<lambda>r. if r_position r = 0 then (r_id r, 0) else (r_id r, r_position r + 1)) roles"

definition next_role_id :: "role list \<Rightarrow> role_id" where
  "next_role_id roles = (if roles = [] then 0 else Max (set (map r_id roles))) + 1"

text \<open>Write given positions onto the roles they name; the others keep theirs.\<close>

definition apply_positions :: "(role_id \<times> u32) list \<Rightarrow> role list \<Rightarrow> role list" where
  "apply_positions positions roles =
     map (\<lambda>r. case List.find (\<lambda>(i, _). i = r_id r) positions of
                Some (_, p) \<Rightarrow> r\<lparr>r_position := p\<rparr> | None \<Rightarrow> r) roles"

definition ordering_of :: "role list \<Rightarrow> (role_id \<times> u32) list" where
  "ordering_of roles = map (\<lambda>r. (r_id r, r_position r)) roles"

section \<open>Roles\<close>

definition roles_with_new :: "role \<Rightarrow> role list \<Rightarrow> role list" where
  "roles_with_new r roles =
     sort_key r_position (apply_positions (shifted_positions roles) roles @ [r])"

definition create_role ::
  "ext \<Rightarrow> client_id \<Rightarrow> u64 \<Rightarrow> ustring \<Rightarrow> permissions \<Rightarrow> shared \<Rightarrow> shared" where
  "create_role cr client nonce name perms s =
     (case actor_of cr client nonce s of
        (None, s') \<Rightarrow> s'
      | (Some a, s) \<Rightarrow>
          let name = trim name; perms = intersect perms ALL_BITS in
          if name = [] then refuse client nonce Malformed ''a role needs a name'' s
          else if \<not> may_grant a perms then
            refuse client nonce NotPermitted ''you cannot grant permissions you do not hold'' s
          else if s_store s = None then refuse client nonce Internal ''no database'' s
          else
            let snapshot = s_perms s;
                role = \<lparr>r_id = next_role_id (ps_roles snapshot), r_name = name, r_color = None,
                        r_position = 1, r_permissions = perms\<rparr>
            in case db_call (set_role_positions (shifted_positions (ps_roles snapshot))) s of
                 (Inl _, s) \<Rightarrow> refuse client nonce Internal ''the role was not saved'' s
               | (Inr _, s) \<Rightarrow>
                   (case db_call (insert_role role) s of
                      (Inl _, s) \<Rightarrow> refuse client nonce Internal ''the role was not saved'' s
                    | (Inr _, s) \<Rightarrow>
                        let roles = roles_with_new role (ps_roles snapshot);
                            s = swap_perm_state (snapshot\<lparr>ps_roles := roles\<rparr>) s;
                            s = broadcast (RoleCreated role) None s;
                            s = broadcast (RolesReordered (ordering_of roles)) None s
                        in ack client nonce s))"

definition replace_first :: "('a \<Rightarrow> bool) \<Rightarrow> 'a \<Rightarrow> 'a list \<Rightarrow> 'a list" where
  "replace_first P y xs = takeWhile (\<lambda>x. \<not> P x) xs @
     (case dropWhile (\<lambda>x. \<not> P x) xs of [] \<Rightarrow> [] | _ # r \<Rightarrow> y # r)"

text \<open>The edit itself: the updated role, or what the command answers instead.\<close>

definition updated_role ::
  "actor \<Rightarrow> role \<Rightarrow> ustring option \<Rightarrow> u32 option option \<Rightarrow> permissions option \<Rightarrow>
     (error_code \<times> string) + role" where
  "updated_role a existing name color perms =
     (case (case name of
              None \<Rightarrow> Inr existing
            | Some n \<Rightarrow>
                if trim n = [] then Inl (Malformed, ''a role needs a name'')
                else Inr (existing\<lparr>r_name := trim n\<rparr>)) of
        Inl e \<Rightarrow> Inl e
      | Inr updated \<Rightarrow>
          let updated = (case color of None \<Rightarrow> updated | Some c \<Rightarrow> updated\<lparr>r_color := c\<rparr>)
          in case perms of
               None \<Rightarrow> Inr updated
             | Some p \<Rightarrow>
                 let p = intersect p ALL_BITS
                 in if \<not> may_grant a (without p (r_permissions existing)) then
                      Inl (NotPermitted, ''you cannot grant permissions you do not hold'')
                    else Inr (updated\<lparr>r_permissions := p\<rparr>))"

definition update_role ::
  "ext \<Rightarrow> client_id \<Rightarrow> u64 \<Rightarrow> role_id \<Rightarrow> ustring option \<Rightarrow> u32 option option \<Rightarrow> permissions option \<Rightarrow>
     shared \<Rightarrow> shared" where
  "update_role cr client nonce i name color perms s =
     (case actor_of cr client nonce s of
        (None, s') \<Rightarrow> s'
      | (Some a, s) \<Rightarrow>
          let snapshot = s_perms s in
          case List.find (\<lambda>r. r_id r = i) (ps_roles snapshot) of
            None \<Rightarrow> refuse client nonce Malformed ''no such role'' s
          | Some existing \<Rightarrow>
              if \<not> can_manage_role (ps_roles snapshot) (a_roles a) (a_owner a) i then
                refuse client nonce NotPermitted ''that role is not below yours'' s
              else if i = EVERYONE_ROLE_ID \<and> name \<noteq> None then
                refuse client nonce Malformed ''everyone is not renamable'' s
              else case updated_role a existing name color perms of
                Inl (code, detail) \<Rightarrow> refuse client nonce code detail s
              | Inr updated \<Rightarrow>
                  if s_store s = None then refuse client nonce Internal ''no database'' s
                  else
                    let before = visible_ids_by_client cr s
                    in case db_call (store_update_role updated) s of
                         (Inl _, s) \<Rightarrow> refuse client nonce Internal ''the change was not saved'' s
                       | (Inr _, s) \<Rightarrow>
                           let s = swap_perm_state (snapshot\<lparr>ps_roles :=
                                     replace_first (\<lambda>r. r_id r = i) updated (ps_roles snapshot)\<rparr>) s;
                               s = broadcast (RoleUpdated updated) None s;
                               s = resync_visibility cr before [] s
                           in ack client nonce s)"

definition compacted :: "role list \<Rightarrow> role list" where
  "compacted roles =
     map (\<lambda>(k, r). r\<lparr>r_position := of_nat k\<rparr>) (enumerate 0 (sort_key r_position roles))"

definition perms_without_role :: "role_id \<Rightarrow> perm_state \<Rightarrow> perm_state" where
  "perms_without_role i p =
     \<lparr>ps_roles = compacted (filter (\<lambda>r. r_id r \<noteq> i) (ps_roles p)),
      ps_members = map (\<lambda>(fp, rs). (fp, filter (\<lambda>r. r \<noteq> i) rs)) (ps_members p)\<rparr>"

text \<open>The memory half of a deletion, after the store's cascade.\<close>

definition drop_role_mem :: "role_id \<Rightarrow> shared \<Rightarrow> channel_id list \<times> user_info list \<times> shared" where
  "drop_role_mem i s =
     (let s = swap_perm_state (perms_without_role i (s_perms s)) s;
          (touched, s) = strip_role_overwrites i s;
          (holders, s) = strip_live_role i s
      in (touched, holders, s))"

definition delete_role :: "ext \<Rightarrow> client_id \<Rightarrow> u64 \<Rightarrow> role_id \<Rightarrow> shared \<Rightarrow> shared" where
  "delete_role cr client nonce i s =
     (case actor_of cr client nonce s of
        (None, s') \<Rightarrow> s'
      | (Some a, s) \<Rightarrow>
          let snapshot = s_perms s in
          if i = EVERYONE_ROLE_ID then
            refuse client nonce NotPermitted ''everyone is not deletable'' s
          else if \<not> (\<exists>r\<in>set (ps_roles snapshot). r_id r = i) then
            refuse client nonce Malformed ''no such role'' s
          else if \<not> can_manage_role (ps_roles snapshot) (a_roles a) (a_owner a) i then
            refuse client nonce NotPermitted ''that role is not below yours'' s
          else if s_store s = None then refuse client nonce Internal ''no database'' s
          else
            let before = visible_ids_by_client cr s
            in case db_call (store_delete_role i) s of
                 (Inl _, s) \<Rightarrow> refuse client nonce Internal ''the deletion was not saved'' s
               | (Inr _, s) \<Rightarrow>
                   let ordering = ordering_of (ps_roles (perms_without_role i snapshot));
                       (_, s) = db_call (set_role_positions ordering) s;
                       (touched, holders, s) = drop_role_mem i s;
                       s = broadcast (RoleDeleted i) None s;
                       s = broadcast (RolesReordered ordering) None s;
                       s = fold (\<lambda>info. broadcast (UserUpdated info) None) holders s;
                       s = resync_visibility cr before touched s
                   in ack client nonce s)"

text \<open>A reorder names every role once, with the positions from zero up.\<close>

definition dense_positions :: "(role_id \<times> u32) list \<Rightarrow> role list \<Rightarrow> bool" where
  "dense_positions positions roles \<longleftrightarrow>
     (let expected = map of_nat [0..<length roles];
          given = sort (map snd positions);
          names_all = (length positions = length roles \<and>
            (\<forall>r\<in>set roles. \<exists>p\<in>set positions. fst p = r_id r))
      in names_all \<and> given = expected)"

definition moves_everyone :: "(role_id \<times> u32) list \<Rightarrow> bool" where
  "moves_everyone positions \<longleftrightarrow> (\<exists>(i, p)\<in>set positions. i = EVERYONE_ROLE_ID \<and> p \<noteq> 0)"

definition out_of_reach :: "actor \<Rightarrow> role list \<Rightarrow> (role_id \<times> u32) list \<Rightarrow> bool" where
  "out_of_reach a roles positions \<longleftrightarrow> \<not> a_owner a \<and>
     (let my_top = top_role_position roles (a_roles a) in
      \<exists>(i, new_position)\<in>set positions.
        let old = (case role_position roles i of Some p \<Rightarrow> p | None \<Rightarrow> 0) in
        old \<noteq> new_position \<and> (old \<ge> my_top \<or> new_position \<ge> my_top))"

definition reorder_roles ::
  "ext \<Rightarrow> client_id \<Rightarrow> u64 \<Rightarrow> (role_id \<times> u32) list \<Rightarrow> shared \<Rightarrow> shared" where
  "reorder_roles cr client nonce positions s =
     (case actor_of cr client nonce s of
        (None, s') \<Rightarrow> s'
      | (Some a, s) \<Rightarrow>
          let snapshot = s_perms s; roles = ps_roles snapshot in
          if \<not> dense_positions positions roles then
            refuse client nonce Malformed ''a reorder names every role exactly once, densely'' s
          else if moves_everyone positions then
            refuse client nonce Malformed ''everyone stays at the bottom'' s
          else if out_of_reach a roles positions then
            refuse client nonce NotPermitted ''you can only move roles below your own'' s
          else if s_store s = None then refuse client nonce Internal ''no database'' s
          else case db_call (set_role_positions positions) s of
                 (Inl _, s) \<Rightarrow> refuse client nonce Internal ''the reorder was not saved'' s
               | (Inr _, s) \<Rightarrow>
                   let s = swap_perm_state (snapshot\<lparr>ps_roles :=
                             sort_key r_position (apply_positions positions roles)\<rparr>) s;
                       s = broadcast (RolesReordered positions) None s
                   in ack client nonce s)"

definition perms_with_grants :: "fingerprint \<Rightarrow> role_id list \<Rightarrow> perm_state \<Rightarrow> perm_state" where
  "perms_with_grants fp roles p =
     p\<lparr>ps_members := (if roles = [] then AList.delete fp (ps_members p)
                      else AList.update fp roles (ps_members p))\<rparr>"

definition set_member_roles ::
  "ext \<Rightarrow> client_id \<Rightarrow> u64 \<Rightarrow> fingerprint \<Rightarrow> role_id list \<Rightarrow> shared \<Rightarrow> shared" where
  "set_member_roles cr client nonce fp roles s =
     (case actor_of cr client nonce s of
        (None, s') \<Rightarrow> s'
      | (Some a, s) \<Rightarrow>
          let snapshot = s_perms s;
              current = member_roles s fp;
              changed = filter (\<lambda>r. r \<notin> set roles) current @ filter (\<lambda>r. r \<notin> set current) roles
          in
          if EVERYONE_ROLE_ID \<in> set roles then
            refuse client nonce Malformed ''everyone is implicit, not granted'' s
          else if \<exists>i\<in>set roles. \<not> (\<exists>r\<in>set (ps_roles snapshot). r_id r = i) then
            refuse client nonce Malformed ''no such role'' s
          else if is_owner s fp \<and> \<not> a_owner a then
            refuse client nonce NotPermitted ''the owner's roles are not yours to change'' s
          else if \<exists>r\<in>set changed. \<not> can_manage_role (ps_roles snapshot) (a_roles a) (a_owner a) r then
            refuse client nonce NotPermitted ''some of those roles are not below yours'' s
          else if s_store s = None then refuse client nonce Internal ''no database'' s
          else
            let before = visible_ids_by_client cr s
            in case db_call (replace_member_roles cr fp roles) s of
                 (Inl _, s) \<Rightarrow> refuse client nonce Internal ''the change was not saved'' s
               | (Inr _, s) \<Rightarrow>
                   let s = swap_perm_state (perms_with_grants fp roles snapshot) s;
                       (infos, s) = update_live_member_roles cr fp roles s;
                       s = fold (\<lambda>info. broadcast (UserUpdated info) None) infos s;
                       s = resync_visibility cr before [] s
                   in ack client nonce s)"

section \<open>Overwrites\<close>

text \<open>The refusals of \<open>set_channel_overwrite\<close> past the actor check, in order.\<close>

definition overwrite_refusal ::
  "ext \<Rightarrow> actor \<Rightarrow> client_id \<Rightarrow> channel_id \<Rightarrow> overwrite_target \<Rightarrow> permissions \<Rightarrow> permissions \<Rightarrow> shared \<Rightarrow>
     (error_code \<times> string) option option" where
  "overwrite_refusal cr a client channel target allow deny s =
     (if \<not> can cr s client channel VIEW_CHANNEL then Some (Some (NoSuchChannel, ''no such channel''))
      else if \<not> is_empty (intersect allow deny) then
        Some (Some (Malformed, ''a bit cannot be both allowed and denied''))
      else if (case target of TRole r \<Rightarrow> \<not> (\<exists>x\<in>set (ps_roles (s_perms s)). r_id x = r)
                | TMember _ \<Rightarrow> False) then
        Some (Some (Malformed, ''no such role''))
      else if \<not> a_owner a \<and> \<not> contains (a_base a) ADMINISTRATOR then
        (case client_fingerprint cr s client of
           None \<Rightarrow> Some None
         | Some fp \<Rightarrow>
             (case List.find (\<lambda>c. ch_id c = channel) (channels_list s) of
                None \<Rightarrow> Some (Some (NoSuchChannel, ''no such channel''))
              | Some c \<Rightarrow>
                  if \<not> contains (resolve (ps_roles (s_perms s)) (a_roles a) fp (a_owner a)
                                  (Some (ch_overwrites c))) (union allow deny)
                  then Some (Some (NotPermitted, ''you cannot toggle permissions you do not hold here''))
                  else None))
      else None)"

definition set_channel_overwrite ::
  "ext \<Rightarrow> client_id \<Rightarrow> u64 \<Rightarrow> channel_id \<Rightarrow> overwrite_target \<Rightarrow> permissions \<Rightarrow> permissions \<Rightarrow> shared \<Rightarrow>
     shared" where
  "set_channel_overwrite cr client nonce channel target allow deny s =
     (case actor_of cr client nonce s of
        (None, s') \<Rightarrow> s'
      | (Some a, s) \<Rightarrow>
          let allow = intersect allow CHANNEL_SCOPED; deny = intersect deny CHANNEL_SCOPED in
          case overwrite_refusal cr a client channel target allow deny s of
            Some None \<Rightarrow> s
          | Some (Some (code, detail)) \<Rightarrow> refuse client nonce code detail s
          | None \<Rightarrow>
              if s_store s = None then refuse client nonce Internal ''no database'' s
              else
                let ow = \<lparr>o_target = target, o_allow = allow, o_deny = deny\<rparr>;
                    before = visible_ids_by_client cr s
                in case db_call (upsert_overwrite cr channel ow) s of
                     (Inl _, s) \<Rightarrow> refuse client nonce Internal ''the change was not saved'' s
                   | (Inr _, s) \<Rightarrow>
                       let s = snd (set_channel_overwrite_mem channel ow s);
                           s = resync_visibility cr before [channel] s
                       in ack client nonce s)"

definition delete_channel_overwrite ::
  "ext \<Rightarrow> client_id \<Rightarrow> u64 \<Rightarrow> channel_id \<Rightarrow> overwrite_target \<Rightarrow> shared \<Rightarrow> shared" where
  "delete_channel_overwrite cr client nonce channel target s =
     (case actor_of cr client nonce s of
        (None, s') \<Rightarrow> s'
      | (Some _, s) \<Rightarrow>
          if \<not> can cr s client channel VIEW_CHANNEL then
            refuse client nonce NoSuchChannel ''no such channel'' s
          else if s_store s = None then refuse client nonce Internal ''no database'' s
          else
            let before = visible_ids_by_client cr s
            in case db_call (delete_overwrite cr channel target) s of
                 (Inl _, s) \<Rightarrow> refuse client nonce Internal ''the change was not saved'' s
               | (Inr _, s) \<Rightarrow>
                   let s = snd (remove_channel_overwrite channel target s);
                       s = resync_visibility cr before [channel] s
                   in ack client nonce s)"

section \<open>Channels\<close>

definition validate_channel ::
  "channel_id option \<Rightarrow> ustring \<Rightarrow> channel_id option \<Rightarrow> shared \<Rightarrow> (string + ustring) option" where
  "validate_channel i name parent s =
     (let name = trim name in
      if name = [] then Some (Inl ''a channel needs a name'')
      else case parent of
        None \<Rightarrow> Some (Inr name)
      | Some p \<Rightarrow>
          if \<not> (\<exists>c\<in>set (channels_list s). ch_id c = p) then Some (Inl ''no such parent'')
          else case i of
            None \<Rightarrow> Some (Inr name)
          | Some child \<Rightarrow>
              map_option (\<lambda>cycle. if cycle then Inl ''a channel cannot contain itself'' else Inr name)
                (parent_would_cycle child parent s))"

definition create_channel ::
  "ext \<Rightarrow> client_id \<Rightarrow> u64 \<Rightarrow> ustring \<Rightarrow> channel_id option \<Rightarrow> ustring \<Rightarrow> channel_kind \<Rightarrow> u16 option \<Rightarrow>
     int \<Rightarrow> shared \<Rightarrow> shared option" where
  "create_channel cr client nonce name parent topic kind mx order s =
     (if \<not> can_globally cr s client MANAGE_CHANNELS then
        Some (refuse client nonce NotPermitted ''you may not manage channels'' s)
      else case validate_channel None name parent s of
        None \<Rightarrow> None
      | Some (Inl detail) \<Rightarrow> Some (refuse client nonce Malformed detail s)
      | Some (Inr name) \<Rightarrow>
          if s_store s = None then Some (refuse client nonce Internal ''no database'' s)
          else
            let c = \<lparr>ch_id = next_channel_id s, ch_parent = parent, ch_name = name,
                     ch_topic = topic, ch_kind = kind, ch_max_users = mx, ch_order = order,
                     ch_overwrites = []\<rparr>
            in case db_call (insert_channel c) s of
                 (Inl _, s) \<Rightarrow> Some (refuse client nonce Internal ''the channel was not saved'' s)
               | (Inr _, s) \<Rightarrow>
                   let before = visible_ids_by_client cr s;
                       s = insert_channel_mem c s;
                       s = resync_visibility cr before [] s
                   in Some (ack client nonce s))"

definition update_channel ::
  "ext \<Rightarrow> client_id \<Rightarrow> u64 \<Rightarrow> channel_id \<Rightarrow> channel_id option \<Rightarrow> ustring \<Rightarrow> ustring \<Rightarrow> channel_kind \<Rightarrow>
     u16 option \<Rightarrow> int \<Rightarrow> shared \<Rightarrow> shared option" where
  "update_channel cr client nonce i parent name topic kind mx order s =
     (if \<not> can_globally cr s client MANAGE_CHANNELS then
        Some (refuse client nonce NotPermitted ''you may not manage channels'' s)
      else if \<not> can cr s client i VIEW_CHANNEL then
        Some (refuse client nonce NoSuchChannel ''no such channel'' s)
      else case validate_channel (Some i) name parent s of
        None \<Rightarrow> None
      | Some (Inl detail) \<Rightarrow> Some (refuse client nonce Malformed detail s)
      | Some (Inr name) \<Rightarrow>
          if s_store s = None then Some (refuse client nonce Internal ''no database'' s)
          else
            let c = \<lparr>ch_id = i, ch_parent = parent, ch_name = name, ch_topic = topic,
                     ch_kind = kind, ch_max_users = mx, ch_order = order, ch_overwrites = []\<rparr>
            in case db_call (store_update_channel c) s of
                 (Inl _, s) \<Rightarrow> Some (refuse client nonce Internal ''the change was not saved'' s)
               | (Inr _, s) \<Rightarrow>
                   let before = visible_ids_by_client cr s;
                       s = snd (update_channel_mem c s);
                       s = resync_visibility cr before [i] s
                   in Some (ack client nonce s))"

definition delete_channel :: "ext \<Rightarrow> client_id \<Rightarrow> u64 \<Rightarrow> channel_id \<Rightarrow> shared \<Rightarrow> shared" where
  "delete_channel cr client nonce i s =
     (if \<not> can_globally cr s client MANAGE_CHANNELS then
        refuse client nonce NotPermitted ''you may not manage channels'' s
      else if \<not> can cr s client i VIEW_CHANNEL then
        refuse client nonce NoSuchChannel ''no such channel'' s
      else if s_store s = None then refuse client nonce Internal ''no database'' s
      else case db_call (store_delete_channel i) s of
             (Inl _, s) \<Rightarrow> refuse client nonce Internal ''the deletion was not saved'' s
           | (Inr _, s) \<Rightarrow>
               let before = visible_ids_by_client cr s;
                   (evicted, s) = remove_channel_mem i s;
                   s = fold (\<lambda>info s.
                         broadcast (UserUpdated info) None
                           (broadcast (UserMoved (ui_client_id info) (Some i) None) None s)) evicted s;
                   s = resync_visibility cr before [] s
               in ack client nonce s)"

end
