(* ===== verification/Pickle_Invariants.thy ===== *)
theory Pickle_Invariants
  imports Pickle_Admin
begin

text \<open>
  The contract under which every administrative command keeps an invariant: one law per change the
  commands make to the permission inputs, the overwrites and the channel map, with the conditions
  the commands have checked by then. The commands are shown to keep any such invariant once, inside
  the locale; the well-formedness of the state, the coherence of cached roles and the shape of the
  role ladder are its instances.
\<close>

section \<open>Changes the commands make\<close>

definition with_roles :: "role list \<Rightarrow> shared \<Rightarrow> shared" where
  "with_roles roles s = swap_perm_state ((s_perms s)\<lparr>ps_roles := roles\<rparr>) s"

definition grant_mem :: "ext \<Rightarrow> fingerprint \<Rightarrow> role_id list \<Rightarrow> shared \<Rightarrow> user_info list \<times> shared" where
  "grant_mem cr fp roles s =
     update_live_member_roles cr fp roles (swap_perm_state (perms_with_grants fp roles (s_perms s)) s)"

section \<open>Outcomes of the commands\<close>

text \<open>
  \<open>settles f s s'\<close>: the database was asked, the change \<open>f\<close> was made in memory, and the rest was
  sending. A refused command settles with no change.
\<close>

definition settles :: "(shared \<Rightarrow> shared) \<Rightarrow> shared \<Rightarrow> shared \<Rightarrow> bool" where
  "settles f s s' \<longleftrightarrow> (\<exists>st. quiet (f (s\<lparr>s_store := st\<rparr>)) s')"

abbreviation refused :: "shared \<Rightarrow> shared \<Rightarrow> bool" where
  "refused \<equiv> settles (\<lambda>s. s)"

lemma quiet_then:
  "quiet s t \<Longrightarrow> quiet s (send c m t)"
  "quiet s t \<Longrightarrow> quiet s (broadcast m except t)"
  "quiet s t \<Longrightarrow> quiet s (broadcast_filtered cr m channel except t)"
  "quiet s t \<Longrightarrow> quiet s (resync_visibility cr before touched t)"
  "quiet s t \<Longrightarrow> quiet s (ack c n t)"
  "quiet s t \<Longrightarrow> quiet s (refuse c n code detail t)"
  by (erule quiet_trans, rule quiet_send, erule quiet_trans, rule quiet_broadcast,
      erule quiet_trans, rule quiet_broadcast_filtered, erule quiet_trans, rule quiet_resync_visibility,
      erule quiet_trans, rule quiet_ack, erule quiet_trans, rule quiet_refuse)

lemma quiet_then_fold:
  assumes "quiet s t" and "\<And>x s t. x \<in> set xs \<Longrightarrow> quiet s t \<Longrightarrow> quiet s (f x t)"
  shows "quiet s (fold f xs t)"
  by (rule quiet_trans [OF assms(1)], rule quiet_fold, rule assms(2)) simp_all

lemma settlesI: "quiet (f (s\<lparr>s_store := st\<rparr>)) s' \<Longrightarrow> settles f s s'"
  unfolding settles_def by blast

lemma refused_quiet: "quiet s s' \<Longrightarrow> refused s s'"
  by (rule settlesI [where st = "s_store s"]) simp

lemma refused_simps [simp]:
  "refused s s" "refused s (refuse c n code detail s)"
  "refused s (refuse c n code detail (s\<lparr>s_store := st\<rparr>))"
  by (auto intro: refused_quiet quiet_intros settlesI)

lemma db_call_ex: obtains r st where "db_call q s = (r, s\<lparr>s_store := st\<rparr>)"
proof (cases "s_store s")
  case None
  then have "db_call q s = (Inl Query, s\<lparr>s_store := s_store s\<rparr>)" by (simp add: db_call_def)
  then show ?thesis by (rule that)
next
  case (Some st)
  then show ?thesis by (cases "q st") (auto simp: db_call_def intro: that)
qed

lemma actor_of_cases:
  "actor_of cr client nonce s = (r, s') \<Longrightarrow> (case r of None \<Rightarrow> quiet s s' | Some a \<Rightarrow> s' = s)"
  by (auto simp: actor_of_def Let_def quiet_intros split: if_splits option.splits)

lemma actor_of_exhaust:
  obtains (refused) t where "actor_of cr client nonce s = (None, t)" "quiet s t"
  | (standing) a where "actor_of cr client nonce s = (Some a, s)"
  using actor_of_cases [of cr client nonce s] by (cases "actor_of cr client nonce s") (auto split: option.splits)

lemma updated_role_fields:
  "updated_role a existing name color perms = Inr new \<Longrightarrow>
     r_id new = r_id existing \<and> r_position new = r_position existing"
  by (auto simp: updated_role_def Let_def split: option.splits if_splits sum.splits)

lemma create_role_cases:
  "refused s (create_role cr client nonce name perms s) \<or>
   (\<exists>a r. actor_of cr client nonce s = (Some a, s) \<and> may_grant a (intersect perms ALL_BITS) \<and>
      r = \<lparr>r_id = next_role_id (ps_roles (s_perms s)), r_name = trim name, r_color = None,
           r_position = 1, r_permissions = intersect perms ALL_BITS\<rparr> \<and>
      settles (with_roles (roles_with_new r (ps_roles (s_perms s)))) s
        (create_role cr client nonce name perms s))"
proof (cases rule: actor_of_exhaust [of cr client nonce s])
  case (refused t)
  then show ?thesis by (simp add: create_role_def refused_quiet)
next
  case (standing a)
  let ?roles = "ps_roles (s_perms s)"
  let ?r = "\<lparr>r_id = next_role_id ?roles, r_name = trim name, r_color = None,
           r_position = 1, r_permissions = intersect perms ALL_BITS\<rparr>"
  obtain r1 st1 where d1: "db_call (set_role_positions (shifted_positions ?roles)) s = (r1, s\<lparr>s_store := st1\<rparr>)"
    by (rule db_call_ex)
  obtain r2 st2 where d2: "db_call (insert_role ?r) (s\<lparr>s_store := st1\<rparr>) = (r2, s\<lparr>s_store := st2\<rparr>)"
    by (rule db_call_ex [of "insert_role ?r" "s\<lparr>s_store := st1\<rparr>"]) simp
  have "settles (with_roles (roles_with_new ?r ?roles)) s
      (ack client nonce (broadcast (RolesReordered (ordering_of (roles_with_new ?r ?roles))) None
        (broadcast (RoleCreated ?r) None
          (swap_perm_state ((s_perms s)\<lparr>ps_roles := roles_with_new ?r ?roles\<rparr>) (s\<lparr>s_store := st2\<rparr>)))))"
    by (rule settlesI [where st = st2]) (simp add: with_roles_def quiet_then)
  then show ?thesis
    using standing by (auto simp: create_role_def Let_def d1 d2 split: sum.splits)
qed

lemma update_role_cases:
  "refused s (update_role cr client nonce i name color perms s) \<or>
   (\<exists>a old new. actor_of cr client nonce s = (Some a, s) \<and>
      List.find (\<lambda>r. r_id r = i) (ps_roles (s_perms s)) = Some old \<and>
      can_manage_role (ps_roles (s_perms s)) (a_roles a) (a_owner a) i \<and>
      updated_role a old name color perms = Inr new \<and>
      settles (with_roles (replace_first (\<lambda>r. r_id r = i) new (ps_roles (s_perms s)))) s
        (update_role cr client nonce i name color perms s))"
proof (cases rule: actor_of_exhaust [of cr client nonce s])
  case (refused t)
  then show ?thesis by (simp add: update_role_def refused_quiet)
next
  case (standing a)
  let ?roles = "ps_roles (s_perms s)"
  show ?thesis
  proof (cases "List.find (\<lambda>r. r_id r = i) ?roles")
    case None
    then show ?thesis using standing by (simp add: update_role_def)
  next
    case (Some old)
    show ?thesis
    proof (cases "updated_role a old name color perms")
      case (Inl e)
      then show ?thesis using standing Some by (cases e) (simp add: update_role_def Let_def)
    next
      case (Inr new)
      obtain r1 st1 where d1: "db_call (store_update_role new) s = (r1, s\<lparr>s_store := st1\<rparr>)"
        by (rule db_call_ex)
      have "settles (with_roles (replace_first (\<lambda>r. r_id r = i) new ?roles)) s
          (ack client nonce (resync_visibility cr (visible_ids_by_client cr s) []
            (broadcast (RoleUpdated new) None (swap_perm_state ((s_perms s)\<lparr>ps_roles :=
              replace_first (\<lambda>r. r_id r = i) new ?roles\<rparr>) (s\<lparr>s_store := st1\<rparr>)))))"
        by (rule settlesI [where st = st1]) (simp add: with_roles_def quiet_then)
      then show ?thesis
        using standing Some Inr by (auto simp: update_role_def Let_def d1 split: sum.splits)
    qed
  qed
qed

lemma delete_role_cases:
  "refused s (delete_role cr client nonce i s) \<or>
   (\<exists>a. actor_of cr client nonce s = (Some a, s) \<and> i \<noteq> EVERYONE_ROLE_ID \<and>
      can_manage_role (ps_roles (s_perms s)) (a_roles a) (a_owner a) i \<and>
      settles (\<lambda>s. snd (snd (drop_role_mem i s))) s (delete_role cr client nonce i s))"
proof (cases rule: actor_of_exhaust [of cr client nonce s])
  case (refused t)
  then show ?thesis by (simp add: delete_role_def refused_quiet)
next
  case (standing a)
  let ?ord = "ordering_of (ps_roles (perms_without_role i (s_perms s)))"
  obtain r1 st1 where d1: "db_call (store_delete_role i) s = (r1, s\<lparr>s_store := st1\<rparr>)"
    by (rule db_call_ex)
  obtain r2 st2 where d2: "db_call (set_role_positions ?ord) (s\<lparr>s_store := st1\<rparr>) = (r2, s\<lparr>s_store := st2\<rparr>)"
    by (rule db_call_ex [of "set_role_positions ?ord" "s\<lparr>s_store := st1\<rparr>"]) simp
  obtain touched holders t where m: "drop_role_mem i (s\<lparr>s_store := st2\<rparr>) = (touched, holders, t)"
    by (metis surj_pair)
  have "settles (\<lambda>s. snd (snd (drop_role_mem i s))) s
      (ack client nonce (resync_visibility cr (visible_ids_by_client cr s) touched
        (fold (\<lambda>info. broadcast (UserUpdated info) None) holders
          (broadcast (RolesReordered ?ord) None (broadcast (RoleDeleted i) None t)))))"
    by (rule settlesI [where st = st2]) (simp add: m quiet_then quiet_then_fold)
  then show ?thesis
    using standing by (auto simp: delete_role_def Let_def d1 d2 m split: sum.splits)
qed

lemma reorder_roles_cases:
  "refused s (reorder_roles cr client nonce positions s) \<or>
   (\<exists>a. actor_of cr client nonce s = (Some a, s) \<and>
      dense_positions positions (ps_roles (s_perms s)) \<and> \<not> moves_everyone positions \<and>
      \<not> out_of_reach a (ps_roles (s_perms s)) positions \<and>
      settles (with_roles (sort_key r_position (apply_positions positions (ps_roles (s_perms s))))) s
        (reorder_roles cr client nonce positions s))"
proof (cases rule: actor_of_exhaust [of cr client nonce s])
  case (refused t)
  then show ?thesis by (simp add: reorder_roles_def refused_quiet)
next
  case (standing a)
  let ?new = "sort_key r_position (apply_positions positions (ps_roles (s_perms s)))"
  obtain r1 st1 where d1: "db_call (set_role_positions positions) s = (r1, s\<lparr>s_store := st1\<rparr>)"
    by (rule db_call_ex)
  have "settles (with_roles ?new) s (ack client nonce (broadcast (RolesReordered positions) None
          (swap_perm_state ((s_perms s)\<lparr>ps_roles := ?new\<rparr>) (s\<lparr>s_store := st1\<rparr>))))"
    by (rule settlesI [where st = st1]) (simp add: with_roles_def quiet_then)
  then show ?thesis
    using standing by (auto simp: reorder_roles_def Let_def d1 split: sum.splits)
qed

lemma set_member_roles_cases:
  "refused s (set_member_roles cr client nonce fp roles s) \<or>
   (\<exists>a. actor_of cr client nonce s = (Some a, s) \<and> EVERYONE_ROLE_ID \<notin> set roles \<and>
      set roles \<subseteq> r_id ` set (ps_roles (s_perms s)) \<and> (is_owner s fp \<longrightarrow> a_owner a) \<and>
      (\<forall>r. (r \<in> set roles) \<noteq> (r \<in> set (member_roles s fp)) \<longrightarrow>
         can_manage_role (ps_roles (s_perms s)) (a_roles a) (a_owner a) r) \<and>
      settles (\<lambda>s. snd (grant_mem cr fp roles s)) s (set_member_roles cr client nonce fp roles s))"
proof (cases rule: actor_of_exhaust [of cr client nonce s])
  case (refused t)
  then show ?thesis by (simp add: set_member_roles_def refused_quiet)
next
  case (standing a)
  obtain r1 st1 where d1: "db_call (replace_member_roles cr fp roles) s = (r1, s\<lparr>s_store := st1\<rparr>)"
    by (rule db_call_ex)
  obtain infos t where m: "update_live_member_roles cr fp roles
      (swap_perm_state (perms_with_grants fp roles (s_perms s)) (s\<lparr>s_store := st1\<rparr>)) = (infos, t)"
    by fastforce
  have "settles (\<lambda>s. snd (grant_mem cr fp roles s)) s
      (ack client nonce (resync_visibility cr (visible_ids_by_client cr s) []
        (fold (\<lambda>info. broadcast (UserUpdated info) None) infos t)))"
    by (rule settlesI [where st = st1]) (simp add: grant_mem_def m quiet_then quiet_then_fold)
  then show ?thesis
    using standing
    by (auto simp: set_member_roles_def Let_def d1 m image_iff split: sum.splits)
qed

lemma set_channel_overwrite_cases:
  "refused s (set_channel_overwrite cr client nonce channel target allow deny s) \<or>
   (\<exists>a ow. actor_of cr client nonce s = (Some a, s) \<and>
      ow = \<lparr>o_target = target, o_allow = intersect allow CHANNEL_SCOPED,
            o_deny = intersect deny CHANNEL_SCOPED\<rparr> \<and>
      overwrite_refusal cr a client channel target (o_allow ow) (o_deny ow) s = None \<and>
      settles (\<lambda>s. snd (set_channel_overwrite_mem channel ow s)) s
        (set_channel_overwrite cr client nonce channel target allow deny s))"
proof (cases rule: actor_of_exhaust [of cr client nonce s])
  case (refused t)
  then show ?thesis by (simp add: set_channel_overwrite_def refused_quiet)
next
  case (standing a)
  let ?ow = "\<lparr>o_target = target, o_allow = intersect allow CHANNEL_SCOPED,
            o_deny = intersect deny CHANNEL_SCOPED\<rparr>"
  obtain r1 st1 where d1: "db_call (upsert_overwrite cr channel ?ow) s = (r1, s\<lparr>s_store := st1\<rparr>)"
    by (rule db_call_ex)
  have "settles (\<lambda>s. snd (set_channel_overwrite_mem channel ?ow s)) s
      (ack client nonce (resync_visibility cr (visible_ids_by_client cr s) [channel]
        (snd (set_channel_overwrite_mem channel ?ow (s\<lparr>s_store := st1\<rparr>)))))"
    by (rule settlesI [where st = st1]) (simp add: quiet_then)
  then show ?thesis
    using standing
    by (auto simp: set_channel_overwrite_def Let_def d1 split: sum.splits option.splits)
qed

lemma delete_channel_overwrite_cases:
  "refused s (delete_channel_overwrite cr client nonce channel target s) \<or>
   (\<exists>a. actor_of cr client nonce s = (Some a, s) \<and> can cr s client channel VIEW_CHANNEL \<and>
      settles (\<lambda>s. snd (remove_channel_overwrite channel target s)) s
        (delete_channel_overwrite cr client nonce channel target s))"
proof (cases rule: actor_of_exhaust [of cr client nonce s])
  case (refused t)
  then show ?thesis by (simp add: delete_channel_overwrite_def refused_quiet)
next
  case (standing a)
  obtain r1 st1 where d1: "db_call (delete_overwrite cr channel target) s = (r1, s\<lparr>s_store := st1\<rparr>)"
    by (rule db_call_ex)
  have "settles (\<lambda>s. snd (remove_channel_overwrite channel target s)) s
      (ack client nonce (resync_visibility cr (visible_ids_by_client cr s) [channel]
        (snd (remove_channel_overwrite channel target (s\<lparr>s_store := st1\<rparr>)))))"
    by (rule settlesI [where st = st1]) (simp add: quiet_then)
  then show ?thesis
    using standing by (auto simp: delete_channel_overwrite_def Let_def d1 split: sum.splits)
qed

lemma validate_create: "validate_channel None name parent s \<noteq> None"
  by (simp add: validate_channel_def Let_def split: option.splits)

lemma create_channel_cases:
  "\<exists>s'. create_channel cr client nonce name parent topic kind mx order s = Some s' \<and>
     (refused s s' \<or>
      (\<exists>c. can_globally cr s client MANAGE_CHANNELS \<and>
         validate_channel None name parent s = Some (Inr (ch_name c)) \<and>
         ch_id c = next_channel_id s \<and> ch_parent c = parent \<and> ch_overwrites c = [] \<and>
         settles (insert_channel_mem c) s s'))"
proof (cases "can_globally cr s client MANAGE_CHANNELS")
  case False
  then show ?thesis by (simp add: create_channel_def)
next
  case True
  show ?thesis
  proof (cases "the (validate_channel None name parent s)")
    case (Inl d)
    then have "validate_channel None name parent s = Some (Inl d)" using validate_create [of name parent s] by (cases "validate_channel None name parent s") auto
    then show ?thesis using True by (simp add: create_channel_def)
  next
    case (Inr n)
    then have v: "validate_channel None name parent s = Some (Inr n)" using validate_create [of name parent s] by (cases "validate_channel None name parent s") auto
    let ?c = "\<lparr>ch_id = next_channel_id s, ch_parent = parent, ch_name = n,
                     ch_topic = topic, ch_kind = kind, ch_max_users = mx, ch_order = order,
                     ch_overwrites = []\<rparr>"
    obtain r1 st1 where d1: "db_call (insert_channel ?c) s = (r1, s\<lparr>s_store := st1\<rparr>)"
      by (rule db_call_ex)
    have "settles (insert_channel_mem ?c) s (ack client nonce (resync_visibility cr
        (visible_ids_by_client cr (s\<lparr>s_store := st1\<rparr>)) [] (insert_channel_mem ?c (s\<lparr>s_store := st1\<rparr>))))"
      by (rule settlesI [where st = st1]) (simp add: quiet_then)
    then show ?thesis
      using True v by (auto simp: create_channel_def Let_def d1 split: sum.splits intro!: exI [of _ ?c])
  qed
qed

lemma update_channel_cases:
  assumes "update_channel cr client nonce i parent name topic kind mx order s = Some s'"
  shows "refused s s' \<or>
      (\<exists>c. can_globally cr s client MANAGE_CHANNELS \<and> can cr s client i VIEW_CHANNEL \<and>
         validate_channel (Some i) name parent s = Some (Inr (ch_name c)) \<and>
         ch_id c = i \<and> ch_parent c = parent \<and>
         settles (\<lambda>s. snd (update_channel_mem c s)) s s')"
proof (cases "validate_channel (Some i) name parent s")
  case None
  then show ?thesis using assms by (auto simp: update_channel_def split: if_splits)
next
  case (Some v)
  show ?thesis
  proof (cases v)
    case (Inl d)
    then show ?thesis using assms Some by (auto simp: update_channel_def split: if_splits)
  next
    case (Inr n)
    let ?c = "\<lparr>ch_id = i, ch_parent = parent, ch_name = n, ch_topic = topic,
                     ch_kind = kind, ch_max_users = mx, ch_order = order, ch_overwrites = []\<rparr>"
    obtain r1 st1 where d1: "db_call (store_update_channel ?c) s = (r1, s\<lparr>s_store := st1\<rparr>)"
      by (rule db_call_ex)
    have "settles (\<lambda>s. snd (update_channel_mem ?c s)) s (ack client nonce (resync_visibility cr
        (visible_ids_by_client cr (s\<lparr>s_store := st1\<rparr>)) [i] (snd (update_channel_mem ?c (s\<lparr>s_store := st1\<rparr>)))))"
      by (rule settlesI [where st = st1]) (simp add: quiet_then)
    then show ?thesis
      using assms Some Inr
      by (auto simp: update_channel_def Let_def d1 split: sum.splits if_splits intro!: exI [of _ ?c])
  qed
qed

lemma delete_channel_cases:
  "refused s (delete_channel cr client nonce i s) \<or>
   (can_globally cr s client MANAGE_CHANNELS \<and> can cr s client i VIEW_CHANNEL \<and>
      settles (\<lambda>s. snd (remove_channel_mem i s)) s (delete_channel cr client nonce i s))"
proof -
  obtain r1 st1 where d1: "db_call (store_delete_channel i) s = (r1, s\<lparr>s_store := st1\<rparr>)"
    by (rule db_call_ex)
  obtain evicted t where m: "remove_channel_mem i (s\<lparr>s_store := st1\<rparr>) = (evicted, t)"
    by fastforce
  have "settles (\<lambda>s. snd (remove_channel_mem i s)) s
      (ack client nonce (resync_visibility cr (visible_ids_by_client cr (s\<lparr>s_store := st1\<rparr>)) []
        (fold (\<lambda>info s. broadcast (UserUpdated info) None
           (broadcast (UserMoved (ui_client_id info) (Some i) None) None s)) evicted t)))"
    by (rule settlesI [where st = st1]) (simp add: m quiet_then quiet_then_fold)
  then show ?thesis by (auto simp: delete_channel_def Let_def d1 m split: sum.splits)
qed

section \<open>The contract\<close>

locale server_invariant = session_invariant +
  assumes create_role_law:
      "I s \<Longrightarrow> r_id r = next_role_id (ps_roles (s_perms s)) \<Longrightarrow> r_id r \<noteq> 0 \<Longrightarrow> r_position r = 1 \<Longrightarrow>
         I (with_roles (roles_with_new r (ps_roles (s_perms s))) s)"
    and update_role_law:
      "I s \<Longrightarrow> List.find (\<lambda>r. r_id r = i) (ps_roles (s_perms s)) = Some old \<Longrightarrow> r_id new = i \<Longrightarrow>
         r_position new = r_position old \<Longrightarrow>
         I (with_roles (replace_first (\<lambda>r. r_id r = i) new (ps_roles (s_perms s))) s)"
    and delete_role_law:
      "I s \<Longrightarrow> i \<noteq> EVERYONE_ROLE_ID \<Longrightarrow> I (snd (snd (drop_role_mem i s)))"
    and reorder_law:
      "I s \<Longrightarrow> dense_positions positions (ps_roles (s_perms s)) \<Longrightarrow> \<not> moves_everyone positions \<Longrightarrow>
         I (with_roles (sort_key r_position (apply_positions positions (ps_roles (s_perms s)))) s)"
    and grant_law: "I s \<Longrightarrow> I (snd (grant_mem cr fp roles s))"
    and set_overwrite_law: "I s \<Longrightarrow> I (snd (set_channel_overwrite_mem channel ow s))"
    and remove_overwrite_law: "I s \<Longrightarrow> I (snd (remove_channel_overwrite channel target s))"
    and insert_channel_law: "I s \<Longrightarrow> ch_id c = next_channel_id s \<Longrightarrow> I (insert_channel_mem c s)"
    and update_channel_law: "I s \<Longrightarrow> I (snd (update_channel_mem c s))"
    and remove_channel_law: "I s \<Longrightarrow> I (snd (remove_channel_mem channel s))"

begin

lemma settles_keeps: "settles f s s' \<Longrightarrow> (\<And>st. I (f (s\<lparr>s_store := st\<rparr>))) \<Longrightarrow> I s'"
  unfolding settles_def using stable by blast

lemma refused_keeps: "I s \<Longrightarrow> refused s s' \<Longrightarrow> I s'"
  by (erule settles_keeps) (rule store_keeps)

lemma create_role_keeps:
  assumes "I s" and "next_role_id (ps_roles (s_perms s)) \<noteq> 0"
  shows "I (create_role cr client nonce name perms s)"
  using create_role_cases [of s cr client nonce name perms]
proof (elim disjE exE conjE)
  fix r
  assume r: "r = \<lparr>r_id = next_role_id (ps_roles (s_perms s)), r_name = trim name, r_color = None,
           r_position = 1, r_permissions = intersect perms ALL_BITS\<rparr>"
    and "settles (with_roles (roles_with_new r (ps_roles (s_perms s)))) s (create_role cr client nonce name perms s)"
  then show ?thesis
    using create_role_law [OF store_keeps [OF assms(1)], where r = r] assms(2)
    by (elim settles_keeps) simp
qed (rule refused_keeps [OF assms(1)])

lemma update_role_keeps:
  assumes "I s"
  shows "I (update_role cr client nonce i name color perms s)"
  using update_role_cases [of s cr client nonce i name color perms]
proof (elim disjE exE conjE)
  fix a old new
  assume f: "List.find (\<lambda>r. r_id r = i) (ps_roles (s_perms s)) = Some old"
    and u: "updated_role a old name color perms = Inr new"
    and "settles (with_roles (replace_first (\<lambda>r. r_id r = i) new (ps_roles (s_perms s)))) s
      (update_role cr client nonce i name color perms s)"
  moreover have "r_id old = i" using find_Some_mem [OF f] by simp
  ultimately show ?thesis
    using update_role_law [OF store_keeps [OF assms], where i = i and old = old and new = new] updated_role_fields [OF u]
    by (elim settles_keeps) simp
qed (rule refused_keeps [OF assms])

lemma delete_role_keeps: "I s \<Longrightarrow> I (delete_role cr client nonce i s)"
  using delete_role_cases [of s cr client nonce i] refused_keeps
  by (auto elim!: settles_keeps intro!: delete_role_law store_keeps)

lemma reorder_roles_keeps:
  assumes "I s"
  shows "I (reorder_roles cr client nonce positions s)"
  using reorder_roles_cases [of s cr client nonce positions] refused_keeps [OF assms]
    reorder_law [OF store_keeps [OF assms], where positions = positions]
  by (auto elim: settles_keeps)

lemma set_member_roles_keeps: "I s \<Longrightarrow> I (set_member_roles cr client nonce fp roles s)"
  using set_member_roles_cases [of s cr client nonce fp roles] refused_keeps
  by (auto elim!: settles_keeps intro!: grant_law store_keeps)

lemma set_channel_overwrite_keeps:
  "I s \<Longrightarrow> I (set_channel_overwrite cr client nonce channel target allow deny s)"
  using set_channel_overwrite_cases [of s cr client nonce channel target allow deny] refused_keeps
  by (auto elim!: settles_keeps intro!: set_overwrite_law store_keeps)

lemma delete_channel_overwrite_keeps:
  "I s \<Longrightarrow> I (delete_channel_overwrite cr client nonce channel target s)"
  using delete_channel_overwrite_cases [of s cr client nonce channel target] refused_keeps
  by (auto elim!: settles_keeps intro!: remove_overwrite_law store_keeps)

lemma next_channel_id_store [simp]: "next_channel_id (s\<lparr>s_store := st\<rparr>) = next_channel_id s"
  by (simp add: next_channel_id_def)

lemma create_channel_keeps:
  "I s \<Longrightarrow> create_channel cr client nonce name parent topic kind mx order s = Some s' \<Longrightarrow> I s'"
  using create_channel_cases [of cr client nonce name parent topic kind mx order s] refused_keeps
  by (auto elim!: settles_keeps intro!: insert_channel_law store_keeps)

lemma update_channel_keeps:
  "I s \<Longrightarrow> update_channel cr client nonce i parent name topic kind mx order s = Some s' \<Longrightarrow> I s'"
  using update_channel_cases [of cr client nonce i parent name topic kind mx order s s'] refused_keeps
  by (auto elim!: settles_keeps intro!: update_channel_law store_keeps)

lemma delete_channel_keeps: "I s \<Longrightarrow> I (delete_channel cr client nonce i s)"
  using delete_channel_cases [of s cr client nonce i] refused_keeps
  by (auto elim!: settles_keeps intro!: remove_channel_law store_keeps)

end

section \<open>Well-formedness\<close>

lemma wf_perms [simp]: "wf (s\<lparr>s_perms := p\<rparr>) = wf s"
  by (simp add: wf_def keyed_def info_ok_def)

definition keeps_place :: "(connected_client \<Rightarrow> connected_client) \<Rightarrow> bool" where
  "keeps_place g \<longleftrightarrow> (\<forall>e. c_queue (g e) = c_queue e \<and>
     ui_client_id (c_info (g e)) = ui_client_id (c_info e) \<and> ui_voice (c_info (g e)) = ui_voice (c_info e) \<and>
     ui_nickname (c_info (g e)) = ui_nickname (c_info e) \<and>
     ui_channel (c_info (g e)) \<in> {None, ui_channel (c_info e)})"

lemma wf_map_clients:
  assumes "wf s" and "keeps_place g"
  shows "wf (s\<lparr>s_clients := map (\<lambda>(i, e). (i, g e)) (s_clients s)\<rparr>)"
proof -
  let ?s = "s\<lparr>s_clients := map (\<lambda>(i, e). (i, g e)) (s_clients s)\<rparr>"
  have io: "info_ok ?s = info_ok s" by (rule info_ok_cong) simp_all
  have "info_ok s (c_info (g e))" if "info_ok s (c_info e)" for e
  proof -
    have g: "ui_voice (c_info (g e)) = ui_voice (c_info e)" "ui_nickname (c_info (g e)) = ui_nickname (c_info e)"
      "ui_channel (c_info (g e)) = None \<or> ui_channel (c_info (g e)) = ui_channel (c_info e)"
      using assms(2) by (auto simp: keeps_place_def)
    from that show ?thesis unfolding info_ok_def g(1,2) using g(3) by auto
  qed
  moreover have "c_queue (g e) = c_queue e" "ui_client_id (c_info (g e)) = ui_client_id (c_info e)" for e
    using assms(2) by (simp_all add: keeps_place_def)
  ultimately show ?thesis using assms(1) by (auto simp: wf_def keyed_def io)
qed

lemma wf_new_channels:
  "wf s \<Longrightarrow> bt_invar m \<Longrightarrow> \<forall>(i, c)\<in>set m. ch_id c = i \<Longrightarrow>
     (\<And>i e. (i, e) \<in> set (s_clients s) \<Longrightarrow> info_ok (s\<lparr>s_channels := m\<rparr>) (c_info e)) \<Longrightarrow>
     wf (s\<lparr>s_channels := m\<rparr>)"
  by (auto simp: wf_def keyed_def)

lemma wf_channels:
  assumes "wf s" and "bt_invar m" and "\<forall>(i, c)\<in>set m. ch_id c = i"
    and "\<And>c. map_of (s_channels s) c \<noteq> None \<Longrightarrow> map_of m c \<noteq> None"
  shows "wf (s\<lparr>s_channels := m\<rparr>)"
proof -
  have "info_ok s i \<Longrightarrow> info_ok (s\<lparr>s_channels := m\<rparr>) i" for i
    using assms(4) by (auto simp: info_ok_def)
  then show ?thesis using assms(1-3) by (auto simp: wf_def keyed_def)
qed

lemma set_map_entry:
  "(i, c') \<in> set (AList.map_entry k g m) \<Longrightarrow> \<exists>c. (i, c) \<in> set m \<and> (c' = c \<or> c' = g c)"
  by (induction m) (auto split: if_splits)

lemma wf_map_channel:
  assumes "wf s" and "\<And>c. ch_id c = k \<Longrightarrow> ch_id (g c) = k"
  shows "wf (s\<lparr>s_channels := AList.map_entry k g (s_channels s)\<rparr>)"
proof (rule wf_channels [OF assms(1)])
  show "bt_invar (AList.map_entry k g (s_channels s))"
    using assms(1) by (simp add: wf_def bt.invar_map_entry)
  show "map_of (AList.map_entry k g (s_channels s)) c \<noteq> None" if "map_of (s_channels s) c \<noteq> None" for c
    using that by (auto simp: map_of_map_entry split: option.splits)
  have "(i, c) \<in> set (AList.map_entry k g m) \<Longrightarrow> \<forall>(i, c)\<in>set m. ch_id c = i \<Longrightarrow> ch_id c = i" for m i c
    using assms(2) by (induction m) (auto split: if_splits)
  then show "\<forall>(i, c)\<in>set (AList.map_entry k g (s_channels s)). ch_id c = i"
    using assms(1) by (auto simp: wf_def)
qed

lemma wf_strip_overwrites: "wf s \<Longrightarrow> wf (snd (strip_role_overwrites i s))"
  unfolding strip_role_overwrites_def snd_conv
  by (rule wf_channels) (auto simp: wf_def map_of_map_val intro!: bt.invar_map split: if_splits)

lemma wf_strip_live: "wf s \<Longrightarrow> wf (snd (strip_live_role i s))"
  unfolding strip_live_role_def Let_def snd_conv
  by (rule wf_map_clients) (auto simp: keeps_place_def)

lemma wf_drop_role: "wf s \<Longrightarrow> wf (snd (snd (drop_role_mem i s)))"
  using wf_strip_live [OF wf_strip_overwrites, of "swap_perm_state (perms_without_role i (s_perms s)) s" i i]
  by (simp add: drop_role_mem_def Let_def prod.case_eq_if swap_perm_state_def)

lemma wf_grant: "wf s \<Longrightarrow> wf (snd (grant_mem cr fp roles s))"
  unfolding grant_mem_def update_live_member_roles_def Let_def snd_conv swap_perm_state_def
  by (rule wf_map_clients) (auto simp: keeps_place_def)

lemma wf_insert_channel:
  assumes "wf s"
  shows "wf (insert_channel_mem c s)"
  unfolding insert_channel_mem_def
proof (rule wf_channels [OF assms])
  have inv: "bt_invar (s_channels s)" using assms by (simp add: wf_def)
  show "bt_invar (bt_insert (ch_id c) c (s_channels s))" by (rule bt.invar_insert [OF inv])
  show "\<forall>(i, c)\<in>set (bt_insert (ch_id c) c (s_channels s)). ch_id c = i"
    using assms by (auto simp: bt.mem_insert [OF inv] wf_def split: if_splits)
  show "map_of (bt_insert (ch_id c) c (s_channels s)) i \<noteq> None" if "map_of (s_channels s) i \<noteq> None" for i
    using that by (simp add: map_of_bt_insert)
qed

lemma wf_remove_channel:
  assumes "wf s"
  shows "wf (snd (remove_channel_mem channel s))"
proof (cases "map_of (s_channels s) channel")
  case None
  then show ?thesis using assms by (simp add: remove_channel_mem_def)
next
  case (Some c)
  let ?f = "\<lambda>e. if ui_channel (c_info e) = Some channel
                      then e\<lparr>c_info := (c_info e)\<lparr>ui_channel := None\<rparr>\<rparr> else e"
  let ?t = "s\<lparr>s_clients := map (\<lambda>(i, e). (i, ?f e)) (s_clients s)\<rparr>"
  let ?s = "?t\<lparr>s_channels := AList.delete channel (s_channels s)\<rparr>"
  have s': "snd (remove_channel_mem channel s) = ?s" using Some by (simp add: remove_channel_mem_def Let_def)
  have wt: "wf ?t" by (rule wf_map_clients [OF assms]) (auto simp: keeps_place_def)
  show ?thesis
    unfolding s'
  proof (rule wf_new_channels [OF wt])
    fix i e
    assume e: "(i, e) \<in> set (s_clients ?t)"
    then have "info_ok ?t (c_info e)" using wt by (auto simp: wf_def)
    moreover have "ui_channel (c_info e) \<noteq> Some channel" using e by (auto split: if_splits)
    ultimately show "info_ok ?s (c_info e)" by (auto simp: info_ok_def delete_conv')
  next
    show "bt_invar (AList.delete channel (s_channels s))"
      using assms by (simp add: wf_def bt.invar_delete)
  qed (use assms in \<open>auto simp: wf_def AList.delete_eq\<close>)
qed

interpretation wf_server: server_invariant wf cr for cr
proof unfold_locales
  fix s assume "wf s"
  then show "wf (snd (set_channel_overwrite_mem channel ow s))" for channel ow
    unfolding set_channel_overwrite_mem_def snd_conv by (rule wf_map_channel) simp
  from \<open>wf s\<close> show "wf (snd (remove_channel_overwrite channel target s))" for channel target
    unfolding remove_channel_overwrite_def snd_conv by (rule wf_map_channel) simp
  from \<open>wf s\<close> show "wf (snd (update_channel_mem c s))" for c
    unfolding update_channel_mem_def snd_conv by (rule wf_map_channel) simp
qed (simp_all add: with_roles_def swap_perm_state_def wf_drop_role wf_grant wf_insert_channel
    wf_remove_channel)

section \<open>Coherence of cached roles\<close>

lemma coherentI:
  "(\<And>i e. (i, e) \<in> set (s_clients s) \<Longrightarrow> cached_ok cr s (c_info e)) \<Longrightarrow> coherent cr s"
  by (auto simp: coherent_def)

lemma coherent_channels [simp]: "coherent cr (s\<lparr>s_channels := m\<rparr>) = coherent cr s"
  by (simp add: coherent_def cached_ok_def member_roles_def is_owner_def)

lemma coherent_with_roles: "coherent cr s \<Longrightarrow> coherent cr (with_roles roles s)"
  by (simp add: coherent_def with_roles_def swap_perm_state_def cached_ok_def member_roles_def is_owner_def)

lemma coherent_drop_role:
  assumes "coherent cr s"
  shows "coherent cr (snd (snd (drop_role_mem i s)))"
proof -
  let ?s = "snd (snd (drop_role_mem i s))"
  let ?f = "\<lambda>e. if i \<in> set (ui_roles (c_info e))
                    then e\<lparr>c_info := (c_info e)\<lparr>ui_roles := filter (\<lambda>x. x \<noteq> i)
                           (ui_roles (c_info e))\<rparr>\<rparr> else e"
  have cl: "s_clients ?s = map (\<lambda>(k, e). (k, ?f e)) (s_clients s)" and ow: "s_owner ?s = s_owner s"
    and pm: "ps_members (s_perms ?s) = map (\<lambda>(fp, rs). (fp, filter (\<lambda>r. r \<noteq> i) rs)) (ps_members (s_perms s))"
    by (simp_all add: drop_role_mem_def swap_perm_state_def perms_without_role_def
        strip_role_overwrites_def strip_live_role_def Let_def)
  have mr: "member_roles ?s fp = filter (\<lambda>r. r \<noteq> i) (member_roles s fp)" for fp
    unfolding member_roles_def pm by (simp add: map_of_map_val split: option.splits)
  have f: "ui_roles (c_info (?f e)) = filter (\<lambda>r. r \<noteq> i) (ui_roles (c_info e))"
    "ui_identity (c_info (?f e)) = ui_identity (c_info e)" "ui_owner (c_info (?f e)) = ui_owner (c_info e)" for e
    by (auto intro!: filter_True [symmetric])
  show ?thesis
  proof (rule coherentI)
    fix k e'
    assume "(k, e') \<in> set (s_clients ?s)"
    then obtain e where e: "(k, e) \<in> set (s_clients s)" "e' = ?f e" unfolding cl by auto
    then have "cached_ok cr s (c_info e)" using assms by (auto simp: coherent_def)
    then show "cached_ok cr ?s (c_info e')"
      unfolding e(2) cached_ok_def ui_fingerprint_def f mr is_owner_def ow by simp
  qed
qed

lemma coherent_grant:
  assumes "coherent cr s"
  shows "coherent cr (snd (grant_mem cr fp roles s))"
proof -
  let ?s = "snd (grant_mem cr fp roles s)"
  let ?f = "\<lambda>e. if ui_fingerprint cr (c_info e) = fp
                    then e\<lparr>c_info := (c_info e)\<lparr>ui_roles := roles\<rparr>\<rparr> else e"
  have cl: "s_clients ?s = map (\<lambda>(k, e). (k, ?f e)) (s_clients s)" and ow: "s_owner ?s = s_owner s"
    and pm: "s_perms ?s = perms_with_grants fp roles (s_perms s)"
    by (simp_all add: grant_mem_def swap_perm_state_def update_live_member_roles_def Let_def)
  have mr: "member_roles ?s fp' = (if fp' = fp then roles else member_roles s fp')" for fp'
    unfolding member_roles_def pm perms_with_grants_def by (auto simp: delete_conv' update_conv')
  show ?thesis
  proof (rule coherentI)
    fix k e'
    assume "(k, e') \<in> set (s_clients ?s)"
    then obtain e where e: "(k, e) \<in> set (s_clients s)" "e' = ?f e" unfolding cl by auto
    then have "cached_ok cr s (c_info e)" using assms by (auto simp: coherent_def)
    then show "cached_ok cr ?s (c_info e')"
      unfolding e(2) cached_ok_def mr is_owner_def ow by (simp add: ui_fingerprint_def)
  qed
qed

lemma coherent_remove_channel:
  assumes "coherent cr s"
  shows "coherent cr (snd (remove_channel_mem channel s))"
proof (cases "map_of (s_channels s) channel")
  case None
  then show ?thesis using assms by (simp add: remove_channel_mem_def)
next
  case (Some c)
  let ?s = "snd (remove_channel_mem channel s)"
  have "cached_ok cr ?s = cached_ok cr s"
    by (rule cached_ok_cong) (simp_all add: remove_channel_mem_def Some Let_def)
  moreover have "cached_ok cr s (i\<lparr>ui_channel := None\<rparr>) = cached_ok cr s i" for i
    by (simp add: cached_ok_def ui_fingerprint_def)
  ultimately show ?thesis
    using assms by (auto simp: remove_channel_mem_def Some Let_def coherent_def split: if_splits)
qed

interpretation coherent_server: server_invariant "coherent cr" cr for cr
  by unfold_locales
    (simp_all add: coherent_with_roles coherent_drop_role coherent_grant coherent_remove_channel
      set_channel_overwrite_mem_def remove_channel_overwrite_def insert_channel_mem_def update_channel_mem_def)

end
