(* ===== verification/Pickle_Ladder.thy ===== *)
theory Pickle_Ladder
  imports Pickle_Invariants
begin

text \<open>
  The role ladder: role ids are distinct, the list is in rank order with the positions 0, 1, 2
  and so on, and @everyone is at the bottom. Every command of \<open>admin.rs\<close> keeps it, which is what
  makes the rank comparisons of the permission model a ladder without ties or gaps. On top of it:
  what a member may and may not reach by editing roles.
\<close>

section \<open>Dense positions\<close>

definition dense :: "nat \<Rightarrow> u32 list" where
  "dense n = map of_nat [0..<n]"

definition ladder_ok :: "role list \<Rightarrow> bool" where
  "ladder_ok roles \<longleftrightarrow> roles \<noteq> [] \<and> r_id (hd roles) = EVERYONE_ROLE_ID \<and> distinct (map r_id roles) \<and>
     map r_position roles = dense (length roles)"

definition ladder :: "shared \<Rightarrow> bool" where
  "ladder s \<longleftrightarrow> ladder_ok (ps_roles (s_perms s))"

lemma length_dense [simp]: "length (dense n) = n"
  by (simp add: dense_def)

lemma distinct_ids_bound:
  fixes f :: "'a \<Rightarrow> u32"
  assumes "distinct (map f xs)"
  shows "length xs \<le> 2 ^ 32"
proof -
  have "length xs = card (set (map f xs))" using distinct_card [OF assms] by simp
  also have "\<dots> \<le> card (UNIV :: u32 set)" by (rule card_mono) simp_all
  finally show ?thesis by (simp add: card_word)
qed

lemma of_nat_less_iff32: "i < 2 ^ 32 \<Longrightarrow> j < 2 ^ 32 \<Longrightarrow> (of_nat i :: u32) < of_nat j \<longleftrightarrow> i < j"
  by (simp add: word_less_nat_alt unsigned_of_nat take_bit_nat_eq_self)

lemma dense_strict: "n \<le> 2 ^ 32 \<Longrightarrow> sorted_wrt (<) (dense n)"
  unfolding dense_def sorted_wrt_map
  by (rule sorted_wrt_mono_rel [of _ "(<)"]) (auto simp: of_nat_less_iff32)

lemma dense_sorted: "n \<le> 2 ^ 32 \<Longrightarrow> sorted (dense n)" and dense_distinct: "n \<le> 2 ^ 32 \<Longrightarrow> distinct (dense n)"
  using dense_strict [of n] by (simp_all add: strict_sorted_iff)

lemma set_dense: "set (dense n) = of_nat ` {0..<n}"
  by (simp add: dense_def)

lemma sort_key_sorted: "sorted (map f xs) \<Longrightarrow> sort_key f xs = xs"
  by (induction xs) (simp_all add: insort_is_Cons)

lemma distinct_map_sort_key: "distinct (map g (sort_key f xs)) = distinct (map g xs)"
  by (simp add: distinct_map)

lemma ladder_of_positions:
  assumes ids: "distinct (map r_id roles)" and pos: "sort (map r_position roles) = dense (length roles)"
    and ev: "r \<in> set roles" "r_id r = EVERYONE_ROLE_ID" "r_position r = 0"
  shows "ladder_ok (sort_key r_position roles)"
proof -
  let ?s = "sort_key r_position roles"
  have n: "length roles \<le> 2 ^ 32" by (rule distinct_ids_bound [OF ids])
  have map: "map r_position ?s = dense (length roles)" using pos by (simp add: sort_map)
  have ne: "?s \<noteq> []" using ev(1) by (metis empty_iff empty_set set_sort)
  then have pos0: "0 < length roles" by (metis length_greater_0_conv length_sort)
  then have "map r_position ?s ! 0 = 0" unfolding map by (simp add: dense_def)
  then have hd: "r_position (hd ?s) = 0" using ne pos0 by (simp add: hd_conv_nth)
  have "distinct (map r_position ?s)" unfolding map using n by (rule dense_distinct)
  moreover have "hd ?s \<in> set ?s" "r \<in> set ?s" using hd_in_set [OF ne] ev(1) by (simp_all only: set_sort)
  ultimately have "hd ?s = r" using hd ev(3) by (auto simp: distinct_map inj_on_def)
  then show ?thesis using ne ev(2) ids map by (simp add: ladder_ok_def distinct_map_sort_key)
qed

lemma sort_dense:
  assumes "distinct xs" and "set xs = set (dense n)" and "n \<le> 2 ^ 32"
  shows "sort xs = dense n"
  using assms(1,2) dense_sorted [OF assms(3)] dense_distinct [OF assms(3)]
  by (intro sorted_distinct_set_unique) auto

section \<open>The ladder survives every command\<close>

lemma ladder_okD:
  assumes "ladder_ok roles"
  shows "\<exists>r rest. roles = r # rest \<and> r_id r = EVERYONE_ROLE_ID \<and> r_position r = 0 \<and>
    map r_position rest = map of_nat [1..<length roles]"
proof -
  obtain r rest where r: "roles = r # rest" using assms by (cases roles) (auto simp: ladder_ok_def)
  moreover have "dense (length roles) = 0 # map of_nat [1..<length roles]"
    unfolding dense_def by (subst upt_conv_Cons) (simp_all add: r)
  ultimately show ?thesis using assms by (auto simp: ladder_ok_def)
qed

lemma apply_own_positions:
  assumes "distinct (map r_id roles)"
  shows "apply_positions (map (\<lambda>r. (r_id r, g r)) roles) roles = map (\<lambda>r. r\<lparr>r_position := g r\<rparr>) roles"
proof -
  have "List.find (\<lambda>(i, _). i = r_id r) (map (\<lambda>r. (r_id r, g r)) roles) = Some (r_id r, g r)"
    if "r \<in> set roles" for r
    using assms that by (induction roles) (auto simp: image_iff)
  then show ?thesis by (simp add: apply_positions_def)
qed

lemma length_lt_next_id:
  assumes "distinct (map r_id roles)" and "roles \<noteq> []" and "next_role_id roles \<noteq> 0"
  shows "length roles < 2 ^ 32" and "next_role_id roles \<notin> set (map r_id roles)"
proof -
  let ?m = "Max (set (map r_id roles))"
  have m: "next_role_id roles = ?m + 1" "?m + 1 \<noteq> 0" using assms by (simp_all add: next_role_id_def)
  have le: "i \<le> ?m" if "i \<in> set (map r_id roles)" for i by (rule Max_ge) (use that in simp_all)
  have "unat (1 + ?m) = Suc (unat ?m)" by (rule unatSuc) (use m(2) in \<open>simp add: add.commute\<close>)
  then have lt: "?m < ?m + 1" by (simp add: word_less_nat_alt add.commute)
  have "?m + 1 \<notin> set (map r_id roles)" using le lt by (metis leD)
  then show fresh: "next_role_id roles \<notin> set (map r_id roles)" unfolding m(1) .
  have "card (set (map r_id roles)) < card (UNIV :: u32 set)"
    by (rule psubset_card_mono) (use fresh in auto)
  then show "length roles < 2 ^ 32" using distinct_card [OF assms(1)] by (simp add: card_word)
qed

lemma sort_shifted:
  assumes "n < 2 ^ 32" and "0 < n"
  shows "sort (0 # map (\<lambda>k. of_nat k + 1) [1..<n] @ [1]) = dense (Suc n)"
proof (rule sort_dense)
  let ?xs = "0 # map (\<lambda>k. of_nat k + 1) [1..<n] @ [1] :: u32 list"
  have xs: "?xs = map of_nat (0 # map Suc [1..<n] @ [1])" by (simp add: add.commute)
  have "set (0 # map Suc [1..<n] @ [1]) = {0..<Suc n}"
    using assms(2) by (auto simp: image_iff gr0_conv_Suc less_Suc_eq_0_disj)
  then show "set ?xs = set (dense (Suc n))" unfolding xs set_map set_dense by simp
  have "distinct (0 # map Suc [1..<n] @ [1])" by (auto simp: distinct_map)
  moreover have "inj_on (of_nat :: nat \<Rightarrow> u32) (set (0 # map Suc [1..<n] @ [1]))"
  proof (rule inj_on_subset)
    show "inj_on (of_nat :: nat \<Rightarrow> u32) {0..<2 ^ 32}"
      by (rule inj_onI) (simp add: word_of_nat_eq_iff take_bit_nat_eq_self)
    show "set (0 # map Suc [1..<n] @ [1]) \<subseteq> {0..<2 ^ 32}" using assms(1) by auto
  qed
  ultimately show "distinct ?xs" unfolding xs distinct_map by blast
  show "Suc n \<le> 2 ^ 32" using assms(1) by simp
qed

lemma ladder_create:
  assumes l: "ladder_ok roles" and r: "r_id r = next_role_id roles" "r_id r \<noteq> 0" "r_position r = 1"
  shows "ladder_ok (roles_with_new r roles)"
proof -
  have ids: "distinct (map r_id roles)" and ne: "roles \<noteq> []" using l by (auto simp: ladder_ok_def)
  have len: "length roles < 2 ^ 32" and fresh: "r_id r \<notin> set (map r_id roles)"
    using length_lt_next_id [OF ids ne] r by simp_all
  let ?g = "\<lambda>r. if r_position r = 0 then 0 else r_position r + 1 :: u32"
  let ?xs = "map (\<lambda>r. r\<lparr>r_position := ?g r\<rparr>) roles @ [r]"
  have sp: "shifted_positions roles = map (\<lambda>r. (r_id r, ?g r)) roles"
    by (auto simp: shifted_positions_def)
  have xs: "roles_with_new r roles = sort_key r_position ?xs"
    unfolding roles_with_new_def sp apply_own_positions [OF ids] ..
  obtain e rest where e: "roles = e # rest" "r_id e = EVERYONE_ROLE_ID" "r_position e = 0"
    "map r_position rest = map of_nat [1..<length roles]" using ladder_okD [OF l] by blast
  have nz: "\<forall>k\<in>set [1..<length roles]. (of_nat k :: u32) \<noteq> 0"
    using len by (auto simp: word_of_nat_eq_0_iff dest: nat_dvd_not_less)
  have "map r_position ?xs = 0 # map (?g \<circ> id) (map id rest) @ [1]"
    using e(3) r(3) by (simp add: e(1))
  also have "map (?g \<circ> id) (map id rest) = map (\<lambda>p. if p = 0 then 0 else p + 1) (map r_position rest)" by simp
  also have "\<dots> = map (\<lambda>k. of_nat k + 1) [1..<length roles]"
    unfolding e(4) using nz by simp
  finally have "sort (map r_position ?xs) = dense (length ?xs)"
    using sort_shifted [OF len] ne by simp
  moreover have "distinct (map r_id ?xs)" using ids fresh by (simp add: comp_def)
  moreover have "e\<lparr>r_position := 0\<rparr> \<in> set ?xs" using e(1,3) by simp
  ultimately show ?thesis
    unfolding xs using ladder_of_positions [of ?xs "e\<lparr>r_position := 0\<rparr>"] e(2) by simp
qed

lemma ladder_reorder:
  assumes l: "ladder_ok roles" and d: "dense_positions positions roles" and e: "\<not> moves_everyone positions"
  shows "ladder_ok (sort_key r_position (apply_positions positions roles))"
proof -
  have ids: "distinct (map r_id roles)" and ne: "roles \<noteq> []" using l by (auto simp: ladder_ok_def)
  have len: "length positions = length roles" and sub: "set (map r_id roles) \<subseteq> set (map fst positions)"
    and srt: "sort (map snd positions) = dense (length roles)"
    using d by (auto simp: dense_positions_def Let_def dense_def image_iff) (metis fst_conv)
  have n: "length roles \<le> 2 ^ 32" by (rule distinct_ids_bound [OF ids])
  have c: "card (set (map r_id roles)) = length positions" using distinct_card [OF ids] len by simp
  have "card (set (map fst positions)) \<le> length positions" by (metis card_length length_map)
  then have sets: "set (map r_id roles) = set (map fst positions)"
    using card_seteq [OF _ sub] c by simp
  then have dp: "distinct (map fst positions)" using c by (metis card_distinct length_map)
  have dq: "distinct (map snd positions)" using dense_distinct [OF n] srt by (metis distinct_sort)
  define g where "g i = the (map_of positions i)" for i
  have find: "List.find (\<lambda>(j, _). j = i) positions = map_option (Pair i) (map_of positions i)" for i
    by (induction positions) auto
  have some: "map_of positions (r_id r) = Some (g (r_id r))" if "r \<in> set roles" for r
  proof -
    have "r_id r \<in> fst ` set positions" using sub that by auto
    then have "map_of positions (r_id r) \<noteq> None" by (simp add: map_of_eq_None_iff)
    then show ?thesis by (auto simp: g_def)
  qed
  have ap: "apply_positions positions roles = map (\<lambda>r. r\<lparr>r_position := g (r_id r)\<rparr>) roles"
    unfolding apply_positions_def by (rule map_cong) (simp_all add: find some)
  have inj: "inj_on g (set (map r_id roles))"
  proof (rule inj_onI)
    fix i j
    assume ij: "i \<in> set (map r_id roles)" "j \<in> set (map r_id roles)" "g i = g j"
    have "(k, g k) \<in> set positions" if "k \<in> set (map r_id roles)" for k
      using that some by (auto dest: map_of_SomeD)
    then have "(i, g i) \<in> set positions" "(j, g i) \<in> set positions" using ij by metis+
    then show "i = j" using dq by (fastforce simp: distinct_map inj_on_def)
  qed
  let ?xs = "map (\<lambda>r. r\<lparr>r_position := g (r_id r)\<rparr>) roles"
  have pos: "map r_position ?xs = map g (map r_id roles)" by simp
  have "set (map g (map r_id roles)) \<subseteq> set (map snd positions)"
    using some by (force dest: map_of_SomeD)
  moreover have dg: "distinct (map g (map r_id roles))" using ids inj unfolding distinct_map by blast
  moreover have "card (set (map snd positions)) = card (set (map g (map r_id roles)))"
    using distinct_card [OF dq] distinct_card [OF dg] len by simp
  ultimately have "set (map g (map r_id roles)) = set (map snd positions)"
    using card_subset_eq by (metis List.finite_set)
  also have "\<dots> = set (dense (length roles))" using srt by (metis set_sort)
  finally have "sort (map r_position ?xs) = dense (length ?xs)"
    unfolding pos using sort_dense [OF dg _ n] by simp
  moreover obtain ev rest where ev: "roles = ev # rest" "r_id ev = EVERYONE_ROLE_ID" using ladder_okD [OF l] by blast
  moreover have "g EVERYONE_ROLE_ID = 0"
    using e some [of ev] ev unfolding moves_everyone_def by (auto dest: map_of_SomeD)
  ultimately show ?thesis
    unfolding ap using ladder_of_positions [of ?xs "ev\<lparr>r_position := 0\<rparr>"] ids by (simp add: comp_def)
qed

lemma ladder_delete:
  assumes "ladder_ok roles" and "i \<noteq> EVERYONE_ROLE_ID"
  shows "ladder_ok (compacted (filter (\<lambda>r. r_id r \<noteq> i) roles))"
proof -
  have n: "length roles \<le> 2 ^ 32" by (rule distinct_ids_bound [of r_id]) (use assms(1) in \<open>simp add: ladder_ok_def\<close>)
  have "sorted (map r_position roles)" using assms(1) dense_sorted [OF n] by (simp add: ladder_ok_def)
  then have "sorted (map r_position (filter (\<lambda>r. r_id r \<noteq> i) roles))" by (rule sorted_filter)
  then have c: "compacted (filter (\<lambda>r. r_id r \<noteq> i) roles) =
      map (\<lambda>(k, r). r\<lparr>r_position := of_nat k\<rparr>) (enumerate 0 (filter (\<lambda>r. r_id r \<noteq> i) roles))"
    by (simp add: compacted_def sort_key_sorted)
  have "map r_position (compacted (filter (\<lambda>r. r_id r \<noteq> i) roles)) = dense (length (filter (\<lambda>r. r_id r \<noteq> i) roles))"
    unfolding c dense_def by (rule nth_equalityI) (simp_all add: nth_enumerate_eq)
  moreover have ids: "map r_id (compacted (filter (\<lambda>r. r_id r \<noteq> i) roles)) = map r_id (filter (\<lambda>r. r_id r \<noteq> i) roles)"
    unfolding c by (rule nth_equalityI) (simp_all add: nth_enumerate_eq)
  moreover obtain ev rest where "roles = ev # rest" "r_id ev = EVERYONE_ROLE_ID"
    using ladder_okD [OF assms(1)] by blast
  moreover have "distinct (map r_id (filter (\<lambda>r. r_id r \<noteq> i) roles))"
    using assms(1) by (simp add: ladder_ok_def distinct_map_filter)
  ultimately show ?thesis
    using assms(2) unfolding ladder_ok_def
    by (auto simp: compacted_def dest: arg_cong [where f = length] arg_cong [where f = hd] simp: hd_map)
qed

lemma replace_first_map:
  assumes "List.find (\<lambda>r. r_id r = i) roles = Some old" and "f new = f old"
  shows "map f (replace_first (\<lambda>r. r_id r = i) new roles) = map f roles"
  using assms by (induction roles) (auto simp: replace_first_def)

lemma ladder_ok_cong:
  assumes "map r_id roles' = map r_id roles" and "map r_position roles' = map r_position roles"
  shows "ladder_ok roles' = ladder_ok roles"
proof -
  have "length roles' = length roles" using assms(1) by (metis length_map)
  moreover have "roles \<noteq> [] \<Longrightarrow> r_id (hd roles') = r_id (hd roles)"
    using assms(1) by (metis hd_map map_is_Nil_conv)
  moreover have "roles' = [] \<longleftrightarrow> roles = []" using calculation(1) by auto
  ultimately show ?thesis using assms unfolding ladder_ok_def by metis
qed

interpretation ladder: server_invariant ladder cr for cr
proof unfold_locales
  show "ladder (snd (grant_mem cr fp roles s))" if "ladder s" for s fp roles
    using that by (simp add: ladder_def grant_mem_def update_live_member_roles_def swap_perm_state_def
        perms_with_grants_def Let_def)
  show "ladder (relay_voice cr from packet s)" if "ladder s" for s "from" packet
    using that by (simp add: ladder_def relay_fields)
  show "ladder (snd (admit cr now ident nickname s))" if "ladder s" for s now ident nickname
    using that by (cases rule: admit_exhaust [of cr now ident nickname s]) (simp_all add: ladder_def)
  show "ladder s'" if "ladder s" "quiet s s'" for s s'
    using that quiet_fields(5) by (simp add: ladder_def)
  show "ladder (snd (snd (drop_role_mem i s)))" if "ladder s" "i \<noteq> EVERYONE_ROLE_ID" for s i
    using that ladder_delete [of "ps_roles (s_perms s)" i]
    by (simp add: ladder_def drop_role_mem_def swap_perm_state_def perms_without_role_def
        strip_role_overwrites_def strip_live_role_def Let_def)
  show "ladder (with_roles (replace_first (\<lambda>r. r_id r = i) new (ps_roles (s_perms s))) s)"
    if "ladder s" "List.find (\<lambda>r. r_id r = i) (ps_roles (s_perms s)) = Some old" "r_id new = i"
      "r_position new = r_position old" for s i old new
  proof -
    have "r_id new = r_id old" using find_Some_mem [OF that(2)] that(3) by simp
    then show ?thesis
      using that(1) ladder_ok_cong [OF replace_first_map [OF that(2)] replace_first_map [OF that(2,4)]]
      by (simp add: ladder_def with_roles_def swap_perm_state_def)
  qed
  show "ladder (snd (remove_channel_mem channel s))" if "ladder s" for s channel
    using that by (simp add: ladder_def remove_channel_mem_def Let_def)
qed (simp_all add: ladder_def with_roles_def swap_perm_state_def modify_info_def ladder_create
    ladder_reorder set_channel_overwrite_mem_def remove_channel_overwrite_def insert_channel_mem_def
    update_channel_mem_def)

end
