(* ===== verification/Pickle_Frame.thy ===== *)
theory Pickle_Frame
  imports Pickle_Prelude
begin

text \<open>
  Length-prefixed framing of the control stream (\<open>pickle-proto/src/codec.rs\<close>). The serialiser
  (postcard) is a parameter: \<open>to_vec\<close> may fail, \<open>from_bytes\<close> may fail. A reader is the bytes
  still to come before the peer closes the stream, so running out of them is end of file.
\<close>

definition MAX_FRAME_LEN :: u32 where "MAX_FRAME_LEN = push_bit 20 1"
definition LEN_PREFIX_LEN :: nat where "LEN_PREFIX_LEN = 4"

datatype codec_error = Io | Encode | Decode | FrameTooLarge u32 u32 | Closed

definition is_clean_close :: "codec_error \<Rightarrow> bool" where
  "is_clean_close e \<longleftrightarrow> e = Closed"

text \<open>The bytes one \<open>write_frame\<close> hands to \<open>write_all\<close>, in a single call.\<close>

definition write_frame :: "('m \<Rightarrow> bytes option) \<Rightarrow> 'm \<Rightarrow> codec_error + bytes" where
  "write_frame to_vec message =
     (case to_vec message of
        None \<Rightarrow> Inl Encode
      | Some payload \<Rightarrow>
          if length payload > unat MAX_FRAME_LEN
          then Inl (FrameTooLarge (of_nat (length payload)) MAX_FRAME_LEN)
          else Inr (to_le_bytes 4 (of_nat (length payload) :: u32) @ payload))"

text \<open>\<open>read_exact\<close>: the bytes asked for and the rest, or end of file.\<close>

definition read_exact :: "nat \<Rightarrow> bytes \<Rightarrow> (bytes \<times> bytes) option" where
  "read_exact n r = (if length r < n then None else Some (take n r, drop n r))"

definition read_frame ::
  "(bytes \<Rightarrow> 'm option) \<Rightarrow> bytes \<Rightarrow> (codec_error + 'm) \<times> bytes" where
  "read_frame from_bytes r =
     (case read_exact LEN_PREFIX_LEN r of
        None \<Rightarrow> (Inl Closed, [])
      | Some (len_bytes, r1) \<Rightarrow>
          let len = from_le_bytes len_bytes :: u32
          in if len > MAX_FRAME_LEN then (Inl (FrameTooLarge len MAX_FRAME_LEN), r1)
             else case read_exact (unat len) r1 of
                    None \<Rightarrow> (Inl Io, [])
                  | Some (payload, r2) \<Rightarrow>
                      (case from_bytes payload of
                         None \<Rightarrow> (Inl Decode, r2)
                       | Some m \<Rightarrow> (Inr m, r2)))"

text \<open>The reader's loop in \<open>control_loop\<close>: frames in order until the first failure.\<close>

fun read_frames :: "nat \<Rightarrow> (bytes \<Rightarrow> 'm option) \<Rightarrow> bytes \<Rightarrow> 'm list \<times> codec_error option" where
  "read_frames 0 from_bytes r = ([], None)"
| "read_frames (Suc n) from_bytes r =
     (case read_frame from_bytes r of
        (Inl e, _) \<Rightarrow> ([], Some e)
      | (Inr m, r') \<Rightarrow> let (ms, e) = read_frames n from_bytes r' in (m # ms, e))"

section \<open>Framing is transparent\<close>

lemma MAX_FRAME_LEN_unat: "unat MAX_FRAME_LEN = 1048576"
  by (simp add: MAX_FRAME_LEN_def)

lemma read_write_frame:
  assumes "write_frame to_vec m = Inr bs" and "\<And>p. to_vec m = Some p \<Longrightarrow> from_bytes p = Some m"
  shows "read_frame from_bytes (bs @ rest) = (Inr m, rest)"
proof -
  from assms(1) obtain p where p: "to_vec m = Some p" "length p \<le> 1048576"
    and bs: "bs = to_le_bytes 4 (of_nat (length p) :: u32) @ p"
    by (auto simp: write_frame_def MAX_FRAME_LEN_unat split: option.splits if_splits)
  have u: "unat (of_nat (length p) :: u32) = length p"
    using p(2) by (simp add: unat_of_nat)
  then have "\<not> (of_nat (length p) :: u32) > MAX_FRAME_LEN"
    using p(2) by (simp add: word_less_nat_alt MAX_FRAME_LEN_unat)
  then show ?thesis
    using u assms(2) [OF p(1)]
    by (simp add: bs read_frame_def read_exact_def LEN_PREFIX_LEN_def Let_def)
qed

text \<open>
  C20. Framing is transparent: if the serialiser round-trips, then a sequence of messages whose
  frames were all written comes back from the concatenated stream complete and in order, however
  frames follow one another, and the reader then reports a clean close.
\<close>

theorem frames_roundtrip_in_order:
  assumes "\<And>m p. m \<in> set ms \<Longrightarrow> to_vec m = Some p \<Longrightarrow> from_bytes p = Some m"
    and "list_all2 (\<lambda>m bs. write_frame to_vec m = Inr bs) ms frames"
  shows "read_frames (Suc (length ms)) from_bytes (concat frames) = (ms, Some Closed)"
  using assms(2,1)
proof (induction ms frames rule: list_all2_induct)
  case Nil
  then show ?case by (simp add: read_frame_def read_exact_def LEN_PREFIX_LEN_def)
next
  case (Cons m ms bs frames)
  have "read_frame from_bytes (bs @ concat frames) = (Inr m, concat frames)"
    using Cons.hyps(1) Cons.prems by (intro read_write_frame) auto
  then show ?case using Cons.IH Cons.prems by simp
qed

theorem frames_roundtrip_in_order_witness:
  "read_frames 3 Some (concat [[1,0,0,0, 9], [2,0,0,0, 7, 8]]) = ([[9], [7, 8]], Some Closed)"
proof -
  have "read_frames (Suc (length [[9], [7, 8 :: u8]])) Some
          (concat [[1,0,0,0, 9], [2,0,0,0, 7, 8]]) = ([[9], [7, 8]], Some Closed)"
    by (rule frames_roundtrip_in_order [where to_vec = Some])
      (simp_all add: write_frame_def MAX_FRAME_LEN_unat to_le_bytes_def upt_rec)
  then show ?thesis by (simp add: numeral_3_eq_3)
qed

text \<open>
  A lying length prefix commits nothing: a prefix above 1 MiB is refused as too large with
  no byte of the payload consumed, and an accepted frame never takes more than 1 MiB plus its
  prefix from the stream. A stream that ends inside the payload is an I/O error, while one that
  ends anywhere inside the four prefix bytes is reported as a clean close.
\<close>

theorem frame_length_is_bounded:
  "(4 \<le> length r \<and> (from_le_bytes (take 4 r) :: u32) > MAX_FRAME_LEN \<longrightarrow>
      read_frame from_bytes r =
        (Inl (FrameTooLarge (from_le_bytes (take 4 r)) MAX_FRAME_LEN), drop 4 r)) \<and>
   (read_frame from_bytes r = (Inr m, r') \<longrightarrow> length r \<le> length r' + 4 + 1048576) \<and>
   (length r < 4 \<longrightarrow> read_frame from_bytes r = (Inl Closed, [])) \<and>
   (4 \<le> length r \<and> (from_le_bytes (take 4 r) :: u32) \<le> MAX_FRAME_LEN \<and>
      length r < 4 + unat (from_le_bytes (take 4 r) :: u32) \<longrightarrow>
      read_frame from_bytes r = (Inl Io, []))"
  by (auto simp: read_frame_def read_exact_def LEN_PREFIX_LEN_def Let_def not_less
      word_le_nat_alt word_less_nat_alt MAX_FRAME_LEN_unat split: option.splits if_splits)

theorem frame_length_is_bounded_witness:
  "read_frame Some [255, 255, 255, 255, 1] =
     (Inl (FrameTooLarge 4294967295 MAX_FRAME_LEN), [1 :: u8]) \<and>
   read_frame Some [7, 0] = (Inl Closed, [])"
proof -
  have "4 \<le> length [255, 255, 255, 255, 1 :: u8] \<and>
      (from_le_bytes (take 4 [255, 255, 255, 255, 1 :: u8]) :: u32) > MAX_FRAME_LEN"
    and v: "(from_le_bytes (take 4 [255, 255, 255, 255, 1 :: u8]) :: u32) = 4294967295"
    by (simp_all add: MAX_FRAME_LEN_def)
  with frame_length_is_bounded [of "[255, 255, 255, 255, 1]" Some]
    frame_length_is_bounded [of "[7, 0]" Some]
  show ?thesis by simp
qed

end
