(* ===== verification/Pickle_Session.thy ===== *)
theory Pickle_Session
  imports Complex_Main Pickle_Ladder Pickle_Frame
begin

text \<open>
  One connected client (\<open>pickle-server/src/session.rs\<close>): the handshake with its checks and its
  release of the slot on failure, the dispatch of every control message, sending and fetching chat
  messages, the rate limiter, the control loop and the end of a session. What the network does
  (whether a stream opens, whether a write reaches the peer, what arrives) is an argument. The
  limiter's \<open>f64\<close> arithmetic is taken exactly, over the rationals, with instants in nanoseconds.
\<close>

section \<open>Authentication\<close>

definition constant_time_eq :: "bytes \<Rightarrow> bytes \<Rightarrow> bool" where
  "constant_time_eq a b =
     (if length a \<noteq> length b then False
      else fold (\<lambda>(x, y) diff. or diff (xor x y)) (zip a b) 0 = (0 :: u8))"

definition verify_auth :: "ext \<Rightarrow> client_auth \<Rightarrow> bytes \<Rightarrow> shared \<Rightarrow> auth_failure + unit" where
  "verify_auth cr auth nonce s =
     (if ca_protocol_version auth \<noteq> PROTOCOL_VERSION then Inl (ProtocolMismatch PROTOCOL_VERSION)
      else case (case cfg_password (s_config s) of
                   None \<Rightarrow> Inr ()
                 | Some expected \<Rightarrow>
                     (case ca_password auth of
                        None \<Rightarrow> Inl PasswordRequired
                      | Some supplied \<Rightarrow>
                          if \<not> constant_time_eq (as_bytes expected) (as_bytes supplied)
                          then Inl BadPassword else Inr ())) of
             Inl f \<Rightarrow> Inl f
           | Inr _ \<Rightarrow>
               (case pi_verify_auth cr (ca_identity auth) nonce (s_cert_hash s) (ca_signature auth) of
                  Inl _ \<Rightarrow> Inl BadSignature
                | Inr _ \<Rightarrow> Inr ()))"

definition hello_frame :: "ext \<Rightarrow> bytes \<Rightarrow> shared \<Rightarrow> server_hello" where
  "hello_frame cr nonce s =
     \<lparr>sh_protocol_version = PROTOCOL_VERSION, sh_server_name = cfg_name (s_config s),
      sh_server_identity = id_public cr (s_identity s), sh_nonce = nonce,
      sh_min_security_level = min_security_level (s_config s),
      sh_requires_password = (cfg_password (s_config s) \<noteq> None),
      sh_signature = sign_server_hello cr (s_identity s) nonce (s_cert_hash s) (cfg_name (s_config s))\<rparr>"

definition auth_ok_frame :: "ext \<Rightarrow> user_info \<Rightarrow> shared \<Rightarrow> auth_ok" where
  "auth_ok_frame cr info s =
     \<lparr>ok_client_id = ui_client_id info, ok_channels = visible_channels cr s info,
      ok_users = users s, ok_roles = roles_snapshot s,
      ok_default_channel = default_channel_for cr s info,
      ok_limits = (s_limits s)\<lparr>lim_history_enabled := history_enabled s\<rparr>\<rparr>"

text \<open>
  How a handshake ends: a fault of protocol or transport, a clean refusal, or a session. The
  frames written to the peer come with it.
\<close>

datatype handshake_end = Fault | Refused | Session user_info

definition refuse_auth ::
  "bool \<Rightarrow> server_hello \<Rightarrow> auth_failure \<Rightarrow> shared \<Rightarrow> handshake_end \<times> server_control list \<times> shared" where
  "refuse_auth reply_ok hello failure s =
     (if reply_ok then (Refused, [Hello hello, AuthFailed failure], s)
      else (Fault, [Hello hello], s))"

definition admit_and_greet ::
  "ext \<Rightarrow> u64 \<Rightarrow> bool \<Rightarrow> server_hello \<Rightarrow> client_auth \<Rightarrow> shared \<Rightarrow>
     handshake_end \<times> server_control list \<times> shared" where
  "admit_and_greet cr now reply_ok hello auth s =
     (case admit cr now (ca_identity auth) (ca_nickname auth) s of
        (Inl failure, s) \<Rightarrow> refuse_auth reply_ok hello failure s
      | (Inr info, s) \<Rightarrow>
          if \<not> reply_ok then (Fault, [Hello hello], snd (remove_client (ui_client_id info) s))
          else (Session info, [Hello hello, AuthOk (auth_ok_frame cr info s)],
                broadcast (UserJoined info) (Some (ui_client_id info)) s))"

definition handshake ::
  "ext \<Rightarrow> u64 \<Rightarrow> bytes \<Rightarrow> bool \<Rightarrow> (codec_error + client_control) option \<Rightarrow> bool \<Rightarrow> shared \<Rightarrow>
     handshake_end \<times> server_control list \<times> shared" where
  "handshake cr now nonce hello_ok first reply_ok s =
     (let hello = hello_frame cr nonce s in
      if \<not> hello_ok then (Fault, [], s)
      else case first of
        Some (Inr (Auth auth)) \<Rightarrow>
          (case verify_auth cr auth nonce s of
             Inl failure \<Rightarrow> refuse_auth reply_ok hello failure s
           | Inr _ \<Rightarrow>
               (case s_store s of
                  None \<Rightarrow> admit_and_greet cr now reply_ok hello auth s
                | Some st \<Rightarrow>
                    (case active_ban cr (pi_fingerprint cr (ca_identity auth)) now st of
                       (Inr (Some b), st') \<Rightarrow>
                         refuse_auth reply_ok hello (AuthBanned (be_reason b) (be_until b))
                           (s\<lparr>s_store := Some st'\<rparr>)
                     | (_, st') \<Rightarrow>
                         admit_and_greet cr now reply_ok hello auth (s\<lparr>s_store := Some st'\<rparr>))))
      | _ \<Rightarrow> (Fault, [Hello hello], s))"

definition end_session :: "client_id \<Rightarrow> shared \<Rightarrow> shared" where
  "end_session client s =
     (case remove_client client s of
        (None, s') \<Rightarrow> s'
      | (Some _, s') \<Rightarrow> broadcast (UserLeft client Quit) (Some client) s')"

section \<open>Chat\<close>

definition fetch_history ::
  "ext \<Rightarrow> client_id \<Rightarrow> channel_id \<Rightarrow> message_id option \<Rightarrow> u16 \<Rightarrow> shared \<Rightarrow> shared" where
  "fetch_history cr client channel before limit s =
     (let empty = send client (History channel [] True) s in
      if \<not> history_enabled s then empty
      else if \<not> (case channel_get s channel of Some c \<Rightarrow> has_text (ch_kind c) | None \<Rightarrow> False) then empty
      else if \<not> can cr s client channel VIEW_CHANNEL \<or> \<not> can cr s client channel READ_HISTORY then empty
      else if s_store s = None then empty
      else case db_call (history cr channel before limit) s of
             (Inr page, s) \<Rightarrow> send client (History channel (h_messages page) (h_reached_start page)) s
           | (Inl _, s) \<Rightarrow> send client (Error Internal (u ''the server could not read history'')) s)"

definition message_refusal ::
  "ext \<Rightarrow> client_id \<Rightarrow> channel_id \<Rightarrow> ustring \<Rightarrow> shared \<Rightarrow> (error_code \<times> ustring) option" where
  "message_refusal cr client channel content s =
     (if utf8_len content > unat (max_message_len (s_limits s)) then
        Some (MessageTooLong, u ''messages are limited to '' @
          dec (unat (max_message_len (s_limits s))) @ u '' bytes'')
      else case channel_get s channel of
        None \<Rightarrow> Some (NoSuchChannel, u ''no channel '' @ dec (unat channel))
      | Some c \<Rightarrow>
          if \<not> can cr s client channel VIEW_CHANNEL then
            Some (NoSuchChannel, u ''no channel '' @ dec (unat channel))
          else if \<not> has_text (ch_kind c) then
            Some (NotPermitted, u ''channel '' @ debug_str cr (ch_name c) @ u '' does not carry text'')
          else if \<not> can cr s client channel SEND_MESSAGES then
            Some (NotPermitted, u ''you may not send messages in this channel'')
          else None)"

definition send_message ::
  "ext \<Rightarrow> u64 \<Rightarrow> client_id \<Rightarrow> channel_id \<Rightarrow> ustring \<Rightarrow> message_id option \<Rightarrow> u64 \<Rightarrow> shared \<Rightarrow> shared" where
  "send_message cr now client channel content reply_to nonce s =
     (case user s client of
        None \<Rightarrow> s
      | Some author \<Rightarrow>
          if trim content = [] then s
          else case message_refusal cr client channel content s of
            Some (code, detail) \<Rightarrow> send client (Error code detail) s
          | None \<Rightarrow>
              (let (message, s) = build_message cr now author channel content reply_to s;
                   (stored, s) = (case s_store s of
                      None \<Rightarrow> (Inr (), s) | Some _ \<Rightarrow> db_call (insert_message cr message) s)
               in case stored of
                    Inl _ \<Rightarrow> send client (Error Internal
                      (u ''the server could not save that message, so it was not sent'')) s
                  | Inr _ \<Rightarrow>
                      broadcast_filtered cr (MessagePosted message None) channel (Some client)
                        (send client (MessagePosted message (Some nonce)) s)))"

definition typing :: "ext \<Rightarrow> client_id \<Rightarrow> channel_id \<Rightarrow> shared \<Rightarrow> shared" where
  "typing cr client channel s =
     (if (case channel_get s channel of Some c \<Rightarrow> has_text (ch_kind c) | None \<Rightarrow> False) \<and>
         can cr s client channel VIEW_CHANNEL \<and> can cr s client channel SEND_MESSAGES
      then broadcast_filtered cr (STyping client channel) channel (Some client) s
      else s)"

definition join_request :: "ext \<Rightarrow> client_id \<Rightarrow> channel_id \<Rightarrow> shared \<Rightarrow> shared" where
  "join_request cr client channel s =
     (case join_channel cr client channel s of
        (Inr from, s) \<Rightarrow> broadcast (UserMoved client from (Some channel)) None s
      | (Inl code, s) \<Rightarrow>
          send client (Error code
            (if code = NotPermitted
             then u ''channel '' @ dec (unat channel) @
               u '' carries no voice; text channels are open to everyone without joining''
             else u ''could not join channel '' @ dec (unat channel))) s)"

definition leave_request :: "client_id \<Rightarrow> shared \<Rightarrow> shared" where
  "leave_request client s =
     (let (from, s) = leave_channel client s in broadcast (UserMoved client from None) None s)"

definition voice_request :: "client_id \<Rightarrow> bool \<Rightarrow> bool \<Rightarrow> shared \<Rightarrow> shared" where
  "voice_request client muted deafened s =
     (case set_voice_state client muted deafened s of
        (Some info, s) \<Rightarrow> broadcast (UserUpdated info) None s
      | (None, s) \<Rightarrow> s)"

definition nickname_request :: "client_id \<Rightarrow> ustring \<Rightarrow> shared \<Rightarrow> shared" where
  "nickname_request client nickname s =
     (case set_nickname client nickname s of
        (Some info, s) \<Rightarrow> broadcast (UserUpdated info) None s
      | (None, s) \<Rightarrow>
          send client (Error Malformed (u ''nickname must contain a printable character'')) s)"

section \<open>Dispatch\<close>

text \<open>No result means that the handler never finishes.\<close>

fun handle_control ::
  "ext \<Rightarrow> u64 \<Rightarrow> client_id \<Rightarrow> client_control \<Rightarrow> shared \<Rightarrow> shared option" where
  "handle_control cr now me (Auth _) s =
     Some (send me (Error Malformed (u ''already authenticated'')) s)"
| "handle_control cr now me (Ping nonce) s = Some (send me (Pong nonce) s)"
| "handle_control cr now me (Kick nonce client reason) s = Some (kick cr me nonce client reason s)"
| "handle_control cr now me (Ban nonce fp reason until) s = Some (ban cr now me nonce fp reason until s)"
| "handle_control cr now me (Unban nonce fp) s = Some (unban cr me nonce fp s)"
| "handle_control cr now me (ListBans nonce) s = Some (list_bans cr me nonce s)"
| "handle_control cr now me (SetServerMute nonce client muted) s =
     Some (set_server_mute cr me nonce client muted s)"
| "handle_control cr now me (MoveMember nonce client to) s = Some (move_member cr me nonce client to s)"
| "handle_control cr now me (CreateRole nonce name perms) s = Some (create_role cr me nonce name perms s)"
| "handle_control cr now me (UpdateRole nonce i name color perms) s =
     Some (update_role cr me nonce i name color perms s)"
| "handle_control cr now me (DeleteRole nonce i) s = Some (delete_role cr me nonce i s)"
| "handle_control cr now me (ReorderRoles nonce positions) s = Some (reorder_roles cr me nonce positions s)"
| "handle_control cr now me (SetMemberRoles nonce fp roles) s =
     Some (set_member_roles cr me nonce fp roles s)"
| "handle_control cr now me (SetChannelOverwrite nonce channel target allow deny) s =
     Some (set_channel_overwrite cr me nonce channel target allow deny s)"
| "handle_control cr now me (DeleteChannelOverwrite nonce channel target) s =
     Some (delete_channel_overwrite cr me nonce channel target s)"
| "handle_control cr now me (CreateChannel nonce name parent topic kind mx order) s =
     create_channel cr me nonce name parent topic kind mx order s"
| "handle_control cr now me (UpdateChannel nonce i parent name topic kind mx order) s =
     update_channel cr me nonce i parent name topic kind mx order s"
| "handle_control cr now me (DeleteChannel nonce i) s = Some (delete_channel cr me nonce i s)"
| "handle_control cr now me (JoinChannel channel) s = Some (join_request cr me channel s)"
| "handle_control cr now me LeaveChannel s = Some (leave_request me s)"
| "handle_control cr now me (SetVoiceState muted deafened) s = Some (voice_request me muted deafened s)"
| "handle_control cr now me (SetNickname nickname) s = Some (nickname_request me nickname s)"
| "handle_control cr now me (SendMessage channel content reply_to nonce) s =
     Some (send_message cr now me channel content reply_to nonce s)"
| "handle_control cr now me (Typing channel) s = Some (typing cr me channel s)"
| "handle_control cr now me (FetchHistory channel before limit) s =
     Some (fetch_history cr me channel before limit s)"
| "handle_control cr now me _ s = Some (send me (Error NotPermitted
     (u ''message editing, deletion and reactions need the message store, which is not implemented yet'')) s)"

section \<open>The rate limiter and the control loop\<close>

definition CONTROL_RATE_LIMIT :: nat where "CONTROL_RATE_LIMIT = 30"

record rate_limiter =
  rl_capacity :: rat
  rl_tokens :: rat
  rl_per_second :: rat
  rl_last :: nat

definition limiter_new :: "nat \<Rightarrow> nat \<Rightarrow> rate_limiter" where
  "limiter_new per_second now =
     \<lparr>rl_capacity = of_nat per_second, rl_tokens = of_nat per_second,
      rl_per_second = of_nat per_second, rl_last = now\<rparr>"

definition allow :: "nat \<Rightarrow> rate_limiter \<Rightarrow> bool \<times> rate_limiter" where
  "allow now l =
     (let elapsed = of_nat (now - rl_last l) / 1000000000;
          tokens = min (rl_tokens l + elapsed * rl_per_second l) (rl_capacity l);
          l = l\<lparr>rl_last := now, rl_tokens := tokens\<rparr>
      in if tokens \<ge> 1 then (True, l\<lparr>rl_tokens := tokens - 1\<rparr>) else (False, l))"

text \<open>What one read of the control stream gives: a frame with its arrival times, or an error.\<close>

record arrival =
  ar_instant :: nat
  ar_unix_ms :: u64
  ar_read :: "codec_error + client_control"

fun control_loop ::
  "ext \<Rightarrow> client_id \<Rightarrow> arrival list \<Rightarrow> rate_limiter \<Rightarrow> shared \<Rightarrow>
     ((codec_error + unit) option \<times> shared) option" where
  "control_loop cr me [] l s = Some (None, s)"
| "control_loop cr me (a # as) l s =
     (case ar_read a of
        Inl e \<Rightarrow> Some (Some (if is_clean_close e then Inr () else Inl e), s)
      | Inr message \<Rightarrow>
          (case allow (ar_instant a) l of
             (False, l) \<Rightarrow>
               control_loop cr me as l (send me (Error RateLimited (u ''too many control messages'')) s)
           | (True, l) \<Rightarrow>
               Option.bind (handle_control cr (ar_unix_ms a) me message s)
                 (control_loop cr me as l)))"

definition datagram_in :: "ext \<Rightarrow> client_id \<Rightarrow> bytes \<Rightarrow> shared \<Rightarrow> shared" where
  "datagram_in cr me datagram s =
     (case upstream_decode datagram of Inr packet \<Rightarrow> relay_voice cr me packet s | Inl _ \<Rightarrow> s)"

section \<open>Sessions keep the invariants\<close>

context session_invariant
begin

lemma admit_and_greet_keeps: "I s \<Longrightarrow> I (snd (snd (admit_and_greet cr now reply_ok hello auth s)))"
proof -
  assume "I s"
  then have "I (snd (admit cr now (ca_identity auth) (ca_nickname auth) s))" by (rule admit_keeps)
  then show ?thesis
    using remove_keeps
    by (auto simp: admit_and_greet_def refuse_auth_def broadcast_keeps split: prod.splits sum.splits)
qed

lemma handshake_keeps: "I s \<Longrightarrow> I (snd (snd (handshake cr now nonce hello_ok first reply_ok s)))"
  by (auto simp: handshake_def refuse_auth_def Let_def admit_and_greet_keeps store_keeps
      split: option.splits sum.splits client_control.splits prod.splits)

lemma end_session_keeps: "I s \<Longrightarrow> I (end_session client s)"
  using remove_keeps [of s client]
  by (auto simp: end_session_def broadcast_keeps split: prod.splits option.splits)

lemma fetch_history_keeps: "I s \<Longrightarrow> I (fetch_history cr client channel before limit s)"
  using db_call_keeps [of s "history cr channel before limit"]
  by (auto simp: fetch_history_def Let_def send_keeps split: prod.splits sum.splits)

lemma send_message_keeps: "I s \<Longrightarrow> I (send_message cr now client channel content reply_to nonce s)"
proof -
  assume I: "I s"
  have b: "I t" if "build_message cr now author channel content reply_to s = (m, t)" for author m t
    using build_message_keeps [OF I] that by (metis snd_conv)
  moreover have "I t'" if "build_message cr now author channel content reply_to s = (m, t)"
      "db_call (insert_message cr m) t = (r, t')" for author t t' m r
    using db_call_keeps [OF b [OF that(1)], of "insert_message cr m"] that(2) by simp
  ultimately show ?thesis
    using I by (auto simp: send_message_def send_keeps broadcast_filtered_keeps
        split: prod.splits sum.splits option.splits)
qed

lemma typing_keeps: "I s \<Longrightarrow> I (typing cr client channel s)"
  by (simp add: typing_def broadcast_filtered_keeps)

lemma join_request_keeps: "I s \<Longrightarrow> I (join_request cr client channel s)"
  using join_keeps [of s client channel]
  by (auto simp: join_request_def broadcast_keeps send_keeps split: prod.splits sum.splits)

lemma leave_request_keeps: "I s \<Longrightarrow> I (leave_request client s)"
  using leave_keeps [of s client] by (auto simp: leave_request_def broadcast_keeps split: prod.splits)

lemma voice_request_keeps: "I s \<Longrightarrow> I (voice_request client muted deafened s)"
  using set_voice_state_keeps [of s client muted deafened]
  by (auto simp: voice_request_def broadcast_keeps split: prod.splits option.splits)

lemma nickname_request_keeps: "I s \<Longrightarrow> I (nickname_request client nickname s)"
  using set_nickname_keeps [of s client nickname]
  by (auto simp: nickname_request_def broadcast_keeps send_keeps split: prod.splits option.splits)

end

context server_invariant
begin

lemmas request_keeps = send_keeps kick_keeps ban_keeps unban_keeps list_bans_keeps set_server_mute_keeps
  move_member_keeps update_role_keeps delete_role_keeps reorder_roles_keeps
  set_member_roles_keeps set_channel_overwrite_keeps delete_channel_overwrite_keeps
  delete_channel_keeps join_request_keeps leave_request_keeps voice_request_keeps
  nickname_request_keeps send_message_keeps typing_keeps fetch_history_keeps

lemma handle_control_keeps:
  assumes "I s" and "next_role_id (ps_roles (s_perms s)) \<noteq> 0"
    and "handle_control cr now me message s = Some s'"
  shows "I s'"
  using assms
  by (cases message)
    (auto simp: request_keeps create_role_keeps intro: create_channel_keeps update_channel_keeps)

lemma datagram_in_keeps: "I s \<Longrightarrow> I (datagram_in cr me datagram s)"
  by (auto simp: datagram_in_def relay_keeps split: sum.splits)

end

section \<open>Password comparison\<close>

lemma fold_xor_zero:
  "length a = length b \<Longrightarrow>
     fold (\<lambda>(x, y) diff. or diff (xor x y)) (zip a b) d = (0 :: u8) \<longleftrightarrow> d = 0 \<and> a = b"
proof (induction a b arbitrary: d rule: list_induct2)
  case (Cons x a y b)
  have "or d (xor x y) = 0 \<longleftrightarrow> d = 0 \<and> x = y"
    by (simp add: bit_eq_iff bit_simps) blast
  with Cons show ?case by auto
qed simp

text \<open>
  The constant-time comparison of passwords decides equality: it runs over every byte without
  an early exit and still answers exactly whether the two byte strings are the same.
\<close>

theorem constant_time_eq_correct: "constant_time_eq a b \<longleftrightarrow> a = b"
  by (auto simp: constant_time_eq_def fold_xor_zero)

section \<open>The rate limiter\<close>

fun run_limiter :: "nat list \<Rightarrow> rate_limiter \<Rightarrow> nat \<times> rate_limiter" where
  "run_limiter [] l = (0, l)"
| "run_limiter (t # ts) l =
     (case allow t l of (b, l') \<Rightarrow> case run_limiter ts l' of (n, l'') \<Rightarrow> (if b then n + 1 else n, l''))"

definition limiter_ok :: "rate_limiter \<Rightarrow> bool" where
  "limiter_ok l \<longleftrightarrow> 0 \<le> rl_tokens l \<and> rl_tokens l \<le> rl_capacity l \<and> 0 \<le> rl_per_second l"

lemma allow_step:
  assumes "allow t l = (b, l')" and "limiter_ok l" and "rl_last l \<le> t"
  shows "limiter_ok l'" and "rl_last l' = t" and "rl_per_second l' = rl_per_second l"
    and "rl_capacity l' = rl_capacity l"
    and "(if b then 1 else 0) + rl_tokens l' \<le>
      rl_tokens l + of_nat (t - rl_last l) / 1000000000 * rl_per_second l"
  using assms
  by (auto simp: allow_def Let_def limiter_ok_def min_def split: if_splits)

lemma run_limiter_bound:
  assumes "run_limiter ts l = (n, l')" and "limiter_ok l" and "sorted (rl_last l # ts)"
  shows "of_nat n \<le> rl_tokens l +
    of_nat (last (rl_last l # ts) - rl_last l) / 1000000000 * rl_per_second l"
  using assms
proof (induction ts arbitrary: l n)
  case Nil
  then show ?case by (simp add: limiter_ok_def)
next
  case (Cons t ts)
  obtain b l1 where a: "allow t l = (b, l1)" by fastforce
  obtain m where m: "run_limiter ts l1 = (m, l')" "n = (if b then m + 1 else m)"
    using Cons.prems(1) a by (auto split: prod.splits)
  have t: "rl_last l \<le> t" and srt: "sorted (t # ts)" using Cons.prems(3) by auto
  note st = allow_step [OF a Cons.prems(2) t]
  have le: "t \<le> last (t # ts)" using srt by (cases ts) (auto simp: last_in_set)
  have "of_nat m \<le> rl_tokens l1 + of_nat (last (t # ts) - t) / 1000000000 * rl_per_second l"
    using Cons.IH [OF m(1) st(1)] srt by (simp add: st(2,3))
  then have "of_nat n \<le> rl_tokens l + of_nat (t - rl_last l) / 1000000000 * rl_per_second l +
      of_nat (last (t # ts) - t) / 1000000000 * rl_per_second l"
    using st(5) m(2) by (auto split: if_splits)
  also have "\<dots> = rl_tokens l + of_nat (last (t # ts) - rl_last l) / 1000000000 * rl_per_second l"
    using t le by (simp add: of_nat_diff field_simps)
  finally show ?case by simp
qed

text \<open>
  C21. The rate limiter bounds every burst and every sustained flood: whatever the arrival times of
  the requests since the session began, the number let through is at most the capacity plus the
  rate times the time that passed.
\<close>

theorem rate_limiter_bounds_requests:
  assumes "sorted (start # ts)"
  shows "of_nat (fst (run_limiter ts (limiter_new per_second start))) \<le>
    (of_nat per_second + of_nat (last (start # ts) - start) / 1000000000 * of_nat per_second :: rat)"
proof -
  obtain n l' where "run_limiter ts (limiter_new per_second start) = (n, l')" by fastforce
  then show ?thesis
    using run_limiter_bound [of ts "limiter_new per_second start" n l'] assms
    by (simp add: limiter_new_def limiter_ok_def)
qed

theorem rate_limiter_bounds_requests_witness:
  "of_nat (fst (run_limiter [0, 0, 0, 500000000] (limiter_new 2 0))) \<le>
    (of_nat 2 + of_nat (last [0, 0, 0, 0, 500000000] - 0) / 1000000000 * of_nat 2 :: rat)"
  by (rule rate_limiter_bounds_requests) simp

section \<open>Who gets in\<close>

lemma verify_auth_ok:
  "verify_auth cr auth nonce s = Inr () \<longleftrightarrow>
     ca_protocol_version auth = PROTOCOL_VERSION \<and>
     (case cfg_password (s_config s) of None \<Rightarrow> True
      | Some p \<Rightarrow> (case ca_password auth of None \<Rightarrow> False | Some q \<Rightarrow> as_bytes p = as_bytes q)) \<and>
     ed_verify cr (pi_key (ca_identity auth)) (auth_challenge nonce (s_cert_hash s)) (ca_signature auth)"
  by (auto simp: verify_auth_def pi_verify_auth_def constant_time_eq_def fold_xor_zero split: option.splits if_splits)

lemma delete_update_fresh:
  "k \<notin> fst ` set m \<Longrightarrow> AList.delete k (AList.update k v m) = m"
  by (induction m) (auto simp: image_iff)

lemma admit_and_greet_cases:
  assumes "admit_and_greet cr now reply_ok hello auth s = (r, frames, s')"
    and fresh: "s_next_client_id s \<notin> fst ` set (s_clients s)"
  shows "case r of
      Session info \<Rightarrow>
        \<exists>t. admit cr now (ca_identity auth) (ca_nickname auth) s = (Inr info, t) \<and>
          frames = [Hello hello, AuthOk (auth_ok_frame cr info t)] \<and>
          s' = broadcast (UserJoined info) (Some (ui_client_id info)) t
    | _ \<Rightarrow> s_clients s' = s_clients s"
proof (cases rule: admit_exhaust [of cr now "ca_identity auth" "ca_nickname auth" s])
  case (refused f)
  then show ?thesis
    using assms(1) by (auto simp: admit_and_greet_def refuse_auth_def split: if_splits)
next
  case (admitted n i)
  moreover have "ui_client_id i = s_next_client_id s" by (simp add: admitted(3) fresh_info_def)
  ultimately show ?thesis
    using assms(1) delete_update_fresh [OF fresh]
    by (auto simp: admit_and_greet_def remove_client_def split: if_splits)
qed


definition sample_auth :: client_auth where
  "sample_auth = \<lparr>ca_protocol_version = PROTOCOL_VERSION,
     ca_identity = \<lparr>pi_key = sample_key 7, pi_counter = 0\<rparr>, ca_nickname = [97], ca_password = None,
     ca_client_version = [], ca_signature = sample_key 7 @ auth_challenge [1] (s_cert_hash sample_shared)\<rparr>"


section \<open>Hidden channels look missing\<close>

lemma can_cases:
  "map_of (s_clients s) client = Some me \<Longrightarrow>
     can cr s client channel VIEW_CHANNEL \<longleftrightarrow>
       (\<exists>c. map_of (s_channels s) channel = Some c \<and> can_view cr s (c_info me) c)"
  by (auto simp: can_def can_view_def split: option.splits)



section \<open>Stored before announced\<close>

text \<open>The message a request becomes.\<close>

definition message_of ::
  "ext \<Rightarrow> u64 \<Rightarrow> user_info \<Rightarrow> channel_id \<Rightarrow> ustring \<Rightarrow> message_id option \<Rightarrow> shared \<Rightarrow> chat_message" where
  "message_of cr now author channel content reply_to s =
     fst (build_message cr now author channel content reply_to s)"

lemma build_message_eq:
  "build_message cr now author channel content reply_to s =
     (message_of cr now author channel content reply_to s, s\<lparr>s_next_message_id := s_next_message_id s + 1\<rparr>)"
  by (simp add: message_of_def build_message_def next_message_id_def)

lemma message_refusal_None:
  "message_refusal cr client channel content s = None \<longleftrightarrow>
     utf8_len content \<le> unat (max_message_len (s_limits s)) \<and>
     (\<exists>c. channel_get s channel = Some c \<and> has_text (ch_kind c)) \<and>
     can cr s client channel VIEW_CHANNEL \<and> can cr s client channel SEND_MESSAGES"
  by (auto simp: message_refusal_def split: option.splits)

lemma insert_message_Inl: "insert_message cr m st = (Inl e, st') \<Longrightarrow> st_db st' = st_db st"
  unfolding insert_message_def
  by (auto simp: attempt_def Let_def split: if_splits option.splits)

lemma insert_message_Inr:
  "insert_message cr m st = (Inr x, st') \<Longrightarrow>
     st_db st' = (st_db st)\<lparr>t_messages := t_messages (st_db st) @ [message_to_row cr m]\<rparr>"
  unfolding insert_message_def by (drule attempt_Inr) (auto simp: Let_def split: if_splits)

text \<open>
  C12. No message is seen that was not kept: with a store attached, a request to send either changes
  nothing, or is answered to its sender alone with an error while the stored messages stay as they
  are, or its message, under the next id, is appended to the stored ones and only then sent, to the
  sender with its nonce and to the other viewers of the channel. It gets that far only for a text
  channel its author may view and write in, within the length limit.
\<close>

theorem message_stored_before_announced:
  assumes "user s client = Some author" and "s_store s = Some st"
  shows "let s' = send_message cr now client channel content reply_to nonce s;
             m = message_of cr now author channel content reply_to s in
    (trim content = [] \<and> s' = s) \<or>
    (\<exists>code detail t st'. s' = send client (Error code detail) t \<and> s_clients t = s_clients s \<and>
       s_store t = Some st' \<and> st_db st' = st_db st) \<or>
    (utf8_len content \<le> unat (max_message_len (s_limits s)) \<and>
     can cr s client channel VIEW_CHANNEL \<and> can cr s client channel SEND_MESSAGES \<and>
     (\<exists>c. channel_get s channel = Some c \<and> has_text (ch_kind c)) \<and>
     cm_id m = s_next_message_id s \<and> cm_content m = content \<and> cm_channel m = channel \<and>
     (\<exists>st'. st_db st' = (st_db st)\<lparr>t_messages := t_messages (st_db st) @ [message_to_row cr m]\<rparr> \<and>
        s' = broadcast_filtered cr (MessagePosted m None) channel (Some client)
               (send client (MessagePosted m (Some nonce))
                 (s\<lparr>s_next_message_id := s_next_message_id s + 1, s_store := Some st'\<rparr>))))"
proof (cases "trim content = [] \<or> message_refusal cr client channel content s \<noteq> None")
  case True
  show ?thesis
  proof (cases "trim content = []")
    case True
    then show ?thesis using assms by (simp add: send_message_def)
  next
    case False
    with True obtain code detail where "message_refusal cr client channel content s = Some (code, detail)" by auto
    then have "send_message cr now client channel content reply_to nonce s = send client (Error code detail) s"
      using assms False by (simp add: send_message_def)
    then show ?thesis unfolding Let_def using assms(2) by blast
  qed
next
  case False
  let ?m = "message_of cr now author channel content reply_to s"
  let ?t = "s\<lparr>s_next_message_id := s_next_message_id s + 1\<rparr>"
  obtain r st' where i: "insert_message cr ?m st = (r, st')" by fastforce
  have d: "db_call (insert_message cr ?m) ?t = (r, ?t\<lparr>s_store := Some st'\<rparr>)"
    using assms(2) i by (simp add: db_call_def)
  have s': "send_message cr now client channel content reply_to nonce s =
      (case r of Inl _ \<Rightarrow> send client (Error Internal
          (u ''the server could not save that message, so it was not sent'')) (?t\<lparr>s_store := Some st'\<rparr>)
       | Inr _ \<Rightarrow> broadcast_filtered cr (MessagePosted ?m None) channel (Some client)
               (send client (MessagePosted ?m (Some nonce)) (?t\<lparr>s_store := Some st'\<rparr>)))"
    using assms False by (simp add: send_message_def build_message_eq Let_def d split: option.splits)
  show ?thesis
  proof (cases r)
    case (Inl e)
    then have "st_db st' = st_db st" using insert_message_Inl i by simp
    with Inl s' have "send_message cr now client channel content reply_to nonce s =
        send client (Error Internal (u ''the server could not save that message, so it was not sent''))
          (?t\<lparr>s_store := Some st'\<rparr>) \<and> s_clients (?t\<lparr>s_store := Some st'\<rparr>) = s_clients s \<and>
        s_store (?t\<lparr>s_store := Some st'\<rparr>) = Some st' \<and> st_db st' = st_db st" by simp
    then show ?thesis unfolding Let_def by blast
  next
    case (Inr x)
    have "st_db st' = (st_db st)\<lparr>t_messages := t_messages (st_db st) @ [message_to_row cr ?m]\<rparr>"
      using insert_message_Inr i Inr by simp
    moreover have "cm_id ?m = s_next_message_id s" "cm_content ?m = content" "cm_channel ?m = channel"
      by (simp_all add: message_of_def build_message_def next_message_id_def)
    moreover have "message_refusal cr client channel content s = None" using False by blast
    note this [unfolded message_refusal_None]
    moreover have "send_message cr now client channel content reply_to nonce s =
        broadcast_filtered cr (MessagePosted ?m None) channel (Some client)
               (send client (MessagePosted ?m (Some nonce)) (?t\<lparr>s_store := Some st'\<rparr>))"
      using s' Inr by simp
    ultimately show ?thesis unfolding Let_def by blast
  qed
qed

theorem message_stored_before_announced_witness:
  "let s' = send_message sample_ext 0 3 1 [65] None 9 sample_shared;
             m = message_of sample_ext 0 (c_info (sample_client 3 [] False)) 1 [65] None sample_shared in
    (trim [65] = [] \<and> s' = sample_shared) \<or>
    (\<exists>code detail t st'. s' = send 3 (Error code detail) t \<and> s_clients t = s_clients sample_shared \<and>
       s_store t = Some st' \<and> st_db st' = st_db (store_with sample_db)) \<or>
    (utf8_len [65] \<le> unat (max_message_len (s_limits sample_shared)) \<and>
     can sample_ext sample_shared 3 1 VIEW_CHANNEL \<and> can sample_ext sample_shared 3 1 SEND_MESSAGES \<and>
     (\<exists>c. channel_get sample_shared 1 = Some c \<and> has_text (ch_kind c)) \<and>
     cm_id m = s_next_message_id sample_shared \<and> cm_content m = [65] \<and> cm_channel m = 1 \<and>
     (\<exists>st'. st_db st' = (st_db (store_with sample_db))\<lparr>t_messages :=
           t_messages (st_db (store_with sample_db)) @ [message_to_row sample_ext m]\<rparr> \<and>
        s' = broadcast_filtered sample_ext (MessagePosted m None) 1 (Some 3)
               (send 3 (MessagePosted m (Some 9))
                 (sample_shared\<lparr>s_next_message_id := s_next_message_id sample_shared + 1,
                    s_store := Some st'\<rparr>))))"
  by (rule message_stored_before_announced) (simp_all add: user_def)

end
