(* ===== verification/Pickle_Boot.thy ===== *)
theory Pickle_Boot
  imports Pickle_Session
begin

text \<open>
  Starting a server (\<open>Server::bind\<close> of \<open>pickle-server/src/lib.rs\<close>) as far as it concerns state:
  validate the configuration, read the highest message id, load channels and roles or seed them,
  attach overwrites and grants, and resume the message counter. Files, certificates and sockets
  are outside the model; the identity and the certificate hash are given.
\<close>

datatype boot_error = BootConfig config_error | BootStore store_error

section \<open>Seeding\<close>

fun insert_channels :: "channel list \<Rightarrow> store \<Rightarrow> (store_error + unit) \<times> store" where
  "insert_channels [] st = (Inr (), st)"
| "insert_channels (c # cs) st =
     (case insert_channel c st of (Inl e, st') \<Rightarrow> (Inl e, st') | (Inr _, st') \<Rightarrow> insert_channels cs st')"

fun insert_roles :: "role list \<Rightarrow> store \<Rightarrow> (store_error + unit) \<times> store" where
  "insert_roles [] st = (Inr (), st)"
| "insert_roles (r # rs) st =
     (case insert_role r st of (Inl e, st') \<Rightarrow> (Inl e, st') | (Inr _, st') \<Rightarrow> insert_roles rs st')"

definition channels_or_seed :: "server_config \<Rightarrow> store \<Rightarrow> (store_error + channel list) \<times> store" where
  "channels_or_seed config st =
     (case load_channels st of
        (Inl e, st) \<Rightarrow> (Inl e, st)
      | (Inr channels, st) \<Rightarrow>
          if channels = [] then
            (case insert_channels (build_channels config) st of
               (Inl e, st) \<Rightarrow> (Inl e, st) | (Inr _, st) \<Rightarrow> (Inr (build_channels config), st))
          else (Inr channels, st))"

definition roles_or_seed :: "store \<Rightarrow> (store_error + role list) \<times> store" where
  "roles_or_seed st =
     (case load_roles st of
        (Inl e, st) \<Rightarrow> (Inl e, st)
      | (Inr roles, st) \<Rightarrow>
          if roles = [] then
            (case insert_roles default_roles st of
               (Inl e, st) \<Rightarrow> (Inl e, st) | (Inr _, st) \<Rightarrow> (Inr default_roles, st))
          else (Inr roles, st))"

text \<open>Overwrites ride on their channels; grants are gathered by fingerprint.\<close>

fun push_first :: "channel_id \<Rightarrow> overwrite \<Rightarrow> channel list \<Rightarrow> channel list" where
  "push_first i ow [] = []"
| "push_first i ow (c # cs) =
     (if ch_id c = i then c\<lparr>ch_overwrites := ch_overwrites c @ [ow]\<rparr> # cs else c # push_first i ow cs)"

definition attach_overwrites :: "(channel_id \<times> overwrite) list \<Rightarrow> channel list \<Rightarrow> channel list" where
  "attach_overwrites ows channels = fold (\<lambda>(i, ow). push_first i ow) ows channels"

definition gather_members ::
  "(fingerprint \<times> role_id) list \<Rightarrow> (fingerprint, role_id list) hash_map" where
  "gather_members grants =
     fold (\<lambda>(fp, r) m. AList.update fp ((case map_of m fp of None \<Rightarrow> [] | Some rs \<Rightarrow> rs) @ [r]) m)
       grants []"

section \<open>Binding\<close>

definition server_bind ::
  "ext \<Rightarrow> server_config \<Rightarrow> identity \<Rightarrow> bytes \<Rightarrow> store \<Rightarrow> boot_error + shared" where
  "server_bind cr config ident cert_hash st =
     (case validate cr config of
        Inl e \<Rightarrow> Inl (BootConfig e)
      | Inr _ \<Rightarrow>
          (case highest_message_id st of
             (Inl e, _) \<Rightarrow> Inl (BootStore e)
           | (Inr highest, st) \<Rightarrow>
               (case channels_or_seed config st of
                  (Inl e, _) \<Rightarrow> Inl (BootStore e)
                | (Inr channels, st) \<Rightarrow>
                    (case roles_or_seed st of
                       (Inl e, _) \<Rightarrow> Inl (BootStore e)
                     | (Inr roles, st) \<Rightarrow>
                         (case load_overwrites cr st of
                            (Inl e, _) \<Rightarrow> Inl (BootStore e)
                          | (Inr ows, st) \<Rightarrow>
                              (case load_role_members cr st of
                                 (Inl e, _) \<Rightarrow> Inl (BootStore e)
                               | (Inr grants, st) \<Rightarrow>
                                   (let s = shared_new cr config ident cert_hash
                                          (attach_overwrites ows channels)
                                          \<lparr>ps_roles = roles, ps_members = gather_members grants\<rparr>;
                                        s = (case highest of None \<Rightarrow> s
                                             | Some h \<Rightarrow> resume_message_ids_after h s)
                                    in Inr (attach_store st s))))))))"

section \<open>What a started server looks like\<close>

lemma server_bind_shape:
  assumes "server_bind cr config ident cert_hash st = Inr s"
  shows "\<exists>channels perms n st'. s = (shared_new cr config ident cert_hash channels perms)
           \<lparr>s_next_message_id := n, s_store := Some st'\<rparr>"
  using assms
  by (auto simp: server_bind_def attach_store_def resume_message_ids_after_def Let_def shared_new_def
      split: sum.splits prod.splits option.splits)

lemma fold_bt_insert:
  "bt_invar m \<Longrightarrow> \<forall>(i, c)\<in>set m. ch_id c = i \<Longrightarrow>
     bt_invar (fold (\<lambda>c m. bt_insert (ch_id c) c m) cs m) \<and>
     (\<forall>(i, c)\<in>set (fold (\<lambda>c m. bt_insert (ch_id c) c m) cs m). ch_id c = i)"
proof (induction cs arbitrary: m)
  case (Cons c cs)
  have "bt_invar (bt_insert (ch_id c) c m)" by (rule bt.invar_insert [OF Cons.prems(1)])
  moreover have "\<forall>(i, c)\<in>set (bt_insert (ch_id c) c m). ch_id c = i"
    using Cons.prems by (auto simp: bt.mem_insert split: if_splits)
  ultimately show ?case using Cons.IH by simp
qed simp

lemma server_bind_wf:
  assumes "server_bind cr config ident cert_hash st = Inr s"
  shows "wf s" and "coherent cr s" and "s_clients s = []"
proof -
  obtain channels perms n st' where s: "s = (shared_new cr config ident cert_hash channels perms)
      \<lparr>s_next_message_id := n, s_store := Some st'\<rparr>"
    using server_bind_shape [OF assms] by blast
  show "s_clients s = []" by (simp add: s shared_new_def)
  then show "coherent cr s" by (simp add: coherent_def)
  have "bt_invar []" by (simp add: bt_invar_def)
  then show "wf s"
    using fold_bt_insert [of "[]" channels] by (simp add: s shared_new_def wf_def keyed_def)
qed

lemma default_ladder: "ladder_ok default_roles"
  by (simp add: ladder_ok_def default_roles_def dense_def EVERYONE_ROLE_ID_def upt_rec)

section \<open>A working database\<close>

definition ready :: "store \<Rightarrow> bool" where "ready st \<longleftrightarrow> (\<forall>n. st_up st n)"

lemma attempt_ready:
  "ready st \<Longrightarrow> q (st_db st) = Some (a, d) \<Longrightarrow>
     attempt q st = (Inr a, st\<lparr>st_ops := Suc (st_ops st), st_db := d\<rparr>)"
  by (simp add: ready_def attempt_up)

lemma ready_update [simp]: "ready (st\<lparr>st_ops := n\<rparr>) = ready st" "ready (st\<lparr>st_db := d\<rparr>) = ready st"
  by (simp_all add: ready_def)

lemma i64_of_u32_eq [simp]: "i64_of_u32 a = i64_of_u32 b \<longleftrightarrow> a = b"
  by (simp add: i64_of_u32_def word_uint_eq_iff)

lemma insert_channels_ready:
  "ready st \<Longrightarrow> distinct (map ch_id cs) \<Longrightarrow>
     (\<forall>c\<in>set cs. i64_of_u32 (ch_id c) \<notin> set (map cr_id (t_channels (st_db st)))) \<Longrightarrow>
     \<exists>n. insert_channels cs st = (Inr (), st\<lparr>st_ops := n, st_db := (st_db st)
       \<lparr>t_channels := t_channels (st_db st) @ map channel_to_row cs\<rparr>\<rparr>)"
proof (induction cs arbitrary: st)
  case Nil
  then show ?case by (intro exI [of _ "st_ops st"]) simp
next
  case (Cons c cs)
  let ?st = "st\<lparr>st_ops := Suc (st_ops st), st_db := (st_db st)
      \<lparr>t_channels := t_channels (st_db st) @ [channel_to_row c]\<rparr>\<rparr>"
  have "insert_channel c st = (Inr (), ?st)"
    unfolding insert_channel_def using Cons.prems
    by (intro attempt_ready) (auto simp: channel_to_row_def)
  moreover have "\<exists>n. insert_channels cs ?st = (Inr (), ?st\<lparr>st_ops := n, st_db := (st_db ?st)
      \<lparr>t_channels := t_channels (st_db ?st) @ map channel_to_row cs\<rparr>\<rparr>)"
    by (rule Cons.IH) (use Cons.prems in \<open>auto simp: channel_to_row_def intro: rev_image_eqI\<close>)
  ultimately show ?case by simp
qed

lemma insert_roles_ready:
  "ready st \<Longrightarrow> distinct (map r_id rs) \<Longrightarrow>
     (\<forall>r\<in>set rs. i64_of_u32 (r_id r) \<notin> set (map rr_id (t_roles (st_db st)))) \<Longrightarrow>
     \<exists>n. insert_roles rs st = (Inr (), st\<lparr>st_ops := n, st_db := (st_db st)
       \<lparr>t_roles := t_roles (st_db st) @ map role_to_row rs\<rparr>\<rparr>)"
proof (induction rs arbitrary: st)
  case Nil
  then show ?case by (intro exI [of _ "st_ops st"]) simp
next
  case (Cons r rs)
  let ?st = "st\<lparr>st_ops := Suc (st_ops st), st_db := (st_db st)
      \<lparr>t_roles := t_roles (st_db st) @ [role_to_row r]\<rparr>\<rparr>"
  have "insert_role r st = (Inr (), ?st)"
    unfolding insert_role_def using Cons.prems
    by (intro attempt_ready) (auto simp: role_to_row_def)
  moreover have "\<exists>n. insert_roles rs ?st = (Inr (), ?st\<lparr>st_ops := n, st_db := (st_db ?st)
      \<lparr>t_roles := t_roles (st_db ?st) @ map role_to_row rs\<rparr>\<rparr>)"
    by (rule Cons.IH) (use Cons.prems in \<open>auto simp: role_to_row_def intro: rev_image_eqI\<close>)
  ultimately show ?case by simp
qed

lemma load_ready:
  assumes "ready st"
  shows "\<exists>a. load_channels st = (Inr a, st\<lparr>st_ops := Suc (st_ops st)\<rparr>) \<and>
           (a = [] \<longleftrightarrow> t_channels (st_db st) = [])"
    and "\<exists>a. load_roles st = (Inr a, st\<lparr>st_ops := Suc (st_ops st)\<rparr>) \<and>
           (a = [] \<longleftrightarrow> t_roles (st_db st) = [])"
    and "\<exists>a. load_overwrites cr st = (Inr a, st\<lparr>st_ops := Suc (st_ops st)\<rparr>) \<and>
           (t_overwrites (st_db st) = [] \<longrightarrow> a = [])"
    and "\<exists>a. load_role_members cr st = (Inr a, st\<lparr>st_ops := Suc (st_ops st)\<rparr>) \<and>
           (t_role_members (st_db st) = [] \<longrightarrow> a = [])"
    and "\<exists>a. highest_message_id st = (Inr a, st\<lparr>st_ops := Suc (st_ops st)\<rparr>)"
proof -
  have len: "sort_key f xs = [] \<longleftrightarrow> xs = []" for f :: "'x \<Rightarrow> int" and xs
    by (metis length_0_conv length_sort)
  note up = attempt_up [OF assms [unfolded ready_def, rule_format]]
  show "\<exists>a. load_channels st = (Inr a, st\<lparr>st_ops := Suc (st_ops st)\<rparr>) \<and>
      (a = [] \<longleftrightarrow> t_channels (st_db st) = [])"
    by (simp add: load_channels_def up len)
  show "\<exists>a. load_roles st = (Inr a, st\<lparr>st_ops := Suc (st_ops st)\<rparr>) \<and>
      (a = [] \<longleftrightarrow> t_roles (st_db st) = [])"
    by (simp add: load_roles_def up len)
  show "\<exists>a. load_overwrites cr st = (Inr a, st\<lparr>st_ops := Suc (st_ops st)\<rparr>) \<and>
      (t_overwrites (st_db st) = [] \<longrightarrow> a = [])"
    by (simp add: load_overwrites_def up List.map_filter_simps)
  show "\<exists>a. load_role_members cr st = (Inr a, st\<lparr>st_ops := Suc (st_ops st)\<rparr>) \<and>
      (t_role_members (st_db st) = [] \<longrightarrow> a = [])"
    by (simp add: load_role_members_def up List.map_filter_simps)
  show "\<exists>a. highest_message_id st = (Inr a, st\<lparr>st_ops := Suc (st_ops st)\<rparr>)"
    by (simp add: highest_message_id_def up)
qed

lemma channels_or_seed_ready:
  assumes "ready st" and "length (cfg_channels config) < 2 ^ 32"
  shows "\<exists>cs n d. channels_or_seed config st = (Inr cs, st\<lparr>st_ops := n, st_db := d\<rparr>) \<and>
    (if t_channels (st_db st) = [] then cs = build_channels config \<and>
       d = (st_db st)\<lparr>t_channels := map channel_to_row (build_channels config)\<rparr> else d = st_db st)"
proof -
  let ?st = "st\<lparr>st_ops := Suc (st_ops st)\<rparr>"
  obtain a where a: "load_channels st = (Inr a, ?st)" "a = [] \<longleftrightarrow> t_channels (st_db st) = []"
    using load_ready(1) [OF assms(1)] by blast
  show ?thesis
  proof (cases "t_channels (st_db st) = []")
    case True
    then obtain n where "insert_channels (build_channels config) ?st = (Inr (), ?st\<lparr>st_ops := n,
        st_db := (st_db ?st)\<lparr>t_channels := map channel_to_row (build_channels config)\<rparr>\<rparr>)"
      using insert_channels_ready [of ?st "build_channels config"] assms(1)
        distinct_seed_ids [OF assms(2)] by auto
    then show ?thesis using a True by (auto simp: channels_or_seed_def)
  next
    case False
    then show ?thesis using a by (auto simp: channels_or_seed_def)
  qed
qed

lemma roles_or_seed_ready:
  assumes "ready st"
  shows "\<exists>rs n d. roles_or_seed st = (Inr rs, st\<lparr>st_ops := n, st_db := d\<rparr>) \<and>
    (if t_roles (st_db st) = [] then rs = default_roles \<and>
       d = (st_db st)\<lparr>t_roles := map role_to_row default_roles\<rparr> else d = st_db st)"
proof -
  let ?st = "st\<lparr>st_ops := Suc (st_ops st)\<rparr>"
  obtain a where a: "load_roles st = (Inr a, ?st)" "a = [] \<longleftrightarrow> t_roles (st_db st) = []"
    using load_ready(2) [OF assms(1)] by blast
  have d: "distinct (map r_id default_roles)"
    using default_ladder by (simp add: ladder_ok_def)
  show ?thesis
  proof (cases "t_roles (st_db st) = []")
    case True
    then obtain n where "insert_roles default_roles ?st = (Inr (), ?st\<lparr>st_ops := n,
        st_db := (st_db ?st)\<lparr>t_roles := map role_to_row default_roles\<rparr>\<rparr>)"
      using insert_roles_ready [of ?st default_roles] assms(1) d by auto
    then show ?thesis using a True by (auto simp: roles_or_seed_def)
  next
    case False
    then show ?thesis using a by (auto simp: roles_or_seed_def)
  qed
qed

lemma server_bind_ready:
  assumes "config_ok config" and "length (cfg_channels config) < 2 ^ 32" and "ready st"
  shows "\<exists>s st'. server_bind cr config ident cert_hash st = Inr s \<and> s_store s = Some st' \<and>
    (t_channels (st_db st) = [] \<and> t_roles (st_db st) = [] \<and>
     t_overwrites (st_db st) = [] \<and> t_role_members (st_db st) = [] \<longrightarrow>
       s_channels s = fold (\<lambda>c m. bt_insert (ch_id c) c m) (build_channels config) [] \<and>
       s_perms s = perm_state_defaults \<and>
       st_db st' = (st_db st)\<lparr>t_channels := map channel_to_row (build_channels config),
         t_roles := map role_to_row default_roles\<rparr>)"
proof -
  let ?to = "\<lambda>n d. st\<lparr>st_ops := n, st_db := d\<rparr>"
  obtain h where h: "highest_message_id st = (Inr h, st\<lparr>st_ops := Suc (st_ops st)\<rparr>)" (is "_ = (_, ?s1)")
    using load_ready(5) [OF assms(3)] by blast
  obtain cs n2 d2 where c: "channels_or_seed config ?s1 = (Inr cs, ?to n2 d2)"
    and cd: "if t_channels (st_db st) = [] then cs = build_channels config \<and>
       d2 = (st_db st)\<lparr>t_channels := map channel_to_row (build_channels config)\<rparr> else d2 = st_db st"
    using channels_or_seed_ready [of ?s1 config] assms(2,3) by auto
  obtain rs n3 d3 where r: "roles_or_seed (?to n2 d2) = (Inr rs, ?to n3 d3)"
    and rd: "if t_roles d2 = [] then rs = default_roles \<and>
       d3 = d2\<lparr>t_roles := map role_to_row default_roles\<rparr> else d3 = d2"
    using roles_or_seed_ready [of "?to n2 d2"] assms(3) by auto
  obtain ows where o: "load_overwrites cr (?to n3 d3) = (Inr ows, ?to (Suc n3) d3)"
    and od: "t_overwrites d3 = [] \<longrightarrow> ows = []"
    using load_ready(3) [of "?to n3 d3" cr] assms(3) by auto
  obtain gs where g: "load_role_members cr (?to (Suc n3) d3) = (Inr gs, ?to (Suc (Suc n3)) d3)"
    and gd: "t_role_members d3 = [] \<longrightarrow> gs = []"
    using load_ready(4) [of "?to (Suc n3) d3" cr] assms(3) by auto
  have v: "validate cr config = Inr ()" using assms(1) by (simp add: validate_iff)
  show ?thesis
    using cd rd od gd
    by (auto simp: server_bind_def v h c r o g Let_def attach_store_def resume_message_ids_after_def
        shared_new_def attach_overwrites_def gather_members_def perm_state_defaults_def split: option.splits)
qed

section \<open>Message ids after a restart\<close>

lemma attempt_db:
  assumes "attempt q st = (Inr a, st')" and "\<And>d b d'. q d = Some (b, d') \<Longrightarrow> t_messages d' = t_messages d"
  shows "t_messages (st_db st') = t_messages (st_db st)"
  using attempt_Inr [OF assms(1)] assms(2) by blast

lemma insert_channels_messages:
  "insert_channels cs st = (Inr x, st') \<Longrightarrow> t_messages (st_db st') = t_messages (st_db st)"
proof (induction cs arbitrary: st)
  case (Cons c cs)
  then obtain st1 where "insert_channel c st = (Inr (), st1)" "insert_channels cs st1 = (Inr x, st')"
    by (auto split: prod.splits sum.splits)
  moreover from this(1) have "t_messages (st_db st1) = t_messages (st_db st)"
    unfolding insert_channel_def by (rule attempt_db) (auto split: if_splits)
  ultimately show ?case using Cons.IH by simp
qed simp

lemma insert_roles_messages:
  "insert_roles rs st = (Inr x, st') \<Longrightarrow> t_messages (st_db st') = t_messages (st_db st)"
proof (induction rs arbitrary: st)
  case (Cons r rs)
  then obtain st1 where "insert_role r st = (Inr (), st1)" "insert_roles rs st1 = (Inr x, st')"
    by (auto split: prod.splits sum.splits)
  moreover from this(1) have "t_messages (st_db st1) = t_messages (st_db st)"
    unfolding insert_role_def by (rule attempt_db) (auto split: if_splits)
  ultimately show ?case using Cons.IH by simp
qed simp

lemma load_messages:
  "load_channels st = (Inr a, st') \<Longrightarrow> t_messages (st_db st') = t_messages (st_db st)"
  "load_roles st = (Inr b, st') \<Longrightarrow> t_messages (st_db st') = t_messages (st_db st)"
  "load_overwrites cr st = (Inr c, st') \<Longrightarrow> t_messages (st_db st') = t_messages (st_db st)"
  "load_role_members cr st = (Inr d, st') \<Longrightarrow> t_messages (st_db st') = t_messages (st_db st)"
  unfolding load_channels_def load_roles_def load_overwrites_def load_role_members_def
  by (auto elim!: attempt_db)

lemma channels_or_seed_messages:
  "channels_or_seed config st = (Inr cs, st') \<Longrightarrow> t_messages (st_db st') = t_messages (st_db st)"
  by (auto simp: channels_or_seed_def dest!: load_messages insert_channels_messages
      split: prod.splits sum.splits if_splits)

lemma roles_or_seed_messages:
  "roles_or_seed st = (Inr rs, st') \<Longrightarrow> t_messages (st_db st') = t_messages (st_db st)"
  by (auto simp: roles_or_seed_def dest!: load_messages insert_roles_messages
      split: prod.splits sum.splits if_splits)

lemma highest_spec:
  assumes "highest_message_id st = (Inr h, st')"
  shows "st_db st' = st_db st" and "h = (if t_messages (st_db st) = [] then None
    else Some (u64_of_i64 (Max (m_id ` set (t_messages (st_db st))))))"
  using attempt_Inr [OF assms [unfolded highest_message_id_def]] by (auto split: list.splits)

lemma server_bind_messages:
  assumes "server_bind cr config ident cert_hash st = Inr s"
  shows "\<exists>st'. s_store s = Some st' \<and> t_messages (st_db st') = t_messages (st_db st) \<and>
    s_next_message_id s = (if t_messages (st_db st) = [] then 1
      else max 1 (u64_of_i64 (Max (m_id ` set (t_messages (st_db st)))) + 1))"
proof -
  obtain h st1 channels st2 roles st3 ows st4 grants st5 where
    b: "highest_message_id st = (Inr h, st1)" "channels_or_seed config st1 = (Inr channels, st2)"
      "roles_or_seed st2 = (Inr roles, st3)" "load_overwrites cr st3 = (Inr ows, st4)"
      "load_role_members cr st4 = (Inr grants, st5)"
    and s: "s = (let s = shared_new cr config ident cert_hash (attach_overwrites ows channels)
                    \<lparr>ps_roles = roles, ps_members = gather_members grants\<rparr>;
                  s = (case h of None \<Rightarrow> s | Some h \<Rightarrow> resume_message_ids_after h s)
              in attach_store st5 s)"
    using assms by (auto simp: server_bind_def Let_def split: sum.splits prod.splits)
  have "t_messages (st_db st5) = t_messages (st_db st)"
    using highest_spec(1) [OF b(1)] channels_or_seed_messages [OF b(2)] roles_or_seed_messages [OF b(3)]
      load_messages(3) [OF b(4)] load_messages(4) [OF b(5)] by simp
  then show ?thesis
    using highest_spec(2) [OF b(1)]
    by (simp add: s Let_def attach_store_def resume_message_ids_after_def shared_new_def)
qed

text \<open>
  A restart never reuses a message id: whatever the database already holds (ids the server
  handed out, below the range of the column), a started server's counter lies above every stored
  id, so that the first message after a restart is not refused for a key that exists.
\<close>

theorem restart_never_reuses_message_ids:
  assumes "server_bind cr config ident cert_hash st = Inr s"
    and "\<forall>r\<in>set (t_messages (st_db st)). 0 \<le> m_id r \<and> m_id r < 2 ^ 63 - 1"
  shows "\<exists>st'. s_store s = Some st' \<and> t_messages (st_db st') = t_messages (st_db st) \<and>
    1 \<le> i64_of_u64 (s_next_message_id s) \<and>
    (\<forall>r\<in>set (t_messages (st_db st')). m_id r < i64_of_u64 (s_next_message_id s))"
proof -
  let ?ms = "t_messages (st_db st)"
  obtain st' where st': "s_store s = Some st'" "t_messages (st_db st') = ?ms"
    and n: "s_next_message_id s = (if ?ms = [] then 1 else max 1 (u64_of_i64 (Max (m_id ` set ?ms)) + 1))"
    using server_bind_messages [OF assms(1)] by blast
  have "1 \<le> i64_of_u64 (s_next_message_id s) \<and> (\<forall>r\<in>set ?ms. m_id r < i64_of_u64 (s_next_message_id s))"
  proof (cases "?ms = []")
    case True
    then show ?thesis using n by (simp add: i64_of_u64_def)
  next
    case False
    define m where "m = Max (m_id ` set ?ms)"
    have "m \<in> m_id ` set ?ms" unfolding m_def by (rule Max_in) (use False in simp_all)
    then have m: "0 \<le> m" "m < 2 ^ 63 - 1" using assms(2) by auto
    have le: "m_id r \<le> m" if "r \<in> set ?ms" for r unfolding m_def by (rule Max_ge) (use that in simp_all)
    have u: "u64_of_i64 m + 1 = u64_of_i64 (m + 1)" by (simp add: u64_of_i64_def)
    have i: "i64_of_u64 (u64_of_i64 (m + 1)) = m + 1" by (rule sint_u64_roundtrip) (use m in simp_all)
    have t: "take_bit LENGTH(64) (m + 1) = m + 1"
      by (rule take_bit_int_eq_self) (use m in simp_all)
    have "uint (u64_of_i64 (m + 1)) = m + 1"
      unfolding u64_of_i64_def unsigned_of_int t using m by simp
    then have "1 \<le> u64_of_i64 (m + 1)" using m(1) by (simp add: word_le_def)
    then have "s_next_message_id s = u64_of_i64 (m + 1)"
      using n False u by (simp add: m_def [symmetric] max_def)
    then show ?thesis using i le m(1) by fastforce
  qed
  then show ?thesis using st' by simp
qed

definition sample_boot_db :: db where
  "sample_boot_db = sample_db\<lparr>t_messages := [message_to_row sample_ext (sample_message 41 1)]\<rparr>"

lemma sample_config_ok: "config_ok sample_config" "length (cfg_channels sample_config) < 2 ^ 32"
  by (simp_all add: config_ok_def sample_config_def Let_def trim_def trim_start_def is_whitespace_def)

lemma ready_store_with [simp]: "ready (store_with d)"
  by (simp add: ready_def store_with_def)

theorem restart_never_reuses_message_ids_witness:
  "\<exists>s st'. server_bind sample_ext sample_config \<lparr>id_secret = [], id_counter = 0\<rparr> []
      (store_with sample_boot_db) = Inr s \<and>
    s_store s = Some st' \<and> t_messages (st_db st') = t_messages sample_boot_db \<and>
    1 \<le> i64_of_u64 (s_next_message_id s) \<and>
    (\<forall>r\<in>set (t_messages (st_db st')). m_id r < i64_of_u64 (s_next_message_id s))"
proof -
  let ?st = "store_with sample_boot_db"
  obtain s where s: "server_bind sample_ext sample_config \<lparr>id_secret = [], id_counter = 0\<rparr> [] ?st = Inr s"
    using server_bind_ready [OF sample_config_ok ready_store_with] by blast
  have db: "st_db ?st = sample_boot_db" by (simp add: store_with_def)
  have "\<forall>r\<in>set (t_messages (st_db ?st)). 0 \<le> m_id r \<and> m_id r < 2 ^ 63 - 1"
    unfolding db by (simp add: sample_boot_db_def message_to_row_def sample_message_def i64_of_u64_def)
  from restart_never_reuses_message_ids [OF s this] s show ?thesis unfolding db by blast
qed

section \<open>A first start\<close>

lemma fold_bt_insert_mem:
  "bt_invar m \<Longrightarrow> distinct (map ch_id cs) \<Longrightarrow>
     set (fold (\<lambda>c m. bt_insert (ch_id c) c m) cs m) =
       (\<lambda>c. (ch_id c, c)) ` set cs \<union> {p \<in> set m. fst p \<notin> ch_id ` set cs}"
proof (induction cs arbitrary: m)
  case (Cons c cs)
  have "set (bt_insert (ch_id c) c m) = insert (ch_id c, c) {p \<in> set m. fst p \<noteq> ch_id c}"
    by (auto simp: bt.mem_insert [OF Cons.prems(1)] split: if_splits)
  then show ?case using Cons.IH [OF bt.invar_insert [OF Cons.prems(1)]] Cons.prems(2) by auto
qed simp

text \<open>
  A first start against an empty, reachable database always succeeds for a valid
  configuration: the channels in memory are exactly the ones the configuration describes, the roles
  are the default ladder with no grants, nobody is connected, and the database holds the same
  channels and roles.
\<close>

theorem first_start_seeds_everything:
  assumes "config_ok config" and "length (cfg_channels config) < 2 ^ 32" and "ready st"
    and "t_channels (st_db st) = []" and "t_roles (st_db st) = []"
    and "t_overwrites (st_db st) = []" and "t_role_members (st_db st) = []"
  shows "\<exists>s st'. server_bind cr config ident cert_hash st = Inr s \<and> s_store s = Some st' \<and>
    set (channels_list s) = set (build_channels config) \<and>
    s_perms s = perm_state_defaults \<and> s_clients s = [] \<and>
    t_channels (st_db st') = map channel_to_row (build_channels config) \<and>
    t_roles (st_db st') = map role_to_row default_roles"
proof -
  obtain s st' where s: "server_bind cr config ident cert_hash st = Inr s" "s_store s = Some st'"
    and c: "s_channels s = fold (\<lambda>c m. bt_insert (ch_id c) c m) (build_channels config) []"
    and p: "s_perms s = perm_state_defaults"
    and d: "st_db st' = (st_db st)\<lparr>t_channels := map channel_to_row (build_channels config),
         t_roles := map role_to_row default_roles\<rparr>"
    using server_bind_ready [OF assms(1-3)] assms(4-) by blast
  have "set (s_channels s) = (\<lambda>c. (ch_id c, c)) ` set (build_channels config)"
    using fold_bt_insert_mem [OF bt.invar_empty distinct_seed_ids [OF assms(2)]] c by simp
  then have "set (channels_list s) = set (build_channels config)"
    by (simp add: channels_list_def image_image)
  then show ?thesis using s p d server_bind_wf(3) [OF s(1)] by auto
qed

theorem first_start_seeds_everything_witness:
  "\<exists>s st'. server_bind sample_ext sample_config \<lparr>id_secret = [], id_counter = 0\<rparr> []
      (store_with empty_db) = Inr s \<and> s_store s = Some st' \<and>
    set (channels_list s) = set (build_channels sample_config) \<and>
    s_perms s = perm_state_defaults \<and> s_clients s = [] \<and>
    t_channels (st_db st') = map channel_to_row (build_channels sample_config) \<and>
    t_roles (st_db st') = map role_to_row default_roles"
  by (rule first_start_seeds_everything [OF sample_config_ok ready_store_with])
     (simp_all add: store_with_def empty_db_def)

end
