(* ===== verification/Pickle_Persist.thy ===== *)
theory Pickle_Persist
  imports Pickle_Session
begin

text \<open>
  What the handlers do to the database. The locale \<open>db_relation\<close> takes a reflexive and transitive
  relation between database contents that the single writes respect, and shows once that every
  handler, the handshake and the voice path respect it, whatever fails in between. Two instances
  carry the properties: stored messages are only ever appended, and the bans of a fingerprint stay
  as they are unless a request names that fingerprint.
\<close>

section \<open>Operations that leave the store alone\<close>

lemma keeps_store_quiet: "quiet s s' \<Longrightarrow> s_store s' = s_store s"
  by (rule quiet_fields(7))

lemma keeps_store [simp]:
  "s_store (send client m s) = s_store s"
  "s_store (broadcast m except s) = s_store s"
  "s_store (broadcast_filtered cr m channel except s) = s_store s"
  "s_store (resync_visibility cr before touched s) = s_store s"
  "s_store (ack actor nonce s) = s_store s"
  "s_store (refuse actor nonce code detail s) = s_store s"
  "s_store (disconnect_all reason s) = s_store s"
  "s_store (snd (eject victim reason s)) = s_store s"
  "s_store (snd (remove_client client s)) = s_store s"
  by (rule keeps_store_quiet, rule quiet_intros)+

lemma keeps_store_fold: "(\<And>x s. s_store (f x s) = s_store s) \<Longrightarrow> s_store (fold f xs s) = s_store s"
  by (induction xs arbitrary: s) auto

lemma keeps_store_mem [simp]:
  "s_store (modify_info client g s) = s_store s"
  "s_store (swap_perm_state p s) = s_store s"
  "s_store (close_transport client code reason s) = s_store s"
  "s_store (snd (set_channel_overwrite_mem channel ow s)) = s_store s"
  "s_store (snd (remove_channel_overwrite channel target s)) = s_store s"
  "s_store (insert_channel_mem c s) = s_store s"
  "s_store (snd (update_channel_mem c s)) = s_store s"
  "s_store (snd (remove_channel_mem channel s)) = s_store s"
  "s_store (snd (update_live_member_roles cr fp roles s)) = s_store s"
  "s_store (snd (snd (drop_role_mem i s))) = s_store s"
  "s_store (snd (next_message_id s)) = s_store s"
  by (simp_all add: modify_info_def swap_perm_state_def close_transport_def set_channel_overwrite_mem_def
      remove_channel_overwrite_def insert_channel_mem_def update_channel_mem_def remove_channel_mem_def
      update_live_member_roles_def drop_role_mem_def strip_role_overwrites_def strip_live_role_def
      next_message_id_def Let_def)

lemma keeps_store_admit [simp]: "s_store (snd (admit cr now ident nickname s)) = s_store s"
  by (cases rule: admit_exhaust [of cr now ident nickname s]) simp_all

lemma keeps_store_pairs:
  "eject victim reason s = (a, t) \<Longrightarrow> s_store t = s_store s"
  "remove_client client s = (b, t) \<Longrightarrow> s_store t = s_store s"
  "admit cr now ident nickname s = (c, t) \<Longrightarrow> s_store t = s_store s"
  "join_channel cr client channel s = (d, t) \<Longrightarrow> s_store t = s_store s"
  "leave_channel client s = (e, t) \<Longrightarrow> s_store t = s_store s"
  "set_voice_state client muted deafened s = (f, t) \<Longrightarrow> s_store t = s_store s"
  "set_nickname client nickname s = (f, t) \<Longrightarrow> s_store t = s_store s"
  "set_server_muted client muted s = (f, t) \<Longrightarrow> s_store t = s_store s"
  "force_move client to s = (d, t) \<Longrightarrow> s_store t = s_store s"
  "build_message cr now author channel content reply_to s = (m, t) \<Longrightarrow> s_store t = s_store s"
  "update_live_member_roles cr fp roles s = (l, t) \<Longrightarrow> s_store t = s_store s"
  "drop_role_mem i s = (k, l, t) \<Longrightarrow> s_store t = s_store s"
  "remove_channel_mem channel s = (l, t) \<Longrightarrow> s_store t = s_store s"
  using keeps_store(8) [of victim reason s] keeps_store_admit [of cr now ident nickname s]
    keeps_store_mem(8) [of channel s] keeps_store_mem(9) [of cr fp roles s] keeps_store_mem(10) [of i s]
  by (auto simp: remove_client_def join_channel_def leave_channel_def set_voice_state_def set_nickname_def
      set_server_muted_def force_move_def build_message_def next_message_id_def Let_def
      simp del: keeps_store keeps_store_admit split: option.splits if_splits prod.splits)

lemma keeps_store_eject [simp]: "s_store (eject_and_close victim reason s) = s_store s"
  by (auto simp: eject_and_close_def Let_def keeps_store_pairs split: prod.splits option.splits)

lemma keeps_store_relay [simp]: "s_store (relay_voice cr from packet s) = s_store s"
  by (simp add: relay_voice_def Let_def split: option.splits)

lemma keeps_store_authorize:
  "authorize_against_online cr actor nonce flag target s = (r, s') \<Longrightarrow> s_store s' = s_store s"
  by (auto simp: authorize_against_online_def split: if_splits option.splits)

lemma keeps_store_actor: "actor_of cr client nonce s = (r, s') \<Longrightarrow> s_store s' = s_store s"
  by (auto simp: actor_of_def Let_def split: if_splits option.splits)

section \<open>Relations the writes respect\<close>

locale db_relation =
  fixes R :: "db \<Rightarrow> db \<Rightarrow> bool" and cr :: ext and allowed :: "client_control \<Rightarrow> bool"
  assumes R_refl: "R d d"
    and R_trans: "R d d' \<Longrightarrow> R d' d'' \<Longrightarrow> R d d''"
    and R_roles: "R d (d\<lparr>t_roles := a\<rparr>)"
    and R_members: "R d (d\<lparr>t_role_members := b\<rparr>)"
    and R_overwrites: "R d (d\<lparr>t_overwrites := c\<rparr>)"
    and R_channels: "R d (d\<lparr>t_channels := e\<rparr>)"
    and R_message: "R d (d\<lparr>t_messages := t_messages d @ [row]\<rparr>)"
    and R_ban: "allowed (Ban nonce fp reason until) \<Longrightarrow> be_fingerprint entry = fp \<Longrightarrow>
      R (st_db st) (st_db (snd (insert_ban cr entry st)))"
    and R_unban: "allowed (Unban nonce fp) \<Longrightarrow> R (st_db st) (st_db (snd (delete_ban cr fp st)))"
begin

definition safe :: "(store \<Rightarrow> (store_error + 'a) \<times> store) \<Rightarrow> bool" where
  "safe op \<longleftrightarrow> (\<forall>st. R (st_db st) (st_db (snd (op st))))"

definition moves :: "shared \<Rightarrow> shared \<Rightarrow> bool" where
  "moves s s' \<longleftrightarrow> rel_option (\<lambda>a b. R (st_db a) (st_db b)) (s_store s) (s_store s')"

lemma moves_same: "s_store s' = s_store s \<Longrightarrow> moves s s'"
  unfolding moves_def by (cases "s_store s") (simp_all add: R_refl)

lemma moves_store_cong: "s_store s' = s_store t \<Longrightarrow> moves s t \<Longrightarrow> moves s s'"
  by (simp add: moves_def)

lemma moves_refl [simp]: "moves s s"
  by (rule moves_same) simp

lemma moves_simps [simp]:
  "moves s (send client m t) = moves s t" "moves s (broadcast m except t) = moves s t"
  "moves s (broadcast_filtered cr' m channel except t) = moves s t"
  "moves s (resync_visibility cr' before touched t) = moves s t" "moves s (ack actor nonce t) = moves s t"
  "moves s (refuse actor nonce code detail t) = moves s t" "moves s (disconnect_all reason t) = moves s t"
  "moves s (eject_and_close victim reason t) = moves s t" "moves s (modify_info client g t) = moves s t"
  "moves s (swap_perm_state p t) = moves s t" "moves s (close_transport client n b t) = moves s t"
  "moves s (snd (set_channel_overwrite_mem channel ow t)) = moves s t"
  "moves s (snd (remove_channel_overwrite channel target t)) = moves s t"
  "moves s (insert_channel_mem c t) = moves s t" "moves s (snd (update_channel_mem c t)) = moves s t"
  by (simp_all add: moves_def)

lemma moves_fold:
  "(\<And>x s. s_store (f x s) = s_store s) \<Longrightarrow> moves s (fold f xs t) = moves s t"
  by (simp add: moves_def keeps_store_fold)

lemma moves_pairs:
  "eject victim reason t = (a, v) \<Longrightarrow> moves s v = moves s t"
  "remove_client client t = (b, v) \<Longrightarrow> moves s v = moves s t"
  "admit cr' now ident nickname t = (c, v) \<Longrightarrow> moves s v = moves s t"
  "join_channel cr' client channel t = (d, v) \<Longrightarrow> moves s v = moves s t"
  "leave_channel client t = (e, v) \<Longrightarrow> moves s v = moves s t"
  "set_voice_state client muted deafened t = (f, v) \<Longrightarrow> moves s v = moves s t"
  "set_nickname client nickname t = (f, v) \<Longrightarrow> moves s v = moves s t"
  "set_server_muted client muted t = (f, v) \<Longrightarrow> moves s v = moves s t"
  "force_move client to t = (d, v) \<Longrightarrow> moves s v = moves s t"
  "build_message cr' now author channel content reply_to t = (m, v) \<Longrightarrow> moves s v = moves s t"
  "update_live_member_roles cr' fp roles t = (l, v) \<Longrightarrow> moves s v = moves s t"
  "drop_role_mem i t = (k, l, v) \<Longrightarrow> moves s v = moves s t"
  "remove_channel_mem channel t = (l, v) \<Longrightarrow> moves s v = moves s t"
  "authorize_against_online cr' actor nonce flag target t = (g, v) \<Longrightarrow> moves s v = moves s t"
  "actor_of cr' client nonce t = (h, v) \<Longrightarrow> moves s v = moves s t"
  by (simp_all add: moves_def keeps_store_pairs keeps_store_authorize keeps_store_actor)

lemma moves_trans: "moves s t \<Longrightarrow> moves t v \<Longrightarrow> moves s v"
  unfolding moves_def by (cases "s_store s"; cases "s_store t"; cases "s_store v") (auto intro: R_trans)

lemma moves_db: "db_call op s = (r, t) \<Longrightarrow> safe op \<Longrightarrow> moves s t"
  unfolding moves_def safe_def
  by (auto simp: db_call_def split: option.splits prod.splits) (metis snd_conv)

lemma safe_attempt:
  assumes "\<And>d a d'. q d = Some (a, d') \<Longrightarrow> R d d'"
  shows "safe (attempt q)"
  unfolding safe_def attempt_def using assms
  by (auto simp: Let_def R_refl split: option.splits)

lemma R_delete_role:
  "R d (d\<lparr>t_role_members := b, t_overwrites := c, t_roles := a\<rparr>)"
  using R_trans [OF R_trans [OF R_members [of d b] R_overwrites [of _ c]] R_roles [of _ a]] by simp

lemma R_delete_channel: "R d (d\<lparr>t_overwrites := c, t_channels := e\<rparr>)"
  using R_trans [OF R_overwrites [of d c] R_channels [of _ e]] by simp

lemma safe_ops:
  "safe (insert_message cr' m)" "safe (history cr' channel before limit)"
  "safe (insert_role r)" "safe (store_update_role r)" "safe (store_delete_role i)"
  "safe (set_role_positions positions)" "safe (replace_member_roles cr' fp roles)"
  "safe (upsert_overwrite cr' channel ow)" "safe (delete_overwrite cr' channel target)"
  "safe (insert_channel c)" "safe (store_update_channel c)" "safe (store_delete_channel i)"
  "safe (store_list_bans cr')" "safe (active_ban cr' fp now)"
  unfolding insert_message_def history_def insert_role_def store_update_role_def store_delete_role_def
    set_role_positions_def replace_member_roles_def upsert_overwrite_def delete_overwrite_def
    insert_channel_def store_update_channel_def store_delete_channel_def store_list_bans_def active_ban_def
  by (rule safe_attempt, auto simp: Let_def R_refl R_roles R_members R_overwrites R_channels R_message
      R_delete_role R_delete_channel split: if_splits option.splits)+

lemmas moves_op = safe_ops [THEN moves_db [rotated]]

section \<open>The handlers\<close>

lemma moves_moderation:
  "moves s (kick cr' actor nonce target why s)"
  "moves s (set_server_mute cr' actor nonce target muted s)"
  "moves s (move_member cr' actor nonce target to s)"
  "moves s (list_bans cr' actor nonce s)"
  by (auto simp: kick_def set_server_mute_def move_member_def list_bans_def moves_pairs moves_op(13)
      split: prod.splits option.splits sum.splits)

lemma moves_ban:
  assumes "allowed (Ban nonce fp reason until)"
  shows "moves s (ban cr now actor nonce fp reason until s)"
proof -
  have "moves s t" if "db_call (insert_ban cr entry) s = (r, t)" "be_fingerprint entry = fp" for entry r t
    by (rule moves_db [OF that(1)]) (auto simp: safe_def intro: R_ban [OF assms that(2)])
  then show ?thesis
    by (auto simp: ban_def Let_def moves_fold split: prod.splits sum.splits option.splits)
qed

lemma moves_unban:
  assumes "allowed (Unban nonce fp)"
  shows "moves s (unban cr actor nonce fp s)"
proof -
  have "moves s t" if "db_call (delete_ban cr fp) s = (r, t)" for r t
    by (rule moves_db [OF that]) (auto simp: safe_def intro: R_unban [OF assms])
  then show ?thesis by (auto simp: unban_def split: prod.splits sum.splits)
qed

lemma moves_actor:
  assumes "\<And>a. moves s (f a s)"
  shows "moves s (case actor_of cr' client nonce s of (None, s') \<Rightarrow> s' | (Some a, t) \<Rightarrow> f a t)"
proof -
  have "t = s" if "actor_of cr' client nonce s = (Some a, t)" for a t
    using that by (auto simp: actor_of_def Let_def split: if_splits option.splits)
  then show ?thesis
    using assms by (auto simp: moves_pairs split: prod.splits option.splits)
qed

lemma moves_case:
  assumes "safe op" and "\<And>e t. moves s t \<Longrightarrow> moves s (f e t)" and "\<And>x t. moves s t \<Longrightarrow> moves s (g x t)"
  shows "moves s (case db_call op s of (Inl e, t) \<Rightarrow> f e t | (Inr x, t) \<Rightarrow> g x t)"
  using assms moves_db [OF _ assms(1)] by (auto split: prod.splits sum.splits)

lemma moves_update_role: "moves s (update_role cr' client nonce i name color perms s)"
  unfolding update_role_def
  by (rule moves_actor)
    (auto simp: Let_def split: option.splits sum.splits intro!: moves_case [OF safe_ops(4)])

lemma moves_reorder_roles: "moves s (reorder_roles cr' client nonce positions s)"
  unfolding reorder_roles_def
  by (rule moves_actor) (auto simp: Let_def intro!: moves_case [OF safe_ops(6)])

lemma moves_set_member_roles: "moves s (set_member_roles cr' client nonce fp roles s)"
proof -
  have "moves s (let t = swap_perm_state p t; (infos, t) = update_live_member_roles cr' fp roles t;
      t = fold (\<lambda>info. broadcast (UserUpdated info) None) infos t; t = resync_visibility cr' before [] t
    in ack client nonce t) = moves s t" for t p before
    by (simp add: Let_def moves_pairs moves_fold split: prod.splits)
  then show ?thesis
    unfolding set_member_roles_def
    by (intro moves_actor) (simp add: Let_def, intro impI moves_case [OF safe_ops(7)], simp_all)
qed

lemma moves_create_role: "moves s (create_role cr' client nonce name perms s)"
  unfolding create_role_def
proof (rule moves_actor, goal_cases)
  case (1 a)
  have "moves s v" if "db_call (set_role_positions p) s = (q, t)" "db_call (insert_role r) t = (q', v)" for p r q q' t v
    using moves_trans [OF moves_op(6) [OF that(1)] moves_op(3) [OF that(2)]] .
  then show ?case by (auto simp: Let_def moves_op(6) split: prod.splits sum.splits)
qed

lemma moves_delete_role: "moves s (delete_role cr' client nonce i s)"
  unfolding delete_role_def
proof (rule moves_actor, goal_cases)
  case (1 a)
  have "moves s v" if "db_call (store_delete_role i) s = (r, t)" "db_call (set_role_positions p) t = (r', v)" for p r r' t v
    using moves_trans [OF moves_op(5) [OF that(1)] moves_op(6) [OF that(2)]] .
  then show ?case
    by (auto simp: Let_def moves_op(5) moves_pairs moves_fold split: prod.splits sum.splits)
qed

lemma moves_set_channel_overwrite: "moves s (set_channel_overwrite cr' client nonce channel target al de s)"
  unfolding set_channel_overwrite_def
  by (rule moves_actor)
    (auto simp: Let_def split: option.splits intro!: moves_case [OF safe_ops(8)])

lemma moves_delete_channel_overwrite: "moves s (delete_channel_overwrite cr' client nonce channel target s)"
  unfolding delete_channel_overwrite_def
  by (rule moves_actor) (auto simp: Let_def intro!: moves_case [OF safe_ops(9)])

lemma moves_delete_channel: "moves s (delete_channel cr' client nonce i s)"
  unfolding delete_channel_def
  by (auto simp: Let_def moves_pairs moves_fold moves_op(12) split: prod.splits sum.splits)

lemma moves_create_channel:
  "create_channel cr' client nonce name parent topic kind mx order s = Some s' \<Longrightarrow> moves s s'"
  unfolding create_channel_def
  by (auto simp: Let_def split: if_splits option.splits sum.splits prod.splits dest: moves_op(10))

lemma moves_update_channel:
  "update_channel cr' client nonce i parent name topic kind mx order s = Some s' \<Longrightarrow> moves s s'"
  unfolding update_channel_def
  by (auto simp: Let_def split: if_splits option.splits sum.splits prod.splits dest: moves_op(11))

lemma moves_chat:
  "moves s (fetch_history cr' client channel before limit s)"
  "moves s (typing cr' client channel s)"
  "moves s (join_request cr' client channel s)"
  "moves s (leave_request client s)"
  "moves s (voice_request client muted deafened s)"
  "moves s (nickname_request client nickname s)"
  by (auto simp: fetch_history_def typing_def join_request_def leave_request_def voice_request_def
      nickname_request_def Let_def moves_pairs moves_op(2) split: prod.splits sum.splits option.splits)

lemma moves_send_message: "moves s (send_message cr' now client channel content reply_to nonce s)"
proof -
  have "moves s v" if "build_message cr' now author channel content reply_to s = (m, t)"
      "db_call (insert_message cr' m) t = (r, v)" for author m t r v
    using moves_trans [OF _ moves_op(1) [OF that(2)]] moves_pairs(10) [OF that(1), of s] by simp
  then show ?thesis
    by (auto simp: send_message_def Let_def moves_pairs split: option.splits prod.splits sum.splits)
qed

lemmas moves_requests = moves_moderation moves_update_role moves_reorder_roles moves_set_member_roles
  moves_create_role moves_delete_role moves_set_channel_overwrite moves_delete_channel_overwrite
  moves_delete_channel moves_chat moves_send_message

lemma moves_handle_control:
  assumes "allowed message" and "handle_control cr now me message s = Some s'"
  shows "moves s s'"
  using assms
  by (cases message)
    (auto simp: moves_requests moves_ban moves_unban intro: moves_create_channel moves_update_channel)

lemma moves_handshake: "moves s (snd (snd (handshake cr' now nonce hello_ok first reply_ok s)))"
proof -
  have greet: "moves s (snd (snd (admit_and_greet cr' now ok hello auth t))) = moves s t" for ok hello auth t
    using keeps_store(9)
    by (auto simp: admit_and_greet_def refuse_auth_def moves_def keeps_store_pairs split: prod.splits sum.splits)
  have "moves s (s\<lparr>s_store := Some v\<rparr>)" if "s_store s = Some st" "active_ban cr' fp now st = (r, v)" for st fp r v
    using safe_ops(14) [unfolded safe_def, rule_format, of st cr' fp now] that by (simp add: moves_def)
  then show ?thesis
    by (auto simp: handshake_def Let_def refuse_auth_def greet
        split: option.splits sum.splits client_control.splits prod.splits)
qed

lemma moves_others:
  "moves s (datagram_in cr' me datagram s)" "moves s (end_session me s)" "moves s (disconnect_all reason s)"
  by (auto simp: datagram_in_def end_session_def moves_pairs intro: moves_same
      split: sum.splits prod.splits option.splits)

end

section \<open>Messages are only appended\<close>

definition appends :: "db \<Rightarrow> db \<Rightarrow> bool" where
  "appends d d' \<longleftrightarrow> (\<exists>rows. t_messages d' = t_messages d @ rows)"

lemma ban_writes_messages [simp]:
  "t_messages (st_db (snd (insert_ban cr entry st))) = t_messages (st_db st)"
  "t_messages (st_db (snd (delete_ban cr fp st))) = t_messages (st_db st)"
  by (simp_all add: insert_ban_def delete_ban_def attempt_def Let_def)

interpretation messages: db_relation appends cr "\<lambda>_. True" for cr
  by unfold_locales (auto simp: appends_def)

section \<open>Bans stay\<close>

definition bans_of :: "ext \<Rightarrow> fingerprint \<Rightarrow> db \<Rightarrow> ban_row list" where
  "bans_of cr fp d = filter (\<lambda>r. b_fingerprint r = fingerprint_to_string cr fp) (t_bans d)"

definition same_bans :: "ext \<Rightarrow> fingerprint \<Rightarrow> db \<Rightarrow> db \<Rightarrow> bool" where
  "same_bans cr fp d d' \<longleftrightarrow> bans_of cr fp d' = bans_of cr fp d"

text \<open>A request that does not touch the ban of the fingerprint.\<close>

definition leaves_ban :: "ext \<Rightarrow> fingerprint \<Rightarrow> client_control \<Rightarrow> bool" where
  "leaves_ban cr fp m \<longleftrightarrow>
     (case m of
        Ban _ f _ _ \<Rightarrow> fingerprint_to_string cr f \<noteq> fingerprint_to_string cr fp
      | Unban _ f \<Rightarrow> fingerprint_to_string cr f \<noteq> fingerprint_to_string cr fp
      | _ \<Rightarrow> True)"

lemma filter_upsert_other:
  "k \<noteq> f row \<Longrightarrow> filter (\<lambda>r. f r = k) (map (\<lambda>r. if f r = f row then row else r) rows) = filter (\<lambda>r. f r = k) rows"
  by (induction rows) auto

lemma insert_ban_other:
  assumes "fingerprint_to_string cr (be_fingerprint entry) \<noteq> fingerprint_to_string cr fp"
  shows "same_bans cr fp (st_db st) (st_db (snd (insert_ban cr entry st)))"
proof -
  have "b_fingerprint (ban_to_row cr entry) \<noteq> fingerprint_to_string cr fp"
    using assms by (simp add: ban_to_row_def)
  then show ?thesis
    using filter_upsert_other [of "fingerprint_to_string cr fp" b_fingerprint "ban_to_row cr entry" "t_bans (st_db st)"]
    by (auto simp: same_bans_def bans_of_def insert_ban_def attempt_def Let_def)
qed

lemma delete_ban_other:
  assumes "fingerprint_to_string cr f \<noteq> fingerprint_to_string cr fp"
  shows "same_bans cr fp (st_db st) (st_db (snd (delete_ban cr f st)))"
  using assms by (auto simp: same_bans_def bans_of_def delete_ban_def attempt_def Let_def intro!: filter_cong)

interpretation bans: db_relation "same_bans cr fp" cr "leaves_ban cr fp" for cr fp
  by unfold_locales
    (auto simp: leaves_ban_def insert_ban_other delete_ban_other, auto simp: same_bans_def bans_of_def)

end
