(* ===== verification/Pickle_System.thy ===== *)
theory Pickle_System
  imports Pickle_Boot Pickle_Persist
begin

text \<open>
  The running server as a transition system. A step is one atomic piece of work of one of its
  tasks, on the shared state: a handshake, a control message that a session handles (or refuses
  for its rate), a voice datagram, the writer task delivering a queued frame or going away, the end
  of a session, and the shutdown. Steps of different sessions interleave freely. What the network
  does and when is arbitrary. The side condition on control messages excludes only the overflow of
  the 32-bit role counter.
\<close>

section \<open>Transport steps\<close>

text \<open>The writer task took the oldest frame off a client's queue, or stopped for good.\<close>

definition deliver :: "client_id \<Rightarrow> shared \<Rightarrow> shared" where
  "deliver client s =
     s\<lparr>s_clients := AList.map_entry client (\<lambda>e. e\<lparr>c_queue := tl (c_queue e)\<rparr>) (s_clients s)\<rparr>"

definition hang_up :: "client_id \<Rightarrow> shared \<Rightarrow> shared" where
  "hang_up client s =
     s\<lparr>s_clients := AList.map_entry client (\<lambda>e. e\<lparr>c_gone := True\<rparr>) (s_clients s)\<rparr>"

section \<open>Steps\<close>

datatype event =
  EConnect
| ERequest client_id client_control
| ETooFast client_id
| ESpeak client_id bytes
| EDeliver client_id
| EHangUp client_id
| EQuit client_id
| EShutdown

inductive server_step :: "ext \<Rightarrow> event \<Rightarrow> shared \<Rightarrow> shared \<Rightarrow> bool" for cr :: ext where
  connects: "server_step cr EConnect s (snd (snd (handshake cr now nonce hello_ok first reply_ok s)))"
| requests: "next_role_id (ps_roles (s_perms s)) \<noteq> 0 \<Longrightarrow>
    handle_control cr now me message s = Some s' \<Longrightarrow> server_step cr (ERequest me message) s s'"
| too_fast: "server_step cr (ETooFast me) s (send me (Error RateLimited (u ''too many control messages'')) s)"
| speaks: "server_step cr (ESpeak me datagram) s (datagram_in cr me datagram s)"
| delivers: "server_step cr (EDeliver me) s (deliver me s)"
| hangs_up: "server_step cr (EHangUp me) s (hang_up me s)"
| quits: "server_step cr (EQuit me) s (end_session me s)"
| shuts_down: "server_step cr EShutdown s (disconnect_all ServerShutdown s)"

inductive_cases requestE: "server_step cr (ERequest me message) s s'"

inductive run :: "ext \<Rightarrow> shared \<Rightarrow> event list \<Rightarrow> shared \<Rightarrow> bool" for cr :: ext and s0 :: shared where
  start: "run cr s0 [] s0"
| further: "run cr s0 es s \<Longrightarrow> server_step cr e s s' \<Longrightarrow> run cr s0 (es @ [e]) s'"

section \<open>Invariants of the running server\<close>

locale running_invariant = server_invariant +
  assumes deliver_keeps: "I s \<Longrightarrow> I (deliver client s)"
    and hang_up_keeps: "I s \<Longrightarrow> I (hang_up client s)"
begin

lemma step_keeps: "server_step cr e s s' \<Longrightarrow> I s \<Longrightarrow> I s'"
  by (induction rule: server_step.induct)
    (auto intro: handshake_keeps handle_control_keeps send_keeps datagram_in_keeps deliver_keeps
      hang_up_keeps end_session_keeps disconnect_all_keeps)

lemma run_keeps: "run cr s0 es s \<Longrightarrow> I s0 \<Longrightarrow> I s"
  by (induction rule: run.induct) (auto intro: step_keeps)

end

lemma map_entry_mem:
  "(i, e') \<in> set (AList.map_entry k f m) \<Longrightarrow> \<exists>e. (i, e) \<in> set m \<and> (e' = e \<or> e' = f e)"
  by (induction m) (auto split: if_splits)

text \<open>A change of one entry that leaves its info alone and does not lengthen its queue.\<close>

lemma wf_entry_change:
  assumes "wf s" and "\<And>e. c_info (f e) = c_info e" and "\<And>e. length (c_queue (f e)) \<le> length (c_queue e)"
  shows "wf (s\<lparr>s_clients := AList.map_entry k f (s_clients s)\<rparr>)" (is "wf ?s")
proof -
  have "info_ok ?s = info_ok s" by (rule info_ok_cong) simp_all
  moreover have "info_ok s (c_info e') \<and> length (c_queue e') \<le> CONTROL_QUEUE_DEPTH \<and> ui_client_id (c_info e') = i"
    if m: "(i, e') \<in> set (AList.map_entry k f (s_clients s))" for i e'
  proof -
    obtain e where e: "(i, e) \<in> set (s_clients s)" "e' = e \<or> e' = f e" using map_entry_mem [OF m] by blast
    then have "info_ok s (c_info e)" "length (c_queue e) \<le> CONTROL_QUEUE_DEPTH" "ui_client_id (c_info e) = i"
      using assms(1) unfolding wf_def keyed_def by fastforce+
    then show ?thesis using e(2) assms(2,3) [of e] by auto
  qed
  ultimately show ?thesis
    using assms(1) by (auto simp: wf_def keyed_def length_map_entry)
qed

lemma coherent_entry_change:
  assumes "coherent cr s" and "\<And>e. c_info (f e) = c_info e"
  shows "coherent cr (s\<lparr>s_clients := AList.map_entry k f (s_clients s)\<rparr>)" (is "coherent cr ?s")
proof -
  have c: "cached_ok cr ?s = cached_ok cr s" by (rule cached_ok_cong) simp_all
  show ?thesis
    unfolding coherent_def c
  proof clarsimp
    fix i e'
    assume "(i, e') \<in> set (AList.map_entry k f (s_clients s))"
    from map_entry_mem [OF this] show "cached_ok cr s (c_info e')"
      using assms unfolding coherent_def by fastforce
  qed
qed

interpretation running_wf: running_invariant wf cr for cr
  by unfold_locales (auto simp: deliver_def hang_up_def intro!: wf_entry_change)

interpretation running_coherent: running_invariant "coherent cr" cr for cr
  by unfold_locales (auto simp: deliver_def hang_up_def intro!: coherent_entry_change)

interpretation running_ladder: running_invariant ladder cr for cr
  by unfold_locales (simp_all add: deliver_def hang_up_def ladder_def)

section \<open>The database of the running server\<close>

context db_relation
begin

lemma moves_step:
  assumes "server_step cr e s s'" and "\<And>me m. e = ERequest me m \<Longrightarrow> allowed m"
  shows "moves s s'"
  using assms
proof (induction rule: server_step.induct)
  case (requests s now me message s')
  then show ?case by (blast intro: moves_handle_control)
qed (auto simp: moves_handshake moves_others deliver_def hang_up_def intro: moves_same)

lemma moves_run:
  assumes "run cr s0 es s" and "\<And>me m. ERequest me m \<in> set es \<Longrightarrow> allowed m"
  shows "moves s0 s"
  using assms
proof (induction rule: run.induct)
  case (further es s e s')
  then have "moves s0 s" "moves s s'" by (auto intro: moves_step)
  then show ?case by (rule moves_trans)
qed simp

end

section \<open>A ban through a run\<close>

lemma find_filter: "List.find P xs = (case filter P xs of [] \<Rightarrow> None | x # _ \<Rightarrow> Some x)"
  by (induction xs) auto

lemma ban_store:
  assumes "client_fingerprint cr s actor = Some by" and "fp \<noteq> by"
    and "can_globally cr s actor BAN_MEMBERS" and "actor_outranks cr s actor fp"
    and "s_store s = Some st" and "st_up st (st_ops st)"
  obtains st' where "s_store (ban cr now actor nonce fp reason until s) = Some st'"
    and "insert_ban cr \<lparr>be_fingerprint = fp, be_reason = reason, be_until = until, be_issued_by = by,
      be_issued_at = now\<rparr> st = (Inr (), st')"
proof -
  let ?b = "\<lparr>be_fingerprint = fp, be_reason = reason, be_until = until, be_issued_by = by, be_issued_at = now\<rparr>"
  obtain st' where ins: "insert_ban cr ?b st = (Inr (), st')"
    using assms(6) by (cases "insert_ban cr ?b st") (auto simp: insert_ban_def attempt_up Let_def)
  then have "s_store (ban cr now actor nonce fp reason until s) = Some st'"
    using assms by (simp add: ban_def db_call_def Let_def keeps_store_fold)
  then show ?thesis using ins by (rule that)
qed

lemma ban_row_through_run:
  assumes "run cr s es t" and "\<And>me m. ERequest me m \<in> set es \<Longrightarrow> leaves_ban cr fp m"
    and "s_store s = Some st"
  obtains st' where "s_store t = Some st'"
    and "List.find (\<lambda>r. b_fingerprint r = fingerprint_to_string cr fp) (t_bans (st_db st')) =
      List.find (\<lambda>r. b_fingerprint r = fingerprint_to_string cr fp) (t_bans (st_db st))"
proof -
  have "bans.moves cr fp s t" using bans.moves_run [OF assms(1,2)] .
  then obtain st' where "s_store t = Some st'" "bans_of cr fp (st_db st') = bans_of cr fp (st_db st)"
    using assms(3) unfolding bans.moves_def by (cases "s_store t") (auto simp: same_bans_def)
  then show ?thesis by (intro that [of st']) (simp_all add: find_filter bans_of_def)
qed

lemma banned_handshake:
  assumes "s_store s = Some st" and "active_ban cr (pi_fingerprint cr (ca_identity auth)) now st = (Inr (Some b), st')"
  shows "handshake cr now nonce hello_ok (Some (Inr (Auth auth))) reply_ok s =
    (if \<not> hello_ok then (Fault, [], s)
     else case verify_auth cr auth nonce s of
       Inl failure \<Rightarrow> refuse_auth reply_ok (hello_frame cr nonce s) failure s
     | Inr _ \<Rightarrow> refuse_auth reply_ok (hello_frame cr nonce s) (AuthBanned (be_reason b) (be_until b))
         (s\<lparr>s_store := Some st'\<rparr>))"
  using assms by (simp add: handshake_def Let_def split: sum.splits)

end
