(* ===== verification/Pickle_Gate.thy ===== *)
theory Pickle_Gate
  imports Complex_Main Pickle_Voice
begin

text \<open>
  Voice activity detection (\<open>pickle-audio/src/vad.rs\<close>): the gate that decides which captured frames
  are sent, with hysteresis and hangover. Samples and levels are real numbers with the level of
  digital silence below them all; rounding is not modelled, and NaN does not occur. Shown are that
  the gate's verdicts always form properly delimited bursts, whatever is fed, and what hysteresis
  and hangover do exactly.
\<close>

section \<open>Levels\<close>

type_synonym sample = real

datatype level = NegInfinity | Db real

instantiation level :: linorder
begin

fun less_eq_level :: "level \<Rightarrow> level \<Rightarrow> bool" where
  "less_eq_level NegInfinity y = True"
| "less_eq_level (Db x) NegInfinity = False"
| "less_eq_level (Db x) (Db y) = (x \<le> y)"

definition less_level :: "level \<Rightarrow> level \<Rightarrow> bool" where
  "less_level x y \<longleftrightarrow> x \<le> y \<and> \<not> y \<le> (x :: level)"

instance
proof
  fix x y z :: level
  show "x < y \<longleftrightarrow> x \<le> y \<and> \<not> y \<le> x" by (rule less_level_def)
  show "x \<le> x" by (cases x) simp_all
  show "x \<le> y \<Longrightarrow> y \<le> z \<Longrightarrow> x \<le> z" by (cases x; cases y; cases z) simp_all
  show "x \<le> y \<Longrightarrow> y \<le> x \<Longrightarrow> x = y" by (cases x; cases y) simp_all
  show "x \<le> y \<or> y \<le> x" by (cases x; cases y) auto
qed

end

definition rms_dbfs :: "sample list \<Rightarrow> level" where
  "rms_dbfs pcm =
     (if pcm = [] then NegInfinity
      else
        let sum_squares = sum_list (map (\<lambda>s. s * s) pcm);
            rms = sqrt (sum_squares / real (length pcm))
        in if rms \<le> 0 then NegInfinity else Db (20 * log 10 rms))"

section \<open>The gate\<close>

definition DEFAULT_OPEN_DBFS :: level where "DEFAULT_OPEN_DBFS = Db (- 40)"
definition DEFAULT_CLOSE_DBFS :: level where "DEFAULT_CLOSE_DBFS = Db (- 50)"
definition DEFAULT_HANGOVER_MS :: u32 where "DEFAULT_HANGOVER_MS = 300"

datatype activity = Silent | BurstStart | Speaking | BurstEnd

definition should_transmit :: "activity \<Rightarrow> bool" where
  "should_transmit a \<longleftrightarrow> a \<noteq> Silent"

definition activity_flags :: "activity \<Rightarrow> u8" where
  "activity_flags a = (case a of BurstStart \<Rightarrow> FLAG_BURST_START | BurstEnd \<Rightarrow> FLAG_BURST_END | _ \<Rightarrow> 0)"

datatype gate_mode = VoiceActivity | PushToTalk | Continuous

record voice_gate =
  g_mode :: gate_mode
  g_open_threshold :: level
  g_close_threshold :: level
  g_hangover_frames :: u32
  g_hangover_remaining :: u32
  g_open :: bool
  g_last_dbfs :: level

text \<open>\<open>u32::div_ceil\<close>.\<close>

definition div_ceil :: "u32 \<Rightarrow> u32 \<Rightarrow> u32" where
  "div_ceil a b = (if a mod b > 0 then a div b + 1 else a div b)"

definition gate_new :: "gate_mode \<Rightarrow> level \<Rightarrow> level \<Rightarrow> u32 \<Rightarrow> voice_gate" where
  "gate_new mode open_dbfs close_dbfs hangover_ms =
     \<lparr>g_mode = mode, g_open_threshold = open_dbfs, g_close_threshold = min close_dbfs open_dbfs,
      g_hangover_frames = div_ceil hangover_ms (of_nat FRAME_MS), g_hangover_remaining = 0,
      g_open = False, g_last_dbfs = NegInfinity\<rparr>"

definition gate_default :: voice_gate where
  "gate_default = gate_new VoiceActivity DEFAULT_OPEN_DBFS DEFAULT_CLOSE_DBFS DEFAULT_HANGOVER_MS"

definition set_thresholds :: "level \<Rightarrow> level \<Rightarrow> voice_gate \<Rightarrow> voice_gate" where
  "set_thresholds open_dbfs close_dbfs g =
     g\<lparr>g_open_threshold := open_dbfs, g_close_threshold := min close_dbfs open_dbfs\<rparr>"

definition set_hangover_ms :: "u32 \<Rightarrow> voice_gate \<Rightarrow> voice_gate" where
  "set_hangover_ms hangover_ms g = g\<lparr>g_hangover_frames := div_ceil hangover_ms (of_nat FRAME_MS)\<rparr>"

definition want_open :: "voice_gate \<Rightarrow> level \<Rightarrow> bool \<Rightarrow> bool" where
  "want_open g dbfs key_held \<longleftrightarrow>
     (case g_mode g of
        Continuous \<Rightarrow> True
      | PushToTalk \<Rightarrow> key_held
      | VoiceActivity \<Rightarrow> if g_open g then dbfs \<ge> g_close_threshold g else dbfs \<ge> g_open_threshold g)"

definition gate_update :: "sample list \<Rightarrow> bool \<Rightarrow> voice_gate \<Rightarrow> activity \<times> voice_gate" where
  "gate_update pcm key_held g =
     (let g = g\<lparr>g_last_dbfs := rms_dbfs pcm\<rparr> in
      if want_open g (g_last_dbfs g) key_held then
        let g' = g\<lparr>g_hangover_remaining := g_hangover_frames g\<rparr> in
        if g_open g then (Speaking, g') else (BurstStart, g'\<lparr>g_open := True\<rparr>)
      else if g_open g then
        if g_hangover_remaining g > 0 then
          let g' = g\<lparr>g_hangover_remaining := g_hangover_remaining g - 1\<rparr> in
          if g_hangover_remaining g' = 0 then (BurstEnd, g'\<lparr>g_open := False\<rparr>) else (Speaking, g')
        else (BurstEnd, g\<lparr>g_open := False\<rparr>)
      else (Silent, g))"

definition gate_close :: "voice_gate \<Rightarrow> activity \<times> voice_gate" where
  "gate_close g =
     (if g_open g then (BurstEnd, g\<lparr>g_open := False, g_hangover_remaining := 0\<rparr>) else (Silent, g))"

section \<open>Bursts\<close>

text \<open>The calls a gate receives, \<open>mode\<close> being a public field.\<close>

datatype gate_call = Update "sample list" bool | Close | SetMode gate_mode | SetThresholds level level
  | SetHangover u32

fun gate_step :: "gate_call \<Rightarrow> voice_gate \<Rightarrow> activity list \<times> voice_gate" where
  "gate_step (Update pcm held) g = (let (a, g) = gate_update pcm held g in ([a], g))"
| "gate_step Close g = (let (a, g) = gate_close g in ([a], g))"
| "gate_step (SetMode m) g = ([], g\<lparr>g_mode := m\<rparr>)"
| "gate_step (SetThresholds op cl) g = ([], set_thresholds op cl g)"
| "gate_step (SetHangover ms) g = ([], set_hangover_ms ms g)"

fun gate_run :: "gate_call list \<Rightarrow> voice_gate \<Rightarrow> activity list \<times> voice_gate" where
  "gate_run [] g = ([], g)"
| "gate_run (c # cs) g = (let (a, g) = gate_step c g; (as, g) = gate_run cs g in (a @ as, g))"

text \<open>Silence, or bursts of a start, any number of frames and an end: the state after a well-formed
  stretch is whether a burst is open.\<close>

fun burst_step :: "activity \<Rightarrow> bool \<Rightarrow> bool option" where
  "burst_step Silent False = Some False"
| "burst_step BurstStart False = Some True"
| "burst_step Speaking True = Some True"
| "burst_step BurstEnd True = Some False"
| "burst_step _ _ = None"

fun bursts :: "activity list \<Rightarrow> bool \<Rightarrow> bool option" where
  "bursts [] b = Some b"
| "bursts (a # as) b = (case burst_step a b of None \<Rightarrow> None | Some b' \<Rightarrow> bursts as b')"

lemma bursts_append: "bursts (xs @ ys) b = (case bursts xs b of None \<Rightarrow> None | Some b' \<Rightarrow> bursts ys b')"
  by (induction xs arbitrary: b) (auto split: option.splits)

lemma gate_update_burst: "burst_step (fst (gate_update pcm held g)) (g_open g) = Some (g_open (snd (gate_update pcm held g)))"
  by (simp add: gate_update_def Let_def)

lemma gate_close_burst: "burst_step (fst (gate_close g)) (g_open g) = Some (g_open (snd (gate_close g)))"
  by (simp add: gate_close_def)

lemma gate_step_bursts: "bursts (fst (gate_step c g)) (g_open g) = Some (g_open (snd (gate_step c g)))"
  using gate_update_burst gate_close_burst
  by (cases c) (simp_all add: case_prod_unfold Let_def set_thresholds_def set_hangover_ms_def)

lemma gate_run_bursts: "bursts (fst (gate_run cs g)) (g_open g) = Some (g_open (snd (gate_run cs g)))"
proof (induction cs arbitrary: g)
  case (Cons c cs)
  then show ?case using gate_step_bursts [of c g] by (simp add: case_prod_unfold Let_def bursts_append)
qed simp

text \<open>The thresholds are never inverted.\<close>

lemma gate_run_thresholds:
  "g_close_threshold g \<le> g_open_threshold g \<Longrightarrow>
     g_close_threshold (snd (gate_run cs g)) \<le> g_open_threshold (snd (gate_run cs g))"
proof (induction cs arbitrary: g)
  case (Cons c cs)
  have "g_close_threshold (snd (gate_step c g)) \<le> g_open_threshold (snd (gate_step c g))"
    using Cons.prems
    by (cases c) (simp_all add: gate_update_def gate_close_def set_thresholds_def set_hangover_ms_def
        case_prod_unfold Let_def)
  then show ?case using Cons.IH [of "snd (gate_step c g)"] by (simp add: case_prod_unfold Let_def)
qed simp

section \<open>Hangover\<close>

text \<open>
  Nothing that is fed to a gate can break the marks of a burst: whatever the frames, keys, mode
  and threshold changes and forced closings, the verdicts are silence or bursts of one start, any
  number of frames and one end, and the gate is open exactly while a burst is; and the closing
  threshold is never above the opening one.
\<close>

theorem gate_verdicts_form_bursts:
  "bursts (fst (gate_run cs (gate_new mode op cl ms))) False = Some (g_open (snd (gate_run cs (gate_new mode op cl ms)))) \<and>
   g_close_threshold (snd (gate_run cs (gate_new mode op cl ms))) \<le> g_open_threshold (snd (gate_run cs (gate_new mode op cl ms)))"
  using gate_run_bursts [of cs "gate_new mode op cl ms"] gate_run_thresholds [of "gate_new mode op cl ms" cs]
  by (simp add: gate_new_def)

text \<open>What a gate in voice activity mode answers to frames below its closing threshold.\<close>

definition tail_of :: "nat \<Rightarrow> nat \<Rightarrow> activity list" where
  "tail_of h k = map (\<lambda>i. if Suc i < h then Speaking else if i = h - 1 then BurstEnd else Silent) [0..<k]"

lemma tail_of_Suc:
  "h \<le> 1 \<Longrightarrow> tail_of h (Suc k) = BurstEnd # replicate k Silent"
  "1 < h \<Longrightarrow> tail_of h (Suc k) = Speaking # tail_of (h - 1) k"
  by (auto simp: tail_of_def map_upt_Suc map_replicate_trivial simp del: upt_Suc intro: nth_equalityI)

lemma gate_run_quiet_closed:
  assumes "g_mode g = VoiceActivity" and "\<not> g_open g" and "\<forall>pcm\<in>set frames. rms_dbfs pcm < g_open_threshold g"
  shows "fst (gate_run (map (\<lambda>pcm. Update pcm held) frames) g) = replicate (length frames) Silent"
  using assms
proof (induction frames arbitrary: g)
  case (Cons pcm frames)
  have "gate_update pcm held g = (Silent, g\<lparr>g_last_dbfs := rms_dbfs pcm\<rparr>)"
    using Cons.prems by (simp add: gate_update_def want_open_def Let_def not_le)
  then show ?case using Cons.IH [of "g\<lparr>g_last_dbfs := rms_dbfs pcm\<rparr>"] Cons.prems
    by (simp add: case_prod_unfold)
qed simp

lemma gate_run_hangover:
  assumes "g_mode g = VoiceActivity" and "g_open g" and "g_close_threshold g \<le> g_open_threshold g"
    and "\<forall>pcm\<in>set frames. rms_dbfs pcm < g_close_threshold g"
  shows "fst (gate_run (map (\<lambda>pcm. Update pcm held) frames) g) =
    tail_of (unat (g_hangover_remaining g)) (length frames)"
  using assms
proof (induction frames arbitrary: g)
  case (Cons pcm frames)
  let ?g = "g\<lparr>g_last_dbfs := rms_dbfs pcm\<rparr>" and ?r = "g_hangover_remaining g"
  have no: "\<not> want_open ?g (rms_dbfs pcm) held"
    using Cons.prems by (simp add: want_open_def not_le)
  show ?case
  proof (cases "unat ?r \<le> 1")
    case True
    then have "?r = 0 \<or> ?r = 1" by (auto simp: word_unat_eq_iff le_Suc_eq)
    then obtain g' where g': "gate_update pcm held g = (BurstEnd, g')" "g_mode g' = VoiceActivity" "\<not> g_open g'"
        "g_open_threshold g' = g_open_threshold g"
      using Cons.prems(1,2) no by (auto simp: gate_update_def Let_def)
    have "\<forall>pcm\<in>set frames. rms_dbfs pcm < g_open_threshold g'"
      using Cons.prems(3,4) g'(4) by fastforce
    then show ?thesis
      using gate_run_quiet_closed [OF g'(2,3), of frames held] g'(1) True
      by (simp add: tail_of_Suc case_prod_unfold)
  next
    case False
    then have pos: "?r > 0" "?r - 1 \<noteq> 0" by (auto simp: word_gt_0 unat_eq_zero)
    then have u: "unat (?r - 1) = unat ?r - 1" by (simp add: unat_minus_one word_gt_0)
    have "gate_update pcm held g = (Speaking, ?g\<lparr>g_hangover_remaining := ?r - 1\<rparr>)"
      using Cons.prems(1,2) no pos by (simp add: gate_update_def Let_def)
    then show ?thesis
      using Cons.IH [of "?g\<lparr>g_hangover_remaining := ?r - 1\<rparr>"] Cons.prems u False
      by (simp add: case_prod_unfold tail_of_Suc)
  qed
qed (simp add: tail_of_def)


lemma gate_run_append:
  "gate_run (xs @ ys) g = (let (a, g) = gate_run xs g; (b, g) = gate_run ys g in (a @ b, g))"
  by (induction xs arbitrary: g) (simp_all add: case_prod_unfold Let_def)

lemma gate_run_quiet_state:
  assumes "g_mode g = VoiceActivity" and "\<not> g_open g" and "\<forall>pcm\<in>set frames. rms_dbfs pcm < g_open_threshold g"
  obtains l where "snd (gate_run (map (\<lambda>pcm. Update pcm held) frames) g) = g\<lparr>g_last_dbfs := l\<rparr>"
  using assms
proof (induction frames arbitrary: g thesis)
  case (Cons pcm frames)
  have "gate_update pcm held g = (Silent, g\<lparr>g_last_dbfs := rms_dbfs pcm\<rparr>)"
    using Cons.prems by (simp add: gate_update_def want_open_def Let_def not_le)
  then show ?case using Cons.IH [of "g\<lparr>g_last_dbfs := rms_dbfs pcm\<rparr>"] Cons.prems
    by (fastforce simp: case_prod_unfold Let_def)
next
  case Nil
  then show ?case by (metis gate_run.simps(1) list.simps(8) snd_conv voice_gate.surjective voice_gate.update_convs(7))
qed

lemma gate_run_voiced:
  assumes "g_mode g = VoiceActivity" and "g_open g" and "\<forall>pcm\<in>set frames. g_close_threshold g \<le> rms_dbfs pcm"
    and "g_hangover_remaining g = g_hangover_frames g"
  shows "\<exists>l. gate_run (map (\<lambda>pcm. Update pcm held) frames) g =
    (replicate (length frames) Speaking, g\<lparr>g_last_dbfs := l\<rparr>)"
  using assms
proof (induction frames arbitrary: g)
  case (Cons pcm frames)
  have "gate_update pcm held g = (Speaking, g\<lparr>g_last_dbfs := rms_dbfs pcm\<rparr>)"
    using Cons.prems by (simp add: gate_update_def want_open_def Let_def)
  then show ?case using Cons.IH [of "g\<lparr>g_last_dbfs := rms_dbfs pcm\<rparr>"] Cons.prems by force
next
  case Nil
  then show ?case by (auto intro: exI [of _ "g_last_dbfs g"])
qed

text \<open>
  Hysteresis and hangover, exactly: a closed gate on voice activity stays silent below its
  opening threshold, the first frame at that threshold starts a burst, frames at or above the lower
  closing threshold continue it even if they would not have opened it, and once the level is below
  the closing threshold the gate sends on for its hangover, the last of those frames being the end
  of the burst (one frame if the hangover is shorter), and is then silent.
\<close>

theorem gate_hysteresis_and_hangover:
  assumes "g_mode g = VoiceActivity" and "\<not> g_open g" and "g_close_threshold g \<le> g_open_threshold g"
    and "\<forall>pcm\<in>set noise. rms_dbfs pcm < g_open_threshold g" and "g_open_threshold g \<le> rms_dbfs onset"
    and "\<forall>pcm\<in>set voiced. g_close_threshold g \<le> rms_dbfs pcm" and "\<forall>pcm\<in>set quiet. rms_dbfs pcm < g_close_threshold g"
    and "h = unat (g_hangover_frames g)"
  shows "fst (gate_run (map (\<lambda>pcm. Update pcm held) (noise @ onset # voiced @ quiet)) g) =
    replicate (length noise) Silent @ BurstStart # replicate (length voiced) Speaking @
    map (\<lambda>i. if Suc i < h then Speaking else if i = h - 1 then BurstEnd else Silent) [0..<length quiet]"
proof -
  obtain l where l: "gate_run (map (\<lambda>pcm. Update pcm held) noise) g = (replicate (length noise) Silent, g\<lparr>g_last_dbfs := l\<rparr>)"
    using gate_run_quiet_state [OF assms(1,2,4)] gate_run_quiet_closed [OF assms(1,2,4)] by (metis prod.collapse)
  let ?g = "g\<lparr>g_last_dbfs := rms_dbfs onset, g_hangover_remaining := g_hangover_frames g, g_open := True\<rparr>"
  have "gate_update onset held (g\<lparr>g_last_dbfs := l\<rparr>) = (BurstStart, ?g)"
    using assms(1,2,5) by (simp add: gate_update_def want_open_def Let_def)
  moreover obtain l' where "gate_run (map (\<lambda>pcm. Update pcm held) voiced) ?g =
      (replicate (length voiced) Speaking, ?g\<lparr>g_last_dbfs := l'\<rparr>)"
    using gate_run_voiced [of ?g voiced held] assms(1,6) by auto
  moreover have "fst (gate_run (map (\<lambda>pcm. Update pcm held) quiet) (?g\<lparr>g_last_dbfs := l'\<rparr>)) = tail_of h (length quiet)"
    using gate_run_hangover [of "?g\<lparr>g_last_dbfs := l'\<rparr>" quiet held] assms(1,3,7,8) by simp
  ultimately show ?thesis by (simp add: gate_run_append l case_prod_unfold Let_def tail_of_def)
qed

lemma rms_dbfs_one: "rms_dbfs [1] = Db 0" "rms_dbfs [] = NegInfinity"
  by (simp_all add: rms_dbfs_def)

theorem gate_hysteresis_and_hangover_witness:
  "fst (gate_run (map (\<lambda>pcm. Update pcm False) ([[]] @ [1] # [[1]] @ [[], [], []])) (gate_new VoiceActivity (Db (- 40)) (Db (- 50)) 40)) =
    [Silent, BurstStart, Speaking, Speaking, BurstEnd, Silent]"
proof -
  have h: "unat (div_ceil 40 (of_nat FRAME_MS)) = 2" by (simp add: div_ceil_def FRAME_MS_def)
  show ?thesis
    using gate_hysteresis_and_hangover [of "gate_new VoiceActivity (Db (- 40)) (Db (- 50)) 40" "[[]]" "[1]" "[[1]]" "[[], [], []]" 2 False]
    by (simp add: gate_new_def rms_dbfs_one h less_level_def min_def upt_rec
        del: gate_run.simps gate_step.simps)
qed

end
