(* ===== verification/Pickle_Capture.thy ===== *)
theory Pickle_Capture
  imports Pickle_Gate
begin

text \<open>
  The sending half of the audio path: the Opus wrapper (\<open>pickle-audio/src/codec.rs\<close>) and the
  capture stage (\<open>Capture\<close> and \<open>CaptureControls\<close> of \<open>pickle-audio/src/engine.rs\<close>) that cuts the
  microphone's samples into frames, gates, numbers and encodes them. The Opus codec is a parameter.
  Shown are that frames do not depend on how the samples were chunked, that what goes out is a
  sequence of properly marked and consecutively numbered bursts whatever the user switches, and that
  muting lets through at most the end mark of the burst in progress.
\<close>

section \<open>The codec\<close>

record ('e, 'd) opus =
  op_new_encoder :: "u32 \<Rightarrow> string + 'e"
  op_set_bitrate :: "u32 \<Rightarrow> 'e \<Rightarrow> 'e"
  op_encode :: "sample list \<Rightarrow> 'e \<Rightarrow> (string + bytes) \<times> 'e"
  op_new_decoder :: "string + 'd"
  op_decode :: "bytes \<Rightarrow> 'd \<Rightarrow> (string + sample list) \<times> 'd"

datatype codec_error = Opus string | WrongFrameSize nat

record 'e voice_encoder =
  ve_encoder :: 'e
  ve_seq :: u32

definition encoder_new :: "('e, 'd) opus \<Rightarrow> u32 \<Rightarrow> codec_error + 'e voice_encoder" where
  "encoder_new op bitrate =
     (case op_new_encoder op bitrate of
        Inl e \<Rightarrow> Inl (Opus e)
      | Inr enc \<Rightarrow> Inr \<lparr>ve_encoder = enc, ve_seq = 0\<rparr>)"

definition set_bitrate :: "('e, 'd) opus \<Rightarrow> u32 \<Rightarrow> 'e voice_encoder \<Rightarrow> 'e voice_encoder" where
  "set_bitrate op bitrate v = v\<lparr>ve_encoder := op_set_bitrate op bitrate (ve_encoder v)\<rparr>"

definition encode :: "('e, 'd) opus \<Rightarrow> sample list \<Rightarrow> 'e voice_encoder \<Rightarrow> (codec_error + bytes) \<times> 'e voice_encoder" where
  "encode op pcm v =
     (if length pcm \<noteq> SAMPLES_PER_FRAME then (Inl (WrongFrameSize (length pcm)), v)
      else case op_encode op pcm (ve_encoder v) of
             (Inl e, enc) \<Rightarrow> (Inl (Opus e), v\<lparr>ve_encoder := enc\<rparr>)
           | (Inr payload, enc) \<Rightarrow> (Inr payload, v\<lparr>ve_encoder := enc\<rparr>))"

definition next_seq :: "'e voice_encoder \<Rightarrow> u32 \<times> 'e voice_encoder" where
  "next_seq v = (ve_seq v, v\<lparr>ve_seq := ve_seq v + 1\<rparr>)"

definition reset_seq :: "'e voice_encoder \<Rightarrow> 'e voice_encoder" where
  "reset_seq v = v\<lparr>ve_seq := 0\<rparr>"

section \<open>Controls\<close>

record capture_controls =
  cc_muted :: bool
  cc_push_to_talk_held :: bool
  cc_gate_mode :: u8
  cc_level_dbfs :: level
  cc_transmitting :: bool

definition controls_gate_mode :: "capture_controls \<Rightarrow> gate_mode" where
  "controls_gate_mode k =
     (if cc_gate_mode k = 1 then PushToTalk else if cc_gate_mode k = 2 then Continuous else VoiceActivity)"

definition controls_set_gate_mode :: "gate_mode \<Rightarrow> capture_controls \<Rightarrow> capture_controls" where
  "controls_set_gate_mode mode k =
     k\<lparr>cc_gate_mode := (case mode of VoiceActivity \<Rightarrow> 0 | PushToTalk \<Rightarrow> 1 | Continuous \<Rightarrow> 2)\<rparr>"

definition controls_new :: "gate_mode \<Rightarrow> capture_controls" where
  "controls_new mode = controls_set_gate_mode mode
     \<lparr>cc_muted = False, cc_push_to_talk_held = False, cc_gate_mode = 0, cc_level_dbfs = NegInfinity,
      cc_transmitting = False\<rparr>"

definition engine_set_muted :: "bool \<Rightarrow> capture_controls \<Rightarrow> capture_controls" where
  "engine_set_muted muted k = k\<lparr>cc_muted := muted\<rparr>"

definition set_push_to_talk_held :: "bool \<Rightarrow> capture_controls \<Rightarrow> capture_controls" where
  "set_push_to_talk_held held k = k\<lparr>cc_push_to_talk_held := held\<rparr>"

lemma gate_mode_roundtrip [simp]: "controls_gate_mode (controls_set_gate_mode mode k) = mode"
  by (cases mode) (simp_all add: controls_gate_mode_def controls_set_gate_mode_def)

section \<open>Capture\<close>

record captured_frame =
  cf_seq :: u32
  cf_flags :: u8
  cf_payload :: bytes

record 'e capture =
  cp_pending :: "sample list"
  cp_gate :: voice_gate
  cp_encoder :: "'e voice_encoder"
  cp_transmitting :: bool

definition capture_new :: "('e, 'd) opus \<Rightarrow> u32 \<Rightarrow> codec_error + 'e capture" where
  "capture_new op bitrate =
     (case encoder_new op bitrate of
        Inl e \<Rightarrow> Inl e
      | Inr v \<Rightarrow> Inr \<lparr>cp_pending = [], cp_gate = gate_default, cp_encoder = v, cp_transmitting = False\<rparr>)"

text \<open>What the gate says of a frame, in the state of the controls.\<close>

definition frame_activity :: "capture_controls \<Rightarrow> sample list \<Rightarrow> bool \<Rightarrow> voice_gate \<Rightarrow> activity \<times> voice_gate" where
  "frame_activity k frame transmitting g =
     (let g = g\<lparr>g_mode := controls_gate_mode k\<rparr> in
      if cc_muted k then if transmitting then gate_close g else (Silent, g)
      else gate_update frame (cc_push_to_talk_held k) g)"

text \<open>The frames put on the channel to the network are the first result.\<close>

definition process ::
  "('e, 'd) opus \<Rightarrow> sample list \<Rightarrow> capture_controls \<times> 'e capture \<Rightarrow>
     captured_frame list \<times> capture_controls \<times> 'e capture" where
  "process op frame = (\<lambda>(k, c).
     let (activity, g) = frame_activity k frame (cp_transmitting c) (cp_gate c);
         c = c\<lparr>cp_gate := g\<rparr>;
         k = k\<lparr>cc_level_dbfs := g_last_dbfs g, cc_transmitting := should_transmit activity\<rparr>
     in if \<not> should_transmit activity then ([], k, c\<lparr>cp_transmitting := False\<rparr>)
        else
          let v = (if activity = BurstStart then reset_seq (cp_encoder c) else cp_encoder c);
              c = c\<lparr>cp_transmitting := (activity \<noteq> BurstEnd)\<rparr>
          in case encode op frame v of
               (Inr payload, v) \<Rightarrow>
                 let (sq, v) = next_seq v
                 in ([\<lparr>cf_seq = sq, cf_flags = activity_flags activity, cf_payload = payload\<rparr>], k,
                     c\<lparr>cp_encoder := v\<rparr>)
             | (Inl _, v) \<Rightarrow> ([], k, c\<lparr>cp_encoder := v\<rparr>))"

lemma process_pending [simp]: "cp_pending (snd (snd (process op frame (k, c)))) = cp_pending c"
  by (simp add: process_def Let_def split: prod.splits sum.splits)

text \<open>The loop of \<open>push\<close>: whole frames leave the front of the pending samples.\<close>

function drain ::
  "('e, 'd) opus \<Rightarrow> capture_controls \<times> 'e capture \<Rightarrow> captured_frame list \<times> capture_controls \<times> 'e capture" where
  "drain op (k, c) =
     (if length (cp_pending c) \<ge> SAMPLES_PER_FRAME then
        let (fs, kc) = process op (take SAMPLES_PER_FRAME (cp_pending c))
              (k, c\<lparr>cp_pending := drop SAMPLES_PER_FRAME (cp_pending c)\<rparr>);
            (fs', kc) = drain op kc
        in (fs @ fs', kc)
      else ([], k, c))"
  by pat_completeness auto

lemma SAMPLES_PER_FRAME_eq: "SAMPLES_PER_FRAME = 960"
  by (simp add: SAMPLES_PER_FRAME_def SAMPLE_RATE_def FRAME_MS_def)

termination drain
proof (relation "measure (\<lambda>(op, k, c). length (cp_pending c))", goal_cases)
  case (2 op k c x fs kc)
  then have "cp_pending (snd kc) = drop SAMPLES_PER_FRAME (cp_pending c)"
    using process_pending [of op "take SAMPLES_PER_FRAME (cp_pending c)" k
        "c\<lparr>cp_pending := drop SAMPLES_PER_FRAME (cp_pending c)\<rparr>"] by (metis capture.select_convs(1) capture.surjective capture.update_convs(1) snd_conv)
  then show ?case using 2 by (cases kc) (auto simp: SAMPLES_PER_FRAME_eq)
qed simp

declare drain.simps [simp del]

definition capture_push ::
  "('e, 'd) opus \<Rightarrow> sample list \<Rightarrow> capture_controls \<times> 'e capture \<Rightarrow>
     captured_frame list \<times> capture_controls \<times> 'e capture" where
  "capture_push op samples = (\<lambda>(k, c). drain op (k, c\<lparr>cp_pending := cp_pending c @ samples\<rparr>))"


section \<open>Chunking does not matter\<close>

lemma process_pending_update:
  "process op frame (k, c\<lparr>cp_pending := q\<rparr>) =
     (case process op frame (k, c) of (fs, k', c') \<Rightarrow> (fs, k', c'\<lparr>cp_pending := q\<rparr>))"
  by (simp add: process_def Let_def split: prod.splits sum.splits)

lemma drain_append:
  "drain op (k, c\<lparr>cp_pending := cp_pending c @ ys\<rparr>) =
     (case drain op (k, c) of (fs, k', c') \<Rightarrow>
        (case drain op (k', c'\<lparr>cp_pending := cp_pending c' @ ys\<rparr>) of (fs', kc) \<Rightarrow> (fs @ fs', kc)))"
proof (induction op "(k, c)" arbitrary: k c rule: drain.induct)
  case (1 op k c)
  let ?n = SAMPLES_PER_FRAME
  show ?case
  proof (cases "length (cp_pending c) \<ge> ?n")
    case True
    obtain fs k' c' where p: "process op (take ?n (cp_pending c)) (k, c\<lparr>cp_pending := drop ?n (cp_pending c)\<rparr>) = (fs, k', c')"
      using prod_cases3 by blast
    then have pending: "cp_pending c' = drop ?n (cp_pending c)"
      using process_pending [of op "take ?n (cp_pending c)" k "c\<lparr>cp_pending := drop ?n (cp_pending c)\<rparr>"] by simp
    have "process op (take ?n (cp_pending c)) (k, c\<lparr>cp_pending := drop ?n (cp_pending c) @ ys\<rparr>) =
        (fs, k', c'\<lparr>cp_pending := cp_pending c' @ ys\<rparr>)"
      using process_pending_update [where op = op and frame = "take ?n (cp_pending c)" and k = k and
          c = "c\<lparr>cp_pending := drop ?n (cp_pending c)\<rparr>" and q = "drop ?n (cp_pending c) @ ys"] p pending by simp
    then have "drain op (k, c\<lparr>cp_pending := cp_pending c @ ys\<rparr>) =
        (case drain op (k', c'\<lparr>cp_pending := cp_pending c' @ ys\<rparr>) of (fs', kc) \<Rightarrow> (fs @ fs', kc))"
      using True by (subst drain.simps) (simp add: Let_def)
    moreover have "drain op (k, c) = (case drain op (k', c') of (fs', kc) \<Rightarrow> (fs @ fs', kc))"
      using True p by (subst drain.simps) (simp add: Let_def)
    moreover note 1 [OF True p [symmetric]]
    ultimately show ?thesis by (simp add: case_prod_unfold)
  next
    case False
    then have "drain op (k, c) = ([], k, c)" by (subst drain.simps) simp
    then show ?thesis by (simp add: case_prod_unfold)
  qed
qed

text \<open>
  C30. The frames sent do not depend on how the sound driver hands over the samples: pushing a block
  is pushing its two halves one after the other, cut anywhere, in frames, numbering and the state
  left behind, while the controls are not touched in between; and less than a frame is left pending.
\<close>

theorem capture_ignores_chunking:
  "capture_push op (xs @ ys) kc =
     (case capture_push op xs kc of (fs, kc') \<Rightarrow>
        (case capture_push op ys kc' of (fs', kc'') \<Rightarrow> (fs @ fs', kc''))) \<and>
   length (cp_pending (snd (snd (capture_push op xs kc)))) < SAMPLES_PER_FRAME"
proof -
  obtain k c where kc: "kc = (k, c)" by (cases kc)
  let ?c = "c\<lparr>cp_pending := cp_pending c @ xs\<rparr>"
  have "length (cp_pending (snd (snd (drain op (k, c))))) < SAMPLES_PER_FRAME" for k and c :: "'a capture"
  proof (induction op "(k, c)" arbitrary: k c rule: drain.induct)
    case (1 op k c)
    obtain fs k' c' where p: "process op (take SAMPLES_PER_FRAME (cp_pending c))
        (k, c\<lparr>cp_pending := drop SAMPLES_PER_FRAME (cp_pending c)\<rparr>) = (fs, k', c')"
      using prod_cases3 by blast
    then show ?case using 1 [OF _ p [symmetric]] by (subst drain.simps) (auto simp: case_prod_unfold Let_def not_le)
  qed
  moreover have "capture_push op (xs @ ys) kc = drain op (k, ?c\<lparr>cp_pending := cp_pending ?c @ ys\<rparr>)"
    by (simp add: capture_push_def kc)
  ultimately show ?thesis
    unfolding drain_append [of op k ?c ys] by (simp add: capture_push_def kc case_prod_unfold)
qed

section \<open>Numbered bursts\<close>

text \<open>What a listener may rely on: a burst starts at number zero with the start mark, its frames
  are numbered consecutively, and only its last one has the end mark. The state is the number the
  next frame of an open burst has.\<close>

fun numbered :: "captured_frame list \<Rightarrow> u32 option \<Rightarrow> bool" where
  "numbered [] st = True"
| "numbered (f # fs) None \<longleftrightarrow> cf_seq f = 0 \<and> cf_flags f = FLAG_BURST_START \<and> numbered fs (Some 1)"
| "numbered (f # fs) (Some n) \<longleftrightarrow> cf_seq f = n \<and>
     (cf_flags f = 0 \<and> numbered fs (Some (n + 1)) \<or> cf_flags f = FLAG_BURST_END \<and> numbered fs None)"

definition line_state :: "'e capture \<Rightarrow> u32 option" where
  "line_state c = (if g_open (cp_gate c) then Some (ve_seq (cp_encoder c)) else None)"

fun after :: "captured_frame list \<Rightarrow> u32 option \<Rightarrow> u32 option" where
  "after [] st = st"
| "after (f # fs) st = after fs (if cf_flags f = FLAG_BURST_END then None else Some (cf_seq f + 1))"

lemma numbered_append: "numbered xs st \<Longrightarrow> numbered ys (after xs st) \<Longrightarrow> numbered (xs @ ys) st"
  by (induction xs st rule: numbered.induct) (auto simp: FLAG_BURST_START_def FLAG_BURST_END_def)

lemma after_append: "after (xs @ ys) st = after ys (after xs st)"
  by (induction xs arbitrary: st) simp_all

text \<open>Opus encodes a whole frame.\<close>

definition encodes :: "('e, 'd) opus \<Rightarrow> bool" where
  "encodes op \<longleftrightarrow> (\<forall>pcm e. length pcm = SAMPLES_PER_FRAME \<longrightarrow> isl (fst (op_encode op pcm e)) = False)"

definition in_step :: "'e capture \<Rightarrow> bool" where
  "in_step c \<longleftrightarrow> cp_transmitting c = g_open (cp_gate c)"

lemma frame_activity_burst:
  assumes "frame_activity k frame t g = (a, g')" and "t = g_open g"
  shows "burst_step a (g_open g) = Some (g_open g')" "cc_muted k \<Longrightarrow> a = (if g_open g then BurstEnd else Silent)"
  using assms gate_update_burst [of frame "cc_push_to_talk_held k" "g\<lparr>g_mode := controls_gate_mode k\<rparr>"]
    gate_close_burst [of "g\<lparr>g_mode := controls_gate_mode k\<rparr>"]
  by (auto simp: frame_activity_def Let_def gate_close_def split: if_splits)

lemma burst_step_cases:
  assumes "burst_step a b = Some b'"
  obtains "a = Silent" "\<not> b" "\<not> b'" | "a = BurstStart" "\<not> b" "b'" | "a = Speaking" "b" "b'" | "a = BurstEnd" "b" "\<not> b'"
  using assms by (cases "(a, b)" rule: burst_step.cases) auto

lemma process_numbered:
  assumes "encodes op" and "in_step c" and "length frame = SAMPLES_PER_FRAME"
    and "process op frame (k, c) = (fs, k', c')"
  shows "numbered fs (line_state c)" "after fs (line_state c) = line_state c'" "in_step c'"
    "cc_muted k \<Longrightarrow> (fs = [] \<and> \<not> g_open (cp_gate c) \<or> (\<exists>f. fs = [f] \<and> cf_flags f = FLAG_BURST_END \<and> g_open (cp_gate c))) \<and> \<not> g_open (cp_gate c')"
proof -
  obtain a g' where a: "frame_activity k frame (cp_transmitting c) (cp_gate c) = (a, g')" by force
  have b: "burst_step a (g_open (cp_gate c)) = Some (g_open g')"
    and m: "cc_muted k \<Longrightarrow> a = (if g_open (cp_gate c) then BurstEnd else Silent)"
    using frame_activity_burst [OF a] assms(2) by (simp_all add: in_step_def)
  have e: "\<exists>payload enc. encode op frame v = (Inr payload, v\<lparr>ve_encoder := enc\<rparr>)" for v :: "'a voice_encoder"
    using assms(1,3) by (auto simp: encodes_def encode_def isl_def split: prod.splits sum.splits) (metis fst_conv)
  define v where "v = (if a = BurstStart then reset_seq (cp_encoder c) else cp_encoder c)"
  obtain payload enc where e: "encode op frame v = (Inr payload, v\<lparr>ve_encoder := enc\<rparr>)"
    using e by blast
  have p: "process op frame (k, c) =
      (let k = k\<lparr>cc_level_dbfs := g_last_dbfs g', cc_transmitting := a \<noteq> Silent\<rparr>
       in if a = Silent then ([], k, c\<lparr>cp_gate := g', cp_transmitting := False\<rparr>)
          else ([\<lparr>cf_seq = ve_seq v, cf_flags = activity_flags a, cf_payload = payload\<rparr>], k,
                c\<lparr>cp_gate := g', cp_transmitting := (a \<noteq> BurstEnd), cp_encoder := v\<lparr>ve_encoder := enc, ve_seq := ve_seq v + 1\<rparr>\<rparr>))"
    using e by (cases "a = BurstStart") (simp_all add: process_def a Let_def should_transmit_def next_seq_def v_def)
  note defs = v_def line_state_def in_step_def activity_flags_def FLAG_BURST_START_def FLAG_BURST_END_def reset_seq_def
  have "numbered fs (line_state c) \<and> after fs (line_state c) = line_state c' \<and> in_step c' \<and>
    (cc_muted k \<longrightarrow> (fs = [] \<and> \<not> g_open (cp_gate c) \<or> (\<exists>f. fs = [f] \<and> cf_flags f = FLAG_BURST_END \<and> g_open (cp_gate c))) \<and> \<not> g_open (cp_gate c'))"
    using b assms(2) m assms(4) [unfolded p] by (cases rule: burst_step_cases) (auto simp: defs Let_def)
  then show "numbered fs (line_state c)" "after fs (line_state c) = line_state c'" "in_step c'"
    "cc_muted k \<Longrightarrow> (fs = [] \<and> \<not> g_open (cp_gate c) \<or> (\<exists>f. fs = [f] \<and> cf_flags f = FLAG_BURST_END \<and> g_open (cp_gate c))) \<and> \<not> g_open (cp_gate c')"
    by blast+
qed


lemma process_controls:
  "process op frame (k, c) = (fs, k', c') \<Longrightarrow> cc_muted k' = cc_muted k"
  by (auto simp: process_def Let_def split: prod.splits sum.splits if_splits)

text \<open>What muted controls let through in a given state.\<close>

definition only_end :: "captured_frame list \<Rightarrow> u32 option \<Rightarrow> bool" where
  "only_end fs st \<longleftrightarrow> (if st = None then fs = [] else fs = [] \<or> (\<exists>f. fs = [f] \<and> cf_flags f = FLAG_BURST_END))"

lemma drain_numbered:
  assumes "encodes op" and "in_step c" and "drain op (k, c) = (fs, k', c')"
  shows "numbered fs (line_state c) \<and> after fs (line_state c) = line_state c' \<and> in_step c' \<and>
    (cc_muted k \<longrightarrow> only_end fs (line_state c))"
  using assms
proof (induction op "(k, c)" arbitrary: k c fs k' c' rule: drain.induct)
  case (1 op k c)
  let ?n = SAMPLES_PER_FRAME and ?c = "c\<lparr>cp_pending := drop SAMPLES_PER_FRAME (cp_pending c)\<rparr>"
  show ?case
  proof (cases "length (cp_pending c) \<ge> ?n")
    case True
    obtain fs1 k1 c1 where p: "process op (take ?n (cp_pending c)) (k, ?c) = (fs1, k1, c1)"
      using prod_cases3 by blast
    obtain fs2 k2 c2 where d: "drain op (k1, c1) = (fs2, k2, c2)" using prod_cases3 by blast
    have res: "fs = fs1 @ fs2" "c' = c2"
      using "1.prems"(3) True p d by (simp_all add: drain.simps [of op k] Let_def)
    have ls: "line_state ?c = line_state c" "g_open (cp_gate ?c) = g_open (cp_gate c)"
      by (simp_all add: line_state_def)
    have "in_step ?c" using "1.prems"(2) by (simp add: in_step_def)
    note p1 = process_numbered [OF "1.prems"(1) this _ p, unfolded ls]
    have "length (take ?n (cp_pending c)) = ?n" using True by simp
    note p1 = p1 [OF this]
    have IH: "numbered fs2 (line_state c1) \<and> after fs2 (line_state c1) = line_state c2 \<and> in_step c2 \<and>
        (cc_muted k1 \<longrightarrow> only_end fs2 (line_state c1))"
      using "1.hyps" [OF True p [symmetric]] "1.prems"(1) p1(3) d by simp
    have "only_end (fs1 @ fs2) (line_state c)" if "cc_muted k"
    proof -
      have "line_state c1 = None" using p1(4) [OF that] by (simp add: line_state_def)
      then have "fs2 = []" using IH process_controls [OF p] that by (simp add: only_end_def)
      then show ?thesis using p1(4) [OF that] by (auto simp: only_end_def line_state_def)
    qed
    then show ?thesis
      using res p1(1,2) IH numbered_append [of fs1 "line_state c" fs2] by (simp add: after_append)
  next
    case False
    then have "fs = []" "c' = c" using "1.prems"(3) by (simp_all add: drain.simps [of op k])
    then show ?thesis using "1.prems"(2) by (simp add: only_end_def)
  qed
qed

text \<open>The user switches the controls while the microphone runs.\<close>

datatype capture_event = Samples "sample list" | Muted bool | Held bool | Mode gate_mode

fun capture_step ::
  "('e, 'd) opus \<Rightarrow> capture_event \<Rightarrow> capture_controls \<times> 'e capture \<Rightarrow>
     captured_frame list \<times> capture_controls \<times> 'e capture" where
  "capture_step op (Samples xs) kc = capture_push op xs kc"
| "capture_step op (Muted b) (k, c) = ([], engine_set_muted b k, c)"
| "capture_step op (Held b) (k, c) = ([], set_push_to_talk_held b k, c)"
| "capture_step op (Mode m) (k, c) = ([], controls_set_gate_mode m k, c)"

fun capture_run ::
  "('e, 'd) opus \<Rightarrow> capture_event list \<Rightarrow> capture_controls \<times> 'e capture \<Rightarrow>
     captured_frame list \<times> capture_controls \<times> 'e capture" where
  "capture_run op [] kc = ([], kc)"
| "capture_run op (e # es) kc =
     (let (fs, kc) = capture_step op e kc; (fs', kc) = capture_run op es kc in (fs @ fs', kc))"

lemma push_numbered:
  assumes "encodes op" and "in_step c" and "capture_push op xs (k, c) = (fs, k', c')"
  shows "numbered fs (line_state c) \<and> after fs (line_state c) = line_state c' \<and> in_step c' \<and>
    (cc_muted k \<longrightarrow> only_end fs (line_state c))"
proof -
  let ?c = "c\<lparr>cp_pending := cp_pending c @ xs\<rparr>"
  have "in_step ?c" using assms(2) by (simp add: in_step_def)
  moreover have "drain op (k, ?c) = (fs, k', c')" using assms(3) by (simp add: capture_push_def)
  moreover have "line_state ?c = line_state c" by (simp add: line_state_def)
  ultimately show ?thesis using drain_numbered [OF assms(1)] by metis
qed

lemma run_numbered:
  assumes "encodes op" and "in_step c" and "capture_run op es (k, c) = (fs, k', c')"
  shows "numbered fs (line_state c) \<and> after fs (line_state c) = line_state c' \<and> in_step c'"
  using assms(2,3)
proof (induction es arbitrary: k c fs)
  case (Cons e es)
  obtain fs1 k1 c1 where s: "capture_step op e (k, c) = (fs1, k1, c1)" using prod_cases3 by blast
  obtain fs2 k2 c2 where r: "capture_run op es (k1, c1) = (fs2, k2, c2)" using prod_cases3 by blast
  have "numbered fs1 (line_state c) \<and> after fs1 (line_state c) = line_state c1 \<and> in_step c1"
    using s Cons.prems(1) push_numbered [OF assms(1) Cons.prems(1)] by (cases e) auto
  then show ?case
    using Cons.IH [of c1 k1 fs2] Cons.prems(2) s r numbered_append [of fs1 "line_state c" fs2]
    by (auto simp: after_append)
qed simp


text \<open>A toy codec for examples: every frame encodes, and every packet decodes.\<close>

definition sample_opus :: "(unit, nat) opus" where
  "sample_opus = \<lparr>op_new_encoder = \<lambda>_. Inr (), op_set_bitrate = \<lambda>_ e. e, op_encode = \<lambda>pcm e. (Inr [1, 2], e),
     op_new_decoder = Inr 0, op_decode = \<lambda>p d. (Inr [1 / 2, 1 / 4], d + 1)\<rparr>"



text \<open>
  While the microphone is muted the frames are not measured: the level meter keeps the last value
  it had, whatever is said.
\<close>

theorem muted_meter_is_frozen:
  assumes "cc_muted k" and "process op frame (k, c) = (fs, k', c')"
  shows "cc_level_dbfs k' = g_last_dbfs (cp_gate c) \<and> g_last_dbfs (cp_gate c') = g_last_dbfs (cp_gate c)"
  using assms
  by (auto simp: process_def frame_activity_def gate_close_def Let_def split: prod.splits sum.splits if_splits)

end
