(* ===== verification/Pickle_Jitter.thy ===== *)
theory Pickle_Jitter
  imports Pickle_Voice
begin

text \<open>
  The per-sender jitter buffer (\<open>pickle-audio/src/jitter.rs\<close>): frames arrive out of order, late or
  never, and leave one per tick in sequence order. The buffer is a sorted map from extended
  sequence numbers (\<open>i64\<close>, here integers that are shown to stay in range) to payloads. Shown are its
  invariant over any sequence of operations, that any arrival order of a burst is played in sequence
  with exactly the missing slots concealed, also across the rollover of the wire numbers, and the
  range of the extended numbers.
\<close>

section \<open>The buffer\<close>

definition DEFAULT_TARGET_FRAMES :: nat where "DEFAULT_TARGET_FRAMES = 3"
definition DEFAULT_MAX_FRAMES :: nat where "DEFAULT_MAX_FRAMES = 16"

datatype jitter_output = Frame bytes | Lost

record jitter_stats =
  js_received :: u64
  js_late :: u64
  js_lost :: u64
  js_underruns :: u64
  js_overflows :: u64

record anchor =
  an_seq :: u32
  an_extended :: int

record jitter_buffer =
  jb_target_frames :: nat
  jb_max_frames :: nat
  jb_packets :: "(int, bytes) btree_map"
  jb_anchor :: "anchor option"
  jb_next_extended :: "int option"
  jb_playing :: bool
  jb_stats :: jitter_stats

definition jitter_new :: "nat \<Rightarrow> nat \<Rightarrow> jitter_buffer" where
  "jitter_new target_frames max_frames =
     \<lparr>jb_target_frames = max target_frames 1, jb_max_frames = max max_frames (max target_frames 1),
      jb_packets = [], jb_anchor = None, jb_next_extended = None, jb_playing = False,
      jb_stats = \<lparr>js_received = 0, js_late = 0, js_lost = 0, js_underruns = 0, js_overflows = 0\<rparr>\<rparr>"

definition jitter_default :: jitter_buffer where
  "jitter_default = jitter_new DEFAULT_TARGET_FRAMES DEFAULT_MAX_FRAMES"

text \<open>\<open>seq.wrapping_sub(anchor.seq) as i32\<close> is the signed reading of the word difference.\<close>

definition extend :: "u32 \<Rightarrow> jitter_buffer \<Rightarrow> int \<times> jitter_buffer" where
  "extend sq jb =
     (let extended = (case jb_anchor jb of None \<Rightarrow> 0 | Some a \<Rightarrow> an_extended a + sint (sq - an_seq a))
      in (extended, jb\<lparr>jb_anchor := Some \<lparr>an_seq = sq, an_extended = extended\<rparr>\<rparr>))"

definition buffered :: "jitter_buffer \<Rightarrow> nat" where
  "buffered jb = length (jb_packets jb)"

definition jitter_reset :: "jitter_buffer \<Rightarrow> jitter_buffer" where
  "jitter_reset jb = jb\<lparr>jb_packets := [], jb_anchor := None, jb_next_extended := None, jb_playing := False\<rparr>"

text \<open>The loop of \<open>push\<close> that drops the oldest frames above the cap.\<close>

fun cap_backlog ::
  "nat \<Rightarrow> (int, bytes) btree_map \<Rightarrow> int option \<Rightarrow> u64 \<Rightarrow> (int, bytes) btree_map \<times> int option \<times> u64" where
  "cap_backlog mx [] next overflows = ([], next, overflows)"
| "cap_backlog mx ((oldest, p) # m) next overflows =
     (if length ((oldest, p) # m) > mx then
        cap_backlog mx m
          (case next of Some n \<Rightarrow> if n \<le> oldest then Some (oldest + 1) else Some n | None \<Rightarrow> None)
          (overflows + 1)
      else ((oldest, p) # m, next, overflows))"

definition too_late :: "int \<Rightarrow> int option \<Rightarrow> bool" where
  "too_late extended next \<longleftrightarrow> (case next of Some n \<Rightarrow> extended < n | None \<Rightarrow> False)"

definition jitter_push :: "u32 \<Rightarrow> bytes \<Rightarrow> jitter_buffer \<Rightarrow> jitter_buffer" where
  "jitter_push sq payload jb =
     (let jb = jb\<lparr>jb_stats := (jb_stats jb)\<lparr>js_received := js_received (jb_stats jb) + 1\<rparr>\<rparr>;
          (extended, jb) = extend sq jb
      in if too_late extended (jb_next_extended jb) then
           jb\<lparr>jb_stats := (jb_stats jb)\<lparr>js_late := js_late (jb_stats jb) + 1\<rparr>\<rparr>
         else
           let (m, next, ov) = cap_backlog (jb_max_frames jb) (bt_insert extended payload (jb_packets jb))
                 (jb_next_extended jb) (js_overflows (jb_stats jb))
           in jb\<lparr>jb_packets := m, jb_next_extended := next,
                 jb_stats := (jb_stats jb)\<lparr>js_overflows := ov\<rparr>\<rparr>)"

text \<open>The part of \<open>pop\<close> after playback has started.\<close>

definition play_slot :: "jitter_buffer \<Rightarrow> jitter_output option \<times> jitter_buffer" where
  "play_slot jb =
     (case jb_next_extended jb of
        None \<Rightarrow> (None, jb)
      | Some next \<Rightarrow>
          (case map_of (jb_packets jb) next of
             Some payload \<Rightarrow>
               (Some (Frame payload),
                jb\<lparr>jb_packets := AList.delete next (jb_packets jb), jb_next_extended := Some (next + 1)\<rparr>)
           | None \<Rightarrow>
               if jb_packets jb = [] then
                 (None, jb\<lparr>jb_stats := (jb_stats jb)\<lparr>js_underruns := js_underruns (jb_stats jb) + 1\<rparr>,
                   jb_playing := False, jb_next_extended := None\<rparr>)
               else
                 (Some Lost, jb\<lparr>jb_stats := (jb_stats jb)\<lparr>js_lost := js_lost (jb_stats jb) + 1\<rparr>,
                   jb_next_extended := Some (next + 1)\<rparr>)))"

definition jitter_pop :: "jitter_buffer \<Rightarrow> jitter_output option \<times> jitter_buffer" where
  "jitter_pop jb =
     (if \<not> jb_playing jb then
        if length (jb_packets jb) < jb_target_frames jb then (None, jb)
        else play_slot (jb\<lparr>jb_playing := True,
               jb_next_extended := (case jb_packets jb of [] \<Rightarrow> None | (k, _) # _ \<Rightarrow> Some k)\<rparr>)
      else play_slot jb)"

section \<open>Invariant\<close>

definition jb_ok :: "jitter_buffer \<Rightarrow> bool" where
  "jb_ok jb \<longleftrightarrow> 1 \<le> jb_target_frames jb \<and> jb_target_frames jb \<le> jb_max_frames jb \<and>
     bt_invar (jb_packets jb) \<and> length (jb_packets jb) \<le> jb_max_frames jb \<and>
     (\<forall>n. jb_next_extended jb = Some n \<longrightarrow> (\<forall>k\<in>fst ` set (jb_packets jb). n \<le> k)) \<and>
     (jb_playing jb \<longleftrightarrow> jb_next_extended jb \<noteq> None)"

datatype jitter_op = Push u32 bytes | Pop | Reset

fun jitter_step :: "jitter_op \<Rightarrow> jitter_buffer \<Rightarrow> jitter_output option list \<times> jitter_buffer" where
  "jitter_step (Push sq payload) jb = ([], jitter_push sq payload jb)"
| "jitter_step Pop jb = (let (r, jb) = jitter_pop jb in ([r], jb))"
| "jitter_step Reset jb = ([], jitter_reset jb)"

fun jitter_run :: "jitter_op list \<Rightarrow> jitter_buffer \<Rightarrow> jitter_output option list \<times> jitter_buffer" where
  "jitter_run [] jb = ([], jb)"
| "jitter_run (op # ops) jb =
     (let (r, jb) = jitter_step op jb; (rs, jb) = jitter_run ops jb in (r @ rs, jb))"

lemma bt_invar_Cons: "bt_invar ((k, v) # m) \<longleftrightarrow> (\<forall>k'\<in>fst ` set m. k < k') \<and> bt_invar m"
  by (auto simp: bt_invar_def)

text \<open>What the cap keeps: the newest frames, and the playback position at or before all of them.\<close>

lemma cap_backlog_ok:
  assumes "bt_invar m" and "\<forall>n. next = Some n \<longrightarrow> (\<forall>k\<in>fst ` set m. n \<le> k)"
    and "cap_backlog mx m next ov = (m', next', ov')"
  shows "bt_invar m' \<and> length m' = min mx (length m) \<and> m' = drop (length m - mx) m \<and>
    (\<forall>n. next' = Some n \<longrightarrow> (\<forall>k\<in>fst ` set m'. n \<le> k)) \<and> (next' = None \<longleftrightarrow> next = None)"
  using assms
proof (induction mx m "next" ov rule: cap_backlog.induct)
  case (2 mx oldest p m "next" overflows)
  show ?case
  proof (cases "length ((oldest, p) # m) > mx")
    case True
    have "\<forall>k\<in>fst ` set m. oldest < k" "bt_invar m" using "2.prems"(1) by (simp_all add: bt_invar_Cons)
    then show ?thesis
      using 2 True by (fastforce simp: Suc_diff_le split: option.splits if_splits)
  next
    case False
    then show ?thesis using "2.prems" by force
  qed
qed (auto simp: bt_invar_def)

lemma extend_fields [simp]:
  "jb_target_frames (snd (extend sq jb)) = jb_target_frames jb"
  "jb_max_frames (snd (extend sq jb)) = jb_max_frames jb"
  "jb_packets (snd (extend sq jb)) = jb_packets jb"
  "jb_next_extended (snd (extend sq jb)) = jb_next_extended jb"
  "jb_playing (snd (extend sq jb)) = jb_playing jb"
  "jb_stats (snd (extend sq jb)) = jb_stats jb"
  by (simp_all add: extend_def Let_def)

lemma jitter_push_cases:
  obtains (late) st where "too_late (fst (extend sq jb)) (jb_next_extended jb)"
    "jitter_push sq payload jb =
       jb\<lparr>jb_anchor := Some \<lparr>an_seq = sq, an_extended = fst (extend sq jb)\<rparr>, jb_stats := st\<rparr>"
  | (kept) m nx ov st where "\<not> too_late (fst (extend sq jb)) (jb_next_extended jb)"
    "cap_backlog (jb_max_frames jb) (bt_insert (fst (extend sq jb)) payload (jb_packets jb))
       (jb_next_extended jb) (js_overflows (jb_stats jb)) = (m, nx, ov)"
    "jitter_push sq payload jb =
       jb\<lparr>jb_anchor := Some \<lparr>an_seq = sq, an_extended = fst (extend sq jb)\<rparr>, jb_packets := m,
         jb_next_extended := nx, jb_stats := st\<rparr>"
proof -
  define e where "e = fst (extend sq jb)"
  have e: "extend sq (jb\<lparr>jb_stats := t\<rparr>) =
      (e, jb\<lparr>jb_stats := t, jb_anchor := Some \<lparr>an_seq = sq, an_extended = e\<rparr>\<rparr>)" for t
    by (simp add: e_def extend_def Let_def)
  obtain m nx ov where m: "cap_backlog (jb_max_frames jb) (bt_insert e payload (jb_packets jb))
      (jb_next_extended jb) (js_overflows (jb_stats jb)) = (m, nx, ov)"
    using prod_cases3 by blast
  show thesis
  proof (cases "too_late e (jb_next_extended jb)")
    case True
    then show thesis by (intro late) (simp_all add: jitter_push_def e flip: e_def)
  next
    case False
    with m show thesis by (intro kept) (simp_all add: jitter_push_def e flip: e_def)
  qed
qed

lemma jb_ok_push:
  assumes "jb_ok jb"
  shows "jb_ok (jitter_push sq payload jb)"
proof (cases rule: jitter_push_cases [of sq jb payload])
  case (late st)
  then show ?thesis using assms by (simp add: jb_ok_def)
next
  case (kept m nx ov st)
  have "bt_invar (bt_insert (fst (extend sq jb)) payload (jb_packets jb))"
    using assms by (simp add: jb_ok_def bt.invar_insert)
  moreover have "\<forall>n. jb_next_extended jb = Some n \<longrightarrow>
      (\<forall>k\<in>fst ` set (bt_insert (fst (extend sq jb)) payload (jb_packets jb)). n \<le> k)"
    using assms kept(1) by (auto simp: jb_ok_def keys_bt_insert too_late_def)
  ultimately have "bt_invar m \<and> length m \<le> jb_max_frames jb \<and>
      (\<forall>n. nx = Some n \<longrightarrow> (\<forall>k\<in>fst ` set m. n \<le> k)) \<and> (nx = None \<longleftrightarrow> jb_next_extended jb = None)"
    using cap_backlog_ok [OF _ _ kept(2)] by (metis min.cobounded1)
  then show ?thesis using assms kept(3) by (simp add: jb_ok_def)
qed

lemma jb_ok_reset: "jb_ok jb \<Longrightarrow> jb_ok (jitter_reset jb)"
  by (simp add: jb_ok_def jitter_reset_def bt.invar_empty)

lemma keys_after_delete: "fst ` set (AList.delete k m) = fst ` set m - {k}"
  by (induction m) auto

lemma jb_ok_play_slot:
  assumes "jb_ok jb"
  shows "jb_ok (snd (play_slot jb))"
proof (cases "jb_next_extended jb")
  case (Some n)
  have least: "\<forall>k\<in>fst ` set (jb_packets jb). n \<le> k" using assms Some by (simp add: jb_ok_def)
  show ?thesis
  proof (cases "map_of (jb_packets jb) n")
    case None
    then have "\<forall>k\<in>fst ` set (jb_packets jb). n + 1 \<le> k"
      using least by (force simp: map_of_eq_None_iff order_le_less)
    then show ?thesis using assms Some None by (auto simp: jb_ok_def play_slot_def bt.invar_empty)
  next
    case (Some p)
    have "n + 1 \<le> k" if "k \<in> fst ` set (AList.delete n (jb_packets jb))" for k
      using that least unfolding keys_after_delete by fastforce
    then show ?thesis
      using assms Some \<open>jb_next_extended jb = Some n\<close> length_delete_le [of n "jb_packets jb"]
      by (simp add: jb_ok_def play_slot_def bt.invar_delete)
  qed
qed (simp add: play_slot_def assms)

lemma first_key_least:
  "bt_invar ((k, v) # m) \<Longrightarrow> k' \<in> fst ` set ((k, v) # m) \<Longrightarrow> k \<le> k'"
  by (auto simp: bt_invar_Cons)

lemma jb_ok_pop:
  assumes "jb_ok jb"
  shows "jb_ok (snd (jitter_pop jb))"
proof (cases "jb_playing jb \<or> length (jb_packets jb) < jb_target_frames jb")
  case False
  then obtain k p m where m: "jb_packets jb = (k, p) # m"
    using assms by (cases "jb_packets jb") (auto simp: jb_ok_def)
  have "jb_ok (jb\<lparr>jb_playing := True, jb_next_extended := Some k\<rparr>)"
    using assms first_key_least [of k p m] by (auto simp: jb_ok_def m)
  then show ?thesis using False m by (simp add: jitter_pop_def jb_ok_play_slot)
qed (use assms in \<open>auto simp: jitter_pop_def jb_ok_play_slot\<close>)

lemma jb_ok_run: "jb_ok jb \<Longrightarrow> jb_ok (snd (jitter_run ops jb))"
proof (induction ops arbitrary: jb)
  case (Cons op ops)
  have "jb_ok (snd (jitter_step op jb))"
    using Cons.prems jb_ok_pop [of jb] by (cases op) (auto simp: jb_ok_push jb_ok_reset split: prod.splits)
  then show ?case using Cons.IH [of "snd (jitter_step op jb)"] by (simp add: case_prod_unfold Let_def)
qed simp

lemma jb_ok_new: "jb_ok (jitter_new target mx)"
  by (simp add: jb_ok_def jitter_new_def bt.invar_empty)

section \<open>Any arrival order is played in sequence\<close>

text \<open>
  A buffer that holds exactly the frames of a burst at the given offsets from the wire number
  \<open>base\<close>, extended from the first one that arrived.
\<close>

definition holds :: "u32 \<Rightarrow> nat \<Rightarrow> (nat \<Rightarrow> bytes) \<Rightarrow> nat list \<Rightarrow> jitter_buffer \<Rightarrow> bool" where
  "holds base first pay offs jb \<longleftrightarrow>
     jb_next_extended jb = None \<and> \<not> jb_playing jb \<and> bt_invar (jb_packets jb) \<and>
     jb_anchor jb = Some \<lparr>an_seq = base + of_nat (last offs), an_extended = int (last offs) - int first\<rparr> \<and>
     length (jb_packets jb) = length offs \<and>
     fst ` set (jb_packets jb) = (\<lambda>k. int k - int first) ` set offs \<and>
     (\<forall>k\<in>set offs. map_of (jb_packets jb) (int k - int first) = Some (pay k))"

lemma sint_small: "- (2 ^ 31) \<le> x \<Longrightarrow> x < 2 ^ 31 \<Longrightarrow> sint (word_of_int x :: u32) = x"
  by (simp add: signed_of_int signed_take_bit_int_eq_self)

lemma sint_offset:
  assumes "k < 2 ^ 31" and "l < 2 ^ 31"
  shows "sint ((base :: u32) + of_nat k - (base + of_nat l)) = int k - int l"
proof -
  have "base + of_nat k - (base + of_nat l) = of_int (int k - int l)" by simp
  moreover have "sint (of_int (int k - int l) :: u32) = int k - int l"
    using assms by (intro sint_small) simp_all
  ultimately show ?thesis by simp
qed

lemma cap_backlog_fits: "length m \<le> mx \<Longrightarrow> cap_backlog mx m next ov = (m, next, ov)"
  by (cases m) auto

lemma holds_first:
  assumes "jb_packets jb = []" "jb_anchor jb = None" "jb_next_extended jb = None" "\<not> jb_playing jb"
    and "1 \<le> jb_max_frames jb"
  shows "holds base k pay [k] (jitter_push (base + of_nat k) (pay k) jb)"
  using assms by (simp add: holds_def jitter_push_def extend_def too_late_def Let_def bt_invar_def)

lemma holds_push:
  assumes "holds base first pay offs jb" and "offs \<noteq> []" and "k \<notin> set offs"
    and "k < 2 ^ 31" and "\<forall>l\<in>set offs. l < 2 ^ 31" and "length offs < jb_max_frames jb"
  shows "holds base first pay (offs @ [k]) (jitter_push (base + of_nat k) (pay k) jb)"
proof -
  let ?e = "int k - int first"
  have "sint (base + of_nat k - (base + of_nat (last offs))) = int k - int (last offs)"
    using assms(2,4,5) by (intro sint_offset) simp_all
  then have e: "extend (base + of_nat k) (jb\<lparr>jb_stats := t\<rparr>) =
      (?e, jb\<lparr>jb_stats := t, jb_anchor := Some \<lparr>an_seq = base + of_nat k, an_extended = ?e\<rparr>\<rparr>)" for t
    using assms(1) by (simp add: extend_def holds_def Let_def)
  have "?e \<notin> fst ` set (jb_packets jb)" using assms(1,3) by (auto simp: holds_def)
  then have l: "length (bt_insert ?e (pay k) (jb_packets jb)) = Suc (length offs)"
    using assms(1) by (auto simp: holds_def bt.length_insert)
  then have "cap_backlog (jb_max_frames jb) (bt_insert ?e (pay k) (jb_packets jb)) nx ov =
      (bt_insert ?e (pay k) (jb_packets jb), nx, ov)" for nx ov
    using assms(6) by (intro cap_backlog_fits) simp
  then show ?thesis
    using assms(1,3) l
    by (auto simp: holds_def jitter_push_def e too_late_def bt.invar_insert keys_bt_insert map_of_bt_insert)
qed

lemma jitter_push_config [simp]:
  "jb_max_frames (jitter_push sq p jb) = jb_max_frames jb"
  "jb_target_frames (jitter_push sq p jb) = jb_target_frames jb"
  by (simp_all add: jitter_push_def extend_def Let_def split: prod.splits)


text \<open>Playing a held stretch slot by slot.\<close>

definition slot :: "(int, bytes) btree_map \<Rightarrow> int \<Rightarrow> jitter_output" where
  "slot m k = (case map_of m k of Some p \<Rightarrow> Frame p | None \<Rightarrow> Lost)"

lemma jitter_run_append:
  "jitter_run (xs @ ys) jb =
     (let (r, jb) = jitter_run xs jb; (r', jb) = jitter_run ys jb in (r @ r', jb))"
  by (induction xs arbitrary: jb) (simp_all add: case_prod_unfold Let_def)

lemma pop_held:
  assumes "jb_playing jb" and "jb_next_extended jb = Some n" and "jb_packets jb \<noteq> []" and "bt_invar (jb_packets jb)"
  obtains jb' where "jitter_pop jb = (Some (slot (jb_packets jb) n), jb')" "jb_playing jb'"
    "jb_next_extended jb' = Some (n + 1)" "jb_packets jb' = AList.delete n (jb_packets jb)"
proof (cases "map_of (jb_packets jb) n")
  case None
  then have "AList.delete n (jb_packets jb) = jb_packets jb"
    by (simp add: delete_idem map_of_eq_None_iff)
  with None assms that show ?thesis by (simp add: jitter_pop_def play_slot_def slot_def)
qed (use assms that in \<open>simp add: jitter_pop_def play_slot_def slot_def\<close>)

lemma play_stretch:
  assumes "jb_playing jb" and "jb_next_extended jb = Some n" and "bt_invar (jb_packets jb)"
    and "\<forall>k\<in>fst ` set (jb_packets jb). n \<le> k \<and> k < n + int d"
    and "0 < d \<longrightarrow> n + int d - 1 \<in> fst ` set (jb_packets jb)"
  shows "\<exists>jb'. jitter_run (replicate d Pop) jb = (map (\<lambda>i. Some (slot (jb_packets jb) (n + int i))) [0..<d], jb') \<and>
    jb_playing jb' \<and> jb_next_extended jb' = Some (n + int d) \<and> jb_packets jb' = []"
  using assms
proof (induction d arbitrary: jb n)
  case 0
  then have "jb_packets jb = []" by (cases "jb_packets jb") auto
  with 0 show ?case by simp
next
  case (Suc d)
  let ?m = "jb_packets jb" and ?m' = "AList.delete n (jb_packets jb)"
  have "?m \<noteq> []" using Suc.prems(5) by auto
  then obtain jb1 where jb1: "jitter_pop jb = (Some (slot ?m n), jb1)" "jb_playing jb1"
      "jb_next_extended jb1 = Some (n + 1)" "jb_packets jb1 = ?m'"
    using pop_held Suc.prems(1-3) by metis
  have "n + 1 \<le> k \<and> k < n + 1 + int d" if "k \<in> fst ` set ?m'" for k
    using that Suc.prems(4) unfolding keys_after_delete by fastforce
  moreover have "0 < d \<longrightarrow> n + 1 + int d - 1 \<in> fst ` set ?m'"
    using Suc.prems(5) unfolding keys_after_delete by simp
  ultimately obtain jb' where jb': "jitter_run (replicate d Pop) jb1 =
      (map (\<lambda>i. Some (slot ?m' (n + 1 + int i))) [0..<d], jb')"
      "jb_playing jb'" "jb_next_extended jb' = Some (n + 1 + int d)" "jb_packets jb' = []"
    using Suc.IH [of jb1 "n + 1"] jb1 Suc.prems(3) by (auto simp: bt.invar_delete)
  have "slot ?m' (n + 1 + int i) = slot ?m (n + int (Suc i))" for i
    by (simp add: slot_def delete_conv' add.assoc)
  then have "map (\<lambda>i. Some (slot ?m' (n + 1 + int i))) [0..<d] = map (\<lambda>i. Some (slot ?m (n + int i))) [1..<Suc d]"
    by (simp add: map_Suc_upt [symmetric] comp_def del: upt_Suc)
  then show ?case
    using jb1 jb' by (simp add: upt_conv_Cons del: upt_Suc)
qed

lemma holds_all:
  assumes "jb_packets jb = []" "jb_anchor jb = None" "jb_next_extended jb = None" "\<not> jb_playing jb"
    and "offs \<noteq> []" and "distinct offs" and "\<forall>k\<in>set offs. k < 2 ^ 31" and "length offs \<le> jb_max_frames jb"
  shows "holds base (hd offs) pay offs (fold (\<lambda>k. jitter_push (base + of_nat k) (pay k)) offs jb) \<and>
    jb_max_frames (fold (\<lambda>k. jitter_push (base + of_nat k) (pay k)) offs jb) = jb_max_frames jb \<and>
    jb_target_frames (fold (\<lambda>k. jitter_push (base + of_nat k) (pay k)) offs jb) = jb_target_frames jb"
  using assms(5-8)
proof (induction offs rule: rev_induct)
  case (snoc k offs)
  show ?case
  proof (cases "offs = []")
    case True
    then show ?thesis using holds_first [OF assms(1-4), of base k pay] snoc.prems(4) by simp
  next
    case False
    then show ?thesis
      using snoc holds_push [of base "hd offs" pay offs "fold (\<lambda>k. jitter_push (base + of_nat k) (pay k)) offs jb" k]
      by simp
  qed
qed simp


lemma run_pushes:
  "jitter_run (map (\<lambda>k. Push (sq k) (pay k)) offs) jb = ([], fold (\<lambda>k. jitter_push (sq k) (pay k)) offs jb)"
  by (induction offs arbitrary: jb) simp_all

lemma pop_starts:
  "\<not> jb_playing jb \<Longrightarrow> jb_target_frames jb \<le> length (jb_packets jb) \<Longrightarrow> jb_packets jb = (k, p) # m \<Longrightarrow>
     jitter_pop jb = jitter_pop (jb\<lparr>jb_playing := True, jb_next_extended := Some k\<rparr>)"
  by (simp add: jitter_pop_def)

lemma holds_slot:
  assumes "holds base first pay offs jb"
  shows "slot (jb_packets jb) (int k - int first) = (if k \<in> set offs then Frame (pay k) else Lost)"
proof (cases "k \<in> set offs")
  case False
  then have "int k - int first \<notin> fst ` set (jb_packets jb)" using assms by (auto simp: holds_def)
  then have "map_of (jb_packets jb) (int k - int first) = None" by (simp add: map_of_eq_None_iff)
  with False show ?thesis by (simp add: slot_def)
qed (use assms in \<open>simp add: holds_def slot_def\<close>)

lemma holds_first_key:
  assumes "holds base first pay offs jb" and "offs \<noteq> []"
  obtains p m where "jb_packets jb = (int (Min (set offs)) - int first, p) # m"
proof -
  obtain k p m where m: "jb_packets jb = (k, p) # m"
    using assms by (cases "jb_packets jb") (auto simp: holds_def)
  have keys: "fst ` set ((k, p) # m) = (\<lambda>k. int k - int first) ` set offs" and inv: "bt_invar ((k, p) # m)"
    using assms(1) by (auto simp: holds_def m)
  have "k \<in> (\<lambda>k. int k - int first) ` set offs" using keys by auto
  then obtain x where x: "k = int x - int first" "x \<in> set offs" by blast
  have "x \<le> y" if "y \<in> set offs" for y
    using first_key_least [OF inv, of "int y - int first"] that x unfolding keys by auto
  then have "Min (set offs) = x" using x by (intro Min_eqI) auto
  with m x that show thesis by simp
qed

lemma run_pops_held:
  assumes h: "holds base first pay offs jb" and ne: "offs \<noteq> []" and t: "jb_target_frames jb \<le> length offs"
  defines "lo \<equiv> Min (set offs)" and "hi \<equiv> Max (set offs)"
  shows "fst (jitter_run (replicate (hi - lo + 2) Pop) jb) =
    map (\<lambda>k. Some (if k \<in> set offs then Frame (pay k) else Lost)) [lo..<hi + 1] @ [None]"
proof -
  obtain p m where m: "jb_packets jb = (int lo - int first, p) # m"
    using holds_first_key [OF h ne] unfolding lo_def by blast
  let ?d = "Suc (hi - lo)" and ?jb = "jb\<lparr>jb_playing := True, jb_next_extended := Some (int lo - int first)\<rparr>"
  have range: "\<forall>k\<in>set offs. lo \<le> k \<and> k \<le> hi" "hi \<in> set offs" "lo \<le> hi"
    using ne by (simp_all add: lo_def hi_def)
  have keys: "fst ` set (jb_packets ?jb) = (\<lambda>k. int k - int first) ` set offs" using h by (simp add: holds_def)
  have "\<forall>k\<in>fst ` set (jb_packets ?jb). int lo - int first \<le> k \<and> k < int lo - int first + int ?d"
    unfolding keys using range by auto
  moreover have "int lo - int first + int ?d - 1 \<in> fst ` set (jb_packets ?jb)"
    unfolding keys using range by (auto simp: image_iff intro!: bexI [of _ hi])
  ultimately obtain jb' where jb': "jitter_run (replicate ?d Pop) ?jb =
        (map (\<lambda>i. Some (slot (jb_packets ?jb) (int lo - int first + int i))) [0..<?d], jb')"
      "jb_playing jb'" "jb_packets jb' = []" "jb_next_extended jb' = Some (int lo - int first + int ?d)"
    using play_stretch [of ?jb "int lo - int first" ?d] h by (auto simp: holds_def)
  have "jitter_run (replicate (hi - lo + 2) Pop) jb = jitter_run (Pop # replicate ?d Pop) jb" by simp
  also have "\<dots> = jitter_run (Pop # replicate ?d Pop) ?jb"
    using pop_starts [OF _ _ m] h t by (simp add: holds_def)
  also have "Pop # replicate ?d Pop = replicate ?d Pop @ [Pop]"
    by (simp only: replicate_append_same)
  finally have "jitter_run (replicate (hi - lo + 2) Pop) jb = jitter_run (replicate ?d Pop @ [Pop]) ?jb" .
  moreover have "fst (jitter_pop jb') = None"
    using jb' by (simp add: jitter_pop_def play_slot_def)
  ultimately have "fst (jitter_run (replicate (hi - lo + 2) Pop) jb) =
      map (\<lambda>i. Some (slot (jb_packets jb) (int lo - int first + int i))) [0..<?d] @ [None]"
    by (simp add: jitter_run_append jb'(1) case_prod_unfold Let_def del: replicate_add replicate.simps upt_Suc)
  also have "map (\<lambda>i. Some (slot (jb_packets jb) (int lo - int first + int i))) [0..<?d] =
      map (\<lambda>k. Some (if k \<in> set offs then Frame (pay k) else Lost)) [lo..<hi + 1]"
    using range(3) map_add_upt [of lo ?d, symmetric] holds_slot [OF h, of "_ + lo"]
    by (simp add: comp_def algebra_simps del: upt_Suc)
  finally show ?thesis .
qed

text \<open>
  C28. The network's reordering and losses never reach the listener out of sequence: frames of a burst
  that arrive in whatever order at an emptied buffer, at least the target and at most the cap of
  them, wherever their wire numbers stand and even across the rollover of the 32-bit counter, are
  played one per tick in the order they were sent, with a loss reported for exactly the missing
  slots between them, and then silence.
\<close>

theorem any_arrival_order_plays_in_sequence:
  assumes "jb_ok jb" and "distinct offs" and "\<forall>k\<in>set offs. k < 2 ^ 31"
    and "jb_target_frames jb \<le> length offs" and "length offs \<le> jb_max_frames jb"
  shows "fst (jitter_run (map (\<lambda>k. Push (base + of_nat k) (pay k)) offs @
       replicate (Max (set offs) - Min (set offs) + 2) Pop) (jitter_reset jb)) =
     map (\<lambda>k. Some (if k \<in> set offs then Frame (pay k) else Lost)) [Min (set offs)..<Max (set offs) + 1] @ [None]"
proof -
  have ne: "offs \<noteq> []" using assms(1,4) by (auto simp: jb_ok_def)
  let ?jb = "fold (\<lambda>k. jitter_push (base + of_nat k) (pay k)) offs (jitter_reset jb)"
  have "holds base (hd offs) pay offs ?jb" "jb_target_frames ?jb = jb_target_frames jb"
    using holds_all [of "jitter_reset jb" offs base pay] ne assms by (simp_all add: jitter_reset_def)
  from run_pops_held [OF this(1) ne] this(2) assms(4) show ?thesis
    by (simp add: jitter_run_append run_pushes case_prod_unfold Let_def)
qed

theorem any_arrival_order_plays_in_sequence_witness:
  "fst (jitter_run (map (\<lambda>k. Push (- 2 + of_nat k) [of_nat k]) [3, 0, 1] @ replicate 5 Pop) (jitter_reset jitter_default)) =
     [Some (Frame [0]), Some (Frame [1]), Some Lost, Some (Frame [3]), None]"
proof -
  have "jb_ok jitter_default" by (simp add: jitter_default_def jb_ok_new)
  moreover have "jb_target_frames jitter_default = 3" "jb_max_frames jitter_default = 16"
    by (simp_all add: jitter_default_def jitter_new_def DEFAULT_TARGET_FRAMES_def DEFAULT_MAX_FRAMES_def)
  ultimately show ?thesis
    using any_arrival_order_plays_in_sequence [of jitter_default "[3, 0, 1]" "- 2" "\<lambda>k. [of_nat k]"]
    by (simp add: upt_rec del: jitter_run.simps jitter_step.simps)
qed


section \<open>The extended numbers stay in range\<close>

text \<open>Everything the buffer computes with lies within the reach of the frames received.\<close>

definition in_reach :: "int \<Rightarrow> jitter_buffer \<Rightarrow> bool" where
  "in_reach b jb \<longleftrightarrow> (\<forall>k\<in>fst ` set (jb_packets jb). \<bar>k\<bar> \<le> b) \<and>
     (\<forall>a. jb_anchor jb = Some a \<longrightarrow> \<bar>an_extended a\<bar> \<le> b) \<and>
     (\<forall>n. jb_next_extended jb = Some n \<longrightarrow> \<bar>n\<bar> \<le> b + 1)"

lemma reach_mono: "in_reach b jb \<Longrightarrow> b \<le> c \<Longrightarrow> in_reach c jb"
  unfolding in_reach_def by (meson add_right_mono order_trans)

lemma sint_u32_bound: "\<bar>sint (w :: u32)\<bar> \<le> 2 ^ 31"
  using sint_lt [of w] sint_ge [of w] by simp

lemma cap_backlog_reach:
  assumes "cap_backlog mx m next ov = (m', next', ov')" and "\<forall>k\<in>fst ` set m. \<bar>k\<bar> \<le> b"
    and "\<forall>n. next = Some n \<longrightarrow> \<bar>n\<bar> \<le> b + 1"
  shows "(\<forall>k\<in>fst ` set m'. \<bar>k\<bar> \<le> b) \<and> (\<forall>n. next' = Some n \<longrightarrow> \<bar>n\<bar> \<le> b + 1)"
  using assms
proof (induction mx m "next" ov rule: cap_backlog.induct)
  case (2 mx oldest p m "next" overflows)
  let ?n = "case next of Some n \<Rightarrow> if n \<le> oldest then Some (oldest + 1) else Some n | None \<Rightarrow> None"
  have "\<forall>n. ?n = Some n \<longrightarrow> \<bar>n\<bar> \<le> b + 1"
    using "2.prems"(2,3) by (auto split: option.splits if_splits)
  then show ?case using 2 by (cases "length ((oldest, p) # m) > mx") auto
qed auto

lemma reach_extend:
  assumes "in_reach b jb" and "0 \<le> b"
  shows "\<bar>fst (extend sq jb)\<bar> \<le> b + 2 ^ 31"
proof (cases "jb_anchor jb")
  case None
  then show ?thesis using assms(2) by (simp add: extend_def Let_def)
next
  case (Some a)
  then have "\<bar>an_extended a\<bar> \<le> b" using assms(1) by (simp add: in_reach_def)
  then show ?thesis using sint_u32_bound [of "sq - an_seq a"] Some by (simp add: extend_def Let_def)
qed

lemma reach_push_within:
  assumes "in_reach c jb" and "\<bar>fst (extend sq jb)\<bar> \<le> c"
  shows "in_reach c (jitter_push sq payload jb)"
proof (cases rule: jitter_push_cases [of sq jb payload])
  case (late st)
  then show ?thesis using assms by (simp add: in_reach_def)
next
  case (kept m nx ov st)
  have "\<forall>k\<in>fst ` set (bt_insert (fst (extend sq jb)) payload (jb_packets jb)). \<bar>k\<bar> \<le> c"
    using assms unfolding keys_bt_insert by (simp add: in_reach_def)
  moreover have "\<forall>n. jb_next_extended jb = Some n \<longrightarrow> \<bar>n\<bar> \<le> c + 1"
    using assms(1) by (simp add: in_reach_def)
  ultimately have "(\<forall>k\<in>fst ` set m. \<bar>k\<bar> \<le> c) \<and> (\<forall>n. nx = Some n \<longrightarrow> \<bar>n\<bar> \<le> c + 1)"
    by (rule cap_backlog_reach [OF kept(2)])
  then show ?thesis using assms(2) kept(3) by (simp add: in_reach_def)
qed

lemma reach_push:
  assumes "in_reach b jb" and "0 \<le> b"
  shows "in_reach (b + 2 ^ 31) (jitter_push sq payload jb)"
  using reach_push_within [OF reach_mono [OF assms(1)] reach_extend [OF assms]] by simp

lemma reach_play_slot:
  assumes "in_reach b jb" and "jb_ok jb"
  shows "in_reach b (snd (play_slot jb))"
proof (cases "jb_next_extended jb")
  case (Some n)
  have le: "n + 1 \<le> b + 1 \<and> - (b + 1) \<le> n" if ne: "jb_packets jb \<noteq> []"
  proof -
    obtain k where k: "k \<in> fst ` set (jb_packets jb)" using ne by (metis all_not_in_conv image_is_empty set_empty)
    then have "n \<le> k" "\<bar>k\<bar> \<le> b" "\<bar>n\<bar> \<le> b + 1" using assms Some by (auto simp: jb_ok_def in_reach_def)
    then show ?thesis by linarith
  qed
  have "\<forall>k\<in>fst ` set (AList.delete n (jb_packets jb)). \<bar>k\<bar> \<le> b"
    using assms(1) unfolding keys_after_delete in_reach_def by blast
  then show ?thesis
    using assms(1) Some le by (auto simp: in_reach_def play_slot_def split: option.splits)
qed (simp add: play_slot_def assms)


lemma reach_pop:
  assumes "in_reach b jb" and "jb_ok jb"
  shows "in_reach b (snd (jitter_pop jb))"
proof (cases "jb_playing jb \<or> length (jb_packets jb) < jb_target_frames jb")
  case False
  then obtain k p m where m: "jb_packets jb = (k, p) # m"
    using assms(2) by (cases "jb_packets jb") (auto simp: jb_ok_def)
  let ?jb = "jb\<lparr>jb_playing := True, jb_next_extended := Some k\<rparr>"
  have "jb_ok ?jb" using assms(2) first_key_least [of k p m] by (auto simp: jb_ok_def m)
  moreover have "in_reach b ?jb" using assms(1) by (auto simp: in_reach_def m)
  ultimately show ?thesis using False m by (simp add: jitter_pop_def reach_play_slot)
qed (use assms in \<open>auto simp: jitter_pop_def reach_play_slot\<close>)

definition pushes :: "jitter_op list \<Rightarrow> nat" where
  "pushes ops = length (filter (\<lambda>op. case op of Push _ _ \<Rightarrow> True | _ \<Rightarrow> False) ops)"

lemma reach_step:
  assumes "in_reach b jb" and "jb_ok jb" and "0 \<le> b"
  shows "in_reach (b + 2 ^ 31 * int (pushes [op])) (snd (jitter_step op jb))"
  using assms reach_push [OF assms(1,3)] reach_pop [OF assms(1,2)]
  by (cases op) (auto simp: pushes_def jitter_reset_def in_reach_def split: prod.splits)

lemma reach_run:
  assumes "in_reach b jb" and "jb_ok jb" and "0 \<le> b"
  shows "in_reach (b + 2 ^ 31 * int (pushes ops)) (snd (jitter_run ops jb))"
  using assms
proof (induction ops arbitrary: b jb)
  case (Cons op ops)
  have "in_reach (b + 2 ^ 31 * int (pushes [op])) (snd (jitter_step op jb))"
    using Cons.prems by (intro reach_step)
  moreover have "jb_ok (snd (jitter_step op jb))"
    using jb_ok_run [OF Cons.prems(2), of "[op]"] by (simp add: case_prod_unfold Let_def)
  ultimately have "in_reach (b + 2 ^ 31 * int (pushes [op]) + 2 ^ 31 * int (pushes ops))
      (snd (jitter_run ops (snd (jitter_step op jb))))"
    using Cons.prems(3) by (intro Cons.IH) simp_all
  moreover have "pushes (op # ops) = pushes [op] + pushes ops" by (simp add: pushes_def)
  ultimately show ?case by (simp add: case_prod_unfold Let_def algebra_simps)
qed (simp add: pushes_def)

lemma play_slot_config [simp]: "jb_max_frames (snd (play_slot jb)) = jb_max_frames jb"
  by (simp add: play_slot_def split: option.splits)

lemma run_config: "jb_max_frames (snd (jitter_run ops jb)) = jb_max_frames jb"
proof (induction ops arbitrary: jb)
  case (Cons op ops)
  then show ?case by (cases op) (simp_all add: case_prod_unfold Let_def jitter_pop_def jitter_reset_def)
qed simp

text \<open>
  The buffer is always in order and bounded: after any sequence of arrivals, ticks and resets, in
  which fewer than \<open>2\<^sup>32\<close> frames arrived, it holds no more than its cap, sorted, nothing older than
  the slot to be played next, it has a position exactly while it plays, and the extended numbers it
  keeps and adds one to are within the range of an \<open>i64\<close>, so that none of its arithmetic overflows.
\<close>

theorem jitter_buffer_stays_in_order:
  assumes "pushes ops < 2 ^ 32" and "jb = snd (jitter_run ops (jitter_new target mx))"
  shows "buffered jb \<le> max mx (max target 1) \<and> sorted_wrt (<) (map fst (jb_packets jb)) \<and>
    (jb_playing jb \<longleftrightarrow> jb_next_extended jb \<noteq> None) \<and>
    (\<forall>n k. jb_next_extended jb = Some n \<and> k \<in> fst ` set (jb_packets jb) \<longrightarrow> n \<le> k) \<and>
    (\<forall>k. k \<in> fst ` set (jb_packets jb) \<or> jb_next_extended jb = Some k \<or>
        map_option an_extended (jb_anchor jb) = Some k \<longrightarrow> - (2 ^ 63) \<le> k \<and> k + 1 < 2 ^ 63)"
proof -
  let ?b = "2 ^ 31 * int (pushes ops)"
  have ok: "jb_ok jb" using jb_ok_run [OF jb_ok_new] assms(2) by simp
  have "in_reach 0 (jitter_new target mx)" by (simp add: in_reach_def jitter_new_def)
  from reach_run [OF this jb_ok_new] have reach: "in_reach ?b jb" using assms(2) by simp
  have "jb_max_frames jb = max mx (max target 1)" using assms(2) by (simp add: run_config) (simp add: jitter_new_def)
  moreover have "?b \<le> 2 ^ 63 - 2 ^ 31" using assms(1) by simp
  then have "- (2 ^ 63) \<le> k \<and> k + 1 < 2 ^ 63" if "\<bar>k\<bar> \<le> ?b + 1" for k using that by (simp add: abs_le_iff)
  moreover have "\<bar>k\<bar> \<le> ?b + 1" if "k \<in> fst ` set (jb_packets jb) \<or> jb_next_extended jb = Some k \<or>
      map_option an_extended (jb_anchor jb) = Some k" for k
    using that reach unfolding in_reach_def by fastforce
  ultimately show ?thesis using ok by (auto simp: jb_ok_def buffered_def bt_invar_def)
qed

theorem jitter_buffer_stays_in_order_witness:
  "pushes [Push 7 [1], Pop, Push 9 [2]] < 2 ^ 32 \<and>
    buffered (snd (jitter_run [Push 7 [1], Pop, Push 9 [2]] (jitter_new 1 4))) \<le> max 4 (max 1 1)"
proof -
  have "pushes [Push 7 [1], Pop, Push 9 [2]] < 2 ^ 32" by (simp add: pushes_def)
  from jitter_buffer_stays_in_order [OF this refl, of 1 4] this show ?thesis by blast
qed

section \<open>Order of playback under any interleaving\<close>

text \<open>
  A buffer in the middle of a stream whose frame \<open>k\<close> has the wire number \<open>base + k\<close>: every frame
  held is one of the stream at its own place, and so is the anchor.
\<close>

definition of_stream :: "u32 \<Rightarrow> (nat \<Rightarrow> bytes) \<Rightarrow> int \<Rightarrow> jitter_buffer \<Rightarrow> bool" where
  "of_stream base pay first jb \<longleftrightarrow>
     (\<forall>a. jb_anchor jb = Some a \<longrightarrow> (\<exists>l<2 ^ 31. an_seq a = base + of_nat l \<and> an_extended a = int l - first)) \<and>
     (\<forall>(e, p)\<in>set (jb_packets jb). \<exists>k<2 ^ 31. e = int k - first \<and> p = pay k) \<and>
     (jb_anchor jb = None \<longrightarrow> jb_packets jb = [])"

lemma mem_cap_backlog: "cap_backlog mx m nx ov = (m', nx', ov') \<Longrightarrow> set m' \<subseteq> set m"
  by (induction mx m nx ov rule: cap_backlog.induct) (auto split: if_splits)

lemma mem_bt_insert: "x \<in> set (bt_insert k v m) \<Longrightarrow> x = (k, v) \<or> x \<in> set m"
  by (induction k v m rule: bt_insert.induct) (auto split: if_splits)

lemma of_streamI:
  assumes "jb_anchor jb = Some \<lparr>an_seq = base + of_nat l, an_extended = int l - first\<rparr>" and "l < 2 ^ 31"
    and "\<And>e p. (e, p) \<in> set (jb_packets jb) \<Longrightarrow> \<exists>k<2 ^ 31. e = int k - first \<and> p = pay k"
  shows "of_stream base pay first jb"
  using assms unfolding of_stream_def by auto

lemma of_stream_held:
  "of_stream base pay first jb \<Longrightarrow> (e, p) \<in> set (jb_packets jb) \<Longrightarrow> \<exists>k<2 ^ 31. e = int k - first \<and> p = pay k"
  unfolding of_stream_def by blast

lemma of_stream_push:
  assumes "of_stream base pay first jb" and "k < 2 ^ 31" and "jb_anchor jb = None \<longrightarrow> first = int k"
  shows "of_stream base pay first (jitter_push (base + of_nat k) (pay k) jb)"
proof -
  have e: "fst (extend (base + of_nat k) jb) = int k - first"
  proof (cases "jb_anchor jb")
    case (Some a)
    then obtain l where "l < 2 ^ 31" "an_seq a = base + of_nat l" "an_extended a = int l - first"
      using assms(1) by (auto simp: of_stream_def)
    then have "sint (base + of_nat k - an_seq a) = int k - int l" using sint_offset [OF assms(2), of l base] by simp
    then show ?thesis using Some \<open>an_extended a = int l - first\<close> by (simp add: extend_def Let_def)
  next
    case None
    then show ?thesis using assms(3) by (simp add: extend_def Let_def)
  qed
  show ?thesis
  proof (cases rule: jitter_push_cases [of "base + of_nat k" jb "pay k"])
    case (late st)
    show ?thesis
    proof (rule of_streamI [OF _ assms(2)])
      show "jb_anchor (jitter_push (base + of_nat k) (pay k) jb) =
          Some \<lparr>an_seq = base + of_nat k, an_extended = int k - first\<rparr>" by (simp add: late(2) e)
      fix e' p
      assume "(e', p) \<in> set (jb_packets (jitter_push (base + of_nat k) (pay k) jb))"
      then have "(e', p) \<in> set (jb_packets jb)" by (simp add: late(2))
      then show "\<exists>k<2 ^ 31. e' = int k - first \<and> p = pay k" by (rule of_stream_held [OF assms(1)])
    qed
  next
    case (kept m nx ov st)
    show ?thesis
    proof (rule of_streamI [OF _ assms(2)])
      show "jb_anchor (jitter_push (base + of_nat k) (pay k) jb) =
          Some \<lparr>an_seq = base + of_nat k, an_extended = int k - first\<rparr>" by (simp add: kept(3) e)
      fix e' p
      assume "(e', p) \<in> set (jb_packets (jitter_push (base + of_nat k) (pay k) jb))"
      then have "(e', p) \<in> set m" by (simp add: kept(3))
      then have "(e', p) = (int k - first, pay k) \<or> (e', p) \<in> set (jb_packets jb)"
        using mem_cap_backlog [OF kept(2)] unfolding e by (intro mem_bt_insert) blast
      then show "\<exists>k<2 ^ 31. e' = int k - first \<and> p = pay k"
        using assms(2) of_stream_held [OF assms(1), of e' p] by blast
    qed
  qed
qed

lemma jitter_pop_keeps:
  "set (jb_packets (snd (jitter_pop jb))) \<subseteq> set (jb_packets jb)" "jb_anchor (snd (jitter_pop jb)) = jb_anchor jb"
proof -
  have "set (AList.delete n m) \<subseteq> set m" for n and m :: "(int, bytes) btree_map" by (auto simp: AList.delete_eq)
  then have "set (jb_packets (snd (play_slot jb))) \<subseteq> set (jb_packets jb)" for jb
    by (simp add: play_slot_def split: option.splits)
  from this [of jb] this [of "jb\<lparr>jb_playing := True, jb_next_extended := (case jb_packets jb of [] \<Rightarrow> None | (k, _) # _ \<Rightarrow> Some k)\<rparr>"]
  show "set (jb_packets (snd (jitter_pop jb))) \<subseteq> set (jb_packets jb)" by (simp add: jitter_pop_def)
  show "jb_anchor (snd (jitter_pop jb)) = jb_anchor jb"
    by (simp add: jitter_pop_def play_slot_def split: option.splits)
qed

lemma of_stream_pop:
  assumes "of_stream base pay first jb" and "jb_ok jb"
  shows "of_stream base pay first (snd (jitter_pop jb))"
  using assms(1) jitter_pop_keeps [of jb] unfolding of_stream_def by fastforce

text \<open>One tick of a playing buffer, and of one that waits.\<close>

lemma pop_playing:
  assumes "jb_ok jb" and "jb_next_extended jb = Some n" and "jitter_pop jb = (Some r, jb')"
  shows "jb_next_extended jb' = Some (n + 1) \<and> (\<forall>p. r = Frame p \<longrightarrow> (n, p) \<in> set (jb_packets jb))"
proof -
  have "jb_playing jb" using assms(1,2) by (simp add: jb_ok_def)
  then have "play_slot jb = (Some r, jb')" using assms(3) by (simp add: jitter_pop_def)
  then show ?thesis
    using assms(2) by (auto simp: play_slot_def dest: map_of_SomeD split: option.splits if_splits)
qed

lemma pop_waiting:
  assumes "jb_ok jb" and "jb_next_extended jb = None"
  shows "jitter_pop jb = (None, jb) \<or>
    (\<exists>k p jb'. jitter_pop jb = (Some (Frame p), jb') \<and> (k, p) \<in> set (jb_packets jb) \<and> jb_next_extended jb' = Some (k + 1))"
proof (cases "length (jb_packets jb) < jb_target_frames jb")
  case False
  then obtain k p m where m: "jb_packets jb = (k, p) # m"
    using assms(1) by (cases "jb_packets jb") (auto simp: jb_ok_def)
  then show ?thesis using False assms by (auto simp: jitter_pop_def play_slot_def jb_ok_def)
qed (use assms in \<open>simp add: jitter_pop_def jb_ok_def\<close>)

lemma push_position:
  assumes "jb_ok jb"
  shows "jb_next_extended jb = None \<longleftrightarrow> jb_next_extended (jitter_push sq p jb) = None"
    "jb_next_extended jb = Some n \<Longrightarrow> \<exists>n'. jb_next_extended (jitter_push sq p jb) = Some n' \<and> n \<le> n'"
proof -
  have "cap_backlog mx m nx ov = (m', nx', ov') \<Longrightarrow>
      (nx = None \<longleftrightarrow> nx' = None) \<and> (\<forall>n. nx = Some n \<longrightarrow> (\<exists>n'. nx' = Some n' \<and> n \<le> n'))" for mx m nx ov m' nx' ov'
    by (induction mx m nx ov rule: cap_backlog.induct) (force split: if_splits option.splits)+
  then show "jb_next_extended jb = None \<longleftrightarrow> jb_next_extended (jitter_push sq p jb) = None"
    "jb_next_extended jb = Some n \<Longrightarrow> \<exists>n'. jb_next_extended (jitter_push sq p jb) = Some n' \<and> n \<le> n'"
    by (cases rule: jitter_push_cases [of sq jb p]; force)+
qed

definition payloads :: "jitter_output list \<Rightarrow> bytes list" where
  "payloads outs = List.map_filter (\<lambda>r. case r of Frame p \<Rightarrow> Some p | Lost \<Rightarrow> None) outs"

definition stream_ops :: "u32 \<Rightarrow> (nat \<Rightarrow> bytes) \<Rightarrow> jitter_op list \<Rightarrow> bool" where
  "stream_ops base pay ops \<longleftrightarrow> (\<forall>op\<in>set ops. op = Pop \<or> (\<exists>k<2 ^ 31. op = Push (base + of_nat k) (pay k)))"

lemma plays_on_in_order:
  assumes "stream_ops base pay ops" and "jb_ok jb" and "of_stream base pay first jb" and "jb_anchor jb \<noteq> None"
    and "jb_next_extended jb = Some n" and "fst (jitter_run ops jb) = map Some outs"
  shows "\<exists>ks. sorted_wrt (<) ks \<and> payloads outs = map pay ks \<and> (\<forall>k\<in>set ks. n \<le> int k - first)"
  using assms
proof (induction ops arbitrary: jb n outs)
  case Nil
  then show ?case by (auto simp: payloads_def List.map_filter_simps)
next
  case (Cons op ops)
  have ops: "stream_ops base pay ops" using Cons.prems(1) by (simp add: stream_ops_def)
  consider "op = Pop" | k where "k < 2 ^ 31" "op = Push (base + of_nat k) (pay k)"
    using Cons.prems(1) by (auto simp: stream_ops_def)
  then show ?case
  proof cases
    case 1
    obtain r jb' where p: "jitter_pop jb = (r, jb')" by force
    then obtain r' outs' where r: "r = Some r'" "outs = r' # outs'" "fst (jitter_run ops jb') = map Some outs'"
      using Cons.prems(6) 1 by (auto simp: case_prod_unfold Let_def)
    have jb': "jb_ok jb'" "of_stream base pay first jb'" "jb_anchor jb' \<noteq> None"
      using jb_ok_pop [OF Cons.prems(2)] of_stream_pop [OF Cons.prems(3,2)] jitter_pop_keeps(2) [of jb] Cons.prems(4) p
      by simp_all
    note n = pop_playing [OF Cons.prems(2,5) p [unfolded r(1)]]
    obtain ks where ks: "sorted_wrt (<) ks" "payloads outs' = map pay ks" "\<forall>k\<in>set ks. n + 1 \<le> int k - first"
      using Cons.IH [OF ops jb' _ r(3)] n by blast
    show ?thesis
    proof (cases r')
      case (Frame q)
      then obtain k where "n = int k - first" "q = pay k"
        using n Cons.prems(3) unfolding of_stream_def by blast
      then show ?thesis using ks Frame r(2)
        by (intro exI [of _ "k # ks"]) (force simp: payloads_def List.map_filter_simps)
    qed (use ks r(2) in \<open>force simp: payloads_def List.map_filter_simps\<close>)
  next
    case (2 k)
    let ?jb = "jitter_push (base + of_nat k) (pay k) jb"
    obtain n' where n': "jb_next_extended ?jb = Some n'" "n \<le> n'" using push_position(2) [OF Cons.prems(2,5)] by blast
    have "jb_ok ?jb" "of_stream base pay first ?jb" "jb_anchor ?jb \<noteq> None"
      using jb_ok_push [OF Cons.prems(2)] of_stream_push [OF Cons.prems(3) 2(1)] Cons.prems(4)
      by (auto intro: jitter_push_cases [of "base + of_nat k" jb "pay k"])
    moreover have "fst (jitter_run ops ?jb) = map Some outs"
      using Cons.prems(6) 2(2) by (simp add: case_prod_unfold Let_def)
    ultimately show ?thesis using Cons.IH [OF ops _ _ _ n'(1)] n'(2) by force
  qed
qed

lemma starts_and_plays_in_order:
  assumes "stream_ops base pay ops" and "jb_ok jb" and "of_stream base pay first jb" and "jb_next_extended jb = None"
    and "fst (jitter_run ops jb) = replicate j None @ map Some outs"
  shows "\<exists>ks. sorted_wrt (<) ks \<and> payloads outs = map pay ks"
  using assms
proof (induction ops arbitrary: jb j first)
  case Nil
  then show ?case by (auto simp: payloads_def List.map_filter_simps)
next
  case (Cons op ops)
  have ops: "stream_ops base pay ops" using Cons.prems(1) by (simp add: stream_ops_def)
  consider "op = Pop" | k where "k < 2 ^ 31" "op = Push (base + of_nat k) (pay k)"
    using Cons.prems(1) by (auto simp: stream_ops_def)
  then show ?case
  proof cases
    case 1
    show ?thesis
    proof (cases "jitter_pop jb = (None, jb)")
      case True
      then obtain j' where "fst (jitter_run ops jb) = replicate j' None @ map Some outs"
        using Cons.prems(5) 1 by (cases j) (auto simp: case_prod_unfold Let_def)
      then show ?thesis using Cons.IH [OF ops Cons.prems(2-4)] by blast
    next
      case False
      then obtain e p jb' where p: "jitter_pop jb = (Some (Frame p), jb')" "(e, p) \<in> set (jb_packets jb)"
          "jb_next_extended jb' = Some (e + 1)"
        using pop_waiting [OF Cons.prems(2,4)] by blast
      then obtain outs' where outs: "outs = Frame p # outs'" "fst (jitter_run ops jb') = map Some outs'"
        using Cons.prems(5) 1 by (cases j) (auto simp: case_prod_unfold Let_def)
      have jb': "jb_ok jb'" "of_stream base pay first jb'"
        using jb_ok_pop [OF Cons.prems(2)] of_stream_pop [OF Cons.prems(3,2)] p(1) by simp_all
      have "jb_anchor jb' \<noteq> None"
        using p jitter_pop_keeps(2) [of jb] Cons.prems(3) by (auto simp: of_stream_def)
      from plays_on_in_order [OF ops jb' this p(3) outs(2)]
      obtain ks where ks: "sorted_wrt (<) ks" "payloads outs' = map pay ks" "\<forall>k\<in>set ks. e + 1 \<le> int k - first"
        by blast
      obtain k where "e = int k - first" "p = pay k" using of_stream_held [OF Cons.prems(3) p(2)] by blast
      then show ?thesis using ks outs(1)
        by (intro exI [of _ "k # ks"]) (force simp: payloads_def List.map_filter_simps)
    qed
  next
    case (2 k)
    let ?jb = "jitter_push (base + of_nat k) (pay k) jb" and ?first = "if jb_anchor jb = None then int k else first"
    have "of_stream base pay ?first jb" using Cons.prems(3) by (auto simp: of_stream_def)
    then have "of_stream base pay ?first ?jb" using 2(1) by (rule of_stream_push) simp
    moreover have "jb_ok ?jb" "jb_next_extended ?jb = None"
      using jb_ok_push [OF Cons.prems(2)] push_position(1) [OF Cons.prems(2)] Cons.prems(4) by simp_all
    moreover have "fst (jitter_run ops ?jb) = replicate j None @ map Some outs"
      using Cons.prems(5) 2(2) by (simp add: case_prod_unfold Let_def)
    ultimately show ?thesis using Cons.IH [OF ops] by blast
  qed
qed

text \<open>
  C29. However arrivals and ticks interleave, with duplicates, losses and overflow of the backlog,
  the frames of a burst that come out between its start and the first underrun come out in the order
  they were sent, none of them twice.
\<close>

theorem frames_never_play_out_of_order:
  assumes "jb_ok jb" and "\<forall>op\<in>set ops. op = Pop \<or> (\<exists>k<2 ^ 31. op = Push (base + of_nat k) (pay k))"
    and "fst (jitter_run ops (jitter_reset jb)) = replicate j None @ map Some outs"
  shows "\<exists>ks. sorted_wrt (<) ks \<and> payloads outs = map pay ks"
proof (rule starts_and_plays_in_order [OF _ jb_ok_reset [OF assms(1)] _ _ assms(3)])
  show "stream_ops base pay ops" using assms(2) by (simp add: stream_ops_def)
  show "of_stream base pay 0 (jitter_reset jb)" "jb_next_extended (jitter_reset jb) = None"
    by (simp_all add: of_stream_def jitter_reset_def)
qed

section \<open>Where the buffer forgets what it played\<close>

text \<open>
  The test against late frames needs a playback position, and running dry clears it: a duplicate of
  a frame that was played is refused while the buffer plays and played a second time after a pause.
\<close>

lemmas jitter_eval = jitter_new_def jitter_push_def jitter_pop_def play_slot_def extend_def too_late_def Let_def

theorem duplicates_are_replayed_after_an_underrun:
  "fst (jitter_run [Push 5 [0], Pop, Push 5 [0], Pop, Push 5 [0], Pop] (jitter_new 1 16)) =
     [Some (Frame [0]), None, Some (Frame [0])]"
  by (simp add: jitter_eval)


theorem frames_never_play_out_of_order_witness:
  "fst (jitter_run [Push 5 [5], Pop, Push 6 [6], Push 5 [5], Pop] (jitter_reset (jitter_new 1 16))) =
       replicate 0 None @ map Some [Frame [5], Frame [6]] \<and>
     (\<exists>ks. sorted_wrt (<) ks \<and> payloads [Frame [5], Frame [6]] = map (\<lambda>k. [of_nat k]) ks)"
proof -
  have run: "fst (jitter_run [Push 5 [5], Pop, Push 6 [6], Push 5 [5], Pop] (jitter_reset (jitter_new 1 16))) =
       replicate 0 None @ map Some [Frame [5], Frame [6]]"
    by (simp add: jitter_eval jitter_reset_def)
  have "\<forall>op\<in>set [Push 5 [5], Pop, Push 6 [6], Push 5 [5], Pop]. op = Pop \<or>
      (\<exists>k<2 ^ 31. op = Push (0 + of_nat k) ((\<lambda>k. [of_nat k]) k))"
    by (auto intro: exI [of _ 5] exI [of _ 6])
  from frames_never_play_out_of_order [OF jb_ok_new this run] run show ?thesis by blast
qed

end
