(* ===== verification/Pickle_Mixer.thy ===== *)
theory Pickle_Mixer
  imports Pickle_Capture Pickle_Jitter
begin

text \<open>
  The listening half of the audio path (\<open>pickle-audio/src/mixer.rs\<close>): one jitter buffer and one
  decoder per speaker, mixed into one frame per tick. Shown are what a rendered frame is exactly,
  that speakers never influence each other (the mixer refines independent per-speaker machines),
  and that a speaker who stopped is released.
\<close>

section \<open>Decoding\<close>

definition decoder_new :: "('e, 'd) opus \<Rightarrow> codec_error + 'd" where
  "decoder_new op = (case op_new_decoder op of Inl e \<Rightarrow> Inl (Opus e) | Inr d \<Rightarrow> Inr d)"

definition decode :: "('e, 'd) opus \<Rightarrow> bytes \<Rightarrow> 'd \<Rightarrow> (codec_error + sample list) \<times> 'd" where
  "decode op packet d =
     (case op_decode op packet d of (Inl e, d) \<Rightarrow> (Inl (Opus e), d) | (Inr pcm, d) \<Rightarrow> (Inr pcm, d))"

text \<open>An empty packet is the codec's signal for a lost one.\<close>

definition conceal :: "('e, 'd) opus \<Rightarrow> 'd \<Rightarrow> (codec_error + sample list) \<times> 'd" where
  "conceal op d =
     (case op_decode op [] d of (Inl e, d) \<Rightarrow> (Inl (Opus e), d) | (Inr pcm, d) \<Rightarrow> (Inr pcm, d))"

section \<open>The mixer\<close>

definition IDLE_FRAMES_BEFORE_RELEASE :: u32 where "IDLE_FRAMES_BEFORE_RELEASE = 100"

record 'd sender_stream =
  ss_jitter :: jitter_buffer
  ss_decoder :: 'd
  ss_gain :: real
  ss_muted :: bool
  ss_speaking :: bool
  ss_idle_frames :: u32

record 'd voice_mixer =
  mx_streams :: "(client_id, 'd sender_stream) hash_map"
  mx_master_gain :: real
  mx_deafened :: bool

definition mixer_new :: "'d voice_mixer" where
  "mixer_new = \<lparr>mx_streams = [], mx_master_gain = 1, mx_deafened = False\<rparr>"

definition fresh_stream :: "'d \<Rightarrow> 'd sender_stream" where
  "fresh_stream d = \<lparr>ss_jitter = jitter_default, ss_decoder = d, ss_gain = 1, ss_muted = False,
     ss_speaking = False, ss_idle_frames = 0\<rparr>"

text \<open>What a packet does to its sender's stream.\<close>

definition stream_accept :: "voice_downstream \<Rightarrow> 'd sender_stream \<Rightarrow> 'd sender_stream" where
  "stream_accept packet s =
     (let j = (if starts_burst packet then jitter_reset (ss_jitter s) else ss_jitter s)
      in s\<lparr>ss_idle_frames := 0, ss_jitter := jitter_push (vd_seq packet) (vd_payload packet) j\<rparr>)"

definition accept :: "('e, 'd) opus \<Rightarrow> voice_downstream \<Rightarrow> 'd voice_mixer \<Rightarrow> (codec_error + unit) \<times> 'd voice_mixer" where
  "accept op packet m =
     (case (case map_of (mx_streams m) (vd_sender packet) of
              Some s \<Rightarrow> Inr s
            | None \<Rightarrow> (case decoder_new op of Inl e \<Rightarrow> Inl e | Inr d \<Rightarrow> Inr (fresh_stream d))) of
        Inl e \<Rightarrow> (Inl e, m)
      | Inr s \<Rightarrow> (Inr (), m\<lparr>mx_streams := AList.update (vd_sender packet) (stream_accept packet s) (mx_streams m)\<rparr>))"

text \<open>One tick of a stream: the samples it decoded, if any. \<open>saturating_add\<close> stops at the largest
  value.\<close>

definition saturating_inc :: "u32 \<Rightarrow> u32" where
  "saturating_inc n = (if n = - 1 then n else n + 1)"

definition stream_decode :: "('e, 'd) opus \<Rightarrow> jitter_output option \<Rightarrow> 'd \<Rightarrow> sample list option \<times> 'd" where
  "stream_decode op frame d =
     (case frame of
        Some (Frame payload) \<Rightarrow> (let (r, d) = decode op payload d in (ok r, d))
      | Some Lost \<Rightarrow> (let (r, d) = conceal op d in (ok r, d))
      | None \<Rightarrow> (None, d))"

definition stream_tick :: "('e, 'd) opus \<Rightarrow> 'd sender_stream \<Rightarrow> sample list option \<times> 'd sender_stream" where
  "stream_tick op s =
     (let (frame, j) = jitter_pop (ss_jitter s);
          (decoded, d) = stream_decode op frame (ss_decoder s);
          s = s\<lparr>ss_jitter := j, ss_decoder := d\<rparr>
      in case decoded of
           None \<Rightarrow> (None, s\<lparr>ss_speaking := False, ss_idle_frames := saturating_inc (ss_idle_frames s)\<rparr>)
         | Some pcm \<Rightarrow> (Some pcm, s\<lparr>ss_speaking := True, ss_idle_frames := 0\<rparr>))"

definition finished :: "sample list option \<Rightarrow> 'd sender_stream \<Rightarrow> bool" where
  "finished decoded s \<longleftrightarrow> decoded = None \<and> ss_idle_frames s > IDLE_FRAMES_BEFORE_RELEASE"

text \<open>Adding samples to the output, as far as both reach.\<close>

fun mix_into :: "real \<Rightarrow> sample list \<Rightarrow> sample list \<Rightarrow> sample list" where
  "mix_into gain (p # pcm) (s # out) = (s + p * gain) # mix_into gain pcm out"
| "mix_into gain pcm out = out"

text \<open>The loop over the streams.\<close>

fun render_streams ::
  "('e, 'd) opus \<Rightarrow> bool \<Rightarrow> real \<Rightarrow> (client_id \<times> 'd sender_stream) list \<Rightarrow> sample list \<Rightarrow> nat \<Rightarrow> client_id list \<Rightarrow>
     (client_id \<times> 'd sender_stream) list \<times> sample list \<times> nat \<times> client_id list" where
  "render_streams op deafened master [] out n fin = ([], out, n, fin)"
| "render_streams op deafened master ((client, s) # rest) out n fin =
     (let (decoded, s') = stream_tick op s;
          (out, n, fin) =
            (case decoded of
               None \<Rightarrow> (out, n, if finished decoded s' then fin @ [client] else fin)
             | Some pcm \<Rightarrow>
                 if ss_muted s' \<or> deafened then (out, n, fin)
                 else (mix_into (ss_gain s' * master) pcm out, n + 1, fin));
          (rest, r) = render_streams op deafened master rest out n fin
      in ((client, s') # rest, r))"

definition clamp :: "real \<Rightarrow> real" where
  "clamp x = max (- 1) (min 1 x)"

definition render :: "('e, 'd) opus \<Rightarrow> sample list \<Rightarrow> 'd voice_mixer \<Rightarrow> nat \<times> sample list \<times> 'd voice_mixer" where
  "render op out m =
     (let out = map (\<lambda>_. 0) out in
      if length out \<noteq> SAMPLES_PER_FRAME then (0, out, m)
      else
        let (streams, out, contributors, fin) =
              render_streams op (mx_deafened m) (mx_master_gain m) (mx_streams m) out 0 []
        in (contributors, map clamp out, m\<lparr>mx_streams := fold AList.delete fin streams\<rparr>))"

definition set_gain :: "client_id \<Rightarrow> real \<Rightarrow> 'd voice_mixer \<Rightarrow> 'd voice_mixer" where
  "set_gain client gain m =
     m\<lparr>mx_streams := AList.map_entry client (\<lambda>s. s\<lparr>ss_gain := max gain 0\<rparr>) (mx_streams m)\<rparr>"

definition mixer_set_muted :: "client_id \<Rightarrow> bool \<Rightarrow> 'd voice_mixer \<Rightarrow> 'd voice_mixer" where
  "mixer_set_muted client muted m =
     m\<lparr>mx_streams := AList.map_entry client (\<lambda>s. s\<lparr>ss_muted := muted\<rparr>) (mx_streams m)\<rparr>"

definition set_master_gain :: "real \<Rightarrow> 'd voice_mixer \<Rightarrow> 'd voice_mixer" where
  "set_master_gain gain m = m\<lparr>mx_master_gain := max gain 0\<rparr>"

definition clear_speakers :: "'d voice_mixer \<Rightarrow> 'd voice_mixer" where
  "clear_speakers m = m\<lparr>mx_streams := []\<rparr>"

definition mixer_clear :: "'d voice_mixer \<Rightarrow> 'd voice_mixer" where
  "mixer_clear m = m\<lparr>mx_streams := []\<rparr>"

definition set_deafened :: "bool \<Rightarrow> 'd voice_mixer \<Rightarrow> 'd voice_mixer" where
  "set_deafened deafened m = m\<lparr>mx_deafened := deafened\<rparr>"

definition mixer_remove :: "client_id \<Rightarrow> 'd voice_mixer \<Rightarrow> 'd voice_mixer" where
  "mixer_remove client m = m\<lparr>mx_streams := AList.delete client (mx_streams m)\<rparr>"

definition speaking :: "'d voice_mixer \<Rightarrow> client_id list" where
  "speaking m = map fst (filter (\<lambda>(_, s). ss_speaking s) (mx_streams m))"

definition mixer_stats :: "client_id \<Rightarrow> 'd voice_mixer \<Rightarrow> jitter_stats option" where
  "mixer_stats client m = map_option (jb_stats \<circ> ss_jitter) (map_of (mx_streams m) client)"

definition active_streams :: "'d voice_mixer \<Rightarrow> nat" where
  "active_streams m = length (mx_streams m)"

section \<open>What a rendered frame is\<close>

text \<open>The speakers a tick lets through, with their effective gain.\<close>

definition heard :: "('e, 'd) opus \<Rightarrow> bool \<Rightarrow> real \<Rightarrow> (client_id \<times> 'd sender_stream) list \<Rightarrow> (real \<times> sample list) list" where
  "heard op deafened master streams =
     List.map_filter (\<lambda>(_, s). case fst (stream_tick op s) of
       Some pcm \<Rightarrow> if ss_muted s \<or> deafened then None else Some (ss_gain s * master, pcm)
     | None \<Rightarrow> None) streams"

definition mixed :: "(real \<times> sample list) list \<Rightarrow> nat \<Rightarrow> sample" where
  "mixed hs i = (\<Sum>(g, pcm)\<leftarrow>hs. if i < length pcm then pcm ! i * g else 0)"

lemma length_mix_into [simp]: "length (mix_into g pcm out) = length out"
  by (induction g pcm out rule: mix_into.induct) auto

lemma nth_mix_into: "i < length out \<Longrightarrow> mix_into g pcm out ! i = out ! i + (if i < length pcm then pcm ! i * g else 0)"
proof (induction g pcm out arbitrary: i rule: mix_into.induct)
  case (1 g p pcm s out)
  then show ?case by (cases i) auto
qed auto

lemma stream_tick_fields [simp]:
  "ss_gain (snd (stream_tick op s)) = ss_gain s" "ss_muted (snd (stream_tick op s)) = ss_muted s"
  by (simp_all add: stream_tick_def case_prod_unfold Let_def split: option.splits)

lemma stream_tick_speaking: "ss_speaking (snd (stream_tick op s)) \<longleftrightarrow> fst (stream_tick op s) \<noteq> None"
  by (simp add: stream_tick_def case_prod_unfold Let_def split: option.splits)

lemma render_streams_exact:
  assumes "render_streams op deaf master streams out n fin = (streams', out', n', fin')"
  shows "length out' = length out \<and>
    (\<forall>i<length out. out' ! i = out ! i + mixed (heard op deaf master streams) i) \<and>
    n' = n + length (heard op deaf master streams) \<and>
    streams' = map (\<lambda>(c, s). (c, snd (stream_tick op s))) streams \<and>
    fin' = fin @ map fst (filter (\<lambda>(c, s). finished (fst (stream_tick op s)) (snd (stream_tick op s))) streams)"
  using assms
proof (induction streams arbitrary: out n fin streams' out' n' fin')
  case Nil
  then show ?case by (simp add: heard_def mixed_def List.map_filter_simps)
next
  case (Cons cs streams)
  obtain c s where cs: "cs = (c, s)" by (cases cs)
  let ?h = "heard op deaf master"
  obtain d s' where t: "stream_tick op s = (d, s')" by force
  have fields: "ss_gain s' = ss_gain s" "ss_muted s' = ss_muted s" using stream_tick_fields [of op s] t by auto
  consider (none) "d = None" | (silenced) pcm where "d = Some pcm" "ss_muted s \<or> deaf"
    | (audible) pcm where "d = Some pcm" "\<not> (ss_muted s \<or> deaf)" by (cases d) auto
  then show ?case
  proof cases
    case none
    let ?fin = "if finished d s' then fin @ [c] else fin"
    obtain st o2 n2 f where r: "render_streams op deaf master streams out n ?fin = (st, o2, n2, f)"
      using prod_cases4 by blast
    then have "streams' = (c, s') # st" "out' = o2" "n' = n2" "fin' = f"
      using Cons.prems none by (simp_all add: cs t Let_def)
    moreover have "?h (cs # streams) = ?h streams" using none by (simp add: heard_def cs t List.map_filter_simps)
    ultimately show ?thesis using Cons.IH [OF r] by (simp add: cs t)
  next
    case (silenced pcm)
    obtain st o2 n2 f where r: "render_streams op deaf master streams out n fin = (st, o2, n2, f)"
      using prod_cases4 by blast
    then have "streams' = (c, s') # st" "out' = o2" "n' = n2" "fin' = f"
      using Cons.prems silenced by (simp_all add: cs t Let_def fields)
    moreover have "?h (cs # streams) = ?h streams" using silenced by (simp add: heard_def cs t List.map_filter_simps)
    ultimately show ?thesis using Cons.IH [OF r] silenced(1) by (simp add: cs t finished_def)
  next
    case (audible pcm)
    let ?out = "mix_into (ss_gain s * master) pcm out"
    obtain st o2 n2 f where r: "render_streams op deaf master streams ?out (n + 1) fin = (st, o2, n2, f)"
      using prod_cases4 by blast
    then have "streams' = (c, s') # st" "out' = o2" "n' = n2" "fin' = f"
      using Cons.prems audible by (simp_all add: cs t Let_def fields)
    moreover have "?h (cs # streams) = (ss_gain s * master, pcm) # ?h streams"
      using audible by (simp add: heard_def cs t List.map_filter_simps)
    ultimately show ?thesis
      using Cons.IH [OF r] audible(1) by (simp add: cs t finished_def mixed_def nth_mix_into)
  qed
qed

text \<open>The tick of one stream as seen in the map of streams: it advances, or it is released.\<close>

definition after_tick :: "('e, 'd) opus \<Rightarrow> 'd sender_stream \<Rightarrow> 'd sender_stream option" where
  "after_tick op s = (let (d, s') = stream_tick op s in if finished d s' then None else Some s')"

lemma map_of_fold_delete: "map_of (fold AList.delete ks m) k = (if k \<in> set ks then None else map_of m k)"
  by (induction ks arbitrary: m) (auto simp: delete_conv')

lemma distinct_fold_delete: "distinct (map fst m) \<Longrightarrow> distinct (map fst (fold AList.delete ks m))"
  by (induction ks arbitrary: m) (auto simp: distinct_delete)

lemma render_streams_of:
  assumes "length out = SAMPLES_PER_FRAME" and "distinct (map fst (mx_streams m))" and "render op out m = (n, out', m')"
  shows "distinct (map fst (mx_streams m'))"
    and "map_of (mx_streams m') c = Option.bind (map_of (mx_streams m) c) (after_tick op)"
    and "mx_master_gain m' = mx_master_gain m" and "mx_deafened m' = mx_deafened m"
proof -
  define tick where "tick = map (\<lambda>(c, s). (c, snd (stream_tick op s))) (mx_streams m)"
  define fin where "fin = map fst (filter (\<lambda>(c, s). finished (fst (stream_tick op s)) (snd (stream_tick op s))) (mx_streams m))"
  obtain st o2 n2 f where r: "render_streams op (mx_deafened m) (mx_master_gain m) (mx_streams m) (map (\<lambda>_. 0) out) 0 [] = (st, o2, n2, f)"
    using prod_cases4 by blast
  from render_streams_exact [OF r] have m': "m' = m\<lparr>mx_streams := fold AList.delete fin tick\<rparr>"
    using assms(1,3) r by (simp add: render_def Let_def tick_def fin_def)
  have "map fst tick = map fst (mx_streams m)" by (simp add: tick_def case_prod_unfold comp_def)
  then show "distinct (map fst (mx_streams m'))" using assms(2) m' distinct_fold_delete [of tick fin] by simp
  show "mx_master_gain m' = mx_master_gain m" "mx_deafened m' = mx_deafened m" by (simp_all add: m')
  have "c \<in> set fin \<longleftrightarrow> (\<exists>s. map_of (mx_streams m) c = Some s \<and> finished (fst (stream_tick op s)) (snd (stream_tick op s)))"
    using assms(2) by (force simp: fin_def map_of_eq_Some_iff)
  moreover have "map_of tick c = map_option (\<lambda>s. snd (stream_tick op s)) (map_of (mx_streams m) c)"
    unfolding tick_def by (rule map_of_map_val)
  ultimately show "map_of (mx_streams m') c = Option.bind (map_of (mx_streams m) c) (after_tick op)"
    by (cases "map_of (mx_streams m) c") (auto simp: m' map_of_fold_delete after_tick_def case_prod_unfold Let_def)
qed

lemma finished_not_speaking: "finished (fst (stream_tick op s)) s' \<Longrightarrow> \<not> ss_speaking (snd (stream_tick op s))"
  by (simp add: finished_def stream_tick_speaking)

lemma clamp_range: "\<bar>clamp x\<bar> \<le> 1"
  by (simp add: clamp_def abs_le_iff)



section \<open>Speakers do not influence each other\<close>

datatype mixer_op = Accept voice_downstream | Render "sample list" | SetGain client_id real
  | SetMuted client_id bool | SetMasterGain real | SetDeafened bool | Remove client_id | ClearSpeakers

fun mixer_step :: "('e, 'd) opus \<Rightarrow> mixer_op \<Rightarrow> 'd voice_mixer \<Rightarrow> 'd voice_mixer" where
  "mixer_step op (Accept p) m = snd (accept op p m)"
| "mixer_step op (Render out) m = snd (snd (render op out m))"
| "mixer_step op (SetGain c g) m = set_gain c g m"
| "mixer_step op (SetMuted c b) m = mixer_set_muted c b m"
| "mixer_step op (SetMasterGain g) m = set_master_gain g m"
| "mixer_step op (SetDeafened b) m = set_deafened b m"
| "mixer_step op (Remove c) m = mixer_remove c m"
| "mixer_step op ClearSpeakers m = clear_speakers m"

text \<open>The machine of one speaker: absent, or a stream.\<close>

fun own_step :: "('e, 'd) opus \<Rightarrow> client_id \<Rightarrow> mixer_op \<Rightarrow> 'd sender_stream option \<Rightarrow> 'd sender_stream option" where
  "own_step op c (Accept p) s =
     (if vd_sender p \<noteq> c then s
      else case s of
        Some s \<Rightarrow> Some (stream_accept p s)
      | None \<Rightarrow> (case decoder_new op of Inl _ \<Rightarrow> None | Inr d \<Rightarrow> Some (stream_accept p (fresh_stream d))))"
| "own_step op c (Render out) s = (if length out = SAMPLES_PER_FRAME then Option.bind s (after_tick op) else s)"
| "own_step op c (SetGain c' g) s = (if c' = c then map_option (\<lambda>s. s\<lparr>ss_gain := max g 0\<rparr>) s else s)"
| "own_step op c (SetMuted c' b) s = (if c' = c then map_option (\<lambda>s. s\<lparr>ss_muted := b\<rparr>) s else s)"
| "own_step op c (SetMasterGain g) s = s"
| "own_step op c (SetDeafened b) s = s"
| "own_step op c (Remove c') s = (if c' = c then None else s)"
| "own_step op c ClearSpeakers s = None"

lemma map_of_map_entry: "map_of (AList.map_entry k f m) c = (if c = k then map_option f (map_of m c) else map_of m c)"
  by (induction m) auto

lemma mixer_step_refines:
  assumes "hm_invar (mx_streams m)"
  shows "hm_invar (mx_streams (mixer_step op e m)) \<and>
    map_of (mx_streams (mixer_step op e m)) c = own_step op c e (map_of (mx_streams m) c)"
proof (cases e)
  case (Accept p)
  then show ?thesis
    using assms
    by (cases "map_of (mx_streams m) (vd_sender p)"; cases "decoder_new op")
      (auto simp: accept_def hm.invar_insert update_conv')
next
  case (Render out)
  obtain n out' m' where r: "render op out m = (n, out', m')" using prod_cases3 by blast
  show ?thesis
  proof (cases "length out = SAMPLES_PER_FRAME")
    case True
    then show ?thesis
      using render_streams_of [OF True _ r] assms by (simp add: Render r hm_invar_def)
  next
    case False
    then show ?thesis using assms by (simp add: Render render_def Let_def)
  qed
qed (use assms in \<open>auto simp: set_gain_def mixer_set_muted_def set_master_gain_def set_deafened_def mixer_remove_def
    clear_speakers_def hm.invar_map_entry hm.invar_delete hm.invar_empty map_of_map_entry delete_conv'\<close>)

lemma mixer_run_refines:
  assumes "hm_invar (mx_streams m)"
  shows "hm_invar (mx_streams (fold (mixer_step op) es m)) \<and>
    map_of (mx_streams (fold (mixer_step op) es m)) c = fold (own_step op c) es (map_of (mx_streams m) c)"
  using assms
proof (induction es arbitrary: m)
  case (Cons e es)
  then show ?case using mixer_step_refines [OF Cons.prems, of op e c] by simp
qed simp

fun concerns :: "client_id \<Rightarrow> mixer_op \<Rightarrow> bool" where
  "concerns c (Accept p) = (vd_sender p = c)"
| "concerns c (SetGain c' g) = (c' = c)"
| "concerns c (SetMuted c' b) = (c' = c)"
| "concerns c (Remove c') = (c' = c)"
| "concerns c (SetMasterGain g) = False"
| "concerns c (SetDeafened b) = False"
| "concerns c _ = True"

lemma own_step_unconcerned: "\<not> concerns c e \<Longrightarrow> own_step op c e s = s"
  by (cases e) auto

lemma fold_own_step_filter: "fold (own_step op c) (filter (concerns c) es) s = fold (own_step op c) es s"
  by (induction es arbitrary: s) (simp_all add: own_step_unconcerned)

text \<open>
  C33. One speaker's connection never degrades another's: the stream the mixer keeps of a speaker
  (its buffer, decoder state, volume and marks) after any history is the one it would have if the
  packets, volumes and removals of every other speaker, the master volume and deafening had never
  happened.
\<close>

theorem speakers_are_independent:
  fixes op :: "('e, 'd) opus"
  shows "map_of (mx_streams (fold (mixer_step op) es mixer_new)) c =
   map_of (mx_streams (fold (mixer_step op) (filter (concerns c) es) mixer_new)) c"
proof -
  have "hm_invar (mx_streams (mixer_new :: 'd voice_mixer))" by (simp add: mixer_new_def hm.invar_empty)
  then show ?thesis by (simp add: mixer_run_refines fold_own_step_filter)
qed

section \<open>Release\<close>

definition slots_left :: "jitter_buffer \<Rightarrow> nat" where
  "slots_left jb =
     (if jb_packets jb = [] then 0
      else nat (Max (fst ` set (jb_packets jb)) + 1 -
        (case jb_next_extended jb of Some n \<Rightarrow> n | None \<Rightarrow> Min (fst ` set (jb_packets jb)))))"

lemma slots_left_play:
  assumes "jb_ok jb" and "jb_next_extended jb = Some n" and "play_slot jb = (r, jb')"
  shows "slots_left jb' \<le> slots_left jb \<and> (r \<noteq> None \<longrightarrow> slots_left jb' < slots_left jb)"
proof (cases "jb_packets jb = []")
  case True
  then show ?thesis using assms by (auto simp: play_slot_def slots_left_def)
next
  case False
  let ?K = "fst ` set (jb_packets jb)" and ?D = "fst ` set (AList.delete n (jb_packets jb))"
  have K: "finite ?K" "?K \<noteq> {}" using False by auto
  then have le: "n \<le> Max ?K" using assms(1,2) Max_in [OF K] unfolding jb_ok_def by blast
  have D: "?D = ?K - {n}" by (rule keys_after_delete)
  have "Max ?D - 1 < Max ?K" if "AList.delete n (jb_packets jb) \<noteq> []"
  proof -
    have "?D \<subseteq> ?K" unfolding D by blast
    moreover have "?D \<noteq> {}" using that by simp
    ultimately have "Max ?D \<le> Max ?K" using K(1) by (rule Max_mono)
    then show ?thesis by linarith
  qed
  then have "slots_left jb' < slots_left jb"
    using assms False le by (auto simp: play_slot_def slots_left_def split: option.splits)
  then show ?thesis by simp
qed

lemma slots_left_pop:
  assumes "jb_ok jb" and "jitter_pop jb = (r, jb')"
  shows "slots_left jb' \<le> slots_left jb \<and> (r \<noteq> None \<longrightarrow> slots_left jb' < slots_left jb)"
proof (cases "jb_playing jb \<or> length (jb_packets jb) < jb_target_frames jb")
  case True
  then show ?thesis
    using assms slots_left_play [OF assms(1)] by (auto simp: jitter_pop_def jb_ok_def split: if_splits)
next
  case False
  then obtain k p m where m: "jb_packets jb = (k, p) # m"
    using assms(1) by (cases "jb_packets jb") (auto simp: jb_ok_def)
  let ?jb = "jb\<lparr>jb_playing := True, jb_next_extended := Some k\<rparr>"
  have least: "\<forall>k'\<in>fst ` set (jb_packets jb). k \<le> k'"
    using assms(1) first_key_least [of k p m] by (auto simp: jb_ok_def m)
  have ok: "jb_ok ?jb" using assms(1) least by (auto simp: jb_ok_def)
  have "Min (fst ` set (jb_packets jb)) = k" using least by (intro Min_eqI) (auto simp: m)
  moreover have "jb_next_extended jb = None" using False assms(1) by (auto simp: jb_ok_def)
  ultimately have "slots_left ?jb = slots_left jb" by (simp add: slots_left_def)
  moreover have "play_slot ?jb = (r, jb')" using assms(2) False by (simp add: jitter_pop_def m)
  ultimately show ?thesis using slots_left_play [OF ok, of k r jb'] by simp
qed


text \<open>How many ticks a stream has left at most if nothing more arrives for it.\<close>

definition ticks_left :: "'d sender_stream \<Rightarrow> nat" where
  "ticks_left s = 102 * slots_left (ss_jitter s) + (101 - unat (ss_idle_frames s))"

lemma jitter_pop_ok: "jb_ok jb \<Longrightarrow> jitter_pop jb = (r, jb') \<Longrightarrow> jb_ok jb'"
  using jb_ok_pop [of jb] by simp

lemma ticks_left_tick:
  assumes "jb_ok (ss_jitter s)" and "after_tick op s = Some s'"
  shows "jb_ok (ss_jitter s') \<and> ticks_left s' < ticks_left s"
proof -
  obtain r j where p: "jitter_pop (ss_jitter s) = (r, j)" by force
  obtain dec d where d: "stream_decode op r (ss_decoder s) = (dec, d)" by force
  have ok: "jb_ok j" and sl: "slots_left j \<le> slots_left (ss_jitter s)"
      "r \<noteq> None \<longrightarrow> slots_left j < slots_left (ss_jitter s)"
    using jitter_pop_ok [OF assms(1) p] slots_left_pop [OF assms(1) p] by auto
  show ?thesis
  proof (cases dec)
    case None
    let ?i = "saturating_inc (ss_idle_frames s)"
    have s': "s' = s\<lparr>ss_jitter := j, ss_decoder := d, ss_speaking := False, ss_idle_frames := ?i\<rparr>" "\<not> ?i > 100"
      using assms(2) None by (auto simp: after_tick_def stream_tick_def p d finished_def IDLE_FRAMES_BEFORE_RELEASE_def
          split: if_splits)
    then have "?i = 1 + ss_idle_frames s" "?i \<noteq> 0" "unat ?i \<le> 100"
      by (auto simp: saturating_inc_def not_less word_le_nat_alt add_eq_0_iff2 unsigned_minus_1_eq_mask mask_eq_exp_minus_1
          split: if_splits)
    then have "unat ?i = Suc (unat (ss_idle_frames s))" "unat ?i \<le> 100"
      using unatSuc [of "ss_idle_frames s"] by simp_all
    then show ?thesis using ok sl(1) by (simp add: s'(1) ticks_left_def)
  next
    case (Some pcm)
    then have "r \<noteq> None" using d by (cases r) (auto simp: stream_decode_def)
    moreover have "s' = s\<lparr>ss_jitter := j, ss_decoder := d, ss_speaking := True, ss_idle_frames := 0\<rparr>"
      using assms(2) Some by (auto simp: after_tick_def stream_tick_def p d finished_def)
    ultimately show ?thesis using ok sl(2) by (simp add: ticks_left_def)
  qed
qed

definition full_renders :: "mixer_op list \<Rightarrow> nat" where
  "full_renders es = length (filter (\<lambda>e. case e of Render out \<Rightarrow> length out = SAMPLES_PER_FRAME | _ \<Rightarrow> False) es)"

definition hears :: "client_id \<Rightarrow> mixer_op \<Rightarrow> bool" where
  "hears c e \<longleftrightarrow> (case e of Accept p \<Rightarrow> vd_sender p = c | _ \<Rightarrow> False)"

lemma ticks_left_step:
  assumes "jb_ok (ss_jitter s)" and "\<not> hears c e" and "own_step op c e (Some s) = Some s'"
  shows "jb_ok (ss_jitter s') \<and> ticks_left s' + full_renders [e] \<le> ticks_left s"
  using assms ticks_left_tick [OF assms(1), of op s']
  by (cases e) (auto simp: hears_def full_renders_def ticks_left_def split: if_splits)

lemma own_step_absent: "\<not> hears c e \<Longrightarrow> own_step op c e None = None"
  by (cases e) (auto simp: hears_def)

lemma released_by_own_steps:
  assumes "jb_ok (ss_jitter s)" and "\<forall>e\<in>set es. \<not> hears c e" and "ticks_left s < full_renders es"
  shows "fold (own_step op c) es (Some s) = None"
  using assms
proof (induction es arbitrary: s)
  case (Cons e es)
  have rest: "fold (own_step op c) es None = None"
    using Cons.prems(2) by (induction es) (auto simp: own_step_absent)
  show ?case
  proof (cases "own_step op c e (Some s)")
    case (Some s')
    have "full_renders (e # es) = full_renders [e] + full_renders es" by (simp add: full_renders_def)
    then show ?thesis using ticks_left_step [OF Cons.prems(1) _ Some] Cons.prems(2,3) Cons.IH [of s'] Some by simp
  qed (simp add: rest)
qed (simp add: full_renders_def)

lemma own_steps_ok:
  assumes "\<And>s. st = Some s \<Longrightarrow> jb_ok (ss_jitter s)" and "fold (own_step op c) es st = Some s'"
  shows "jb_ok (ss_jitter s')"
  using assms
proof (induction es arbitrary: st)
  case (Cons e es)
  have "jb_ok (ss_jitter s)" if s: "own_step op c e st = Some s" for s
  proof (cases st)
    case None
    then show ?thesis using s
      by (cases e) (auto simp: stream_accept_def fresh_stream_def jitter_default_def jb_ok_push jb_ok_reset jb_ok_new Let_def
          split: if_splits sum.splits)
  next
    case (Some s0)
    then show ?thesis using s Cons.prems(1) ticks_left_tick
      by (cases e) (auto simp: stream_accept_def jb_ok_push jb_ok_reset Let_def split: if_splits)
  qed
  then show ?case using Cons.IH [of "own_step op c e st"] Cons.prems(2) by simp
qed simp

text \<open>
  C34. A speaker who stopped is let go: after any history there is a number of ticks, computed from
  the slots still buffered and the idle ticks already counted, after which the mixer keeps no stream
  of a speaker from whom nothing more arrived, whatever else happens meanwhile.
\<close>

theorem silent_speakers_are_released:
  assumes "map_of (mx_streams (fold (mixer_step op) es mixer_new)) c = Some s"
    and "\<forall>e\<in>set es'. \<not> hears c e"
    and "102 * slots_left (ss_jitter s) + (101 - unat (ss_idle_frames s)) < full_renders es'"
  shows "map_of (mx_streams (fold (mixer_step op) (es @ es') mixer_new)) c = None"
proof -
  have inv: "hm_invar (mx_streams mixer_new)" by (simp add: mixer_new_def hm.invar_empty)
  have own: "fold (own_step op c) es None = Some s"
    using mixer_run_refines [OF inv, of op es c] assms(1) by (simp add: mixer_new_def)
  have "jb_ok (ss_jitter s)" by (rule own_steps_ok [OF _ own]) simp
  from released_by_own_steps [OF this assms(2)] assms(3)
  have "fold (own_step op c) es' (Some s) = None" by (simp add: ticks_left_def)
  then show ?thesis using mixer_run_refines [OF inv, of op "es @ es'" c] own by (simp add: mixer_new_def)
qed


definition sample_packet :: voice_downstream where
  "sample_packet = \<lparr>vd_sender = 7, vd_seq = 0, vd_flags = FLAG_BURST_START, vd_payload = [1]\<rparr>"


theorem silent_speakers_are_released_witness:
  "\<exists>s. map_of (mx_streams (fold (mixer_step sample_opus) [Accept sample_packet] mixer_new)) 7 = Some s \<and>
     map_of (mx_streams (fold (mixer_step sample_opus) ([Accept sample_packet] @ replicate 300 (Render (replicate 960 0))) mixer_new)) 7 = None"
proof -
  obtain s where s: "map_of (mx_streams (fold (mixer_step sample_opus) [Accept sample_packet] mixer_new)) 7 = Some s"
      "slots_left (ss_jitter s) = 1" "ss_idle_frames s = 0"
    by (simp add: accept_def mixer_new_def decoder_new_def sample_opus_def sample_packet_def stream_accept_def
        fresh_stream_def jitter_default_def starts_burst_def FLAG_BURST_START_def jitter_reset_def jitter_eval
        slots_left_def DEFAULT_MAX_FRAMES_def)
  have "map_of (mx_streams (fold (mixer_step sample_opus) ([Accept sample_packet] @ replicate 300 (Render (replicate 960 0))) mixer_new)) 7 = None"
    by (rule silent_speakers_are_released [OF s(1)])
      (simp_all add: s hears_def full_renders_def SAMPLES_PER_FRAME_eq filter_replicate)
  with s(1) show ?thesis by blast
qed

end
