(* ===== verification/Pickle_Files.thy ===== *)
theory Pickle_Files
  imports Pickle_Identity
begin

text \<open>
  Secret keys on disk: the part of the file system the identity crate uses, with every call allowed
  to fail and a write to break off half way, and the single-key store of
  \<open>crates/pickle-identity/src/keystore.rs\<close>, which the server keeps its identity in. Base64 and
  the JSON printer and reader are parameters. The unix variants of the two platform-dependent
  helpers are modelled.
\<close>

section \<open>Paths and files\<close>

text \<open>
  A path as \<open>std::path\<close> takes it apart: its directory, and stem and extension of its file name.
\<close>

record path =
  p_dir :: ustring
  p_stem :: ustring
  p_extension :: "ustring option"

text \<open>\<open>Path::with_extension\<close> for a non-empty extension; a path without a file name stays as it is.\<close>

definition with_extension :: "ustring \<Rightarrow> path \<Rightarrow> path" where
  "with_extension e p = (if p_stem p = [] then p else p\<lparr>p_extension := Some e\<rparr>)"

record disk_file =
  f_bytes :: bytes
  f_mode :: u32

text \<open>
  The disk: its files, how many calls were made, and for every call whether it fails and, if it is
  a write, how many bytes got out before.
\<close>

record disk =
  d_files :: "path \<Rightarrow> disk_file option"
  d_calls :: nat
  d_fault :: "nat \<Rightarrow> nat option"

datatype io_error = Missing | OtherIo

text \<open>Rust's \<open>?\<close> and \<open>map_err\<close> on calls that also change the disk.\<close>

definition and_then :: "('e + 'a) \<times> 'd \<Rightarrow> ('a \<Rightarrow> 'd \<Rightarrow> ('e + 'b) \<times> 'd) \<Rightarrow> ('e + 'b) \<times> 'd" where
  "and_then r k = (case r of (Inl e, d) \<Rightarrow> (Inl e, d) | (Inr a, d) \<Rightarrow> k a d)"

definition map_err :: "('e \<Rightarrow> 'f) \<Rightarrow> ('e + 'a) \<times> 'd \<Rightarrow> ('f + 'a) \<times> 'd" where
  "map_err f r = (case r of (Inl e, d) \<Rightarrow> (Inl (f e), d) | (Inr a, d) \<Rightarrow> (Inr a, d))"

definition call :: "disk \<Rightarrow> nat option \<times> disk" where
  "call d = (d_fault d (d_calls d), d\<lparr>d_calls := Suc (d_calls d)\<rparr>)"

text \<open>
  \<open>str::from_utf8\<close>: two to four byte sequences, none of them overlong, a surrogate or beyond the
  last scalar value.
\<close>

definition byte_in :: "nat \<Rightarrow> nat \<Rightarrow> u8 \<Rightarrow> bool" where
  "byte_in lo hi b \<longleftrightarrow> lo \<le> unat b \<and> unat b \<le> hi"

fun is_utf8 :: "bytes \<Rightarrow> bool" where
  "is_utf8 [] \<longleftrightarrow> True"
| "is_utf8 (a # r) \<longleftrightarrow>
     (if byte_in 0 127 a then is_utf8 r
      else case r of
        [] \<Rightarrow> False
      | b # r \<Rightarrow>
          if byte_in 194 223 a then byte_in 128 191 b \<and> is_utf8 r
          else case r of
            [] \<Rightarrow> False
          | c # r \<Rightarrow>
              if byte_in 224 239 a then
                byte_in (if a = 224 then 160 else 128) (if a = 237 then 159 else 191) b \<and>
                byte_in 128 191 c \<and> is_utf8 r
              else case r of
                [] \<Rightarrow> False
              | e # r \<Rightarrow>
                  byte_in 240 244 a \<and>
                  byte_in (if a = 240 then 144 else 128) (if a = 244 then 143 else 191) b \<and>
                  byte_in 128 191 c \<and> byte_in 128 191 e \<and> is_utf8 r)"

definition read_to_string :: "path \<Rightarrow> disk \<Rightarrow> (io_error + bytes) \<times> disk" where
  "read_to_string p d =
     (case call d of
        (Some _, d) \<Rightarrow> (Inl OtherIo, d)
      | (None, d) \<Rightarrow>
          (case d_files d p of
             None \<Rightarrow> (Inl Missing, d)
           | Some f \<Rightarrow> (if is_utf8 (f_bytes f) then Inr (f_bytes f) else Inl OtherIo, d)))"

definition metadata_mode :: "path \<Rightarrow> disk \<Rightarrow> (io_error + u32) \<times> disk" where
  "metadata_mode p d =
     (case call d of
        (Some _, d) \<Rightarrow> (Inl OtherIo, d)
      | (None, d) \<Rightarrow> (case d_files d p of None \<Rightarrow> (Inl Missing, d) | Some f \<Rightarrow> (Inr (f_mode f), d)))"

definition create_dir_all :: "disk \<Rightarrow> (io_error + unit) \<times> disk" where
  "create_dir_all d = (case call d of (Some _, d) \<Rightarrow> (Inl OtherIo, d) | (None, d) \<Rightarrow> (Inr (), d))"

definition write_all :: "path \<Rightarrow> bytes \<Rightarrow> disk \<Rightarrow> (io_error + unit) \<times> disk" where
  "write_all p bs d =
     (case call d of
        (Some n, d) \<Rightarrow>
          (Inl OtherIo, d\<lparr>d_files := (d_files d)(p := map_option (\<lambda>f. f\<lparr>f_bytes := f_bytes f @ take n bs\<rparr>) (d_files d p))\<rparr>)
      | (None, d) \<Rightarrow>
          (Inr (), d\<lparr>d_files := (d_files d)(p := map_option (\<lambda>f. f\<lparr>f_bytes := f_bytes f @ bs\<rparr>) (d_files d p))\<rparr>))"

definition sync_all :: "disk \<Rightarrow> (io_error + unit) \<times> disk" where
  "sync_all d = (case call d of (Some _, d) \<Rightarrow> (Inl OtherIo, d) | (None, d) \<Rightarrow> (Inr (), d))"

definition rename_file :: "path \<Rightarrow> path \<Rightarrow> disk \<Rightarrow> (io_error + unit) \<times> disk" where
  "rename_file p q d =
     (case call d of
        (Some _, d) \<Rightarrow> (Inl OtherIo, d)
      | (None, d) \<Rightarrow>
          (case d_files d p of
             None \<Rightarrow> (Inl Missing, d)
           | Some f \<Rightarrow> (Inr (), d\<lparr>d_files := (d_files d)(p := None, q := Some f)\<rparr>)))"

definition remove_file :: "path \<Rightarrow> disk \<Rightarrow> (io_error + unit) \<times> disk" where
  "remove_file p d =
     (case call d of
        (Some _, d) \<Rightarrow> (Inl OtherIo, d)
      | (None, d) \<Rightarrow>
          (case d_files d p of
             None \<Rightarrow> (Inl Missing, d)
           | Some f \<Rightarrow> (Inr (), d\<lparr>d_files := (d_files d)(p := None)\<rparr>)))"

section \<open>Private files\<close>

text \<open>Opening for writing truncates; the mode \<open>0o600\<close> (384) is given to a new file only.\<close>

definition create_private :: "path \<Rightarrow> disk \<Rightarrow> (io_error + unit) \<times> disk" where
  "create_private p d =
     (case call d of
        (Some _, d) \<Rightarrow> (Inl OtherIo, d)
      | (None, d) \<Rightarrow>
          (Inr (), d\<lparr>d_files := (d_files d)(p := Some
             \<lparr>f_bytes = [], f_mode = (case d_files d p of None \<Rightarrow> 384 | Some f \<Rightarrow> f_mode f)\<rparr>)\<rparr>))"

datatype keystore_error =
    KsIo path io_error
  | KsMalformed path
  | KsUnsupportedVersion path u32 u32
  | KsBadKey path
  | KsPermissionsTooOpen path u32

text \<open>\<open>0o777\<close> is 511 and \<open>0o077\<close>, the rights of group and others, 63.\<close>

definition check_permissions :: "path \<Rightarrow> disk \<Rightarrow> (keystore_error + unit) \<times> disk" where
  "check_permissions p d =
     and_then (map_err (KsIo p) (metadata_mode p d)) (\<lambda>mode d.
       let mode = mode AND 511
       in if mode AND 63 \<noteq> 0 then (Inl (KsPermissionsTooOpen p mode), d) else (Inr (), d))"

section \<open>The single-key store\<close>

definition KEYSTORE_VERSION :: u32 where "KEYSTORE_VERSION = 1"

record stored_identity =
  sid_version :: u32
  sid_secret_key :: ustring
  sid_counter :: u64
  sid_nickname :: ustring

record loaded_identity =
  li_identity :: identity
  li_nickname :: ustring

text \<open>The libraries the store calls: base64, and the JSON form of its document.\<close>

record key_lib =
  b64_encode :: "bytes \<Rightarrow> ustring"
  b64_decode :: "ustring \<Rightarrow> bytes option"
  print_identity :: "stored_identity \<Rightarrow> bytes"
  parse_identity :: "bytes \<Rightarrow> stored_identity option"

text \<open>\<open>BASE64.decode(..).ok().and_then(|b| <[u8; 32]>::try_from(..).ok())\<close>.\<close>

definition decode_secret :: "'z key_lib_scheme \<Rightarrow> ustring \<Rightarrow> bytes option" where
  "decode_secret L s =
     (case b64_decode L s of None \<Rightarrow> None | Some b \<Rightarrow> if length b = 32 then Some b else None)"

definition ks_load :: "'z key_lib_scheme \<Rightarrow> path \<Rightarrow> disk \<Rightarrow> (keystore_error + loaded_identity) \<times> disk" where
  "ks_load L path d =
     and_then (map_err (KsIo path) (read_to_string path d)) (\<lambda>raw d.
     and_then (check_permissions path d) (\<lambda>_ d.
       (case parse_identity L raw of
          None \<Rightarrow> Inl (KsMalformed path)
        | Some stored \<Rightarrow>
            if sid_version stored \<noteq> KEYSTORE_VERSION then
              Inl (KsUnsupportedVersion path (sid_version stored) KEYSTORE_VERSION)
            else (case decode_secret L (sid_secret_key stored) of
                    None \<Rightarrow> Inl (KsBadKey path)
                  | Some secret \<Rightarrow>
                      Inr \<lparr>li_identity = \<lparr>id_secret = secret, id_counter = sid_counter stored\<rparr>,
                           li_nickname = sid_nickname stored\<rparr>),
        d)))"

definition stored_identity_of :: "'z key_lib_scheme \<Rightarrow> identity \<Rightarrow> ustring \<Rightarrow> stored_identity" where
  "stored_identity_of L ident nickname =
     \<lparr>sid_version = KEYSTORE_VERSION, sid_secret_key = b64_encode L (id_secret ident),
      sid_counter = id_counter ident, sid_nickname = nickname\<rparr>"

definition ensure_parent :: "path \<Rightarrow> disk \<Rightarrow> (io_error + unit) \<times> disk" where
  "ensure_parent path d = (if p_dir path = [] then (Inr (), d) else create_dir_all d)"

definition ks_save ::
  "'z key_lib_scheme \<Rightarrow> path \<Rightarrow> identity \<Rightarrow> ustring \<Rightarrow> disk \<Rightarrow> (keystore_error + unit) \<times> disk" where
  "ks_save L path ident nickname d =
     (let json = print_identity L (stored_identity_of L ident nickname);
          tmp = with_extension (u ''tmp'') path
      in map_err (KsIo path)
           (and_then (ensure_parent path d) (\<lambda>_ d.
            and_then (create_private tmp d) (\<lambda>_ d.
            and_then (write_all tmp json d) (\<lambda>_ d.
            and_then (write_all tmp [10] d) (\<lambda>_ d.
            and_then (sync_all d) (\<lambda>_ d.
              rename_file tmp path d)))))))"

text \<open>A fresh identity has 32 random bytes as its secret, here an argument, and counter zero.\<close>

definition ks_load_or_create ::
  "'z key_lib_scheme \<Rightarrow> bytes \<Rightarrow> path \<Rightarrow> ustring \<Rightarrow> disk \<Rightarrow> (keystore_error + loaded_identity) \<times> disk" where
  "ks_load_or_create L fresh path default_nickname d =
     (case ks_load L path d of
        (Inr loaded, d) \<Rightarrow> (Inr loaded, d)
      | (Inl (KsIo _ Missing), d) \<Rightarrow>
          (let ident = \<lparr>id_secret = fresh, id_counter = 0\<rparr>
           in and_then (ks_save L path ident default_nickname d) (\<lambda>_ d.
                (Inr \<lparr>li_identity = ident, li_nickname = default_nickname\<rparr>, d)))
      | (Inl e, d) \<Rightarrow> (Inl e, d))"

section \<open>Replacing a file as a whole\<close>

text \<open>What a call did to the disk: nothing outside the given paths.\<close>

definition touches_only :: "path set \<Rightarrow> disk \<Rightarrow> disk \<Rightarrow> bool" where
  "touches_only S d d' \<longleftrightarrow> d_fault d' = d_fault d \<and> (\<forall>p. p \<notin> S \<longrightarrow> d_files d' p = d_files d p)"

lemma touches_only_refl [simp]: "touches_only S d d"
  by (simp add: touches_only_def)

lemma touches_only_trans [trans]:
  "touches_only S d d' \<Longrightarrow> touches_only S d' d'' \<Longrightarrow> touches_only S d d''"
  by (simp add: touches_only_def)

lemmas disk_calls = call_def create_dir_all_def write_all_def sync_all_def rename_file_def
  remove_file_def create_private_def read_to_string_def metadata_mode_def ensure_parent_def

lemma and_then_simps: "and_then (Inr a, d) k = k a d" "and_then (Inl e, d) k = (Inl e, d)"
  by (simp_all add: and_then_def)

lemma and_then_cases:
  assumes "and_then r k = (x, d')"
  obtains (failed) e d where "r = (Inl e, d)" "x = Inl e" "d' = d"
        | (went_on) a d where "r = (Inr a, d)" "k a d = (x, d')"
proof (cases r)
  case (Pair y d)
  then show ?thesis using assms failed went_on by (cases y) (auto simp: and_then_def)
qed

lemma map_err_cases:
  assumes "map_err f r = (x, d')"
  obtains (failed) e where "r = (Inl e, d')" "x = Inl (f e)" | (fine) a where "r = (Inr a, d')" "x = Inr a"
proof (cases r)
  case (Pair y d)
  then show ?thesis using assms failed fine by (cases y) (auto simp: map_err_def)
qed

lemma with_extension_neq: "p_stem p \<noteq> [] \<Longrightarrow> p_extension p \<noteq> Some e \<Longrightarrow> with_extension e p \<noteq> p"
  by (cases p) (simp add: with_extension_def)

text \<open>The mode a file opened by \<open>create_private\<close> has.\<close>

definition private_mode :: "disk_file option \<Rightarrow> u32" where
  "private_mode f = (case f of None \<Rightarrow> 384 | Some f \<Rightarrow> f_mode f)"

definition sound_path :: "path \<Rightarrow> bool" where
  "sound_path p \<longleftrightarrow> p_stem p \<noteq> [] \<and> p_extension p \<noteq> Some (u ''tmp'')"

abbreviation tmp_of :: "path \<Rightarrow> path" where
  "tmp_of \<equiv> with_extension (u ''tmp'')"

lemma tmp_neq [simp]: "sound_path p \<Longrightarrow> tmp_of p \<noteq> p" "sound_path p \<Longrightarrow> p \<noteq> tmp_of p"
  using with_extension_neq [of p "u ''tmp''"] by (auto simp: sound_path_def)

text \<open>
  The contract of a save: whatever call fails and however far a write got, the file is the old one
  or the new one, whole, and nothing but it and its temporary sibling was touched.
\<close>

locale whole_writer =
  fixes store :: "path \<Rightarrow> 'a \<Rightarrow> disk \<Rightarrow> ('e + unit) \<times> disk" and content :: "'a \<Rightarrow> bytes option"
  assumes frame: "store p a d = (r, d') \<Longrightarrow> touches_only {p, tmp_of p} d d'"
    and failed: "sound_path p \<Longrightarrow> store p a d = (Inl e, d') \<Longrightarrow> d_files d' p = d_files d p"
    and stored: "sound_path p \<Longrightarrow> store p a d = (Inr (), d') \<Longrightarrow>
      (\<exists>b m. content a = Some b \<and> d_files d' p = Some \<lparr>f_bytes = b, f_mode = m\<rparr>) \<and> d_files d' (tmp_of p) = None"
begin

lemma old_or_new:
  assumes "sound_path p" and "store p a d = (r, d')"
  shows "d_files d' p = d_files d p \<or> (\<exists>b m. content a = Some b \<and> d_files d' p = Some \<lparr>f_bytes = b, f_mode = m\<rparr>)"
proof (cases r)
  case (Inl e)
  then show ?thesis using failed [OF assms(1)] assms(2) by blast
next
  case (Inr x)
  then show ?thesis using stored [OF assms(1)] assms(2) by (cases x) blast
qed

text \<open>Through any number of saves, interrupted or not, the file is never lost or torn.\<close>

lemma never_torn:
  assumes "sound_path p" and "d_files d p = Some \<lparr>f_bytes = b0, f_mode = m0\<rparr>"
  shows "\<exists>b m. d_files (fold (\<lambda>a d. snd (store p a d)) as d) p = Some \<lparr>f_bytes = b, f_mode = m\<rparr> \<and>
     (b = b0 \<or> Some b \<in> content ` set as)"
  using assms(2)
proof (induction as arbitrary: d b0 m0)
  case (Cons a as)
  obtain r d' where s: "store p a d = (r, d')" by force
  obtain b1 m1 where d1: "d_files d' p = Some \<lparr>f_bytes = b1, f_mode = m1\<rparr>" "b1 = b0 \<or> content a = Some b1"
    using old_or_new [OF assms(1) s] Cons.prems by auto
  then show ?case using Cons.IH [OF d1(1)] s by (auto simp: image_iff)
qed simp

end

text \<open>A writer of secrets also makes the file private, unless a temporary file was left over.\<close>

locale private_writer = whole_writer store content
  for store :: "path \<Rightarrow> 'a \<Rightarrow> disk \<Rightarrow> ('e + unit) \<times> disk" and content :: "'a \<Rightarrow> bytes option" +
  assumes mode: "sound_path p \<Longrightarrow> store p a d = (Inr (), d') \<Longrightarrow>
    map_option f_mode (d_files d' p) = Some (private_mode (d_files d (tmp_of p)))"
begin

text \<open>Without a left-over every save, whatever came before, ends with a private file.\<close>

lemma saves_privately:
  assumes "sound_path p" and "store p a d = (Inr (), d')" and "d_files d (tmp_of p) = None"
  shows "\<exists>b. content a = Some b \<and> d_files d' p = Some \<lparr>f_bytes = b, f_mode = 384\<rparr> \<and> d_files d' (tmp_of p) = None"
  using stored [OF assms(1,2)] mode [OF assms(1,2)] assms(3) by (auto simp: private_mode_def)

end

lemma ks_save_frame: "ks_save L p i n d = (r, d') \<Longrightarrow> touches_only {p, tmp_of p} d d'"
  by (auto simp: ks_save_def map_err_def and_then_def disk_calls touches_only_def Let_def split: option.splits if_splits)

lemma ks_save_failed: "sound_path p \<Longrightarrow> ks_save L p i n d = (Inl e, d') \<Longrightarrow> d_files d' p = d_files d p"
  by (auto simp: ks_save_def map_err_def and_then_def disk_calls Let_def split: option.splits if_splits)

lemma ks_save_stored:
  "sound_path p \<Longrightarrow> ks_save L p i n d = (Inr (), d') \<Longrightarrow>
    d_files d' p = Some \<lparr>f_bytes = print_identity L (stored_identity_of L i n) @ [10],
      f_mode = private_mode (d_files d (tmp_of p))\<rparr> \<and> d_files d' (tmp_of p) = None"
  by (auto simp: ks_save_def map_err_def and_then_def disk_calls private_mode_def Let_def split: option.splits if_splits)

interpretation ks: private_writer "\<lambda>p (i, n). ks_save L p i n"
    "\<lambda>(i, n). Some (print_identity L (stored_identity_of L i n) @ [10])" for L :: "'z key_lib_scheme"
proof (unfold_locales, goal_cases)
  case (1 p a d r d')
  then show ?case by (auto split: prod.splits intro: ks_save_frame)
next
  case (2 p a d e d')
  then show ?case by (auto split: prod.splits dest: ks_save_failed)
next
  case (3 p a d d')
  then show ?case by (auto split: prod.splits dest: ks_save_stored)
next
  case (4 p a d d')
  then show ?case by (auto split: prod.splits dest: ks_save_stored)
qed

section \<open>The server keeps its identity\<close>

definition steady :: "disk \<Rightarrow> bool" where
  "steady d \<longleftrightarrow> (\<forall>k. d_fault d k = None)"

lemma steady_touches: "touches_only S d d' \<Longrightarrow> steady d' \<longleftrightarrow> steady d"
  by (simp add: steady_def touches_only_def)

lemma ks_load_same:
  assumes "steady d" and "steady d'" and "d_files d p = d_files d' p"
  shows "fst (ks_load L p d) = fst (ks_load L p d')"
  using assms
  by (simp add: steady_def ks_load_def check_permissions_def map_err_def and_then_def disk_calls Let_def split: option.splits)

lemma ks_load_frame: "touches_only {} d (snd (ks_load L p d))"
  by (auto simp: ks_load_def check_permissions_def touches_only_def map_err_def and_then_def disk_calls Let_def
      split: option.splits if_splits)

text \<open>What the base64 and JSON libraries promise of one document.\<close>

definition identity_prints :: "'z key_lib_scheme \<Rightarrow> identity \<Rightarrow> ustring \<Rightarrow> bool" where
  "identity_prints L i n \<longleftrightarrow>
     (let doc = stored_identity_of L i n; raw = print_identity L doc @ [10]
      in is_utf8 raw \<and> parse_identity L raw = Some doc \<and>
         b64_decode L (b64_encode L (id_secret i)) = Some (id_secret i))"

lemma ks_load_file:
  assumes "steady d" and "d_files d p = Some \<lparr>f_bytes = print_identity L (stored_identity_of L i n) @ [10], f_mode = m\<rparr>"
    and "m AND 63 = 0" and "identity_prints L i n" and "length (id_secret i) = 32"
  shows "fst (ks_load L p d) = Inr \<lparr>li_identity = i, li_nickname = n\<rparr>"
proof -
  have "(m AND 511) AND 63 = m AND 63" by (simp add: and.assoc)
  then show ?thesis using assms
    by (simp add: steady_def ks_load_def check_permissions_def map_err_def and_then_def disk_calls Let_def
        identity_prints_def decode_secret_def stored_identity_of_def)
qed

text \<open>
  The identity of a server outlives its restarts: on a disk that works, what the first start loads
  or creates is what every later start loads, key, proof-of-work counter and name, whatever random
  bytes and default name it would have used for a new one.
\<close>

theorem restart_finds_the_same_identity:
  assumes "steady d" and "sound_path p" and "ks_load_or_create L fresh p name d = (Inr l, d')"
    and "d_files d (tmp_of p) = None" and "length fresh = 32"
    and "identity_prints L \<lparr>id_secret = fresh, id_counter = 0\<rparr> name"
  shows "fst (ks_load_or_create L fresh' p name' d') = Inr l"
proof -
  obtain r d1 where ld: "ks_load L p d = (r, d1)" by force
  have t: "touches_only {} d d1" using ks_load_frame [of d L p] by (simp add: ld)
  have st1: "steady d1" using steady_touches [OF t] assms(1) by simp
  show ?thesis
  proof (cases r)
    case (Inr l0)
    then have l0: "l0 = l" and d': "d1 = d'" using assms(3) ld by (auto simp: ks_load_or_create_def)
    have "fst (ks_load L p d1) = Inr l"
      using ks_load_same [OF st1 assms(1), of p L] t Inr ld l0 by (simp add: touches_only_def)
    then show ?thesis unfolding d' [symmetric] by (cases "ks_load L p d1") (auto simp: ks_load_or_create_def)
  next
    case (Inl e)
    let ?i = "\<lparr>id_secret = fresh, id_counter = 0\<rparr>"
    obtain q where "e = KsIo q Missing" and "ks_save L p ?i name d1 = (Inr (), d')" and l: "l = \<lparr>li_identity = ?i, li_nickname = name\<rparr>"
      using assms(3) ld Inl
      by (auto simp: ks_load_or_create_def and_then_def Let_def split: keystore_error.splits io_error.splits prod.splits sum.splits)
    then have s: "ks_save L p ?i name d1 = (Inr (), d')" by blast
    have "steady d'" using steady_touches [OF ks_save_frame [OF s]] st1 by simp
    moreover have "d_files d1 (tmp_of p) = None" using t assms(4) by (simp add: touches_only_def)
    ultimately have "fst (ks_load L p d') = Inr l"
      using ks_save_stored [OF assms(2) s] ks_load_file [of d' p L ?i name 384] assms(5,6) l
      by (simp add: private_mode_def)
    then show ?thesis by (cases "ks_load L p d'") (auto simp: ks_load_or_create_def)
  qed
qed

text \<open>A key file that others may read is refused, whatever is in it.\<close>

theorem shared_key_files_are_refused:
  assumes "steady d" and "d_files d p = Some f" and "is_utf8 (f_bytes f)" and "f_mode f AND 63 \<noteq> 0"
  shows "fst (ks_load L p d) = Inl (KsPermissionsTooOpen p (f_mode f AND 511)) \<and>
    fst (ks_load_or_create L fresh p name d) = Inl (KsPermissionsTooOpen p (f_mode f AND 511)) \<and>
    d_files (snd (ks_load_or_create L fresh p name d)) = d_files d"
proof -
  have "(f_mode f AND 511) AND 63 = f_mode f AND 63" by (simp add: and.assoc)
  then have "\<exists>d'. ks_load L p d = (Inl (KsPermissionsTooOpen p (f_mode f AND 511)), d') \<and> d_files d' = d_files d"
    using assms
    by (simp add: steady_def ks_load_def check_permissions_def map_err_def and_then_def disk_calls Let_def)
  then show ?thesis by (auto simp: ks_load_or_create_def)
qed

end
