(* ===== verification/Pickle_Sealed.thy ===== *)
theory Pickle_Sealed
  imports Pickle_Files
begin

text \<open>
  The passphrase envelope of the identity vault, \<open>crates/pickle-identity/src/sealed.rs\<close>: the
  header that records how the key was derived, derivation, sealing and opening, and the bytes the
  cipher authenticates beside the ciphertext. Argon2 and the cipher are parameters, and so are the
  random salt and nonce.
\<close>

section \<open>Headers and keys\<close>

definition SEALED_VERSION :: u32 where "SEALED_VERSION = 3"
definition ARGON2ID :: ustring where "ARGON2ID = u ''argon2id''"
definition XCHACHA20_POLY1305 :: ustring where "XCHACHA20_POLY1305 = u ''xchacha20poly1305''"
definition SALT_LEN :: nat where "SALT_LEN = 16"
definition NONCE_LEN :: nat where "NONCE_LEN = 24"
definition KEY_LEN :: nat where "KEY_LEN = 32"
definition AAD_CONTEXT :: bytes where "AAD_CONTEXT = b_lit ''pickle-vault-seal-v1''"
definition MAX_MEMORY_KIB :: u32 where "MAX_MEMORY_KIB = 1024 * 1024"
definition DEFAULT_MEMORY_KIB :: u32 where "DEFAULT_MEMORY_KIB = 19 * 1024"
definition DEFAULT_ITERATIONS :: u32 where "DEFAULT_ITERATIONS = 2"
definition DEFAULT_PARALLELISM :: u32 where "DEFAULT_PARALLELISM = 1"

datatype seal_error =
    Unauthentic
  | UnsupportedKdf ustring
  | UnsupportedCipher ustring
  | BadParams ustring
  | BadEncoding

record kdf_header =
  kdf_algorithm :: ustring
  kdf_version :: u32
  kdf_memory_kib :: u32
  kdf_iterations :: u32
  kdf_parallelism :: u32
  kdf_salt :: ustring

record sealed_vault =
  sv_version :: u32
  sv_kdf :: kdf_header
  sv_cipher :: ustring
  sv_nonce :: ustring
  sv_ciphertext :: ustring

record vault_key =
  vk_key :: bytes
  vk_header :: kdf_header

text \<open>
  The libraries: the shortest salt Argon2 takes and its version number, \<open>Params::new\<close> (an error
  text) and \<open>hash_password_into\<close> at the costs memory, passes and lanes, and the cipher.
\<close>

record seal_lib = key_lib +
  min_salt_len :: nat
  argon2_params :: "u32 \<Rightarrow> u32 \<Rightarrow> u32 \<Rightarrow> ustring option"
  argon2_hash :: "u32 \<Rightarrow> u32 \<Rightarrow> u32 \<Rightarrow> bytes \<Rightarrow> bytes \<Rightarrow> ustring + bytes"
  aead_encrypt :: "bytes \<Rightarrow> bytes \<Rightarrow> bytes \<Rightarrow> bytes \<Rightarrow> bytes option"
  aead_decrypt :: "bytes \<Rightarrow> bytes \<Rightarrow> bytes \<Rightarrow> bytes \<Rightarrow> bytes option"

text \<open>\<open>Version::V0x13\<close> is 19.\<close>

definition derive :: "'z seal_lib_scheme \<Rightarrow> ustring \<Rightarrow> kdf_header \<Rightarrow> seal_error + vault_key" where
  "derive L passphrase header =
     (if kdf_algorithm header \<noteq> ARGON2ID then Inl (UnsupportedKdf (kdf_algorithm header))
      else if kdf_version header \<noteq> 19 then
        Inl (BadParams (u ''argon2 version '' @ dec (unat (kdf_version header))))
      else if kdf_memory_kib header > MAX_MEMORY_KIB then
        Inl (BadParams (dec (unat (kdf_memory_kib header)) @ u '' KiB of memory is beyond the '' @
          dec (unat MAX_MEMORY_KIB) @ u '' KiB this build will allocate''))
      else case b64_decode L (kdf_salt header) of
          None \<Rightarrow> Inl BadEncoding
        | Some salt \<Rightarrow>
            if length salt < min_salt_len L then
              Inl (BadParams (u ''a '' @ dec (length salt) @ u ''-byte salt is too short''))
            else case argon2_params L (kdf_memory_kib header) (kdf_iterations header) (kdf_parallelism header) of
                Some e \<Rightarrow> Inl (BadParams e)
              | None \<Rightarrow>
                  (case argon2_hash L (kdf_memory_kib header) (kdf_iterations header) (kdf_parallelism header)
                          (as_bytes passphrase) salt of
                     Inl e \<Rightarrow> Inl (BadParams e)
                   | Inr key \<Rightarrow> Inr \<lparr>vk_key = key, vk_header = header\<rparr>))"

definition key_fresh :: "'z seal_lib_scheme \<Rightarrow> bytes \<Rightarrow> ustring \<Rightarrow> seal_error + vault_key" where
  "key_fresh L salt passphrase =
     derive L passphrase
       \<lparr>kdf_algorithm = ARGON2ID, kdf_version = 19, kdf_memory_kib = DEFAULT_MEMORY_KIB,
        kdf_iterations = DEFAULT_ITERATIONS, kdf_parallelism = DEFAULT_PARALLELISM,
        kdf_salt = b64_encode L salt\<rparr>"

section \<open>Sealing\<close>

definition push_str :: "bytes \<Rightarrow> ustring \<Rightarrow> bytes" where
  "push_str buf value = buf @ to_le_bytes 8 (of_nat (utf8_len value) :: u64) @ as_bytes value"

definition associated_data :: "u32 \<Rightarrow> kdf_header \<Rightarrow> ustring \<Rightarrow> bytes" where
  "associated_data version kdf cipher =
     (let buf = AAD_CONTEXT @ to_le_bytes 4 version;
          buf = push_str buf (kdf_algorithm kdf);
          buf = buf @ to_le_bytes 4 (kdf_version kdf) @ to_le_bytes 4 (kdf_memory_kib kdf) @
                to_le_bytes 4 (kdf_iterations kdf) @ to_le_bytes 4 (kdf_parallelism kdf);
          buf = push_str buf (kdf_salt kdf)
      in push_str buf cipher)"

definition seal :: "'z seal_lib_scheme \<Rightarrow> bytes \<Rightarrow> vault_key \<Rightarrow> bytes \<Rightarrow> seal_error + sealed_vault" where
  "seal L nonce k plaintext =
     (case aead_encrypt L (vk_key k) nonce (associated_data SEALED_VERSION (vk_header k) XCHACHA20_POLY1305) plaintext of
        None \<Rightarrow> Inl Unauthentic
      | Some c \<Rightarrow>
          Inr \<lparr>sv_version = SEALED_VERSION, sv_kdf = vk_header k, sv_cipher = XCHACHA20_POLY1305,
               sv_nonce = b64_encode L nonce, sv_ciphertext = b64_encode L c\<rparr>)"

definition key_open :: "'z seal_lib_scheme \<Rightarrow> vault_key \<Rightarrow> sealed_vault \<Rightarrow> seal_error + bytes" where
  "key_open L k sealed =
     (if sv_cipher sealed \<noteq> XCHACHA20_POLY1305 then Inl (UnsupportedCipher (sv_cipher sealed))
      else case b64_decode L (sv_nonce sealed) of
          None \<Rightarrow> Inl BadEncoding
        | Some nonce \<Rightarrow>
            if length nonce \<noteq> NONCE_LEN then Inl BadEncoding
            else case b64_decode L (sv_ciphertext sealed) of
                None \<Rightarrow> Inl BadEncoding
              | Some c \<Rightarrow>
                  (case aead_decrypt L (vk_key k) nonce
                          (associated_data (sv_version sealed) (sv_kdf sealed) (sv_cipher sealed)) c of
                     None \<Rightarrow> Inl Unauthentic
                   | Some plaintext \<Rightarrow> Inr plaintext))"

section \<open>The authenticated header\<close>

text \<open>UTF-8 is a prefix code on the code points of Unicode, so that a string is its bytes.\<close>

definition scalar :: "nat \<Rightarrow> bool" where
  "scalar c \<longleftrightarrow> c < 1114112"

lemma unat_byte: "n < 256 \<Longrightarrow> unat (of_nat n :: u8) = n"
  by (simp add: unat_of_nat take_bit_nat_eq_self)

text \<open>Reading the first character back.\<close>

definition utf8_head :: "bytes \<Rightarrow> nat \<times> bytes" where
  "utf8_head bs =
     (let b = \<lambda>i. unat (bs ! i) in
      if b 0 < 128 then (b 0, drop 1 bs)
      else if b 0 < 224 then ((b 0 - 192) * 64 + (b 1 - 128), drop 2 bs)
      else if b 0 < 240 then ((b 0 - 224) * 4096 + (b 1 - 128) * 64 + (b 2 - 128), drop 3 bs)
      else ((b 0 - 240) * 262144 + (b 1 - 128) * 4096 + (b 2 - 128) * 64 + (b 3 - 128), drop 4 bs))"

lemma utf8_head_encode:
  assumes "scalar c"
  shows "utf8_head (utf8_encode_char c @ r) = (c, r)"
proof -
  have b: "c < 2048 \<Longrightarrow> 192 + c div 64 < 224" "c < 65536 \<Longrightarrow> 224 + c div 4096 < 240" "240 + c div 262144 < 256"
    "128 + c div 64 mod 64 < 256" "128 + c mod 64 < 256" "128 + c div 4096 mod 64 < 256"
    using assms by (auto simp: scalar_def)
  have q: "c div 4096 = c div 64 div 64" "c div 262144 = c div 64 div 64 div 64"
    using div_mult2_eq [of c 64 64] div_mult2_eq [of c 4096 64] by simp_all
  have two: "c div 64 * 64 + c mod 64 = c" by simp
  have three: "c div 4096 * 4096 + c div 64 mod 64 * 64 + c mod 64 = c"
    unfolding q using two div_mult_mod_eq [of "c div 64" 64] by linarith
  have four: "c div 262144 * 262144 + c div 4096 mod 64 * 4096 + c div 64 mod 64 * 64 + c mod 64 = c"
    unfolding q using two div_mult_mod_eq [of "c div 64" 64] div_mult_mod_eq [of "c div 64 div 64" 64] by linarith
  consider "c < 128" | "128 \<le> c" "c < 2048" | "2048 \<le> c" "c < 65536" | "65536 \<le> c" by linarith
  then show ?thesis
    using b two three four
    by cases (simp_all add: utf8_encode_char_def utf8_head_def Let_def unat_byte del: of_nat_add)
qed

lemma as_bytes_inject:
  assumes "\<forall>c\<in>set s. scalar c" and "\<forall>c\<in>set t. scalar c" and "as_bytes s = as_bytes t"
  shows "s = t"
  using assms
proof (induction s arbitrary: t)
  case Nil
  then show ?case by (cases t) (auto simp: as_bytes_def utf8_encode_char_def split: if_splits)
next
  case (Cons c s)
  then obtain d t' where t: "t = d # t'" by (cases t) (auto simp: as_bytes_def utf8_encode_char_def split: if_splits)
  have e: "utf8_encode_char c @ as_bytes s = utf8_encode_char d @ as_bytes t'"
    using Cons.prems(3) by (simp add: as_bytes_def t)
  have "c = d \<and> as_bytes s = as_bytes t'"
    using arg_cong [OF e, of utf8_head] utf8_head_encode Cons.prems(1,2) t by simp
  then show ?case using Cons.IH [of t'] Cons.prems(1,2) t by simp
qed

definition unicode :: "ustring \<Rightarrow> bool" where
  "unicode s \<longleftrightarrow> (\<forall>c\<in>set s. scalar c) \<and> utf8_len s < 2 ^ 64"

lemma unat_u64: "n < 2 ^ 64 \<Longrightarrow> unat (of_nat n :: u64) = n"
  by (simp add: unat_of_nat take_bit_nat_eq_self)

lemma push_str_inject:
  assumes "unicode a" and "unicode b"
  shows "push_str buf a @ r = push_str buf b @ s \<longleftrightarrow> a = b \<and> r = s"
proof
  assume "push_str buf a @ r = push_str buf b @ s"
  then have e: "to_le_bytes 8 (of_nat (utf8_len a) :: u64) @ as_bytes a @ r =
      to_le_bytes 8 (of_nat (utf8_len b) :: u64) @ as_bytes b @ s" by (simp add: push_str_def)
  have "(of_nat (utf8_len a) :: u64) = of_nat (utf8_len b)" and r: "as_bytes a @ r = as_bytes b @ s"
    using e by (simp_all add: to_le_bytes_inject)
  then have "utf8_len a = utf8_len b"
    using assms unat_u64 unfolding unicode_def by metis
  then have "length (as_bytes a) = length (as_bytes b)" by (simp add: length_as_bytes)
  then have "as_bytes a = as_bytes b \<and> r = s" using r by simp
  then show "a = b \<and> r = s" using as_bytes_inject assms by (auto simp: unicode_def)
qed simp

definition unicode_header :: "kdf_header \<Rightarrow> bool" where
  "unicode_header h \<longleftrightarrow> unicode (kdf_algorithm h) \<and> unicode (kdf_salt h)"

lemma associated_data_unfold:
  "associated_data v h c = push_str (AAD_CONTEXT @ to_le_bytes 4 v) (kdf_algorithm h) @
     to_le_bytes 4 (kdf_version h) @ to_le_bytes 4 (kdf_memory_kib h) @ to_le_bytes 4 (kdf_iterations h) @
     to_le_bytes 4 (kdf_parallelism h) @ push_str [] (kdf_salt h) @ push_str [] c"
  by (simp add: associated_data_def push_str_def)

lemma associated_data_inject:
  assumes "unicode_header h" and "unicode_header h'" and "unicode c" and "unicode c'"
    and "associated_data v h c = associated_data v' h' c'"
  shows "v = v' \<and> h = h' \<and> c = c'"
proof -
  have "v = v'" using assms(5) by (simp add: associated_data_def push_str_def Let_def to_le_bytes_inject)
  then show ?thesis
    using assms push_str_inject [of c c' "[]" "[]" "[]"]
    by (simp add: associated_data_unfold push_str_inject unicode_header_def to_le_bytes_inject)
qed

section \<open>What the envelope promises\<close>

lemma derive_header: "derive L passphrase h = Inr k \<Longrightarrow> vk_header k = h"
  by (auto simp: derive_def split: if_splits option.splits sum.splits)

lemma unicode_ascii: "\<forall>c\<in>set s. c < 128 \<Longrightarrow> length s < 2 ^ 64 \<Longrightarrow> unicode s"
proof -
  assume a: "\<forall>c\<in>set s. c < 128" "length s < 2 ^ 64"
  have "\<forall>c\<in>set s. c < 128 \<Longrightarrow> utf8_len s = length s" for s
    by (induction s) (simp_all add: utf8_len_def utf8_len_char_def)
  then show "unicode s" using a by (auto simp: unicode_def scalar_def)
qed

lemma unicode_cipher [simp]: "unicode XCHACHA20_POLY1305"
  by (rule unicode_ascii) (simp_all add: XCHACHA20_POLY1305_def u_def)

text \<open>What is used of base64, and of an authenticated cipher taken as ideal.\<close>

definition b64_reads :: "'z key_lib_scheme \<Rightarrow> bool" where
  "b64_reads L \<longleftrightarrow> (\<forall>b. b64_decode L (b64_encode L b) = Some b)"

definition aead_opens :: "'z seal_lib_scheme \<Rightarrow> bool" where
  "aead_opens L \<longleftrightarrow> (\<forall>k n a m c. aead_encrypt L k n a m = Some c \<longrightarrow> aead_decrypt L k n a c = Some m)"

definition aead_authentic :: "'z seal_lib_scheme \<Rightarrow> bool" where
  "aead_authentic L \<longleftrightarrow> (\<forall>k n a m c k' n' a' p.
     aead_encrypt L k n a m = Some c \<and> aead_decrypt L k' n' a' c = Some p \<longrightarrow> k' = k \<and> n' = n \<and> a' = a)"

lemma sealed_opens:
  assumes "b64_reads L" and "aead_opens L" and "seal L nonce k m = Inr sv" and "length nonce = NONCE_LEN"
  shows "key_open L k sv = Inr m"
  using assms by (auto simp: seal_def key_open_def b64_reads_def aead_opens_def split: option.splits)

text \<open>
  C40. The envelope gives its contents to the right key only, and vouches for every word of its
  header: with an ideal authenticated cipher, what was sealed opens under the same key; under any
  other key it is refused as inauthentic; and a file that carries the ciphertext but opens at all
  has the very version, key-derivation header (algorithm, costs and salt), cipher and nonce it was
  sealed with, although the header is stored in the clear.
\<close>

theorem sealed_header_is_authenticated:
  assumes "b64_reads L" and "aead_opens L" and "aead_authentic L" and "length nonce = NONCE_LEN"
    and "unicode_header (vk_header k)" and "seal L nonce k m = Inr sv"
  shows "key_open L k sv = Inr m \<and>
    (\<forall>k'. vk_key k' \<noteq> vk_key k \<longrightarrow> key_open L k' sv = Inl Unauthentic) \<and>
    (\<forall>k' sv' p. sv_ciphertext sv' = sv_ciphertext sv \<and> unicode_header (sv_kdf sv') \<and> key_open L k' sv' = Inr p \<longrightarrow>
       p = m \<and> vk_key k' = vk_key k \<and> sv_version sv' = sv_version sv \<and> sv_kdf sv' = sv_kdf sv \<and>
       sv_cipher sv' = sv_cipher sv \<and> b64_decode L (sv_nonce sv') = Some nonce)"
proof (intro conjI allI impI)
  let ?aad = "associated_data SEALED_VERSION (vk_header k) XCHACHA20_POLY1305"
  obtain c where c: "aead_encrypt L (vk_key k) nonce ?aad m = Some c"
    and sv: "sv = \<lparr>sv_version = SEALED_VERSION, sv_kdf = vk_header k, sv_cipher = XCHACHA20_POLY1305,
                  sv_nonce = b64_encode L nonce, sv_ciphertext = b64_encode L c\<rparr>"
    using assms(6) by (auto simp: seal_def split: option.splits)
  show "key_open L k sv = Inr m" by (rule sealed_opens [OF assms(1,2,6,4)])
  fix k'
  show "key_open L k' sv = Inl Unauthentic" if "vk_key k' \<noteq> vk_key k"
  proof -
    have "aead_decrypt L (vk_key k') nonce ?aad c = None"
      using assms(3) c that unfolding aead_authentic_def by (metis not_None_eq)
    then show ?thesis using assms(1,4) by (simp add: key_open_def sv b64_reads_def)
  qed
  fix sv' p
  assume a: "sv_ciphertext sv' = sv_ciphertext sv \<and> unicode_header (sv_kdf sv') \<and> key_open L k' sv' = Inr p"
  then obtain n' where n': "b64_decode L (sv_nonce sv') = Some n'"
    and p: "aead_decrypt L (vk_key k') n' (associated_data (sv_version sv') (sv_kdf sv') XCHACHA20_POLY1305) c = Some p"
    and ci: "sv_cipher sv' = XCHACHA20_POLY1305"
    using assms(1) by (auto simp: key_open_def sv b64_reads_def split: if_splits option.splits)
  have eq: "vk_key k' = vk_key k" "n' = nonce"
      "associated_data (sv_version sv') (sv_kdf sv') XCHACHA20_POLY1305 = ?aad"
    using assms(3) c p unfolding aead_authentic_def by metis+
  from associated_data_inject [OF _ assms(5) _ _ this(3)] a
  have h: "sv_version sv' = SEALED_VERSION" "sv_kdf sv' = vk_header k" by auto
  show "p = m" using assms(2) c p eq unfolding aead_opens_def by auto
  show "vk_key k' = vk_key k" "sv_version sv' = sv_version sv" "sv_kdf sv' = sv_kdf sv"
    "sv_cipher sv' = sv_cipher sv" "b64_decode L (sv_nonce sv') = Some nonce"
    using eq h n' ci by (simp_all add: sv)
qed

text \<open>A toy cipher with a tag, to show that the hypotheses can hold.\<close>

definition framed :: "bytes \<Rightarrow> bytes" where
  "framed b = concat (map (\<lambda>x. [1, x]) b) @ [0]"

lemma framed_inject: "framed a @ r = framed b @ s \<longleftrightarrow> a = b \<and> r = s"
proof (induction a arbitrary: b)
  case Nil
  then show ?case by (cases b) (auto simp: framed_def)
next
  case (Cons x a)
  then show ?case by (cases b) (auto simp: framed_def)
qed

definition toy_tag :: "bytes \<Rightarrow> bytes \<Rightarrow> bytes \<Rightarrow> bytes" where
  "toy_tag k n a = framed k @ framed n @ framed a"

definition sample_lib :: seal_lib where
  "sample_lib =
     \<lparr>b64_encode = map unat, b64_decode = (\<lambda>s. Some (map of_nat s)),
      print_identity = (\<lambda>_. []), parse_identity = (\<lambda>_. None),
      min_salt_len = 8, argon2_params = (\<lambda>_ _ _. None), argon2_hash = (\<lambda>_ _ _ p s. Inr (p @ s)),
      aead_encrypt = (\<lambda>k n a m. Some (toy_tag k n a @ m)),
      aead_decrypt = (\<lambda>k n a c. if take (length (toy_tag k n a)) c = toy_tag k n a
                                then Some (drop (length (toy_tag k n a)) c) else None)\<rparr>"

lemma toy_tag_inject: "toy_tag k n a @ r = toy_tag k' n' a' @ s \<longleftrightarrow> k = k' \<and> n = n' \<and> a = a' \<and> r = s"
  by (auto simp: toy_tag_def framed_inject)

lemma toy_tag_authentic:
  assumes "take (length (toy_tag k' n' a')) (toy_tag k n a @ m) = toy_tag k' n' a'"
  shows "k' = k \<and> n' = n \<and> a' = a"
  using append_take_drop_id [of "length (toy_tag k' n' a')" "toy_tag k n a @ m", unfolded assms] toy_tag_inject
  by blast

lemma sample_b64: "b64_reads sample_lib"
  by (simp add: b64_reads_def sample_lib_def comp_def)

lemma sample_opens: "aead_opens sample_lib"
  by (simp add: aead_opens_def sample_lib_def)

lemma sample_authentic: "aead_authentic sample_lib"
proof (unfold aead_authentic_def, intro allI impI, elim conjE)
  fix k n a m c k' n' a' p
  assume "aead_encrypt sample_lib k n a m = Some c" and d: "aead_decrypt sample_lib k' n' a' c = Some p"
  then have c: "c = toy_tag k n a @ m" by (simp add: sample_lib_def)
  have "take (length (toy_tag k' n' a')) c = toy_tag k' n' a'"
    using d by (simp add: sample_lib_def split: if_splits)
  then show "k' = k \<and> n' = n \<and> a' = a" unfolding c by (rule toy_tag_authentic)
qed

lemmas sample_lib_ok = sample_b64 sample_opens sample_authentic

theorem sealed_header_is_authenticated_witness:
  "\<exists>k sv. key_fresh sample_lib (replicate 16 7) (u ''hunter2'') = Inr k \<and>
     seal sample_lib (replicate 24 5) k [1, 2, 3] = Inr sv \<and> key_open sample_lib k sv = Inr [1, 2, 3] \<and>
     key_open sample_lib (k\<lparr>vk_key := []\<rparr>) sv = Inl Unauthentic"
proof -
  obtain k where k: "key_fresh sample_lib (replicate 16 7) (u ''hunter2'') = Inr k"
    and key: "vk_key k \<noteq> []" and h: "unicode_header (vk_header k)"
  proof (rule that)
    show "key_fresh sample_lib (replicate 16 7) (u ''hunter2'') = Inr
      \<lparr>vk_key = as_bytes (u ''hunter2'') @ replicate 16 7,
       vk_header = \<lparr>kdf_algorithm = ARGON2ID, kdf_version = 19, kdf_memory_kib = DEFAULT_MEMORY_KIB,
         kdf_iterations = DEFAULT_ITERATIONS, kdf_parallelism = DEFAULT_PARALLELISM, kdf_salt = replicate 16 7\<rparr>\<rparr>"
      by (simp add: key_fresh_def derive_def sample_lib_def DEFAULT_MEMORY_KIB_def MAX_MEMORY_KIB_def)
  qed (auto simp: unicode_header_def ARGON2ID_def u_def intro!: unicode_ascii)
  obtain sv where sv: "seal sample_lib (replicate 24 5) k [1, 2, 3] = Inr sv"
    by (simp add: seal_def sample_lib_def)
  have "length (replicate 24 (5 :: u8)) = NONCE_LEN" by (simp add: NONCE_LEN_def)
  note sealed = sealed_header_is_authenticated [OF sample_lib_ok this h sv]
  have "key_open sample_lib (k\<lparr>vk_key := []\<rparr>) sv = Inl Unauthentic"
    using sealed [THEN conjunct2, THEN conjunct1, rule_format, of "k\<lparr>vk_key := []\<rparr>"] key by simp
  moreover note sealed [THEN conjunct1]
  ultimately show ?thesis using k sv by blast
qed

end
