(* ===== verification/Pickle_Vault.thy ===== *)
theory Pickle_Vault
  imports Pickle_Sealed
begin

text \<open>
  The identity vault of a client, \<open>crates/pickle-identity/src/vault.rs\<close>: a file of several
  identities with one of them active, in plain JSON or sealed under a passphrase, created from
  scratch or from the single-key store of older versions, saved by replacing the file as a whole, and
  re-encrypted only after the new file was read back.
\<close>

section \<open>Data\<close>

definition VAULT_VERSION :: u32 where "VAULT_VERSION = 2"
definition MIGRATED_SUFFIX :: ustring where "MIGRATED_SUFFIX = u ''v1.bak''"
definition STAGING_SUFFIX :: ustring where "STAGING_SUFFIX = u ''rekey''"

datatype vault_error =
    VaultIo path io_error
  | VaultMalformed path
  | VaultUnsupportedVersion path u32 u32
  | VaultBadKey path
  | VaultPermissionsTooOpen path u32
  | VaultNotFound ustring
  | WouldEmpty
  | Migration path keystore_error
  | PassphraseRequired path
  | Locked path seal_error
  | VerificationFailed path

record vault_entry =
  ve_identity :: identity
  ve_nickname :: ustring
  ve_label :: ustring

record stored_entry =
  se_secret_key :: ustring
  se_counter :: u64
  se_nickname :: ustring
  se_label :: ustring

record stored_vault =
  st_version :: u32
  st_active :: ustring
  st_identities :: "stored_entry list"

datatype protection = NoProtection | Passphrase vault_key

record vault =
  v_path :: path
  v_entries :: "vault_entry list"
  v_active :: ustring
  v_protection :: protection

text \<open>The JSON forms, and what is read of a file to find its version.\<close>

record vault_lib = seal_lib +
  print_vault :: "stored_vault \<Rightarrow> bytes"
  parse_vault :: "bytes \<Rightarrow> stored_vault option"
  print_sealed :: "sealed_vault \<Rightarrow> bytes"
  parse_sealed :: "bytes \<Rightarrow> sealed_vault option"
  probe_version :: "bytes \<Rightarrow> u32 option"

text \<open>The random bytes an operation draws.\<close>

record entropy =
  rn_secret :: bytes
  rn_salt :: bytes
  rn_nonce :: bytes

definition fp_text :: "ext \<Rightarrow> vault_entry \<Rightarrow> ustring" where
  "fp_text cr e = fingerprint_to_string cr (id_fingerprint cr (ve_identity e))"

definition is_encrypted :: "vault \<Rightarrow> bool" where
  "is_encrypted v \<longleftrightarrow> (case v_protection v of NoProtection \<Rightarrow> False | Passphrase _ \<Rightarrow> True)"

section \<open>Reading\<close>

definition unseal ::
  "'z vault_lib_scheme \<Rightarrow> path \<Rightarrow> bytes \<Rightarrow> ustring option \<Rightarrow> vault_error + stored_vault \<times> protection" where
  "unseal L path raw passphrase =
     (case parse_sealed L raw of
        None \<Rightarrow> Inl (VaultMalformed path)
      | Some sealed \<Rightarrow>
          (case passphrase of
             None \<Rightarrow> Inl (PassphraseRequired path)
           | Some passphrase \<Rightarrow>
               (case derive L passphrase (sv_kdf sealed) of
                  Inl e \<Rightarrow> Inl (Locked path e)
                | Inr key \<Rightarrow>
                    (case key_open L key sealed of
                       Inl e \<Rightarrow> Inl (Locked path e)
                     | Inr plaintext \<Rightarrow>
                         (case parse_vault L plaintext of
                            None \<Rightarrow> Inl (VaultMalformed path)
                          | Some stored \<Rightarrow>
                              if st_version stored \<noteq> VAULT_VERSION then
                                Inl (VaultUnsupportedVersion path (st_version stored) VAULT_VERSION)
                              else Inr (stored, Passphrase key))))))"

text \<open>The document of a file: read directly, or out of its envelope.\<close>

definition read_document ::
  "'z vault_lib_scheme \<Rightarrow> path \<Rightarrow> bytes \<Rightarrow> ustring option \<Rightarrow> vault_error + stored_vault \<times> protection" where
  "read_document L path raw passphrase =
     (case probe_version L raw of
        None \<Rightarrow> Inl (VaultMalformed path)
      | Some version \<Rightarrow>
          if version = VAULT_VERSION then
            (case parse_vault L raw of
               None \<Rightarrow> Inl (VaultMalformed path) | Some stored \<Rightarrow> Inr (stored, NoProtection))
          else if version = SEALED_VERSION then unseal L path raw passphrase
          else Inl (VaultUnsupportedVersion path version VAULT_VERSION))"

fun load_entries :: "'z key_lib_scheme \<Rightarrow> stored_entry list \<Rightarrow> vault_entry list option" where
  "load_entries L [] = Some []"
| "load_entries L (e # es) =
     (case decode_secret L (se_secret_key e) of
        None \<Rightarrow> None
      | Some secret \<Rightarrow>
          map_option (Cons \<lparr>ve_identity = \<lparr>id_secret = secret, id_counter = se_counter e\<rparr>,
            ve_nickname = se_nickname e, ve_label = se_label e\<rparr>) (load_entries L es))"

definition parse ::
  "ext \<Rightarrow> 'z vault_lib_scheme \<Rightarrow> path \<Rightarrow> bytes \<Rightarrow> ustring option \<Rightarrow> vault_error + vault" where
  "parse cr L path raw passphrase =
     (case read_document L path raw passphrase of
        Inl e \<Rightarrow> Inl e
      | Inr (stored, protection) \<Rightarrow>
          (case load_entries L (st_identities stored) of
             None \<Rightarrow> Inl (VaultBadKey path)
           | Some entries \<Rightarrow>
               if entries = [] then Inl (VaultMalformed path)
               else Inr \<lparr>v_path = path, v_entries = entries,
                         v_active = (if \<exists>e\<in>set entries. fp_text cr e = st_active stored then st_active stored
                                     else fp_text cr (entries ! 0)),
                         v_protection = protection\<rparr>))"

definition permissions_error :: "path \<Rightarrow> keystore_error \<Rightarrow> vault_error" where
  "permissions_error path e =
     (case e of
        KsPermissionsTooOpen _ mode \<Rightarrow> VaultPermissionsTooOpen path mode
      | KsIo _ source \<Rightarrow> VaultIo path source
      | other \<Rightarrow> Migration path other)"

definition needs_passphrase :: "'z vault_lib_scheme \<Rightarrow> path \<Rightarrow> disk \<Rightarrow> (vault_error + bool) \<times> disk" where
  "needs_passphrase L path d =
     (case read_to_string path d of
        (Inl Missing, d) \<Rightarrow> (Inr False, d)
      | (Inl e, d) \<Rightarrow> (Inl (VaultIo path e), d)
      | (Inr raw, d) \<Rightarrow>
          (case probe_version L raw of
             None \<Rightarrow> Inl (VaultMalformed path) | Some version \<Rightarrow> Inr (version = SEALED_VERSION), d))"

section \<open>Writing\<close>

definition stored_of :: "'z key_lib_scheme \<Rightarrow> vault \<Rightarrow> stored_vault" where
  "stored_of L v =
     \<lparr>st_version = VAULT_VERSION, st_active = v_active v,
      st_identities = map (\<lambda>e. \<lparr>se_secret_key = b64_encode L (id_secret (ve_identity e)),
        se_counter = id_counter (ve_identity e), se_nickname = ve_nickname e, se_label = ve_label e\<rparr>) (v_entries v)\<rparr>"

definition vault_encode :: "'z vault_lib_scheme \<Rightarrow> bytes \<Rightarrow> vault \<Rightarrow> protection \<Rightarrow> vault_error + bytes" where
  "vault_encode L nonce v protection =
     (let body = print_vault L (stored_of L v)
      in case protection of
           NoProtection \<Rightarrow> Inr (body @ [10])
         | Passphrase key \<Rightarrow>
             (case seal L nonce key body of
                Inl e \<Rightarrow> Inl (Locked (v_path v) e)
              | Inr sealed \<Rightarrow> Inr (print_sealed L sealed @ [10])))"

definition write_private :: "path \<Rightarrow> bytes \<Rightarrow> disk \<Rightarrow> (vault_error + unit) \<times> disk" where
  "write_private path bs d =
     map_err (VaultIo path)
       (and_then (ensure_parent path d) (\<lambda>_ d.
        and_then (create_private path d) (\<lambda>_ d.
        and_then (write_all path bs d) (\<lambda>_ d. sync_all d))))"

definition vault_save :: "'z vault_lib_scheme \<Rightarrow> bytes \<Rightarrow> vault \<Rightarrow> disk \<Rightarrow> (vault_error + unit) \<times> disk" where
  "vault_save L nonce v d =
     (let tmp = with_extension (u ''tmp'') (v_path v)
      in case vault_encode L nonce v (v_protection v) of
           Inl e \<Rightarrow> (Inl e, d)
         | Inr bs \<Rightarrow>
             and_then (write_private tmp bs d) (\<lambda>_ d.
               map_err (VaultIo (v_path v)) (rename_file tmp (v_path v) d)))"

definition vault_create ::
  "ext \<Rightarrow> 'z vault_lib_scheme \<Rightarrow> entropy \<Rightarrow> path \<Rightarrow> path \<Rightarrow> ustring \<Rightarrow> ustring option \<Rightarrow> disk \<Rightarrow>
     (vault_error + vault) \<times> disk" where
  "vault_create cr L rn path legacy default_nickname passphrase d =
     and_then
       (case ks_load L legacy d of
          (Inr l, d) \<Rightarrow> (Inr (li_identity l, li_nickname l, True), d)
        | (Inl (KsIo _ Missing), d) \<Rightarrow>
            (Inr (\<lparr>id_secret = rn_secret rn, id_counter = 0\<rparr>, default_nickname, False), d)
        | (Inl other, d) \<Rightarrow> (Inl (Migration legacy other), d))
     (\<lambda>(ident, nickname, migrated) d.
        case (case passphrase of
                None \<Rightarrow> Inr NoProtection
              | Some passphrase \<Rightarrow>
                  (case key_fresh L (rn_salt rn) passphrase of
                     Inl e \<Rightarrow> Inl (Locked path e) | Inr key \<Rightarrow> Inr (Passphrase key))) of
          Inl e \<Rightarrow> (Inl e, d)
        | Inr protection \<Rightarrow>
            let entry = \<lparr>ve_identity = ident, ve_nickname = nickname, ve_label = []\<rparr>;
                v = \<lparr>v_path = path, v_entries = [entry], v_active = fp_text cr entry, v_protection = protection\<rparr>
            in and_then (vault_save L (rn_nonce rn) v d) (\<lambda>_ d.
                 if migrated then
                   let backup = with_extension MIGRATED_SUFFIX legacy
                   in and_then (map_err (VaultIo backup) (rename_file legacy backup d)) (\<lambda>_ d. (Inr v, d))
                 else (Inr v, d)))"

definition open_with_passphrase ::
  "ext \<Rightarrow> 'z vault_lib_scheme \<Rightarrow> entropy \<Rightarrow> path \<Rightarrow> path \<Rightarrow> ustring \<Rightarrow> ustring option \<Rightarrow> disk \<Rightarrow>
     (vault_error + vault) \<times> disk" where
  "open_with_passphrase cr L rn path legacy default_nickname passphrase d =
     (case read_to_string path d of
        (Inr raw, d) \<Rightarrow>
          and_then (map_err (permissions_error path) (check_permissions path d)) (\<lambda>_ d.
            (parse cr L path raw passphrase, d))
      | (Inl Missing, d) \<Rightarrow> vault_create cr L rn path legacy default_nickname passphrase d
      | (Inl e, d) \<Rightarrow> (Inl (VaultIo path e), d))"

definition vault_open ::
  "ext \<Rightarrow> 'z vault_lib_scheme \<Rightarrow> entropy \<Rightarrow> path \<Rightarrow> path \<Rightarrow> ustring \<Rightarrow> disk \<Rightarrow> (vault_error + vault) \<times> disk" where
  "vault_open cr L rn path legacy default_nickname d =
     open_with_passphrase cr L rn path legacy default_nickname None d"

definition holds_the_same_identities_as :: "vault \<Rightarrow> vault \<Rightarrow> bool" where
  "holds_the_same_identities_as v w \<longleftrightarrow>
     v_active v = v_active w \<and> length (v_entries v) = length (v_entries w) \<and>
     list_all (\<lambda>(a, b). id_secret (ve_identity a) = id_secret (ve_identity b) \<and>
        id_counter (ve_identity a) = id_counter (ve_identity b) \<and>
        ve_nickname a = ve_nickname b \<and> ve_label a = ve_label b) (zip (v_entries v) (v_entries w))"

text \<open>The result is the vault afterwards; on an error the vault is the one before.\<close>

definition rewrite_verified ::
  "ext \<Rightarrow> 'z vault_lib_scheme \<Rightarrow> entropy \<Rightarrow> protection \<Rightarrow> ustring option \<Rightarrow> vault \<Rightarrow> disk \<Rightarrow> (vault_error + vault) \<times> disk" where
  "rewrite_verified cr L rn protection passphrase v d =
     (let staging = with_extension STAGING_SUFFIX (v_path v)
      in case vault_encode L (rn_nonce rn) v protection of
           Inl e \<Rightarrow> (Inl e, d)
         | Inr bs \<Rightarrow>
             and_then (write_private staging bs d) (\<lambda>_ d.
               case open_with_passphrase cr L rn staging \<lparr>p_dir = [], p_stem = [], p_extension = None\<rparr> [] passphrase d of
                 (Inl e, d) \<Rightarrow> (Inl e, snd (remove_file staging d))
               | (Inr reopened, d) \<Rightarrow>
                   if \<not> holds_the_same_identities_as reopened v then
                     (Inl (VerificationFailed (v_path v)), snd (remove_file staging d))
                   else and_then (map_err (VaultIo (v_path v)) (rename_file staging (v_path v) d)) (\<lambda>_ d.
                     (Inr (v\<lparr>v_protection := protection\<rparr>), d))))"

definition set_passphrase ::
  "ext \<Rightarrow> 'z vault_lib_scheme \<Rightarrow> entropy \<Rightarrow> ustring \<Rightarrow> vault \<Rightarrow> disk \<Rightarrow> (vault_error + vault) \<times> disk" where
  "set_passphrase cr L rn passphrase v d =
     (case key_fresh L (rn_salt rn) passphrase of
        Inl e \<Rightarrow> (Inl (Locked (v_path v) e), d)
      | Inr key \<Rightarrow> rewrite_verified cr L rn (Passphrase key) (Some passphrase) v d)"

definition remove_passphrase ::
  "ext \<Rightarrow> 'z vault_lib_scheme \<Rightarrow> entropy \<Rightarrow> vault \<Rightarrow> disk \<Rightarrow> (vault_error + vault) \<times> disk" where
  "remove_passphrase cr L rn v d = rewrite_verified cr L rn NoProtection None v d"

section \<open>Entries\<close>

text \<open>\<open>None\<close> where the code panics: no entry has the active fingerprint.\<close>

definition vault_get :: "ext \<Rightarrow> ustring \<Rightarrow> vault \<Rightarrow> vault_entry option" where
  "vault_get cr fp v = find (\<lambda>e. fp_text cr e = fp) (v_entries v)"

definition active_entry :: "ext \<Rightarrow> vault \<Rightarrow> vault_entry option" where
  "active_entry cr v = find (\<lambda>e. fp_text cr e = v_active v) (v_entries v)"

text \<open>Writing through \<open>iter_mut().find(..)\<close>: the first match is changed.\<close>

fun update_first :: "('a \<Rightarrow> bool) \<Rightarrow> ('a \<Rightarrow> 'a) \<Rightarrow> 'a list \<Rightarrow> 'a list option" where
  "update_first P f [] = None"
| "update_first P f (x # xs) = (if P x then Some (f x # xs) else map_option (Cons x) (update_first P f xs))"

definition entry_mut :: "ext \<Rightarrow> ustring \<Rightarrow> (vault_entry \<Rightarrow> vault_entry) \<Rightarrow> vault \<Rightarrow> vault_error + vault" where
  "entry_mut cr fp f v =
     (case update_first (\<lambda>e. fp_text cr e = fp) f (v_entries v) of
        None \<Rightarrow> Inl (VaultNotFound fp) | Some es \<Rightarrow> Inr (v\<lparr>v_entries := es\<rparr>))"

definition active_mut :: "ext \<Rightarrow> (vault_entry \<Rightarrow> vault_entry) \<Rightarrow> vault \<Rightarrow> vault option" where
  "active_mut cr f v =
     (case update_first (\<lambda>e. fp_text cr e = v_active v) f (v_entries v) of
        None \<Rightarrow> None | Some es \<Rightarrow> Some (v\<lparr>v_entries := es\<rparr>))"

definition vault_add :: "ext \<Rightarrow> identity \<Rightarrow> ustring \<Rightarrow> ustring \<Rightarrow> vault \<Rightarrow> ustring \<times> vault" where
  "vault_add cr ident nickname label v =
     (let e = \<lparr>ve_identity = ident, ve_nickname = nickname, ve_label = label\<rparr>; fp = fp_text cr e
      in (fp, if vault_get cr fp v = None then v\<lparr>v_entries := v_entries v @ [e]\<rparr> else v))"

definition set_counter :: "ext \<Rightarrow> ustring \<Rightarrow> u64 \<Rightarrow> vault \<Rightarrow> vault_error + vault" where
  "set_counter cr fp counter v =
     entry_mut cr fp (\<lambda>e. e\<lparr>ve_identity := \<lparr>id_secret = id_secret (ve_identity e), id_counter = counter\<rparr>\<rparr>) v"

definition vault_set_nickname :: "ext \<Rightarrow> ustring \<Rightarrow> ustring \<Rightarrow> vault \<Rightarrow> vault_error + vault" where
  "vault_set_nickname cr fp nickname v = entry_mut cr fp (\<lambda>e. e\<lparr>ve_nickname := nickname\<rparr>) v"

definition set_label :: "ext \<Rightarrow> ustring \<Rightarrow> ustring \<Rightarrow> vault \<Rightarrow> vault_error + vault" where
  "set_label cr fp label v = entry_mut cr fp (\<lambda>e. e\<lparr>ve_label := label\<rparr>) v"

definition set_active :: "ext \<Rightarrow> ustring \<Rightarrow> vault \<Rightarrow> vault_error + vault" where
  "set_active cr fp v =
     (if vault_get cr fp v = None then Inl (VaultNotFound fp) else Inr (v\<lparr>v_active := fp\<rparr>))"

text \<open>\<open>None\<close> is the panic of indexing an emptied list.\<close>

definition vault_remove :: "ext \<Rightarrow> ustring \<Rightarrow> vault \<Rightarrow> (vault_error + vault) option" where
  "vault_remove cr fp v =
     (if vault_get cr fp v = None then Some (Inl (VaultNotFound fp))
      else if length (v_entries v) = 1 then Some (Inl WouldEmpty)
      else
        let es = filter (\<lambda>e. fp_text cr e \<noteq> fp) (v_entries v); v' = v\<lparr>v_entries := es\<rparr>
        in if v_active v = fp then
             (case es of [] \<Rightarrow> None | e # _ \<Rightarrow> Some (Inr (v'\<lparr>v_active := fp_text cr e\<rparr>)))
           else Some (Inr v'))"

section \<open>There is always an active identity\<close>

definition vault_ok :: "ext \<Rightarrow> vault \<Rightarrow> bool" where
  "vault_ok cr v \<longleftrightarrow> distinct (map (fp_text cr) (v_entries v)) \<and> v_active v \<in> fp_text cr ` set (v_entries v)"

text \<open>What a client does with an open vault; an operation that is refused changes nothing.\<close>

datatype vault_op = Add identity ustring ustring | SetCounter ustring u64 | SetNickname ustring ustring
  | SetLabel ustring ustring | SetActive ustring | Remove ustring | EditActive ustring ustring

definition kept :: "vault \<Rightarrow> vault_error + vault \<Rightarrow> vault" where
  "kept v r = (case r of Inl _ \<Rightarrow> v | Inr v' \<Rightarrow> v')"

fun vault_step :: "ext \<Rightarrow> vault_op \<Rightarrow> vault \<Rightarrow> vault option" where
  "vault_step cr (Add i n l) v = Some (snd (vault_add cr i n l v))"
| "vault_step cr (SetCounter fp c) v = Some (kept v (set_counter cr fp c v))"
| "vault_step cr (SetNickname fp n) v = Some (kept v (vault_set_nickname cr fp n v))"
| "vault_step cr (SetLabel fp l) v = Some (kept v (set_label cr fp l v))"
| "vault_step cr (SetActive fp) v = Some (kept v (set_active cr fp v))"
| "vault_step cr (Remove fp) v = map_option (kept v) (vault_remove cr fp v)"
| "vault_step cr (EditActive n l) v = active_mut cr (\<lambda>e. e\<lparr>ve_nickname := n, ve_label := l\<rparr>) v"

fun vault_run :: "ext \<Rightarrow> vault_op list \<Rightarrow> vault \<Rightarrow> vault option" where
  "vault_run cr [] v = Some v"
| "vault_run cr (op # ops) v = Option.bind (vault_step cr op v) (vault_run cr ops)"

lemma find_fp: "find (\<lambda>e. fp_text cr e = fp) es = None \<longleftrightarrow> fp \<notin> fp_text cr ` set es"
  by (auto simp: find_None_iff)

lemma update_first_keeps:
  assumes "\<And>x. h (f x) = h x" and "update_first P f xs = Some ys"
  shows "map h ys = map h xs"
  using assms(2) by (induction xs arbitrary: ys) (auto simp: assms(1) split: if_splits)

lemma update_first_None: "update_first P f xs = None \<longleftrightarrow> (\<forall>x\<in>set xs. \<not> P x)"
  by (induction xs) auto

text \<open>The secret keys of a vault in order determine the fingerprints.\<close>

abbreviation secrets :: "vault \<Rightarrow> bytes list" where
  "secrets v \<equiv> map (\<lambda>e. id_secret (ve_identity e)) (v_entries v)"

lemma fp_text_secret: "fp_text cr = (\<lambda>e. fingerprint_to_string cr (fingerprint_of cr (public_of cr (id_secret (ve_identity e)))))"
  by (simp add: fp_text_def id_fingerprint_def fun_eq_iff)

lemma vault_ok_secrets:
  "vault_ok cr v \<longleftrightarrow>
     (let fps = map (\<lambda>s. fingerprint_to_string cr (fingerprint_of cr (public_of cr s))) (secrets v)
      in distinct fps \<and> v_active v \<in> set fps)"
  by (simp add: vault_ok_def fp_text_secret comp_def Let_def image_image)

lemma vault_ok_cong: "secrets v = secrets w \<Longrightarrow> v_active v = v_active w \<Longrightarrow> vault_ok cr v \<longleftrightarrow> vault_ok cr w"
  by (simp only: vault_ok_secrets)

lemma entry_mut_keeps:
  assumes "\<And>e. id_secret (ve_identity (f e)) = id_secret (ve_identity e)"
  shows "secrets (kept v (entry_mut cr fp f v)) = secrets v \<and> v_active (kept v (entry_mut cr fp f v)) = v_active v"
  using update_first_keeps [where h = "\<lambda>e. id_secret (ve_identity e)" and f = f and P = "\<lambda>e. fp_text cr e = fp"] assms
  by (auto simp: entry_mut_def kept_def split: option.splits)

lemma vault_ok_edits:
  assumes "vault_ok cr v" and "\<And>e. id_secret (ve_identity (f e)) = id_secret (ve_identity e)"
  shows "vault_ok cr (kept v (entry_mut cr fp f v)) \<and> secrets (kept v (entry_mut cr fp f v)) = secrets v"
  using assms(1) entry_mut_keeps [where f = f, OF assms(2)] vault_ok_cong by metis

lemma vault_ok_add: "vault_ok cr v \<Longrightarrow> vault_ok cr (snd (vault_add cr i n l v))"
  by (auto simp: vault_ok_def vault_add_def Let_def vault_get_def find_fp)

lemma vault_ok_remove:
  assumes "vault_ok cr v"
  shows "\<exists>r. vault_remove cr fp v = Some r \<and> vault_ok cr (kept v r) \<and>
    (\<forall>e\<in>set (v_entries v). fp_text cr e \<noteq> fp \<longrightarrow> e \<in> set (v_entries (kept v r)))"
proof (cases "fp \<in> fp_text cr ` set (v_entries v) \<and> length (v_entries v) \<noteq> 1")
  case True
  let ?es = "filter (\<lambda>e. fp_text cr e \<noteq> fp) (v_entries v)"
  have d: "distinct (map (fp_text cr) (v_entries v))" using assms by (simp add: vault_ok_def)
  have "card (fp_text cr ` set (v_entries v)) = length (v_entries v)"
    using distinct_card [OF d] by simp
  moreover have "length (v_entries v) \<noteq> 0" using True by auto
  ultimately have "\<not> card (fp_text cr ` set (v_entries v)) \<le> 1" using True by linarith
  then have "\<not> fp_text cr ` set (v_entries v) \<subseteq> {fp}"
    using card_mono [of "{fp}" "fp_text cr ` set (v_entries v)"] by (metis card.empty card_insert_disjoint empty_iff finite.intros One_nat_def)
  then obtain x where "x \<in> set (v_entries v)" "fp_text cr x \<noteq> fp" by blast
  then have "?es \<noteq> []" by (auto simp: filter_empty_conv)
  then obtain e es where es: "?es = e # es" by (meson neq_Nil_conv)
  have dd: "distinct (map (fp_text cr) ?es)" using d by (simp add: distinct_map_filter)
  have g: "vault_get cr fp v \<noteq> None" using True by (simp add: vault_get_def find_fp)
  show ?thesis
  proof (cases "v_active v = fp")
    case act: True
    then have "vault_remove cr fp v = Some (Inr (v\<lparr>v_entries := ?es, v_active := fp_text cr e\<rparr>))"
      using g True es by (simp add: vault_remove_def Let_def)
    moreover have "fp_text cr e \<in> fp_text cr ` set ?es" by (simp add: es)
    ultimately show ?thesis using dd by (simp add: vault_ok_def kept_def)
  next
    case act: False
    then have "vault_remove cr fp v = Some (Inr (v\<lparr>v_entries := ?es\<rparr>))"
      using g True by (simp add: vault_remove_def Let_def)
    moreover have "v_active v \<in> fp_text cr ` set ?es" using assms act by (auto simp: vault_ok_def)
    ultimately show ?thesis using dd by (simp add: vault_ok_def kept_def)
  qed
next
  case False
  then have "\<exists>e. vault_remove cr fp v = Some (Inl e)" by (auto simp: vault_remove_def vault_get_def find_fp)
  then show ?thesis using assms by (auto simp: kept_def)
qed

definition loses :: "ext \<Rightarrow> vault_op \<Rightarrow> bytes \<Rightarrow> bool" where
  "loses cr op sk \<longleftrightarrow> op = Remove (fingerprint_to_string cr (fingerprint_of cr (public_of cr sk)))"

lemma same_secrets_image:
  "secrets w = secrets v \<Longrightarrow>
    (\<lambda>e. id_secret (ve_identity e)) ` set (v_entries w) = (\<lambda>e. id_secret (ve_identity e)) ` set (v_entries v)"
  by (metis list.set_map)

lemma vault_step_ok:
  assumes "vault_ok cr v"
  shows "\<exists>w. vault_step cr op v = Some w \<and> vault_ok cr w \<and> (\<forall>sk\<in>set (secrets v). sk \<in> set (secrets w) \<or> loses cr op sk)"
proof (cases op)
  case (Add i n l)
  have "set (secrets v) \<subseteq> set (secrets (snd (vault_add cr i n l v)))" by (auto simp: vault_add_def Let_def)
  then show ?thesis using vault_ok_add [OF assms] Add by auto
next
  case (SetCounter fp c)
  have sec: "secrets (kept v (set_counter cr fp c v)) = secrets v" "vault_ok cr (kept v (set_counter cr fp c v))"
    unfolding set_counter_def using vault_ok_edits [OF assms] by simp_all
  show ?thesis using sec(2) same_secrets_image [OF sec(1)] SetCounter by auto
next
  case (SetNickname fp n)
  have sec: "secrets (kept v (vault_set_nickname cr fp n v)) = secrets v" "vault_ok cr (kept v (vault_set_nickname cr fp n v))"
    unfolding vault_set_nickname_def using vault_ok_edits [OF assms] by simp_all
  show ?thesis using sec(2) same_secrets_image [OF sec(1)] SetNickname by auto
next
  case (SetLabel fp l)
  have sec: "secrets (kept v (set_label cr fp l v)) = secrets v" "vault_ok cr (kept v (set_label cr fp l v))"
    unfolding set_label_def using vault_ok_edits [OF assms] by simp_all
  show ?thesis using sec(2) same_secrets_image [OF sec(1)] SetLabel by auto
next
  case (SetActive fp)
  have "vault_ok cr (kept v (set_active cr fp v)) \<and> v_entries (kept v (set_active cr fp v)) = v_entries v"
    using assms by (auto simp: set_active_def kept_def vault_ok_def vault_get_def find_fp)
  then show ?thesis using SetActive by auto
next
  case (Remove fp)
  obtain r where r: "vault_remove cr fp v = Some r" "vault_ok cr (kept v r)"
    "\<forall>e\<in>set (v_entries v). fp_text cr e \<noteq> fp \<longrightarrow> e \<in> set (v_entries (kept v r))"
    using vault_ok_remove [OF assms] by blast
  then have "\<forall>sk\<in>set (secrets v). sk \<in> set (secrets (kept v r)) \<or> loses cr op sk"
    using Remove by (auto simp: loses_def fp_text_secret)
  then show ?thesis using r Remove by simp
next
  case (EditActive n l)
  let ?f = "\<lambda>e. e\<lparr>ve_nickname := n, ve_label := l\<rparr>"
  obtain es where es: "update_first (\<lambda>e. fp_text cr e = v_active v) ?f (v_entries v) = Some es"
    using assms update_first_None [of "\<lambda>e. fp_text cr e = v_active v" ?f] by (fastforce simp: vault_ok_def)
  then have sec: "secrets (v\<lparr>v_entries := es\<rparr>) = secrets v"
    using update_first_keeps [where h = "\<lambda>e. id_secret (ve_identity e)" and f = ?f] by auto
  have "vault_ok cr (v\<lparr>v_entries := es\<rparr>)" using vault_ok_cong [OF sec] assms by simp
  then show ?thesis using same_secrets_image [OF sec] es EditActive by (auto simp: active_mut_def)
qed

lemma vault_run_ok:
  assumes "vault_ok cr v"
  shows "\<exists>w. vault_run cr ops v = Some w \<and> vault_ok cr w \<and>
    (\<forall>sk\<in>set (secrets v). sk \<in> set (secrets w) \<or> (\<exists>op\<in>set ops. loses cr op sk))"
  using assms
proof (induction ops arbitrary: v)
  case (Cons op ops)
  then obtain w where w: "vault_step cr op v = Some w" "vault_ok cr w"
    "\<forall>sk\<in>set (secrets v). sk \<in> set (secrets w) \<or> loses cr op sk"
    using vault_step_ok by blast
  from Cons.IH [OF w(2)] w show ?case by fastforce
qed simp

lemma vault_ok_active:
  assumes "vault_ok cr v"
  shows "\<exists>e. active_entry cr v = Some e \<and> fp_text cr e = v_active v"
proof -
  obtain e where "find (\<lambda>e. fp_text cr e = v_active v) (v_entries v) = Some e"
    using assms find_fp [of cr "v_active v" "v_entries v"] by (auto simp: vault_ok_def)
  then show ?thesis unfolding active_entry_def using find_Some_iff [of "\<lambda>e. fp_text cr e = v_active v"] by auto
qed

lemma parse_active:
  "parse cr L path raw passphrase = Inr v \<Longrightarrow>
     v_active v \<in> fp_text cr ` set (v_entries v) \<and> v_entries v \<noteq> [] \<and> v_path v = path"
  by (auto simp: parse_def intro: rev_image_eqI split: sum.splits option.splits prod.splits if_splits)

lemma create_active:
  "vault_create cr L rn path legacy nick phrase d = (Inr v, d') \<Longrightarrow> vault_ok cr v \<and> v_path v = path"
  by (auto simp: vault_create_def and_then_def map_err_def Let_def vault_ok_def
      split: sum.splits option.splits prod.splits if_splits)

lemma open_active:
  assumes "open_with_passphrase cr L rn path legacy nick phrase d = (Inr v, d')"
  shows "v_active v \<in> fp_text cr ` set (v_entries v) \<and> v_path v = path"
  using assms parse_active create_active unfolding open_with_passphrase_def
  by (auto simp: and_then_def map_err_def vault_ok_def split: sum.splits prod.splits io_error.splits) blast+

text \<open>
  C37. A client always has an identity to sign with, and the vault gives none away unasked: whatever
  file a vault was opened from, created or migrated, its active identity is one it holds; and from
  then on, if it listed no key twice, no sequence of additions, edits, selections and removals makes
  it panic, empties it or leaves the selection dangling, and a secret key leaves it only when its own
  fingerprint is removed.
\<close>

theorem vault_always_has_an_identity:
  assumes "open_with_passphrase cr L rn path legacy nick phrase d = (Inr v, d')"
  shows "active_entry cr v \<noteq> None \<and>
    (distinct (map (fp_text cr) (v_entries v)) \<longrightarrow>
      (\<exists>w e. vault_run cr ops v = Some w \<and> active_entry cr w = Some e \<and> fp_text cr e = v_active w \<and>
         distinct (map (fp_text cr) (v_entries w)) \<and>
         (\<forall>sk\<in>set (secrets v). sk \<in> set (secrets w) \<or>
            Remove (fingerprint_to_string cr (fingerprint_of cr (public_of cr sk))) \<in> set ops)))"
proof (intro conjI impI)
  show "active_entry cr v \<noteq> None" using open_active [OF assms] by (simp add: active_entry_def find_fp)
  assume "distinct (map (fp_text cr) (v_entries v))"
  then have "vault_ok cr v" using open_active [OF assms] by (simp add: vault_ok_def)
  from vault_run_ok [OF this] obtain w where w: "vault_run cr ops v = Some w" "vault_ok cr w"
    "\<forall>sk\<in>set (secrets v). sk \<in> set (secrets w) \<or> (\<exists>op\<in>set ops. loses cr op sk)" by blast
  moreover from vault_ok_active [OF w(2)] obtain e where "active_entry cr w = Some e" "fp_text cr e = v_active w" by blast
  moreover have "distinct (map (fp_text cr) (v_entries w))" using w(2) by (simp add: vault_ok_def)
  moreover have "\<forall>sk\<in>set (secrets v). sk \<in> set (secrets w) \<or>
      Remove (fingerprint_to_string cr (fingerprint_of cr (public_of cr sk))) \<in> set ops"
    using w(3) unfolding loses_def by blast
  ultimately show "\<exists>w e. vault_run cr ops v = Some w \<and> active_entry cr w = Some e \<and> fp_text cr e = v_active w \<and>
       distinct (map (fp_text cr) (v_entries w)) \<and>
       (\<forall>sk\<in>set (secrets v). sk \<in> set (secrets w) \<or>
          Remove (fingerprint_to_string cr (fingerprint_of cr (public_of cr sk))) \<in> set ops)" by blast
qed

text \<open>
  Nothing checks that a file lists no key twice, and removing such a key from a vault of its copies
  alone indexes an empty list: the guard against emptying the vault counts entries, not keys.
\<close>

theorem removing_a_doubled_key_panics:
  assumes "parse cr L path raw phrase = Inr v" and "1 < length (v_entries v)"
    and "\<forall>e\<in>set (v_entries v). fp_text cr e = v_active v"
  shows "vault_remove cr (v_active v) v = None"
proof -
  have "filter (\<lambda>e. fp_text cr e \<noteq> v_active v) (v_entries v) = []" using assms(3) by (simp add: filter_empty_conv)
  moreover have "vault_get cr (v_active v) v \<noteq> None" using parse_active [OF assms(1)] by (simp add: vault_get_def find_fp)
  ultimately show ?thesis using assms(2) by (simp add: vault_remove_def Let_def)
qed

end
