(* ===== verification/Pickle_Rekey.thy ===== *)
theory Pickle_Rekey
  imports Pickle_Vault
begin

text \<open>
  What the vault does to the disk: a save replaces the file as a whole, a saved vault opens to what
  it was, turning encryption on or off never costs a key, and neither does the migration of the old
  single-key store. All of it holds with any call to the file system failing at any point.
\<close>

section \<open>Writing\<close>

lemma write_private_frame: "write_private p bs d = (r, d') \<Longrightarrow> touches_only {p} d d'"
  by (auto simp: write_private_def map_err_def and_then_def disk_calls touches_only_def split: option.splits if_splits)

lemma write_private_stored:
  "write_private p bs d = (Inr (), d') \<Longrightarrow> d_files d' p = Some \<lparr>f_bytes = bs, f_mode = private_mode (d_files d p)\<rparr>"
  by (auto simp: write_private_def map_err_def and_then_def disk_calls private_mode_def split: option.splits if_splits)

lemma rename_file_ok:
  "rename_file p q d = (Inr (), d') \<Longrightarrow>
     \<exists>f. d_files d p = Some f \<and> d_files d' = (d_files d)(p := None, q := Some f) \<and> d_fault d' = d_fault d"
  by (auto simp: disk_calls split: option.splits)

lemma rename_file_failed: "rename_file p q d = (Inl e, d') \<Longrightarrow> d_files d' = d_files d \<and> d_fault d' = d_fault d"
  by (auto simp: disk_calls split: option.splits)

lemma rename_file_frame: "rename_file p q d = (r, d') \<Longrightarrow> touches_only {p, q} d d'"
  by (auto simp: disk_calls touches_only_def split: option.splits)

lemma remove_file_frame: "touches_only {p} d (snd (remove_file p d))"
  by (auto simp: disk_calls touches_only_def split: option.splits)

lemma touches_only_mono: "touches_only S d d' \<Longrightarrow> S \<subseteq> T \<Longrightarrow> touches_only T d d'"
  by (auto simp: touches_only_def)

lemma vault_save_frame:
  assumes "vault_save L nonce v d = (r, d')"
  shows "touches_only {v_path v, tmp_of (v_path v)} d d'"
proof (cases "vault_encode L nonce v (v_protection v)")
  case (Inl e)
  then show ?thesis using assms by (simp add: vault_save_def)
next
  case (Inr bs)
  let ?t = "tmp_of (v_path v)"
  have "and_then (write_private ?t bs d) (\<lambda>_ d. map_err (VaultIo (v_path v)) (rename_file ?t (v_path v) d)) = (r, d')"
    using assms Inr by (simp add: vault_save_def Let_def)
  then show ?thesis
  proof (cases rule: and_then_cases)
    case (failed e d0)
    then show ?thesis using touches_only_mono [OF write_private_frame [OF failed(1)]] by auto
  next
    case (went_on a d0)
    from went_on(2) obtain x where "rename_file ?t (v_path v) d0 = (x, d')" by (rule map_err_cases) blast+
    from rename_file_frame [OF this] have "touches_only {v_path v, ?t} d0 d'" by (simp add: insert_commute)
    moreover have "touches_only {v_path v, ?t} d d0" using touches_only_mono [OF write_private_frame [OF went_on(1)]] by auto
    ultimately show ?thesis by (rule touches_only_trans [rotated])
  qed
qed

lemma vault_save_cases:
  assumes "vault_save L nonce v d = (r, d')" and "sound_path (v_path v)"
  shows "case r of
      Inl _ \<Rightarrow> d_files d' (v_path v) = d_files d (v_path v)
    | Inr _ \<Rightarrow> \<exists>bs. vault_encode L nonce v (v_protection v) = Inr bs \<and>
        d_files d' (v_path v) = Some \<lparr>f_bytes = bs, f_mode = private_mode (d_files d (tmp_of (v_path v)))\<rparr> \<and>
        d_files d' (tmp_of (v_path v)) = None"
proof (cases "vault_encode L nonce v (v_protection v)")
  case (Inl e)
  then show ?thesis using assms(1) by (auto simp: vault_save_def)
next
  case (Inr bs)
  let ?t = "tmp_of (v_path v)"
  have "and_then (write_private ?t bs d) (\<lambda>_ d. map_err (VaultIo (v_path v)) (rename_file ?t (v_path v) d)) = (r, d')"
    using assms(1) Inr by (simp add: vault_save_def Let_def)
  then show ?thesis
  proof (cases rule: and_then_cases)
    case (failed e d0)
    then show ?thesis using write_private_frame [OF failed(1)] assms(2) by (simp add: touches_only_def)
  next
    case (went_on a d0)
    have w: "d_files d0 ?t = Some \<lparr>f_bytes = bs, f_mode = private_mode (d_files d ?t)\<rparr>"
      and same: "d_files d0 (v_path v) = d_files d (v_path v)"
      using write_private_stored [of ?t bs d d0] write_private_frame [OF went_on(1)] went_on(1) assms(2)
      by (simp_all add: touches_only_def)
    from went_on(2) show ?thesis
    proof (cases rule: map_err_cases)
      case (failed e)
      then show ?thesis using rename_file_failed [OF failed(1)] same by simp
    next
      case (fine a)
      then have "rename_file ?t (v_path v) d0 = (Inr (), d')" by simp
      from rename_file_ok [OF this] w show ?thesis using fine Inr assms(2) by auto
    qed
  qed
qed

interpretation vs: private_writer "\<lambda>p (v, nonce). vault_save L nonce (v\<lparr>v_path := p\<rparr>)"
    "\<lambda>(v, nonce). ok (vault_encode L nonce v (v_protection v))" for L :: "'z vault_lib_scheme"
proof (unfold_locales, goal_cases)
  case (1 p a d r d')
  then show ?case by (auto split: prod.splits dest: vault_save_frame)
next
  case (2 p a d e d')
  then show ?case by (auto split: prod.splits dest: vault_save_cases)
next
  case (3 p a d d')
  obtain v nonce where a: "a = (v, nonce)" by force
  have enc: "vault_encode L nonce (v\<lparr>v_path := p\<rparr>) q = Inr bs \<Longrightarrow> vault_encode L nonce v q = Inr bs" for q bs
    by (auto simp: vault_encode_def stored_of_def Let_def split: protection.splits sum.splits)
  from 3 vault_save_cases [of L nonce "v\<lparr>v_path := p\<rparr>" d "Inr ()" d'] a enc show ?case by fastforce
next
  case (4 p a d d')
  obtain v nonce where a: "a = (v, nonce)" by force
  from 4 vault_save_cases [of L nonce "v\<lparr>v_path := p\<rparr>" d "Inr ()" d'] a show ?case by fastforce
qed

section \<open>Opening\<close>

text \<open>The path appears in a vault and in its errors only.\<close>

lemma unseal_path: "unseal L p raw phrase = Inr x \<Longrightarrow> unseal L q raw phrase = Inr x"
  by (auto simp: unseal_def split: option.splits sum.splits if_splits)

lemma read_document_path: "read_document L p raw phrase = Inr x \<Longrightarrow> read_document L q raw phrase = Inr x"
  by (auto simp: read_document_def split: option.splits if_splits intro: unseal_path)

lemma parse_path:
  assumes "parse cr L p raw phrase = Inr v"
  shows "parse cr L q raw phrase = Inr (v\<lparr>v_path := q\<rparr>)"
proof -
  obtain x where x: "read_document L p raw phrase = Inr x" using assms by (auto simp: parse_def split: sum.splits)
  show ?thesis
    using assms unfolding parse_def x read_document_path [OF x] by (auto split: prod.splits option.splits if_splits)
qed

lemma private_and: "(m AND 511) AND 63 = (m AND 63 :: u32)"
  by (simp add: and.assoc)

lemma open_steady:
  assumes "steady d" and "d_files d p = Some f" and "is_utf8 (f_bytes f)" and "f_mode f AND 63 = 0"
  shows "fst (open_with_passphrase cr L rn p legacy nick phrase d) = parse cr L p (f_bytes f) phrase"
  using assms
  by (simp add: open_with_passphrase_def check_permissions_def disk_calls and_then_def map_err_def steady_def Let_def private_and)

text \<open>A file that exists is what an open that succeeds read, and the disk is as before.\<close>

lemma open_existing:
  assumes "open_with_passphrase cr L rn p legacy nick phrase d = (r, d')" and "d_files d p = Some f"
  shows "d_files d' = d_files d" and "d_fault d' = d_fault d"
    and "r = Inr v \<Longrightarrow> parse cr L p (f_bytes f) phrase = Inr v \<and> is_utf8 (f_bytes f) \<and> f_mode f AND 63 = 0"
  using assms
  by (auto simp: open_with_passphrase_def check_permissions_def disk_calls and_then_def map_err_def Let_def private_and
      split: option.splits if_splits)

lemma same_identities: "holds_the_same_identities_as w v \<Longrightarrow> v_entries w = v_entries v \<and> v_active w = v_active v"
proof -
  assume a: "holds_the_same_identities_as w v"
  have "v_entries w ! i = v_entries v ! i" if "i < length (v_entries w)" for i
    using a that by (auto simp: holds_the_same_identities_as_def list_all_length intro!: vault_entry.equality identity.equality)
  then show ?thesis using a by (auto simp: holds_the_same_identities_as_def intro: nth_equalityI)
qed

section \<open>Changing the passphrase\<close>

abbreviation staging_of :: "path \<Rightarrow> path" where
  "staging_of \<equiv> with_extension STAGING_SUFFIX"

lemma rewrite_verified_effect:
  assumes "rewrite_verified cr L rn prot phrase v d = (r, d')" and "staging_of (v_path v) \<noteq> v_path v"
  shows "touches_only {v_path v, staging_of (v_path v)} d d'"
    and "case r of
      Inl _ \<Rightarrow> d_files d' (v_path v) = d_files d (v_path v)
    | Inr v' \<Rightarrow> v' = v\<lparr>v_protection := prot\<rparr> \<and> (\<exists>f w. d_files d' (v_path v) = Some f \<and>
        parse cr L (v_path v) (f_bytes f) phrase = Inr w \<and> is_utf8 (f_bytes f) \<and> f_mode f AND 63 = 0 \<and>
        v_entries w = v_entries v \<and> v_active w = v_active v)"
proof -
  let ?p = "v_path v" and ?s = "staging_of (v_path v)"
  let ?ok = "touches_only {?p, ?s} d d' \<and> (case r of
      Inl _ \<Rightarrow> d_files d' ?p = d_files d ?p
    | Inr v' \<Rightarrow> v' = v\<lparr>v_protection := prot\<rparr> \<and> (\<exists>f w. d_files d' ?p = Some f \<and>
        parse cr L ?p (f_bytes f) phrase = Inr w \<and> is_utf8 (f_bytes f) \<and> f_mode f AND 63 = 0 \<and>
        v_entries w = v_entries v \<and> v_active w = v_active v))"
  have ?ok
  proof (cases "vault_encode L (rn_nonce rn) v prot")
    case (Inl e)
    then show ?thesis using assms(1) by (auto simp: rewrite_verified_def)
  next
    case (Inr bs)
    let ?op = "open_with_passphrase cr L rn ?s \<lparr>p_dir = [], p_stem = [], p_extension = None\<rparr> [] phrase"
    have "and_then (write_private ?s bs d) (\<lambda>_ d. case ?op d of
                 (Inl e, d) \<Rightarrow> (Inl e, snd (remove_file ?s d))
               | (Inr reopened, d) \<Rightarrow>
                   if \<not> holds_the_same_identities_as reopened v then
                     (Inl (VerificationFailed ?p), snd (remove_file ?s d))
                   else and_then (map_err (VaultIo ?p) (rename_file ?s ?p d)) (\<lambda>_ d.
                     (Inr (v\<lparr>v_protection := prot\<rparr>), d))) = (r, d')"
      using assms(1) Inr by (simp add: rewrite_verified_def Let_def)
    then show ?thesis
    proof (cases rule: and_then_cases)
      case (failed e d0)
      then show ?thesis using write_private_frame [OF failed(1)] assms(2) by (auto simp: touches_only_def)
    next
      case (went_on a d0)
      have t0: "touches_only {?s} d d0" using write_private_frame went_on(1) by blast
      obtain f where f: "d_files d0 ?s = Some f" using write_private_stored went_on(1) by fastforce
      obtain x d1 where x: "?op d0 = (x, d1)" by force
      note op = open_existing [OF x f]
      have t1: "touches_only {?p, ?s} d d1" using t0 op(1,2) by (auto simp: touches_only_def)
      have p1: "d_files d1 ?p = d_files d ?p" using t0 op(1) assms(2) by (simp add: touches_only_def)
      have rm: "touches_only {?p, ?s} d (snd (remove_file ?s d1)) \<and> d_files (snd (remove_file ?s d1)) ?p = d_files d ?p"
        using t1 p1 remove_file_frame [of ?s d1] assms(2) by (auto simp: touches_only_def)
      show ?thesis
      proof (cases "\<exists>w. x = Inr w \<and> holds_the_same_identities_as w v")
        case False
        then show ?thesis using went_on(2) x rm by (cases x) auto
      next
        case True
        then obtain w where w: "x = Inr w" "holds_the_same_identities_as w v" by blast
        then have "and_then (map_err (VaultIo ?p) (rename_file ?s ?p d1)) (\<lambda>_ d. (Inr (v\<lparr>v_protection := prot\<rparr>), d)) = (r, d')"
          using went_on(2) x by simp
        then show ?thesis
        proof (cases rule: and_then_cases)
          case (failed e d2)
          then have "d_files d2 = d_files d1 \<and> d_fault d2 = d_fault d1"
            by (metis map_err_cases rename_file_failed Inl_inject Inr_Inl_False prod.inject)
          then show ?thesis using failed t1 p1 by (auto simp: touches_only_def)
        next
          case (went_on b d2)
          then have "rename_file ?s ?p d1 = (Inr (), d')" by (auto elim: map_err_cases)
          from rename_file_ok [OF this] have d': "d_files d' = (d_files d1)(?s := None, ?p := Some f)" "d_fault d' = d_fault d1"
            using f op(1) by auto
          have "parse cr L ?p (f_bytes f) phrase = Inr (w\<lparr>v_path := ?p\<rparr>)" "is_utf8 (f_bytes f)" "f_mode f AND 63 = 0"
            using op(3) [OF w(1)] parse_path by auto
          then show ?thesis using went_on(2) d' t1 same_identities [OF w(2)] by (auto simp: touches_only_def)
        qed
      qed
    qed
  qed
  then show "touches_only {?p, ?s} d d'"
    and "case r of
      Inl _ \<Rightarrow> d_files d' ?p = d_files d ?p
    | Inr v' \<Rightarrow> v' = v\<lparr>v_protection := prot\<rparr> \<and> (\<exists>f w. d_files d' ?p = Some f \<and>
        parse cr L ?p (f_bytes f) phrase = Inr w \<and> is_utf8 (f_bytes f) \<and> f_mode f AND 63 = 0 \<and>
        v_entries w = v_entries v \<and> v_active w = v_active v)" by simp_all
qed

text \<open>
  C35. Turning encryption on, changing the passphrase or turning it off never costs a key, whatever
  the cipher, the key derivation, the JSON library and the disk do: if it fails at any point, the
  file is untouched; if it reports success, the file now opens with exactly the passphrase the user
  gave (or without one), to the same identities in the same order with the same one active, because
  the new file has been read back before it took the place of the old. Nothing but the file and its
  staging sibling is touched. No law about the libraries is assumed.
\<close>

theorem rekeying_never_loses_a_key:
  assumes "p_stem (v_path v) \<noteq> []" and "p_extension (v_path v) \<noteq> Some STAGING_SUFFIX"
    and "change = set_passphrase cr L rn new \<and> phrase = Some new \<or> change = remove_passphrase cr L rn \<and> phrase = None"
    and "change v d = (r, d')"
  shows "touches_only {v_path v, staging_of (v_path v)} d d' \<and>
    (case r of
       Inl _ \<Rightarrow> d_files d' (v_path v) = d_files d (v_path v)
     | Inr v' \<Rightarrow> v_entries v' = v_entries v \<and> v_active v' = v_active v \<and> (is_encrypted v' \<longleftrightarrow> phrase \<noteq> None) \<and>
         (\<forall>d2 rn' legacy nick. steady d2 \<and> d_files d2 (v_path v) = d_files d' (v_path v) \<longrightarrow>
            (\<exists>w. fst (open_with_passphrase cr L rn' (v_path v) legacy nick phrase d2) = Inr w \<and>
               v_entries w = v_entries v \<and> v_active w = v_active v)))"
proof (cases "\<exists>prot. rewrite_verified cr L rn prot phrase v d = (r, d') \<and> (prot = NoProtection \<longleftrightarrow> phrase = None)")
  case True
  then obtain prot where rw: "rewrite_verified cr L rn prot phrase v d = (r, d')"
    and prot: "prot = NoProtection \<longleftrightarrow> phrase = None" by blast
  note e = rewrite_verified_effect [OF rw with_extension_neq [OF assms(1,2)]]
  show ?thesis
  proof (cases r)
    case (Inl x)
    then show ?thesis using e by simp
  next
    case (Inr v')
    then obtain f w where f: "d_files d' (v_path v) = Some f" "parse cr L (v_path v) (f_bytes f) phrase = Inr w"
      "is_utf8 (f_bytes f)" "f_mode f AND 63 = 0" "v_entries w = v_entries v" "v_active w = v_active v"
      and v': "v' = v\<lparr>v_protection := prot\<rparr>"
      using e(2) by auto
    have "is_encrypted v' \<longleftrightarrow> phrase \<noteq> None" using v' prot by (cases prot) (auto simp: is_encrypted_def)
    moreover have "\<exists>w. fst (open_with_passphrase cr L rn' (v_path v) legacy nick phrase d2) = Inr w \<and>
        v_entries w = v_entries v \<and> v_active w = v_active v"
      if "steady d2 \<and> d_files d2 (v_path v) = d_files d' (v_path v)" for d2 rn' legacy nick
      using open_steady [of d2 "v_path v" f cr L rn' legacy nick phrase] that f by simp
    ultimately show ?thesis using e(1) Inr v' by simp
  qed
next
  case False
  then show ?thesis using assms(3,4)
    by (auto simp: set_passphrase_def remove_passphrase_def split: sum.splits)
qed

section \<open>Saving and opening\<close>

definition unlocks :: "'z seal_lib_scheme \<Rightarrow> ustring option \<Rightarrow> vault \<Rightarrow> bool" where
  "unlocks L phrase v \<longleftrightarrow>
     (case v_protection v of
        NoProtection \<Rightarrow> True | Passphrase k \<Rightarrow> \<exists>s. phrase = Some s \<and> derive L s (vk_header k) = Inr k)"

text \<open>A vault is unlocked by the passphrase it was opened or created with.\<close>

lemma derive_again: "derive L s h = Inr k \<Longrightarrow> derive L s (vk_header k) = Inr k"
  using derive_header by metis

lemma unseal_unlocks: "unseal L path raw phrase = Inr (stored, prot) \<Longrightarrow>
    \<exists>k s. prot = Passphrase k \<and> phrase = Some s \<and> derive L s (vk_header k) = Inr k"
  by (auto simp: unseal_def split: option.splits sum.splits if_splits intro: derive_again)

lemma parse_unlocks: "parse cr L path raw phrase = Inr v \<Longrightarrow> unlocks L phrase v"
  by (auto simp: parse_def read_document_def unlocks_def dest!: unseal_unlocks
      split: option.splits sum.splits if_splits prod.splits)

lemma key_fresh_unlocks: "key_fresh L salt s = Inr k \<Longrightarrow> derive L s (vk_header k) = Inr k"
  by (auto simp: key_fresh_def intro: derive_again)

text \<open>What the JSON library promises of the documents of one save.\<close>

definition vault_prints :: "'z vault_lib_scheme \<Rightarrow> bytes \<Rightarrow> vault \<Rightarrow> bool" where
  "vault_prints L nonce v \<longleftrightarrow>
     (let doc = stored_of L v; body = print_vault L doc
      in is_utf8 (body @ [10]) \<and> probe_version L (body @ [10]) = Some VAULT_VERSION \<and>
         parse_vault L (body @ [10]) = Some doc \<and> parse_vault L body = Some doc \<and>
         (\<forall>k sv. v_protection v = Passphrase k \<and> seal L nonce k body = Inr sv \<longrightarrow>
            is_utf8 (print_sealed L sv @ [10]) \<and> probe_version L (print_sealed L sv @ [10]) = Some SEALED_VERSION \<and>
            parse_sealed L (print_sealed L sv @ [10]) = Some sv))"

lemma load_entries_stored:
  assumes "b64_reads L" and "\<forall>e\<in>set es. length (id_secret (ve_identity e)) = 32"
  shows "load_entries L (map (\<lambda>e. \<lparr>se_secret_key = b64_encode L (id_secret (ve_identity e)),
        se_counter = id_counter (ve_identity e), se_nickname = ve_nickname e, se_label = ve_label e\<rparr>) es) = Some es"
  using assms(2)
proof (induction es)
  case (Cons e es)
  then show ?case using assms(1) by (cases e) (simp add: decode_secret_def b64_reads_def)
qed simp

lemma parse_encoded:
  assumes "vault_encode L nonce v (v_protection v) = Inr bs" and "vault_prints L nonce v" and "b64_reads L"
    and "aead_opens L" and "length nonce = NONCE_LEN" and "\<forall>sk\<in>set (secrets v). length sk = 32"
    and "v_active v \<in> fp_text cr ` set (v_entries v)" and "unlocks L phrase v"
  shows "parse cr L (v_path v) bs phrase = Inr v" and "is_utf8 bs"
proof -
  have "read_document L (v_path v) bs phrase = Inr (stored_of L v, v_protection v) \<and> is_utf8 bs"
  proof (cases "v_protection v")
    case NoProtection
    then show ?thesis using assms(1,2) by (auto simp: vault_encode_def vault_prints_def read_document_def Let_def)
  next
    case (Passphrase k)
    let ?body = "print_vault L (stored_of L v)"
    obtain sv where sv: "seal L nonce k ?body = Inr sv" "bs = print_sealed L sv @ [10]"
      using assms(1) Passphrase by (auto simp: vault_encode_def Let_def split: sum.splits)
    obtain s where s: "phrase = Some s" "derive L s (vk_header k) = Inr k"
      using assms(8) Passphrase by (auto simp: unlocks_def)
    have "sv_kdf sv = vk_header k" using sv(1) by (auto simp: seal_def split: option.splits)
    moreover have "key_open L k sv = Inr ?body" by (rule sealed_opens [OF assms(3,4) sv(1) assms(5)])
    moreover have "VAULT_VERSION \<noteq> SEALED_VERSION" by (simp add: VAULT_VERSION_def SEALED_VERSION_def)
    ultimately show ?thesis
      using assms(2) Passphrase sv s
      by (auto simp: vault_prints_def read_document_def unseal_def Let_def stored_of_def)
  qed
  moreover have "load_entries L (st_identities (stored_of L v)) = Some (v_entries v)"
    using load_entries_stored [OF assms(3)] assms(6) by (simp add: stored_of_def)
  moreover have "v_entries v \<noteq> []" "\<exists>e\<in>set (v_entries v). fp_text cr e = v_active v" using assms(7) by auto
  ultimately show "parse cr L (v_path v) bs phrase = Inr v" "is_utf8 bs"
    by (simp_all add: parse_def stored_of_def)
qed


section \<open>Migration\<close>

abbreviation backup_of :: "path \<Rightarrow> path" where
  "backup_of \<equiv> with_extension MIGRATED_SUFFIX"

text \<open>What a single-key file holds does not depend on the calls that failed before it was read.\<close>

lemma ks_load_result:
  assumes "ks_load L p d = (Inr l, d')" and "steady d0" and "d_files d0 p = d_files d p"
  shows "fst (ks_load L p d0) = Inr l"
  using assms
  by (auto simp: ks_load_def check_permissions_def steady_def map_err_def and_then_def disk_calls Let_def
      split: option.splits if_splits sum.splits)

lemma ks_load_not_missing: "ks_load L p d = (Inl (KsIo q Missing), d') \<Longrightarrow> d_files d p = None"
  by (auto simp: ks_load_def check_permissions_def map_err_def and_then_def disk_calls Let_def
      split: option.splits if_splits sum.splits)

lemma create_from_legacy:
  assumes "vault_create cr L rn path legacy nick phrase d = (r, d')" and "d_files d legacy = Some f"
    and "legacy \<notin> {path, tmp_of path}" and "backup_of legacy \<notin> {path, legacy}"
  shows "case r of
      Inl _ \<Rightarrow> d_files d' legacy = Some f
    | Inr v \<Rightarrow> d_files d' (backup_of legacy) = Some f \<and> (\<exists>l d1. ks_load L legacy d = (Inr l, d1) \<and>
        v_entries v = [\<lparr>ve_identity = li_identity l, ve_nickname = li_nickname l, ve_label = []\<rparr>])"
proof -
  obtain x d1 where ld: "ks_load L legacy d = (x, d1)" by force
  have d1: "d_files d1 legacy = Some f" using ks_load_frame [of d L legacy] ld assms(2) by (simp add: touches_only_def)
  show ?thesis
  proof (cases x)
    case (Inl e)
    then have "\<not> (\<exists>q. e = KsIo q Missing)" using ks_load_not_missing ld assms(2) by force
    then have "r = Inl (Migration legacy e) \<and> d' = d1"
      using assms(1) ld Inl by (auto simp: vault_create_def and_then_def split: keystore_error.splits io_error.splits)
    then show ?thesis using d1 by simp
  next
    case (Inr l)
    let ?e = "\<lparr>ve_identity = li_identity l, ve_nickname = li_nickname l, ve_label = []\<rparr>"
    let ?prot = "case phrase of None \<Rightarrow> Inr NoProtection | Some phrase \<Rightarrow>
        (case key_fresh L (rn_salt rn) phrase of Inl e \<Rightarrow> Inl (Locked path e) | Inr key \<Rightarrow> Inr (Passphrase key))"
    show ?thesis
    proof (cases ?prot)
      case Inl': (Inl e)
      then have "r = Inl e \<and> d' = d1"
        using assms(1) ld Inr by (simp add: vault_create_def and_then_def)
      then show ?thesis using d1 by simp
    next
      case Inr': (Inr prot)
      let ?v = "\<lparr>v_path = path, v_entries = [?e], v_active = fp_text cr ?e, v_protection = prot\<rparr>"
      have "and_then (vault_save L (rn_nonce rn) ?v d1) (\<lambda>_ d.
          and_then (map_err (VaultIo (backup_of legacy)) (rename_file legacy (backup_of legacy) d)) (\<lambda>_ d. (Inr ?v, d))) = (r, d')"
        using assms(1) ld Inr Inr' by (simp add: vault_create_def and_then_simps Let_def)
      then show ?thesis
      proof (cases rule: and_then_cases)
        case (failed e d2)
        then show ?thesis using vault_save_frame [OF failed(1)] assms(3) d1 by (auto simp: touches_only_def)
      next
        case (went_on a d2)
        have d2: "d_files d2 legacy = Some f" using vault_save_frame [OF went_on(1)] assms(3) d1 by (auto simp: touches_only_def)
        from went_on(2) show ?thesis
        proof (cases rule: and_then_cases)
          case (failed e d3)
          from failed(1) obtain e' where "rename_file legacy (backup_of legacy) d2 = (Inl e', d3)" by (rule map_err_cases) auto
          then show ?thesis using rename_file_failed d2 failed by fastforce
        next
          case (went_on b d3)
          from went_on(1) have "rename_file legacy (backup_of legacy) d2 = (Inr (), d3)" by (rule map_err_cases) auto
          from rename_file_ok [OF this] have "d_files d3 (backup_of legacy) = Some f" using d2 by auto
          then show ?thesis using went_on(2) ld Inr by auto
        qed
      qed
    qed
  qed
qed

text \<open>
  C38. Upgrading from the single-key store never costs the old key: opening a vault that does not
  exist yet beside an old key file, with any call failing at any point, either fails and leaves the
  old file where it was, or yields a vault with exactly the old identity, counter and nickname in it
  (never a fresh key in its place) and keeps the old file, bytes and all, as the backup.
\<close>

theorem migration_keeps_the_old_key:
  assumes "open_with_passphrase cr L rn path legacy nick phrase d = (r, d')" and "d_files d path = None"
    and "d_files d legacy = Some f" and "legacy \<notin> {path, tmp_of path}" and "backup_of legacy \<notin> {path, legacy}"
  shows "case r of
      Inl _ \<Rightarrow> d_files d' legacy = Some f
    | Inr v \<Rightarrow> d_files d' (backup_of legacy) = Some f \<and>
        (\<forall>d0. steady d0 \<and> d_files d0 legacy = Some f \<longrightarrow> (\<exists>l. fst (ks_load L legacy d0) = Inr l \<and>
           v_entries v = [\<lparr>ve_identity = li_identity l, ve_nickname = li_nickname l, ve_label = []\<rparr>]))"
proof (cases "d_fault d (d_calls d)")
  case (Some n)
  then have "r = Inl (VaultIo path OtherIo) \<and> d_files d' = d_files d"
    using assms(1) by (auto simp: open_with_passphrase_def disk_calls)
  then show ?thesis using assms(3) by simp
next
  case None
  let ?d = "d\<lparr>d_calls := Suc (d_calls d)\<rparr>"
  have c: "vault_create cr L rn path legacy nick phrase ?d = (r, d')"
    using assms(1,2) None by (simp add: open_with_passphrase_def disk_calls)
  have f: "d_files ?d legacy = Some f" using assms(3) by simp
  note created = create_from_legacy [OF c f assms(4,5)]
  show ?thesis
  proof (cases r)
    case (Inl e)
    then show ?thesis using created by simp
  next
    case (Inr v)
    then obtain l d1 where l: "ks_load L legacy ?d = (Inr l, d1)"
      "v_entries v = [\<lparr>ve_identity = li_identity l, ve_nickname = li_nickname l, ve_label = []\<rparr>]"
      and b: "d_files d' (backup_of legacy) = Some f" using created by auto
    have "fst (ks_load L legacy d0) = Inr l" if "steady d0 \<and> d_files d0 legacy = Some f" for d0
      using ks_load_result [OF l(1)] that f by simp
    then show ?thesis using Inr b l(2) by auto
  qed
qed

section \<open>Instances\<close>

text \<open>A first vault beside an old key file, on a disk that works.\<close>

definition sample_secret :: bytes where "sample_secret = replicate 32 0"

definition sample_entry :: vault_entry where
  "sample_entry = \<lparr>ve_identity = \<lparr>id_secret = sample_secret, id_counter = 7\<rparr>, ve_nickname = [97], ve_label = []\<rparr>"

definition sample_path :: path where "sample_path = \<lparr>p_dir = [], p_stem = [118], p_extension = None\<rparr>"
definition sample_legacy :: path where "sample_legacy = \<lparr>p_dir = [], p_stem = [107], p_extension = None\<rparr>"

definition sample_vault :: vault where
  "sample_vault = \<lparr>v_path = sample_path, v_entries = [sample_entry], v_active = fp_text sample_ext sample_entry,
     v_protection = NoProtection\<rparr>"

definition sample_vault_lib :: vault_lib where
  "sample_vault_lib =
     \<lparr>b64_encode = map unat, b64_decode = (\<lambda>s. Some (map of_nat s)),
      print_identity = (\<lambda>_. [123]),
      parse_identity = (\<lambda>_. Some \<lparr>sid_version = 1, sid_secret_key = map unat sample_secret, sid_counter = 7, sid_nickname = [97]\<rparr>),
      min_salt_len = 8, argon2_params = (\<lambda>_ _ _. None), argon2_hash = (\<lambda>_ _ _ p s. Inr (p @ s)),
      aead_encrypt = (\<lambda>k n a m. Some m), aead_decrypt = (\<lambda>k n a c. Some c),
      print_vault = (\<lambda>_. [123]),
      parse_vault = (\<lambda>_. Some \<lparr>st_version = 2, st_active = fp_text sample_ext sample_entry,
        st_identities = [\<lparr>se_secret_key = map unat sample_secret, se_counter = 7, se_nickname = [97], se_label = []\<rparr>]\<rparr>),
      print_sealed = (\<lambda>_. []), parse_sealed = (\<lambda>_. None), probe_version = (\<lambda>_. Some 2)\<rparr>"

definition sample_entropy :: entropy where
  "sample_entropy = \<lparr>rn_secret = replicate 32 9, rn_salt = replicate 16 7, rn_nonce = replicate 24 5\<rparr>"

definition sample_disk :: "(path \<Rightarrow> disk_file option) \<Rightarrow> disk" where
  "sample_disk files = \<lparr>d_files = files, d_calls = 0, d_fault = (\<lambda>_. None)\<rparr>"

lemma steady_sample [simp]: "steady (sample_disk files)"
  by (simp add: steady_def sample_disk_def)

lemma sample_reads [simp]: "b64_reads sample_vault_lib" "aead_opens sample_vault_lib"
  by (simp_all add: b64_reads_def aead_opens_def sample_vault_lib_def comp_def)

lemma sample_prints: "vault_prints sample_vault_lib nonce sample_vault"
  by (simp add: vault_prints_def sample_vault_lib_def sample_vault_def sample_entry_def stored_of_def Let_def
      VAULT_VERSION_def byte_in_def)

lemmas sample_paths = sample_path_def sample_legacy_def sound_path_def with_extension_def

lemma sample_save:
  "\<exists>d. vault_save sample_vault_lib (replicate 24 5) sample_vault (sample_disk files) = (Inr (), d) \<and> steady d"
  by (simp add: vault_save_def vault_encode_def sample_vault_def sample_disk_def write_private_def map_err_def and_then_def
      disk_calls sample_path_def Let_def steady_def)


definition sample_file :: disk_file where "sample_file = \<lparr>f_bytes = [123, 10], f_mode = 384\<rparr>"

lemma sample_parse: "parse sample_ext sample_vault_lib p raw None = Inr (sample_vault\<lparr>v_path := p\<rparr>)"
  by (simp add: parse_def read_document_def sample_vault_lib_def VAULT_VERSION_def decode_secret_def sample_secret_def
      sample_vault_def sample_entry_def)

lemma sample_opens_file:
  assumes "steady d" and "d_files d p = Some \<lparr>f_bytes = [123, 10], f_mode = 384\<rparr>"
  shows "open_with_passphrase sample_ext sample_vault_lib rn p legacy nick None d =
    (Inr (sample_vault\<lparr>v_path := p\<rparr>), d\<lparr>d_calls := Suc (Suc (d_calls d))\<rparr>)"
  using assms by (simp add: open_with_passphrase_def check_permissions_def disk_calls and_then_def map_err_def steady_def
        Let_def sample_parse byte_in_def)

lemma sample_rekey:
  "\<exists>d. remove_passphrase sample_ext sample_vault_lib sample_entropy sample_vault
      (sample_disk (\<lambda>p. if p = sample_path then Some sample_file else None)) = (Inr sample_vault, d) \<and> steady d"
proof -
  let ?D = "sample_disk (\<lambda>p. if p = sample_path then Some sample_file else None)" and ?s = "staging_of sample_path"
  have ne: "?s \<noteq> sample_path" by (simp add: sample_paths)
  have enc: "vault_encode sample_vault_lib n sample_vault NoProtection = Inr [123, 10]" for n
    by (simp add: vault_encode_def sample_vault_lib_def)
  obtain d1 where d1: "write_private ?s [123, 10] ?D = (Inr (), d1)"
    by (simp add: write_private_def map_err_def and_then_def disk_calls sample_disk_def sample_paths)
  have st: "steady d1" using steady_touches [OF write_private_frame [OF d1]] by simp
  have f: "d_files d1 ?s = Some \<lparr>f_bytes = [123, 10], f_mode = 384\<rparr>"
    using write_private_stored [OF d1] ne by (simp add: private_mode_def sample_disk_def)
  have same: "holds_the_same_identities_as (sample_vault\<lparr>v_path := p\<rparr>) sample_vault" for p
    by (simp add: holds_the_same_identities_as_def sample_vault_def)
  have prot: "sample_vault\<lparr>v_protection := NoProtection\<rparr> = sample_vault" and path: "v_path sample_vault = sample_path"
    by (simp_all add: sample_vault_def)
  obtain d3 where d3: "rename_file ?s sample_path (d1\<lparr>d_calls := Suc (Suc (d_calls d1))\<rparr>) = (Inr (), d3)"
    and f3: "d_fault d3 = d_fault d1"
    using st f by (simp add: disk_calls steady_def)
  have "remove_passphrase sample_ext sample_vault_lib sample_entropy sample_vault ?D = (Inr sample_vault, d3)"
    by (simp add: remove_passphrase_def rewrite_verified_def enc path d1 sample_opens_file [OF st f] same prot d3
        and_then_simps map_err_def)
  then show ?thesis using f3 st by (auto simp: steady_def)
qed

theorem rekeying_never_loses_a_key_witness:
  "\<exists>d w. remove_passphrase sample_ext sample_vault_lib sample_entropy sample_vault
      (sample_disk (\<lambda>p. if p = sample_path then Some sample_file else None)) = (Inr sample_vault, d) \<and>
     fst (open_with_passphrase sample_ext sample_vault_lib sample_entropy sample_path sample_legacy [] None d) = Inr w \<and>
     v_entries w = [sample_entry]"
proof -
  obtain d where d: "remove_passphrase sample_ext sample_vault_lib sample_entropy sample_vault
      (sample_disk (\<lambda>p. if p = sample_path then Some sample_file else None)) = (Inr sample_vault, d)" "steady d"
    using sample_rekey by blast
  have path: "p_stem (v_path sample_vault) \<noteq> []" "p_extension (v_path sample_vault) \<noteq> Some STAGING_SUFFIX"
    by (simp_all add: sample_vault_def sample_path_def)
  have vp: "v_path sample_vault = sample_path" "v_entries sample_vault = [sample_entry]" by (simp_all add: sample_vault_def)
  have "\<exists>w. fst (open_with_passphrase sample_ext sample_vault_lib rn sample_path legacy nick None d2) = Inr w \<and> v_entries w = [sample_entry]"
    if "steady d2 \<and> d_files d2 sample_path = d_files d sample_path" for d2 rn legacy nick
    using rekeying_never_loses_a_key [where change = "remove_passphrase sample_ext sample_vault_lib sample_entropy" and
      v = sample_vault and phrase = None and cr = sample_ext and L = sample_vault_lib and rn = sample_entropy and new = "[]",
      OF path _ d(1)] that by (simp add: vp) blast
  with d show ?thesis by blast
qed

lemma sample_migration:
  "\<exists>d. open_with_passphrase sample_ext sample_vault_lib sample_entropy sample_path sample_legacy [] None
      (sample_disk (\<lambda>p. if p = sample_legacy then Some sample_file else None)) = (Inr sample_vault, d)"
proof -
  let ?D = "sample_disk (\<lambda>p. if p = sample_legacy then Some sample_file else None)"
  have ne: "sample_legacy \<noteq> sample_path" "tmp_of sample_path \<noteq> sample_legacy" by (simp_all add: sample_paths)
  obtain d1 where d1: "ks_load sample_vault_lib sample_legacy (?D\<lparr>d_calls := Suc 0\<rparr>) =
      (Inr \<lparr>li_identity = ve_identity sample_entry, li_nickname = [97]\<rparr>, d1)"
    and s1: "steady d1" and f1: "d_files d1 = d_files ?D"
    by (simp add: ks_load_def check_permissions_def disk_calls and_then_def map_err_def sample_disk_def sample_file_def
        Let_def sample_vault_lib_def KEYSTORE_VERSION_def decode_secret_def sample_secret_def byte_in_def sample_entry_def steady_def)
  obtain d2 where d2: "vault_save sample_vault_lib (rn_nonce sample_entropy) sample_vault d1 = (Inr (), d2)"
    using s1 by (simp add: vault_save_def vault_encode_def sample_vault_def write_private_def map_err_def and_then_def
        disk_calls sample_path_def Let_def steady_def with_extension_def)
  have s2: "steady d2" "d_files d2 sample_legacy = Some sample_file"
    using vault_save_frame [OF d2] s1 f1 ne by (auto simp: touches_only_def steady_def sample_vault_def sample_disk_def)
  obtain d3 where d3: "rename_file sample_legacy (backup_of sample_legacy) d2 = (Inr (), d3)"
    using s2 by (simp add: disk_calls steady_def)
  have v: "sample_vault = \<lparr>v_path = sample_path, v_entries = [\<lparr>ve_identity = ve_identity sample_entry, ve_nickname = [97], ve_label = []\<rparr>],
      v_active = fp_text sample_ext \<lparr>ve_identity = ve_identity sample_entry, ve_nickname = [97], ve_label = []\<rparr>, v_protection = NoProtection\<rparr>"
    by (simp add: sample_vault_def sample_entry_def)
  have "vault_create sample_ext sample_vault_lib sample_entropy sample_path sample_legacy [] None (?D\<lparr>d_calls := Suc 0\<rparr>) =
      (Inr sample_vault, d3)"
    by (simp add: vault_create_def d1 and_then_simps Let_def v [symmetric] d2 d3 map_err_def)
  then show ?thesis
    using ne by (auto simp: open_with_passphrase_def disk_calls sample_disk_def)
qed

theorem migration_keeps_the_old_key_witness:
  "\<exists>d. open_with_passphrase sample_ext sample_vault_lib sample_entropy sample_path sample_legacy [] None
      (sample_disk (\<lambda>p. if p = sample_legacy then Some sample_file else None)) = (Inr sample_vault, d) \<and>
     d_files d (backup_of sample_legacy) = Some sample_file"
proof -
  obtain d where d: "open_with_passphrase sample_ext sample_vault_lib sample_entropy sample_path sample_legacy [] None
      (sample_disk (\<lambda>p. if p = sample_legacy then Some sample_file else None)) = (Inr sample_vault, d)"
    using sample_migration by blast
  from migration_keeps_the_old_key [OF d, of sample_file] d show ?thesis
    by (auto simp: sample_disk_def sample_paths)
qed

theorem vault_always_has_an_identity_witness:
  "\<exists>d w e. open_with_passphrase sample_ext sample_vault_lib sample_entropy sample_path sample_legacy [] None
      (sample_disk (\<lambda>p. if p = sample_legacy then Some sample_file else None)) = (Inr sample_vault, d) \<and>
     vault_run sample_ext [SetLabel (v_active sample_vault) [1], Remove (v_active sample_vault)] sample_vault = Some w \<and>
     active_entry sample_ext w = Some e"
proof -
  obtain d where d: "open_with_passphrase sample_ext sample_vault_lib sample_entropy sample_path sample_legacy [] None
      (sample_disk (\<lambda>p. if p = sample_legacy then Some sample_file else None)) = (Inr sample_vault, d)"
    using sample_migration by blast
  have "distinct (map (fp_text sample_ext) (v_entries sample_vault))" by (simp add: sample_vault_def)
  with vault_always_has_an_identity [OF d, of "[SetLabel (v_active sample_vault) [1], Remove (v_active sample_vault)]"] d
  show ?thesis by blast
qed

end
