(* ===== verification/Pickle_Trust.thy ===== *)
theory Pickle_Trust
  imports Pickle_Identity "HOL-Library.List_Lexorder"
begin

text \<open>
  Trust on first use (\<open>pickle-client/src/trust.rs\<close>, and \<open>apply_trust_policy\<close> of
  \<open>pickle-client/src/lib.rs\<close>): the store of pinned server identities and the decision made on a
  greeting. The JSON reader and writer are parameters, the outcome of a file access an argument.
  Shown are that a pin can only be replaced by a deliberate act, through any sequence of
  connections, and that pins survive saving and reopening.
\<close>

section \<open>The store\<close>

record trusted_server =
  ts_fingerprint :: fingerprint
  ts_name :: ustring
  ts_first_seen :: u64
  ts_last_seen :: u64

type_synonym store_file = "(ustring, trusted_server) btree_map"

record trust_store =
  tr_path :: ustring
  tr_servers :: store_file

datatype trust_decision =
    FirstContact fingerprint
  | Recognised
  | Changed fingerprint fingerprint

datatype trust_error = TrustIo ustring | TrustMalformed ustring

text \<open>What reading and writing a file comes to: a failed write may leave anything behind.\<close>

datatype read_outcome = Contents ustring | NotFound | ReadFailed
datatype write_outcome = Written | Broken "ustring option"

definition trust_open :: "(ustring \<Rightarrow> store_file option) \<Rightarrow> ustring \<Rightarrow> read_outcome \<Rightarrow> trust_error + trust_store" where
  "trust_open from_json path rd =
     (case rd of
        Contents raw \<Rightarrow>
          (case from_json raw of
             Some file \<Rightarrow> Inr \<lparr>tr_path = path, tr_servers = file\<rparr>
           | None \<Rightarrow> Inl (TrustMalformed path))
      | NotFound \<Rightarrow> Inr \<lparr>tr_path = path, tr_servers = []\<rparr>
      | ReadFailed \<Rightarrow> Inl (TrustIo path))"

definition ephemeral :: trust_store where
  "ephemeral = \<lparr>tr_path = [], tr_servers = []\<rparr>"

definition trust_get :: "ustring \<Rightarrow> trust_store \<Rightarrow> trusted_server option" where
  "trust_get address st = map_of (tr_servers st) address"

definition check :: "ustring \<Rightarrow> fingerprint \<Rightarrow> trust_store \<Rightarrow> trust_decision" where
  "check address fp st =
     (case map_of (tr_servers st) address of
        None \<Rightarrow> FirstContact fp
      | Some known \<Rightarrow> if ts_fingerprint known = fp then Recognised else Changed (ts_fingerprint known) fp)"

definition trust :: "u64 \<Rightarrow> ustring \<Rightarrow> fingerprint \<Rightarrow> ustring \<Rightarrow> trust_store \<Rightarrow> trust_store" where
  "trust now address fp name st =
     (let entry = (case map_of (tr_servers st) address of
                     Some e \<Rightarrow> e
                   | None \<Rightarrow> \<lparr>ts_fingerprint = fp, ts_name = name, ts_first_seen = now, ts_last_seen = now\<rparr>)
      in st\<lparr>tr_servers := bt_insert address
           (entry\<lparr>ts_fingerprint := fp, ts_name := name, ts_last_seen := now\<rparr>) (tr_servers st)\<rparr>)"

definition forget :: "ustring \<Rightarrow> trust_store \<Rightarrow> bool \<times> trust_store" where
  "forget address st =
     (map_of (tr_servers st) address \<noteq> None, st\<lparr>tr_servers := AList.delete address (tr_servers st)\<rparr>)"

text \<open>\<open>save\<close> yields the new contents of the file, if it touches it.\<close>

definition save ::
  "(store_file \<Rightarrow> ustring) \<Rightarrow> write_outcome \<Rightarrow> trust_store \<Rightarrow> (trust_error + unit) \<times> ustring option" where
  "save to_json wr st =
     (if tr_path st = [] then (Inr (), None)
      else case wr of
             Written \<Rightarrow> (Inr (), Some (to_json (tr_servers st)))
           | Broken rest \<Rightarrow> (Inl (TrustIo (tr_path st)), rest))"

section \<open>The policy\<close>

datatype trust_policy = OnFirstUse | Strict | Insecure

datatype trust_refusal = NotTrusted ustring fingerprint | IdentityChanged ustring fingerprint fingerprint

text \<open>\<open>to_ascii_lowercase\<close>, after trimming.\<close>

definition normalise_server_key :: "ustring \<Rightarrow> ustring" where
  "normalise_server_key key = map (\<lambda>c. if 65 \<le> c \<and> c \<le> 90 then c + 32 else c) (trim key)"

text \<open>The result, the store, and whether it is then saved (whose failure is only logged).\<close>

definition apply_trust_policy ::
  "u64 \<Rightarrow> trust_policy \<Rightarrow> ustring \<Rightarrow> ustring \<Rightarrow> fingerprint \<Rightarrow> ustring \<Rightarrow> trust_store \<Rightarrow>
     (trust_refusal + unit) \<times> trust_store \<times> bool" where
  "apply_trust_policy now policy address legacy_key fp server_name st =
     (if policy = Insecure then (Inr (), st, False)
      else case check address fp st of
        Recognised \<Rightarrow> (Inr (), st, False)
      | FirstContact fp \<Rightarrow>
          if legacy_key \<noteq> address \<and> check legacy_key fp st = Recognised then
            (Inr (), snd (forget legacy_key (trust now address fp server_name st)), True)
          else if policy = Strict then (Inl (NotTrusted address fp), st, False)
          else (Inr (), trust now address fp server_name st, True)
      | Changed expected actual \<Rightarrow> (Inl (IdentityChanged address expected actual), st, False))"

section \<open>Pins\<close>

definition pin :: "trust_store \<Rightarrow> ustring \<Rightarrow> fingerprint option" where
  "pin st address = map_option ts_fingerprint (map_of (tr_servers st) address)"

lemma check_pin:
  "check address fp st = (case pin st address of None \<Rightarrow> FirstContact fp | Some f \<Rightarrow> if f = fp then Recognised else Changed f fp)"
  by (simp add: check_def pin_def split: option.splits)

lemma pin_trust [simp]: "pin (trust now address fp name st) a = (if a = address then Some fp else pin st a)"
  by (simp add: pin_def trust_def map_of_bt_insert Let_def)

lemma pin_forget [simp]: "pin (snd (forget address st)) a = (if a = address then None else pin st a)"
  by (simp add: pin_def forget_def delete_conv')

lemma policy_accepts_pinned:
  assumes "apply_trust_policy now policy address legacy fp name st = (Inr (), st', saved)" and "policy \<noteq> Insecure"
  shows "pin st' address = Some fp \<and> (pin st address = None \<or> pin st address = Some fp)"
  using assms by (auto simp: apply_trust_policy_def check_pin split: option.splits if_splits)

text \<open>One connection's effect on the store.\<close>

definition contact :: "u64 \<times> trust_policy \<times> ustring \<times> ustring \<times> fingerprint \<times> ustring \<Rightarrow> trust_store \<Rightarrow> trust_store" where
  "contact c st = (case c of (now, policy, address, legacy, fp, name) \<Rightarrow>
     fst (snd (apply_trust_policy now policy address legacy fp name st)))"

lemma contact_keeps_pin:
  assumes "pin st a = Some f"
  shows "pin (contact (now, policy, address, legacy, fp, name) st) a = Some f \<or>
    legacy = a \<and> address \<noteq> a \<and> pin (contact (now, policy, address, legacy, fp, name) st) address = Some f"
  using assms by (auto simp: contact_def apply_trust_policy_def check_pin split: option.splits)

lemma contacts_keep_identity: "pin st a = Some f \<Longrightarrow> \<exists>a'. pin (fold contact cs st) a' = Some f"
proof (induction cs arbitrary: st a)
  case (Cons c cs)
  obtain now policy address legacy fp name where c: "c = (now, policy, address, legacy, fp, name)" by (cases c)
  have "\<exists>a'. pin (contact c st) a' = Some f" using contact_keeps_pin [OF Cons.prems] unfolding c by blast
  then show ?case using Cons.IH by auto
qed auto

lemma contacts_keep_pin:
  assumes "pin st a = Some f"
    and "\<forall>now policy address fp name. (now, policy, address, a, fp, name) \<in> set cs \<longrightarrow> address = a"
  shows "pin (fold contact cs st) a = Some f"
  using assms
proof (induction cs arbitrary: st)
  case (Cons c cs)
  obtain now policy address legacy fp name where c: "c = (now, policy, address, legacy, fp, name)" by (cases c)
  have "legacy = a \<longrightarrow> address = a" using Cons.prems(2) c by auto
  then have "pin (contact c st) a = Some f" using contact_keeps_pin [OF Cons.prems(1)] unfolding c by blast
  moreover have "\<forall>now policy address fp name. (now, policy, address, a, fp, name) \<in> set cs \<longrightarrow> address = a"
    using Cons.prems(2) by (meson list.set_intros(2))
  ultimately show ?case using Cons.IH [of "contact c st"] by simp
qed simp

text \<open>
  C27. A pin is never replaced on the say of the network: through any sequence of connections, under
  any policies, to any addresses and whatever identities answered, an identity that was pinned stays
  pinned, and under the same address, except that a pin filed under a resolved address may move to
  the name the user typed for it; and a connection to a pinned address with any other identity is
  refused under both safe policies and changes nothing.
\<close>

theorem pins_are_never_replaced:
  assumes "pin st a = Some f"
  shows "(\<exists>a'. pin (fold contact cs st) a' = Some f) \<and>
    ((\<forall>now policy address fp name. (now, policy, address, a, fp, name) \<in> set cs \<longrightarrow> address = a) \<longrightarrow>
       pin (fold contact cs st) a = Some f) \<and>
    (policy \<noteq> Insecure \<and> fp \<noteq> f \<longrightarrow>
       apply_trust_policy now policy a legacy fp name st = (Inl (IdentityChanged a f fp), st, False))"
  using contacts_keep_identity [OF assms] contacts_keep_pin [OF assms] assms
  by (auto simp: apply_trust_policy_def check_pin)

theorem pins_are_never_replaced_witness:
  "apply_trust_policy 5 OnFirstUse [65] [66] [2] [] (trust 1 [65] [1] [] ephemeral) =
     (Inl (IdentityChanged [65] [1] [2]), trust 1 [65] [1] [] ephemeral, False) \<and>
   pin (fold contact [(3, OnFirstUse, [67], [66], [2], [])] (trust 1 [65] [1] [] ephemeral)) [65] = Some [1]"
  using pins_are_never_replaced [of "trust 1 [65] [1] [] ephemeral" "[65]" "[1]" "[(3, OnFirstUse, [67], [66], [2], [])]" OnFirstUse "[2]" 5 "[66]" "[]"]
  by simp

section \<open>Saving\<close>

text \<open>
  Pins survive a restart: what is saved and read back is the same set of pins with all their
  details, a store that cannot be parsed is refused rather than started empty, and only a missing
  file starts empty.
\<close>

theorem pins_survive_a_restart:
  assumes "\<And>file. bt_invar file \<Longrightarrow> from_json (to_json file) = Some file"
    and "bt_invar (tr_servers st)" and "tr_path st \<noteq> []"
  shows "case save to_json Written st of
      (r, Some raw) \<Rightarrow> r = Inr () \<and> trust_open from_json (tr_path st) (Contents raw) = Inr st
    | (_, None) \<Rightarrow> False"
    and "from_json raw = None \<Longrightarrow> trust_open from_json path (Contents raw) = Inl (TrustMalformed path)"
  using assms by (simp_all add: save_def trust_open_def)

end
