(* ===== verification/Pickle_Client.thy ===== *)
theory Pickle_Client
  imports Pickle_Trust Pickle_Session
begin

text \<open>
  The client core (\<open>pickle-client/src/lib.rs\<close>): the login from the client's side, the requests a
  connected client sends, and the translation of frames into events. What the transport delivers is
  an argument. Shown are what a client demands of a server before it says anything about itself, and
  that an honest client and an honest server agree on the session they open.
\<close>

section \<open>Errors\<close>

datatype rejection_reason =
    RejProtocolMismatch u16
  | RejSecurityLevelTooLow u32 u32
  | RejBadSignature
  | RejPasswordRequired
  | RejBadPassword
  | RejBanned ustring
  | RejServerFull
  | RejNicknameRejected ustring

fun rejection_of :: "auth_failure \<Rightarrow> rejection_reason" where
  "rejection_of (ProtocolMismatch v) = RejProtocolMismatch v"
| "rejection_of (SecurityLevelTooLow required provided) = RejSecurityLevelTooLow required provided"
| "rejection_of BadSignature = RejBadSignature"
| "rejection_of PasswordRequired = RejPasswordRequired"
| "rejection_of BadPassword = RejBadPassword"
| "rejection_of (AuthBanned reason _) = RejBanned reason"
| "rejection_of ServerFull = RejServerFull"
| "rejection_of (NicknameRejected reason) = RejNicknameRejected reason"

datatype connect_error =
    Tls
  | Transport ustring
  | Codec codec_error
  | ClosedDuringHandshake
  | ConnectTimedOut
  | Unreachable ustring
  | UnexpectedGreeting string
  | VersionMismatch u16 u16
  | NoPeerCertificate
  | ForgedGreeting fingerprint
  | Untrusted trust_refusal
  | Rejected rejection_reason

section \<open>Connecting\<close>

record connect_options =
  co_address :: ustring
  co_nickname :: ustring
  co_password :: "ustring option"
  co_trust :: trust_policy
  co_server_key :: "ustring option"

definition connect_options_new :: "ustring \<Rightarrow> ustring \<Rightarrow> connect_options" where
  "connect_options_new address nickname =
     \<lparr>co_address = address, co_nickname = nickname, co_password = None, co_trust = OnFirstUse, co_server_key = None\<rparr>"

definition with_server_key :: "ustring \<Rightarrow> connect_options \<Rightarrow> connect_options" where
  "with_server_key key opts = opts\<lparr>co_server_key := Some (normalise_server_key key)\<rparr>"

definition with_password :: "ustring \<Rightarrow> connect_options \<Rightarrow> connect_options" where
  "with_password password opts = opts\<lparr>co_password := Some password\<rparr>"

definition with_trust :: "trust_policy \<Rightarrow> connect_options \<Rightarrow> connect_options" where
  "with_trust policy opts = opts\<lparr>co_trust := policy\<rparr>"

record session_info =
  si_client_id :: client_id
  si_server_name :: ustring
  si_server_identity :: public_identity
  si_channels :: "channel list"
  si_users :: "user_info list"
  si_roles :: "role list"
  si_default_channel :: "channel_id option"
  si_limits :: server_limits

text \<open>
  What the transport does during a login: the connection comes up, with the certificates the peer
  presented, or fails; the control stream is opened or not; a frame arrives, is late or is broken;
  a frame is written or not.
\<close>

datatype 'a arrival = Late | Unreadable codec_error | Arrived 'a

record transport =
  tp_connection :: "connect_error + bytes list option"
  tp_stream :: "connect_error + unit"
  tp_greeting :: "server_control arrival"
  tp_write :: "codec_error + unit"
  tp_verdict :: "server_control arrival"

definition peer_certificate_hash :: "ext \<Rightarrow> bytes list option \<Rightarrow> connect_error + bytes" where
  "peer_certificate_hash cr certificates =
     (case certificates of
        None \<Rightarrow> Inl NoPeerCertificate
      | Some [] \<Rightarrow> Inl NoPeerCertificate
      | Some (end_entity # _) \<Rightarrow> Inr (sha256 cr end_entity))"

definition describe :: "server_control \<Rightarrow> string" where
  "describe message =
     (case message of Hello _ \<Rightarrow> ''Hello'' | AuthOk _ \<Rightarrow> ''AuthOk'' | AuthFailed _ \<Rightarrow> ''AuthFailed''
      | Error _ _ \<Rightarrow> ''Error'' | _ \<Rightarrow> ''an unexpected message'')"

definition receive :: "'a arrival \<Rightarrow> connect_error + 'a" where
  "receive a = (case a of Late \<Rightarrow> Inl ConnectTimedOut | Unreadable e \<Rightarrow> Inl (Codec e) | Arrived m \<Rightarrow> Inr m)"

text \<open>The checks on the greeting, before the client has sent anything.\<close>

definition check_greeting :: "ext \<Rightarrow> bytes \<Rightarrow> server_control \<Rightarrow> connect_error + server_hello" where
  "check_greeting cr cert_hash greeting =
     (case greeting of
        Hello hello \<Rightarrow>
          if sh_protocol_version hello \<noteq> PROTOCOL_VERSION then
            Inl (VersionMismatch PROTOCOL_VERSION (sh_protocol_version hello))
          else (case pi_verify_server_hello cr (sh_server_identity hello) (sh_nonce hello) cert_hash
                       (sh_server_name hello) (sh_signature hello) of
                  Inl _ \<Rightarrow> Inl (ForgedGreeting (pi_fingerprint cr (sh_server_identity hello)))
                | Inr _ \<Rightarrow> Inr hello)
      | _ \<Rightarrow> Inl (UnexpectedGreeting (describe greeting)))"

definition auth_frame :: "ext \<Rightarrow> ustring \<Rightarrow> connect_options \<Rightarrow> identity \<Rightarrow> bytes \<Rightarrow> server_hello \<Rightarrow> client_auth" where
  "auth_frame cr version opts ident cert_hash hello =
     \<lparr>ca_protocol_version = PROTOCOL_VERSION, ca_identity = id_public cr ident, ca_nickname = co_nickname opts,
      ca_password = co_password opts, ca_client_version = version,
      ca_signature = sign_auth cr ident (sh_nonce hello) cert_hash\<rparr>"

definition session_of :: "server_hello \<Rightarrow> auth_ok \<Rightarrow> session_info" where
  "session_of hello k =
     \<lparr>si_client_id = ok_client_id k, si_server_name = sh_server_name hello,
      si_server_identity = sh_server_identity hello, si_channels = ok_channels k, si_users = ok_users k,
      si_roles = ok_roles k, si_default_channel = ok_default_channel k, si_limits = ok_limits k\<rparr>"

definition check_verdict :: "server_hello \<Rightarrow> server_control \<Rightarrow> connect_error + session_info" where
  "check_verdict hello verdict =
     (case verdict of
        AuthOk k \<Rightarrow> Inr (session_of hello k)
      | AuthFailed failure \<Rightarrow> Inl (Rejected (rejection_of failure))
      | other \<Rightarrow> Inl (UnexpectedGreeting (describe other)))"

text \<open>The result, the login frame sent if it came to that, and the store of pins.\<close>

definition connect ::
  "ext \<Rightarrow> ustring \<Rightarrow> u64 \<Rightarrow> connect_options \<Rightarrow> identity \<Rightarrow> transport \<Rightarrow> trust_store \<Rightarrow>
     (connect_error + session_info) \<times> client_auth option \<times> trust_store" where
  "connect cr version now opts ident tp st =
     (case tp_connection tp of
        Inl e \<Rightarrow> (Inl e, None, st)
      | Inr certificates \<Rightarrow>
          (case peer_certificate_hash cr certificates of
             Inl e \<Rightarrow> (Inl e, None, st)
           | Inr cert_hash \<Rightarrow>
               (case tp_stream tp of
                  Inl e \<Rightarrow> (Inl e, None, st)
                | Inr _ \<Rightarrow>
                    (case receive (tp_greeting tp) of
                       Inl e \<Rightarrow> (Inl e, None, st)
                     | Inr greeting \<Rightarrow>
                         (case check_greeting cr cert_hash greeting of
                            Inl e \<Rightarrow> (Inl e, None, st)
                          | Inr hello \<Rightarrow>
                              let fp = pi_fingerprint cr (sh_server_identity hello);
                                  key = (case co_server_key opts of Some k \<Rightarrow> k | None \<Rightarrow> co_address opts)
                              in case apply_trust_policy now (co_trust opts) key (co_address opts) fp (sh_server_name hello) st of
                                   (Inl e, st, _) \<Rightarrow> (Inl (Untrusted e), None, st)
                                 | (Inr _, st, _) \<Rightarrow>
                                     let auth = auth_frame cr version opts ident cert_hash hello
                                     in case tp_write tp of
                                          Inl e \<Rightarrow> (Inl (Codec e), Some auth, st)
                                        | Inr _ \<Rightarrow>
                                            (case receive (tp_verdict tp) of
                                               Inl e \<Rightarrow> (Inl e, Some auth, st)
                                             | Inr verdict \<Rightarrow> (check_verdict hello verdict, Some auth, st)))))))"

section \<open>Requests of a connected client\<close>

record client =
  cl_session :: session_info
  cl_open :: bool
  cl_control :: "client_control list"
  cl_datagrams :: "bytes list"
  cl_max_datagram :: "nat option"

definition max_voice_payload :: "client \<Rightarrow> nat option" where
  "max_voice_payload c = map_option (\<lambda>m. m - UPSTREAM_HEADER_LEN) (cl_max_datagram c)"

definition send_control :: "client_control \<Rightarrow> client \<Rightarrow> bool \<times> client" where
  "send_control m c = (if cl_open c then (True, c\<lparr>cl_control := cl_control c @ [m]\<rparr>) else (False, c))"

definition client_join_channel :: "channel_id \<Rightarrow> client \<Rightarrow> bool \<times> client" where
  "client_join_channel channel = send_control (JoinChannel channel)"

definition client_leave_channel :: "client \<Rightarrow> bool \<times> client" where
  "client_leave_channel = send_control LeaveChannel"

definition client_set_voice_state :: "bool \<Rightarrow> bool \<Rightarrow> client \<Rightarrow> bool \<times> client" where
  "client_set_voice_state muted deafened = send_control (SetVoiceState muted deafened)"

definition client_send_message :: "channel_id \<Rightarrow> ustring \<Rightarrow> u64 \<Rightarrow> client \<Rightarrow> bool \<times> client" where
  "client_send_message channel content nonce = send_control (SendMessage channel content None nonce)"

definition client_kick :: "u64 \<Rightarrow> client_id \<Rightarrow> ustring \<Rightarrow> client \<Rightarrow> bool \<times> client" where
  "client_kick nonce target reason = send_control (Kick nonce target reason)"

definition client_ban :: "u64 \<Rightarrow> fingerprint \<Rightarrow> ustring \<Rightarrow> u64 option \<Rightarrow> client \<Rightarrow> bool \<times> client" where
  "client_ban nonce fp reason until = send_control (Ban nonce fp reason until)"

definition client_unban :: "u64 \<Rightarrow> fingerprint \<Rightarrow> client \<Rightarrow> bool \<times> client" where
  "client_unban nonce fp = send_control (Unban nonce fp)"

definition client_list_bans :: "u64 \<Rightarrow> client \<Rightarrow> bool \<times> client" where
  "client_list_bans nonce = send_control (ListBans nonce)"

definition client_set_server_mute :: "u64 \<Rightarrow> client_id \<Rightarrow> bool \<Rightarrow> client \<Rightarrow> bool \<times> client" where
  "client_set_server_mute nonce target muted = send_control (SetServerMute nonce target muted)"

definition client_move_member :: "u64 \<Rightarrow> client_id \<Rightarrow> channel_id option \<Rightarrow> client \<Rightarrow> bool \<times> client" where
  "client_move_member nonce target to = send_control (MoveMember nonce target to)"

definition client_fetch_history :: "channel_id \<Rightarrow> message_id option \<Rightarrow> u16 \<Rightarrow> client \<Rightarrow> bool \<times> client" where
  "client_fetch_history channel before limit = send_control (FetchHistory channel before limit)"

text \<open>A datagram is queued or dropped, \<open>fits\<close> saying whether the transport takes it.\<close>

definition send_voice :: "(bytes \<Rightarrow> bool) \<Rightarrow> u32 \<Rightarrow> u8 \<Rightarrow> bytes \<Rightarrow> client \<Rightarrow> client" where
  "send_voice fits sq flags payload c =
     (let datagram = upstream_encode \<lparr>vu_seq = sq, vu_flags = flags, vu_payload = payload\<rparr>
      in if fits datagram then c\<lparr>cl_datagrams := cl_datagrams c @ [datagram]\<rparr> else c)"

definition client_disconnect :: "client \<Rightarrow> client" where
  "client_disconnect c = c\<lparr>cl_open := False\<rparr>"

section \<open>Events\<close>

datatype client_event =
    EvUserJoined user_info
  | EvUserLeft client_id disconnect_reason
  | EvUserMoved client_id "channel_id option" "channel_id option"
  | EvUserUpdated user_info
  | EvVoiceActivity client_id bool
  | EvChannelCreated channel
  | EvChannelUpdated channel
  | EvChannelRemoved channel_id
  | EvMessagePosted chat_message "u64 option"
  | EvMessageEdited message_id ustring u64
  | EvMessageDeleted message_id
  | EvHistory channel_id "chat_message list" bool
  | EvTyping client_id channel_id
  | EvRoleCreated role
  | EvRoleUpdated role
  | EvRoleDeleted role_id
  | EvRolesReordered "(role_id \<times> u32) list"
  | EvBanList "ban_entry list"
  | EvAck u64
  | EvCommandFailed u64 error_code ustring
  | EvVoice voice_downstream
  | EvPong u64
  | EvServerError error_code ustring
  | EvDisconnected ustring

fun translate :: "server_control \<Rightarrow> client_event option" where
  "translate (UserJoined i) = Some (EvUserJoined i)"
| "translate (UserLeft c r) = Some (EvUserLeft c r)"
| "translate (UserMoved c f t) = Some (EvUserMoved c f t)"
| "translate (UserUpdated i) = Some (EvUserUpdated i)"
| "translate (VoiceActivity c sp) = Some (EvVoiceActivity c sp)"
| "translate (ChannelCreated c) = Some (EvChannelCreated c)"
| "translate (ChannelUpdated c) = Some (EvChannelUpdated c)"
| "translate (ChannelRemoved i) = Some (EvChannelRemoved i)"
| "translate (MessagePosted m n) = Some (EvMessagePosted m n)"
| "translate (MessageEdited i c t) = Some (EvMessageEdited i c t)"
| "translate (MessageDeleted i) = Some (EvMessageDeleted i)"
| "translate (History c ms r) = Some (EvHistory c ms r)"
| "translate (STyping c ch) = Some (EvTyping c ch)"
| "translate (Pong n) = Some (EvPong n)"
| "translate (Error c d) = Some (EvServerError c d)"
| "translate (ReactionUpdated _ _) = None"
| "translate (RoleCreated r) = Some (EvRoleCreated r)"
| "translate (RoleUpdated r) = Some (EvRoleUpdated r)"
| "translate (RoleDeleted i) = Some (EvRoleDeleted i)"
| "translate (RolesReordered p) = Some (EvRolesReordered p)"
| "translate (BanList bs) = Some (EvBanList bs)"
| "translate (Ack n) = Some (EvAck n)"
| "translate (CommandFailed n c d) = Some (EvCommandFailed n c d)"
| "translate (Hello _) = None"
| "translate (AuthOk _) = None"
| "translate (AuthFailed _) = None"

text \<open>The task reading control frames, over what the stream yields until its end; \<open>error_text\<close> is
  the \<open>Display\<close> of a codec error.\<close>

definition is_clean_close_reason :: "(codec_error \<Rightarrow> ustring) \<Rightarrow> codec_error \<Rightarrow> ustring" where
  "is_clean_close_reason error_text e =
     (if is_clean_close e then u ''the server closed the connection'' else error_text e)"

fun read_control :: "(codec_error \<Rightarrow> ustring) \<Rightarrow> (codec_error + server_control) list \<Rightarrow> client_event list" where
  "read_control error_text [] = []"
| "read_control error_text (Inr m # rest) =
     (case translate m of Some e \<Rightarrow> [e] | None \<Rightarrow> []) @ read_control error_text rest"
| "read_control error_text (Inl e # rest) = [EvDisconnected (is_clean_close_reason error_text e)]"

text \<open>The task reading voice datagrams.\<close>

fun read_voice :: "bytes list \<Rightarrow> client_event list" where
  "read_voice [] = []"
| "read_voice (d # ds) = (case downstream_decode d of Inr p \<Rightarrow> [EvVoice p] | Inl _ \<Rightarrow> []) @ read_voice ds"


section \<open>What a client demands before it speaks\<close>

definition server_key_of :: "connect_options \<Rightarrow> ustring" where
  "server_key_of opts = (case co_server_key opts of Some k \<Rightarrow> k | None \<Rightarrow> co_address opts)"

lemma check_greeting_ok:
  "check_greeting cr cert_hash greeting = Inr hello \<longleftrightarrow> greeting = Hello hello \<and>
     sh_protocol_version hello = PROTOCOL_VERSION \<and>
     ed_verify cr (pi_key (sh_server_identity hello))
       (server_hello_challenge (sh_nonce hello) cert_hash (sh_server_name hello)) (sh_signature hello)"
  by (auto simp: check_greeting_def pi_verify_server_hello_def split: server_control.splits if_splits sum.splits)

lemma peer_certificate_hash_ok:
  "peer_certificate_hash cr certs = Inr h \<longleftrightarrow> (\<exists>cert rest. certs = Some (cert # rest) \<and> h = sha256 cr cert)"
  by (auto simp: peer_certificate_hash_def split: option.splits list.splits)

lemma connect_sent:
  assumes "connect cr version now opts ident tp st = (r, Some auth, st')"
  obtains cert rest hello saved where "tp_connection tp = Inr (Some (cert # rest))" "tp_greeting tp = Arrived (Hello hello)"
    "check_greeting cr (sha256 cr cert) (Hello hello) = Inr hello"
    "apply_trust_policy now (co_trust opts) (server_key_of opts) (co_address opts)
       (pi_fingerprint cr (sh_server_identity hello)) (sh_server_name hello) st = (Inr (), st', saved)"
    "auth = auth_frame cr version opts ident (sha256 cr cert) hello"
    "r = (case tp_write tp of Inl e \<Rightarrow> Inl (Codec e) | Inr _ \<Rightarrow>
       (case receive (tp_verdict tp) of Inl e \<Rightarrow> Inl e | Inr verdict \<Rightarrow> check_verdict hello verdict))"
proof -
  obtain certs where c: "tp_connection tp = Inr certs"
    using assms by (cases "tp_connection tp") (auto simp: connect_def)
  obtain h where h: "peer_certificate_hash cr certs = Inr h"
    using assms c by (cases "peer_certificate_hash cr certs") (auto simp: connect_def)
  obtain u where u: "tp_stream tp = Inr u" using assms c h by (cases "tp_stream tp") (auto simp: connect_def)
  obtain g where g: "receive (tp_greeting tp) = Inr g"
    using assms c h u by (cases "receive (tp_greeting tp)") (auto simp: connect_def)
  obtain hello where ok: "check_greeting cr h g = Inr hello"
    using assms c h u g by (cases "check_greeting cr h g") (auto simp: connect_def)
  obtain t st1 saved where t: "apply_trust_policy now (co_trust opts) (server_key_of opts) (co_address opts)
      (pi_fingerprint cr (sh_server_identity hello)) (sh_server_name hello) st = (t, st1, saved)"
    using prod_cases3 by blast
  note run = assms [unfolded connect_def c h u g ok sum.case Let_def, folded server_key_of_def, unfolded t prod.case]
  obtain v where v: "t = Inr v" using run by (cases t) auto
  obtain cert rest where "certs = Some (cert # rest)" "h = sha256 cr cert" using h by (auto simp: peer_certificate_hash_ok)
  moreover have "g = Hello hello" using ok by (simp add: check_greeting_ok)
  moreover have "tp_greeting tp = Arrived g" using g by (auto simp: receive_def split: arrival.splits)
  ultimately show thesis
    using that [of cert rest hello saved] c ok t v run by (auto split: sum.splits)
qed

lemma refused_policy_changes_nothing:
  "apply_trust_policy now policy key legacy fp name st = (Inl e, st', saved) \<Longrightarrow> st' = st"
  by (auto simp: apply_trust_policy_def split: trust_decision.splits if_splits)



section \<open>Login end to end\<close>

text \<open>A transport that hands over the server's frames as they are.\<close>

definition honest_transport :: "ext \<Rightarrow> bytes \<Rightarrow> bytes list \<Rightarrow> server_control list \<Rightarrow> transport" where
  "honest_transport cr cert rest frames =
     \<lparr>tp_connection = Inr (Some (cert # rest)), tp_stream = Inr (), tp_greeting = Arrived (frames ! 0),
      tp_write = Inr (), tp_verdict = Arrived (frames ! 1)\<rparr>"

lemma honest_auth_verifies:
  assumes "\<And>sk m. ed_verify cr (public_of cr sk) m (ed_sign cr sk m)"
  shows "verify_auth cr (auth_frame cr version opts ident (s_cert_hash s) (hello_frame cr nonce s)) nonce s =
    (case cfg_password (s_config s) of
       None \<Rightarrow> Inr ()
     | Some expected \<Rightarrow> (case co_password opts of
         None \<Rightarrow> Inl PasswordRequired
       | Some supplied \<Rightarrow> if as_bytes expected = as_bytes supplied then Inr () else Inl BadPassword))"
  using assms
  by (simp add: verify_auth_def auth_frame_def hello_frame_def pi_verify_auth_def id_public_def sign_auth_def
      constant_time_eq_correct split: option.splits)

lemma admit_failures:
  assumes "admit cr now ident nickname s = (Inl f, s')"
  shows "f \<noteq> BadSignature \<and> f \<noteq> ProtocolMismatch v"
  using assms by (auto simp: admit_def Let_def split: if_splits option.splits)

lemma honest_handshake:
  assumes "\<And>sk m. ed_verify cr (public_of cr sk) m (ed_sign cr sk m)"
    and "auth = auth_frame cr version opts ident (s_cert_hash s) (hello_frame cr nonce s)"
    and "handshake cr now nonce True (Some (Inr (Auth auth))) True s = (r, frames, s')"
  shows "(\<exists>info t. r = Session info \<and> frames = [Hello (hello_frame cr nonce s), AuthOk (auth_ok_frame cr info t)]) \<or>
    (\<exists>f. r = Refused \<and> frames = [Hello (hello_frame cr nonce s), AuthFailed f] \<and> f \<noteq> BadSignature \<and>
       f \<noteq> ProtocolMismatch PROTOCOL_VERSION)"
proof -
  have greet: ?thesis if "admit_and_greet cr now True (hello_frame cr nonce s) auth t = (r, frames, s')" for t
    using that admit_failures
    by (auto simp: admit_and_greet_def refuse_auth_def split: prod.splits sum.splits)
  have "verify_auth cr auth nonce s \<noteq> Inl BadSignature" "verify_auth cr auth nonce s \<noteq> Inl (ProtocolMismatch PROTOCOL_VERSION)"
    using honest_auth_verifies [OF assms(1), of version opts ident s nonce] by (auto simp: assms(2) split: option.splits)
  then show ?thesis
    using assms(3) greet unfolding handshake_def Let_def
    by (auto simp: refuse_auth_def split: option.splits if_splits prod.splits sum.splits)
qed

lemma honest_connect:
  assumes "\<And>sk m. ed_verify cr (public_of cr sk) m (ed_sign cr sk m)"
    and "sha256 cr cert = s_cert_hash s"
    and "fst (apply_trust_policy now (co_trust opts) (server_key_of opts) (co_address opts)
           (id_fingerprint cr (s_identity s)) (cfg_name (s_config s)) st) = Inr ()"
    and "auth = auth_frame cr version opts ident (s_cert_hash s) (hello_frame cr nonce s)"
  shows "\<exists>st'. \<forall>m ms. connect cr version now opts ident
      (honest_transport cr cert rest (Hello (hello_frame cr nonce s) # m # ms)) st =
      (check_verdict (hello_frame cr nonce s) m, Some auth, st')"
proof -
  have hello: "check_greeting cr (s_cert_hash s) (Hello (hello_frame cr nonce s)) = Inr (hello_frame cr nonce s)"
    using assms(1) by (simp add: check_greeting_ok hello_frame_def id_public_def sign_server_hello_def)
  have fp: "pi_fingerprint cr (id_public cr (s_identity s)) = id_fingerprint cr (s_identity s)"
    "sh_server_name (hello_frame cr nonce s) = cfg_name (s_config s)"
    "sh_server_identity (hello_frame cr nonce s) = id_public cr (s_identity s)"
    by (simp_all add: hello_frame_def pi_fingerprint_def id_public_def id_fingerprint_def)
  obtain st' saved where t: "apply_trust_policy now (co_trust opts) (server_key_of opts) (co_address opts)
      (id_fingerprint cr (s_identity s)) (cfg_name (s_config s)) st = (Inr (), st', saved)"
    using assms(3) by (metis prod.collapse)
  then show ?thesis
    by (simp add: connect_def honest_transport_def peer_certificate_hash_def receive_def hello assms(2,4) fp Let_def
        flip: server_key_of_def)
qed

text \<open>
  C23. An honest client and an honest server always agree on how a login ends: over a transport that
  delivers their frames and shows the server's own certificate, with a signature scheme that accepts
  what it signed, a client whose trust check passes sends its login; the server never objects to its
  signature or version; if the server opens a session the client has one too, under the same client
  id, with the server's identity, roles, channels and limits, and otherwise the client is told the
  reason the server had.
\<close>

theorem honest_login_agrees:
  assumes "\<And>sk m. ed_verify cr (public_of cr sk) m (ed_sign cr sk m)"
    and "sha256 cr cert = s_cert_hash s"
    and "fst (apply_trust_policy now (co_trust opts) (server_key_of opts) (co_address opts)
           (id_fingerprint cr (s_identity s)) (cfg_name (s_config s)) st) = Inr ()"
    and "auth = auth_frame cr version opts ident (s_cert_hash s) (hello_frame cr nonce s)"
    and "handshake cr now' nonce True (Some (Inr (Auth auth))) True s = (r, frames, s')"
  shows "case connect cr version now opts ident (honest_transport cr cert rest frames) st of
    (result, sent, _) \<Rightarrow> sent = Some auth \<and>
      (case r of
         Session info \<Rightarrow> \<exists>k session. frames = [Hello (hello_frame cr nonce s), AuthOk k] \<and> result = Inr session \<and>
           ok_client_id k = ui_client_id info \<and> si_client_id session = ui_client_id info \<and>
           si_server_identity session = id_public cr (s_identity s) \<and> si_channels session = ok_channels k \<and>
           si_roles session = ok_roles k \<and> si_limits session = ok_limits k
       | Refused \<Rightarrow> \<exists>f. frames = [Hello (hello_frame cr nonce s), AuthFailed f] \<and>
           f \<noteq> BadSignature \<and> f \<noteq> ProtocolMismatch PROTOCOL_VERSION \<and> result = Inl (Rejected (rejection_of f))
       | Fault \<Rightarrow> False)"
proof -
  have id: "sh_server_identity (hello_frame cr nonce s) = id_public cr (s_identity s)"
    by (simp add: hello_frame_def)
  obtain st' where c: "connect cr version now opts ident
      (honest_transport cr cert rest (Hello (hello_frame cr nonce s) # m # ms)) st =
      (check_verdict (hello_frame cr nonce s) m, Some auth, st')" for m ms
    using honest_connect [OF assms(1-4)] by metis
  from honest_handshake [OF assms(1,4,5)] show ?thesis
    by (elim disjE exE conjE)
      (auto simp: c check_verdict_def session_of_def auth_ok_frame_def id)
qed

text \<open>
  A machine in the middle cannot pass on another server's greeting: with signatures that verify
  on exactly what was signed, a greeting the real server signed for a connection with another
  certificate, or for another nonce, is refused as forged, and nothing is sent or pinned.
\<close>

theorem relayed_greetings_are_refused:
  assumes "\<And>sk m m'. ed_verify cr (public_of cr sk) m (ed_sign cr sk m') \<longleftrightarrow> m = m'"
    and "length (sha256 cr cert) = 32" and "length (sh_nonce hello) = 32" and "length nonce = 32" and "length cert_hash = 32"
    and "sh_server_identity hello = id_public cr server" and "sh_protocol_version hello = PROTOCOL_VERSION"
    and "sh_signature hello = sign_server_hello cr server nonce cert_hash name"
    and "sha256 cr cert \<noteq> cert_hash \<or> sh_nonce hello \<noteq> nonce"
    and "tp_connection tp = Inr (Some (cert # rest))" and "tp_stream tp = Inr ()" and "tp_greeting tp = Arrived (Hello hello)"
  shows "connect cr version now opts ident tp st = (Inl (ForgedGreeting (id_fingerprint cr server)), None, st)"
proof -
  have "server_hello_challenge (sh_nonce hello) (sha256 cr cert) (sh_server_name hello) \<noteq>
      server_hello_challenge nonce cert_hash name"
    using server_hello_challenge_inject [OF assms(3,4), of "sha256 cr cert" cert_hash] assms(2,5,9) by auto
  then have "check_greeting cr (sha256 cr cert) (Hello hello) = Inl (ForgedGreeting (id_fingerprint cr server))"
    using assms(1,6-8)
    by (simp add: check_greeting_def pi_verify_server_hello_def sign_server_hello_def id_public_def pi_fingerprint_def
        id_fingerprint_def)
  then show ?thesis
    using assms(10-12) by (simp add: connect_def peer_certificate_hash_def receive_def)
qed


definition sample_options :: connect_options where
  "sample_options = connect_options_new [49] [97]"

definition sample_identity :: identity where
  "sample_identity = \<lparr>id_secret = sample_key 7, id_counter = 0\<rparr>"

lemma sample_signatures: "ed_verify sample_ext (public_of sample_ext sk) m (ed_sign sample_ext sk m') \<longleftrightarrow> m = m'"
  by (auto simp: sample_ext_def)

lemma sample_cert: "sha256 sample_ext (s_cert_hash sample_shared) = s_cert_hash sample_shared"
    "length (s_cert_hash sample_shared) = 32"
  by (simp_all add: sample_ext_def sample_shared_def shared_new_def)

lemma sample_first_contact:
  "fst (apply_trust_policy 0 (co_trust sample_options) (server_key_of sample_options) (co_address sample_options) fp name ephemeral) = Inr ()"
  by (simp add: sample_options_def connect_options_new_def apply_trust_policy_def ephemeral_def check_def)

theorem honest_login_agrees_witness:
  "\<exists>r frames s'. handshake sample_ext 0 [1] True
       (Some (Inr (Auth (auth_frame sample_ext [] sample_options sample_identity (s_cert_hash sample_shared)
          (hello_frame sample_ext [1] sample_shared))))) True sample_shared = (r, frames, s') \<and>
     fst (snd (connect sample_ext [] 0 sample_options sample_identity
         (honest_transport sample_ext (s_cert_hash sample_shared) [] frames) ephemeral)) \<noteq> None \<and> r \<noteq> Fault"
proof -
  let ?auth = "auth_frame sample_ext [] sample_options sample_identity (s_cert_hash sample_shared)
      (hello_frame sample_ext [1] sample_shared)"
  have sig: "ed_verify sample_ext (public_of sample_ext sk) m (ed_sign sample_ext sk m)" for sk m
    by (simp add: sample_signatures)
  obtain r frames s' where h: "handshake sample_ext 0 [1] True (Some (Inr (Auth ?auth))) True sample_shared = (r, frames, s')"
    using prod_cases3 by blast
  show ?thesis
    using honest_login_agrees [OF sig sample_cert(1) sample_first_contact refl h, of "[]"] h
    by (auto split: prod.splits handshake_end.splits)
qed


theorem relayed_greetings_are_refused_witness:
  "connect sample_ext [] 0 sample_options sample_identity
     (honest_transport sample_ext (replicate 32 3) []
       [Hello ((hello_frame sample_ext (replicate 32 1) sample_shared)\<lparr>sh_signature :=
          sign_server_hello sample_ext (s_identity sample_shared) (replicate 32 1) (replicate 32 8) []\<rparr>)]) ephemeral =
   (Inl (ForgedGreeting (id_fingerprint sample_ext (s_identity sample_shared))), None, ephemeral)"
proof -
  have "sha256 sample_ext (replicate 32 3) = replicate 32 3" by (simp add: sample_ext_def)
  moreover have "replicate 32 3 \<noteq> replicate 32 (8 :: u8)" by (auto simp: list_eq_iff_nth_eq intro: exI [of _ 0])
  ultimately have ne: "sha256 sample_ext (replicate 32 3) \<noteq> replicate 32 8 \<or>
      sh_nonce ((hello_frame sample_ext (replicate 32 1) sample_shared)\<lparr>sh_signature := x\<rparr>) \<noteq> y" for x y by simp
  show ?thesis
    by (rule relayed_greetings_are_refused [where cr = sample_ext, OF sample_signatures _ _ _ _ _ _ _ ne])
      (simp_all add: honest_transport_def hello_frame_def sample_ext_def)
qed

end
