(* ===== verification/Pickle_Mirror.thy ===== *)
theory Pickle_Mirror
  imports Pickle_Client
begin

text \<open>
  The desktop application's mirror of its own permissions,
  \<open>apps/desktop/src-tauri/src/perms.rs\<close>: the role table, the member's grants, the visible channels
  and the connected members of one session, seeded from the login and folded forward by the events of
  the server, and the answers the interface renders from it. The mirror is compared with the server:
  what it offers is what the server allows.
\<close>

section \<open>What the interface is given\<close>

record channel_permissions_dto =
  cp_send :: bool
  cp_read_history :: bool
  cp_connect :: bool
  cp_speak :: bool

record my_permissions_dto =
  mp_is_owner :: bool
  mp_is_admin :: bool
  mp_can_open_admin :: bool
  mp_channels :: "(channel_id, channel_permissions_dto) btree_map"

record member_standing =
  ms_fingerprint :: fingerprint
  ms_roles :: "role_id list"
  ms_owner :: bool

record perm_mirror =
  pm_fingerprint :: fingerprint
  pm_probe :: fingerprint
  pm_owner :: bool
  pm_roles :: "role list"
  pm_my_roles :: "role_id list"
  pm_channels :: "(channel_id, channel) btree_map"
  pm_users :: "(client_id, member_standing) hash_map"

record role_dto_record =
  rd_id :: role_id
  rd_name :: ustring
  rd_color :: "ustring option"
  rd_position :: u32
  rd_permissions :: "ustring list"
  rd_is_everyone :: bool

definition EDITABLE_PERMISSIONS :: "(ustring \<times> permissions) list" where
  "EDITABLE_PERMISSIONS =
     [(u ''administrator'', ADMINISTRATOR), (u ''manageServer'', MANAGE_SERVER), (u ''manageRoles'', MANAGE_ROLES),
      (u ''manageChannels'', MANAGE_CHANNELS), (u ''kickMembers'', KICK_MEMBERS), (u ''banMembers'', BAN_MEMBERS),
      (u ''viewChannel'', VIEW_CHANNEL), (u ''sendMessages'', SEND_MESSAGES), (u ''readHistory'', READ_HISTORY),
      (u ''manageMessages'', MANAGE_MESSAGES), (u ''connect'', CONNECT), (u ''speak'', SPEAK),
      (u ''muteMembers'', MUTE_MEMBERS), (u ''moveMembers'', MOVE_MEMBERS)]"

definition CHANNEL_PERMISSIONS :: "(ustring \<times> permissions) list" where
  "CHANNEL_PERMISSIONS =
     [(u ''viewChannel'', VIEW_CHANNEL), (u ''sendMessages'', SEND_MESSAGES), (u ''readHistory'', READ_HISTORY),
      (u ''manageMessages'', MANAGE_MESSAGES), (u ''connect'', CONNECT), (u ''speak'', SPEAK),
      (u ''muteMembers'', MUTE_MEMBERS), (u ''moveMembers'', MOVE_MEMBERS)]"

record matrix_cell_dto =
  mc_name :: ustring
  mc_effective :: bool
  mc_base :: bool
  mc_state :: string

record matrix_row_dto =
  mr_role_id :: role_id
  mr_role_name :: ustring
  mr_color :: "ustring option"
  mr_is_everyone :: bool
  mr_cells :: "matrix_cell_dto list"

definition permission_names :: "permissions \<Rightarrow> ustring list" where
  "permission_names bits = map fst (filter (\<lambda>(_, b). contains bits b) EDITABLE_PERMISSIONS)"

definition permissions_from_names :: "ustring list \<Rightarrow> permissions" where
  "permissions_from_names names =
     fold (\<lambda>name bits. case List.find (\<lambda>(n, _). n = name) EDITABLE_PERMISSIONS of
         Some (_, b) \<Rightarrow> union bits b | None \<Rightarrow> bits) names NONE"

text \<open>\<open>format!("#{c:06x}")\<close>: lower-case hexadecimal, padded to six digits.\<close>

fun hex_digits :: "nat \<Rightarrow> ustring" where
  "hex_digits n =
     (let d = (\<lambda>k. if k < 10 then 48 + k else 87 + k)
      in if n < 16 then [d n] else hex_digits (n div 16) @ [d (n mod 16)])"

declare hex_digits.simps [simp del]

definition color_text :: "u32 \<Rightarrow> ustring" where
  "color_text c = (let h = hex_digits (unat c) in 35 # replicate (6 - length h) 48 @ h)"

definition role_dto :: "role \<Rightarrow> role_dto_record" where
  "role_dto r =
     \<lparr>rd_id = r_id r, rd_name = r_name r, rd_color = map_option color_text (r_color r), rd_position = r_position r,
      rd_permissions = permission_names (r_permissions r), rd_is_everyone = (r_id r = EVERYONE_ROLE_ID)\<rparr>"

datatype overwrite_target_dto = RoleTarget role_id | MemberTarget ustring

record overwrite_dto =
  od_target :: overwrite_target_dto
  od_allow :: "ustring list"
  od_deny :: "ustring list"

record moderation_options_dto =
  mo_can_kick :: bool
  mo_can_ban :: bool
  mo_can_mute :: bool
  mo_can_move :: bool
  mo_reason :: "string option"

section \<open>The mirror\<close>

definition standing_of :: "ext \<Rightarrow> user_info \<Rightarrow> member_standing" where
  "standing_of cr i = \<lparr>ms_fingerprint = ui_fingerprint cr i, ms_roles = ui_roles i, ms_owner = ui_owner i\<rparr>"

text \<open>The fingerprint of the identity generated for the probe is an argument.\<close>

definition from_session :: "ext \<Rightarrow> fingerprint \<Rightarrow> fingerprint \<Rightarrow> session_info \<Rightarrow> perm_mirror" where
  "from_session cr probe fp info =
     (let me = List.find (\<lambda>i. ui_client_id i = si_client_id info) (si_users info)
      in \<lparr>pm_fingerprint = fp, pm_probe = probe,
          pm_owner = (case me of Some i \<Rightarrow> ui_owner i | None \<Rightarrow> False),
          pm_roles = si_roles info,
          pm_my_roles = (case me of Some i \<Rightarrow> ui_roles i | None \<Rightarrow> []),
          pm_channels = fold (\<lambda>c. bt_insert (ch_id c) c) (si_channels info) [],
          pm_users = fold (\<lambda>i. AList.update (ui_client_id i) (standing_of cr i)) (si_users info) []\<rparr>)"

text \<open>\<open>iter_mut().find(..)\<close> changes the first role with the id.\<close>

fun set_position :: "role_id \<Rightarrow> u32 \<Rightarrow> role list \<Rightarrow> role list" where
  "set_position i p [] = []"
| "set_position i p (r # rs) = (if r_id r = i then r\<lparr>r_position := p\<rparr> # rs else r # set_position i p rs)"

definition mirror_user :: "ext \<Rightarrow> user_info \<Rightarrow> perm_mirror \<Rightarrow> bool \<times> perm_mirror" where
  "mirror_user cr i m =
     (let m = m\<lparr>pm_users := AList.update (ui_client_id i) (standing_of cr i) (pm_users m)\<rparr>
      in if ui_fingerprint cr i = pm_fingerprint m then
           (ui_roles i \<noteq> pm_my_roles m \<or> ui_owner i \<noteq> pm_owner m,
            m\<lparr>pm_my_roles := ui_roles i, pm_owner := ui_owner i\<rparr>)
         else (False, m))"

definition insert_role_sorted :: "role \<Rightarrow> role list \<Rightarrow> role list" where
  "insert_role_sorted r rs = sort_key r_position (filter (\<lambda>x. r_id x \<noteq> r_id r) rs @ [r])"

fun mirror_apply :: "ext \<Rightarrow> client_event \<Rightarrow> perm_mirror \<Rightarrow> bool \<times> perm_mirror" where
  "mirror_apply cr (EvChannelCreated c) m = (True, m\<lparr>pm_channels := bt_insert (ch_id c) c (pm_channels m)\<rparr>)"
| "mirror_apply cr (EvChannelUpdated c) m = (True, m\<lparr>pm_channels := bt_insert (ch_id c) c (pm_channels m)\<rparr>)"
| "mirror_apply cr (EvChannelRemoved i) m = (True, m\<lparr>pm_channels := AList.delete i (pm_channels m)\<rparr>)"
| "mirror_apply cr (EvRoleCreated r) m = (True, m\<lparr>pm_roles := insert_role_sorted r (pm_roles m)\<rparr>)"
| "mirror_apply cr (EvRoleUpdated r) m = (True, m\<lparr>pm_roles := insert_role_sorted r (pm_roles m)\<rparr>)"
| "mirror_apply cr (EvRoleDeleted i) m =
     (True, m\<lparr>pm_roles := filter (\<lambda>r. r_id r \<noteq> i) (pm_roles m),
              pm_my_roles := filter (\<lambda>r. r \<noteq> i) (pm_my_roles m)\<rparr>)"
| "mirror_apply cr (EvRolesReordered ps) m = (True, m\<lparr>pm_roles := sort_key r_position (fold (\<lambda>(i, p). set_position i p) ps (pm_roles m))\<rparr>)"
| "mirror_apply cr (EvUserJoined i) m = mirror_user cr i m"
| "mirror_apply cr (EvUserUpdated i) m = mirror_user cr i m"
| "mirror_apply cr (EvUserLeft c _) m = (False, m\<lparr>pm_users := AList.delete c (pm_users m)\<rparr>)"
| "mirror_apply cr _ m = (False, m)"

definition mirror_bits :: "perm_mirror \<Rightarrow> overwrite list option \<Rightarrow> permissions" where
  "mirror_bits m ows = resolve (pm_roles m) (pm_my_roles m) (pm_fingerprint m) (pm_owner m) ows"

definition my_permissions :: "perm_mirror \<Rightarrow> my_permissions_dto" where
  "my_permissions m =
     (let base = mirror_bits m None;
          standing = (\<exists>b\<in>set [MANAGE_SERVER, MANAGE_ROLES, MANAGE_CHANNELS, KICK_MEMBERS, BAN_MEMBERS, MUTE_MEMBERS, MOVE_MEMBERS].
                        contains base b)
      in \<lparr>mp_is_owner = pm_owner m, mp_is_admin = contains base ADMINISTRATOR, mp_can_open_admin = (pm_owner m \<or> standing),
          mp_channels = fold (\<lambda>c. let bits = mirror_bits m (Some (ch_overwrites c)) in
              bt_insert (ch_id c) \<lparr>cp_send = contains bits SEND_MESSAGES, cp_read_history = contains bits READ_HISTORY,
                cp_connect = contains bits CONNECT, cp_speak = contains bits SPEAK\<rparr>)
            (map snd (pm_channels m)) []\<rparr>)"

text \<open>\<open>Reverse(position)\<close> as a key: the stable sort with the most senior role first.\<close>

definition roles_dto :: "perm_mirror \<Rightarrow> role_dto_record list" where
  "roles_dto m = sort_key (\<lambda>r. - uint (rd_position r)) (map role_dto (pm_roles m))"

definition overwrites_dto :: "ext \<Rightarrow> channel_id \<Rightarrow> perm_mirror \<Rightarrow> overwrite_dto list" where
  "overwrites_dto cr channel m =
     (case map_of (pm_channels m) channel of
        None \<Rightarrow> []
      | Some c \<Rightarrow>
          map (\<lambda>w. \<lparr>od_target = (case o_target w of TRole i \<Rightarrow> RoleTarget i
                                | TMember fp \<Rightarrow> MemberTarget (fingerprint_to_string cr fp)),
                   od_allow = permission_names (o_allow w), od_deny = permission_names (o_deny w)\<rparr>) (ch_overwrites c))"

definition matrix_row :: "perm_mirror \<Rightarrow> channel \<Rightarrow> role \<Rightarrow> matrix_row_dto" where
  "matrix_row m target r =
     (let held = (if r_id r = EVERYONE_ROLE_ID then [] else [r_id r]);
          base = resolve (pm_roles m) held (pm_probe m) False None;
          effective = resolve (pm_roles m) held (pm_probe m) False (Some (ch_overwrites target));
          ow = List.find (\<lambda>w. o_target w = TRole (r_id r)) (ch_overwrites target)
      in \<lparr>mr_role_id = r_id r, mr_role_name = r_name r, mr_color = map_option color_text (r_color r),
          mr_is_everyone = (r_id r = EVERYONE_ROLE_ID),
          mr_cells = map (\<lambda>(name, b).
            \<lparr>mc_name = name, mc_effective = contains effective b, mc_base = contains base b,
             mc_state = (case ow of
                           Some w \<Rightarrow> if contains (o_deny w) b then ''deny''
                                     else if contains (o_allow w) b then ''allow'' else ''inherit''
                         | None \<Rightarrow> ''inherit'')\<rparr>) CHANNEL_PERMISSIONS\<rparr>)"

definition channel_matrix :: "channel_id \<Rightarrow> perm_mirror \<Rightarrow> matrix_row_dto list" where
  "channel_matrix channel m =
     (case map_of (pm_channels m) channel of
        None \<Rightarrow> []
      | Some target \<Rightarrow> map (matrix_row m target) (sort_key (\<lambda>r. - uint (r_position r)) (pm_roles m)))"

fun touches_roles :: "client_event \<Rightarrow> bool" where
  "touches_roles (EvRoleCreated _) = True"
| "touches_roles (EvRoleUpdated _) = True"
| "touches_roles (EvRoleDeleted _) = True"
| "touches_roles (EvRolesReordered _) = True"
| "touches_roles _ = False"

definition no_options :: "string \<Rightarrow> moderation_options_dto" where
  "no_options reason =
     \<lparr>mo_can_kick = False, mo_can_ban = False, mo_can_mute = False, mo_can_move = False, mo_reason = Some reason\<rparr>"

definition moderation_options :: "client_id \<Rightarrow> perm_mirror \<Rightarrow> moderation_options_dto" where
  "moderation_options target m =
     (case map_of (pm_users m) target of
        None \<Rightarrow> no_options ''They are no longer connected.''
      | Some them \<Rightarrow>
          if ms_fingerprint them = pm_fingerprint m then no_options ''That would be you.''
          else if \<not> can_act_on (pm_roles m) (pm_my_roles m) (pm_owner m) (ms_roles them) (ms_owner them) then
            no_options (if ms_owner them then ''They own this server.'' else ''Their highest role is not below yours.'')
          else
            let base = mirror_bits m None;
                options = \<lparr>mo_can_kick = contains base KICK_MEMBERS, mo_can_ban = contains base BAN_MEMBERS,
                  mo_can_mute = contains base MUTE_MEMBERS, mo_can_move = contains base MOVE_MEMBERS, mo_reason = None\<rparr>
            in if \<not> (mo_can_kick options \<or> mo_can_ban options \<or> mo_can_mute options \<or> mo_can_move options)
               then no_options ''You have no moderation permissions here.'' else options)"

section \<open>Agreement with the server\<close>

text \<open>
  A mirror agrees with the server about the member with the info \<open>i\<close>: on who it is, its grants and
  ownership, the roles (in whatever order), the channels it may view, and the standing of everybody
  connected. (It may still list someone who is gone.)
\<close>

definition view :: "ext \<Rightarrow> shared \<Rightarrow> user_info \<Rightarrow> channel_id \<Rightarrow> channel option" where
  "view cr s i ch =
     (case channel_get s ch of Some c \<Rightarrow> if can_view cr s i c then Some c else None | None \<Rightarrow> None)"

definition agree :: "ext \<Rightarrow> shared \<Rightarrow> user_info \<Rightarrow> perm_mirror \<Rightarrow> bool" where
  "agree cr s i m \<longleftrightarrow>
     pm_fingerprint m = ui_fingerprint cr i \<and> pm_owner m = ui_owner i \<and> pm_my_roles m = ui_roles i \<and>
     distinct (map r_id (pm_roles m)) \<and> set (pm_roles m) = set (ps_roles (s_perms s)) \<and>
     bt_invar (pm_channels m) \<and> map_of (pm_channels m) = view cr s i \<and>
     (\<forall>t j. user s t = Some j \<longrightarrow> map_of (pm_users m) t = Some (standing_of cr j))"

definition mirrors :: "ext \<Rightarrow> shared \<Rightarrow> client_id \<Rightarrow> perm_mirror \<Rightarrow> bool" where
  "mirrors cr s c m \<longleftrightarrow> (\<exists>i. user s c = Some i \<and> agree cr s i m)"

lemma view_can: "user s c = Some i \<Longrightarrow> view cr s i ch = (if can cr s c ch VIEW_CHANNEL then channel_get s ch else None)"
  by (auto simp: view_def can_def can_view_def user_def channel_get_def split: option.splits)

lemma resolve_roles_cong:
  assumes "\<And>i. role_permissions roles i = role_permissions roles' i"
  shows "resolve roles ids fp owner ows = resolve roles' ids fp owner ows"
proof -
  have "base_permissions roles ids = base_permissions roles' ids" by (simp add: base_permissions_def assms)
  then show ?thesis by (simp add: resolve_def)
qed

lemma same_role_table:
  assumes "distinct (map r_id rs)" and "distinct (map r_id rs')" and "set rs = set rs'"
  shows "resolve rs ids fp owner ows = resolve rs' ids fp owner ows"
    and "can_act_on rs a owner b owner' = can_act_on rs' a owner b owner'"
proof -
  have f: "List.find (\<lambda>r. r_id r = i) rs = List.find (\<lambda>r. r_id r = i) rs'" for i by (rule find_set_eq [OF assms])
  show "resolve rs ids fp owner ows = resolve rs' ids fp owner ows"
    by (rule resolve_roles_cong) (simp add: role_permissions_def f)
  have "role_position rs = role_position rs'" by (simp add: role_position_def f fun_eq_iff)
  then show "can_act_on rs a owner b owner' = can_act_on rs' a owner b owner'"
    by (simp add: can_act_on_def top_role_position_def)
qed

lemma mirror_bits_agree:
  "agree cr s i m \<Longrightarrow> distinct (map r_id (ps_roles (s_perms s))) \<Longrightarrow> mirror_bits m ows = member_bits cr s i ows"
  unfolding mirror_bits_def member_bits_def agree_def
  by (elim conjE) (simp only: same_role_table(1) [of "pm_roles m" "ps_roles (s_perms s)"])

lemma map_of_fold_bt_insert:
  "distinct (map f xs) \<Longrightarrow>
   map_of (fold (\<lambda>x. bt_insert (f x) (g x)) xs m) k =
     (case List.find (\<lambda>x. f x = k) xs of Some x \<Rightarrow> Some (g x) | None \<Rightarrow> map_of m k)"
proof (induction xs arbitrary: m)
  case (Cons x xs)
  have "f x = k \<Longrightarrow> \<forall>y\<in>set xs. f y \<noteq> k"
    using Cons.prems by (metis distinct.simps(2) imageI list.set_map list.simps(9))
  then have "f x = k \<Longrightarrow> List.find (\<lambda>x. f x = k) xs = None" by (simp add: find_None_iff)
  with Cons show ?case by (auto simp: map_of_bt_insert split: option.splits)
qed simp

lemma bt_map_of_find:
  assumes "bt_invar m" and "\<forall>(k, v)\<in>set m. f v = k"
  shows "List.find (\<lambda>v. f v = k) (map snd m) = map_of m k" and "distinct (map f (map snd m))"
proof -
  show "List.find (\<lambda>v. f v = k) (map snd m) = map_of m k" using assms(2) by (induction m) auto
  have keys: "map (f \<circ> snd) m = map fst m" using assms(2) by auto
  have "distinct (map fst m)" using assms(1) by (simp add: bt_invar_def strict_sorted_iff)
  then show "distinct (map f (map snd m))" unfolding map_map keys .
qed

lemma agree_keyed:
  assumes "agree cr s i m" and "wf s"
  shows "\<forall>(k, v)\<in>set (pm_channels m). ch_id v = k"
proof -
  have "ch_id v = k" if "(k, v) \<in> set (pm_channels m)" for k v
  proof -
    have "distinct (map fst (pm_channels m))" using assms(1) by (simp add: agree_def bt_invar_def strict_sorted_iff)
    then have "map_of (pm_channels m) k = Some v" using that by simp
    then have "view cr s i k = Some v" using assms(1) by (simp add: agree_def)
    then have "channel_get s k = Some v" by (simp add: view_def split: option.splits if_splits)
    then show ?thesis using assms(2) map_of_SomeD by (fastforce simp: wf_def channel_get_def)
  qed
  then show ?thesis by blast
qed

lemma my_permissions_channel:
  assumes "agree cr s i m" and "wf s" and "user s c = Some i" and "distinct (map r_id (ps_roles (s_perms s)))"
  shows "map_of (mp_channels (my_permissions m)) ch =
    (if can cr s c ch VIEW_CHANNEL then
       Some \<lparr>cp_send = can cr s c ch SEND_MESSAGES, cp_read_history = can cr s c ch READ_HISTORY,
             cp_connect = can cr s c ch CONNECT, cp_speak = can cr s c ch SPEAK\<rparr> else None)"
proof -
  have inv: "bt_invar (pm_channels m)" using assms(1) by (simp add: agree_def)
  note keyed = bt_map_of_find [OF inv agree_keyed [OF assms(1,2)]]
  let ?d = "\<lambda>c. \<lparr>cp_send = contains (mirror_bits m (Some (ch_overwrites c))) SEND_MESSAGES,
     cp_read_history = contains (mirror_bits m (Some (ch_overwrites c))) READ_HISTORY,
     cp_connect = contains (mirror_bits m (Some (ch_overwrites c))) CONNECT,
     cp_speak = contains (mirror_bits m (Some (ch_overwrites c))) SPEAK\<rparr>"
  have "map_of (mp_channels (my_permissions m)) ch = map_option ?d (map_of (pm_channels m) ch)"
    unfolding my_permissions_def Let_def
    by (simp add: map_of_fold_bt_insert [OF keyed(2)] keyed(1) split: option.splits)
  also have "map_of (pm_channels m) ch = (if can cr s c ch VIEW_CHANNEL then channel_get s ch else None)"
    using assms(1) view_can [OF assms(3)] by (simp add: agree_def)
  finally show ?thesis
    using assms(3) mirror_bits_agree [OF assms(1,4)] by (auto simp: can_def channel_get_def user_def split: option.splits)
qed

lemma moderation_options_agree:
  assumes "agree cr s i m" and "coherent cr s" and "user s c = Some i" and "user s t = Some j"
    and ids: "distinct (map r_id (ps_roles (s_perms s)))"
    and "get = mo_can_kick \<and> flag = KICK_MEMBERS \<or>
      get = mo_can_ban \<and> flag = BAN_MEMBERS \<or> get = mo_can_mute \<and> flag = MUTE_MEMBERS \<or> get = mo_can_move \<and> flag = MOVE_MEMBERS"
  shows "get (moderation_options t m) \<longleftrightarrow> fst (authorize_against_online cr c nonce flag t s) \<noteq> None"
proof -
  have mi: "pm_fingerprint m = ui_fingerprint cr i" "pm_owner m = ui_owner i" "pm_my_roles m = ui_roles i"
    and rs: "distinct (map r_id (pm_roles m))" "set (pm_roles m) = set (ps_roles (s_perms s))"
    and them: "map_of (pm_users m) t = Some (standing_of cr j)"
    using assms(1,4) unfolding agree_def by blast+
  have cached: "ui_roles j = member_roles s (ui_fingerprint cr j) \<and> ui_owner j = is_owner s (ui_fingerprint cr j)"
    if "user s t = Some j" for t j
    using assms(2) that map_of_SomeD by (fastforce simp: coherent_def cached_ok_def user_def)
  have glob: "can_globally cr s c flag \<longleftrightarrow> contains (mirror_bits m None) flag"
    using assms(3) mirror_bits_agree [OF assms(1) ids] by (auto simp: can_globally_def user_def)
  let ?fp = "ui_fingerprint cr j"
  have fp: "client_fingerprint cr s t = Some ?fp" using assms(4) by (auto simp: client_fingerprint_def user_def)
  have rank: "actor_outranks cr s c ?fp \<longleftrightarrow>
      can_act_on (pm_roles m) (pm_my_roles m) (pm_owner m) (ui_roles j) (ui_owner j)"
    using assms(3) mi cached [OF assms(4)] same_role_table(2) [OF rs(1) ids rs(2)]
    by (auto simp: actor_outranks_def user_def)
  have self: "\<not> actor_outranks cr s c ?fp" if "?fp = pm_fingerprint m"
    using rank that mi cached [OF assms(3)] cached [OF assms(4)] by (auto simp: can_act_on_def)
  show ?thesis
    using assms(6) glob rank self
    by (auto simp: moderation_options_def no_options_def authorize_against_online_def them fp standing_of_def Let_def)
qed


section \<open>The mirror of a fresh session\<close>

lemma map_of_fold_update:
  assumes "distinct (map f xs)"
  shows "map_of (fold (\<lambda>x. AList.update (f x) (g x)) xs m) k =
     (case List.find (\<lambda>x. f x = k) xs of Some x \<Rightarrow> Some (g x) | None \<Rightarrow> map_of m k)"
  using assms
proof (induction xs arbitrary: m)
  case (Cons x xs)
  have "f x = k \<Longrightarrow> \<forall>y\<in>set xs. f y \<noteq> k"
    using Cons.prems by (metis distinct.simps(2) imageI list.set_map list.simps(9))
  then have "f x = k \<Longrightarrow> List.find (\<lambda>x. f x = k) xs = None" by (simp add: find_None_iff)
  with Cons show ?case by (auto simp: update_conv' split: option.splits)
qed simp

lemma find_keyed: "\<forall>(k, e)\<in>set m. f e = k \<Longrightarrow> List.find (\<lambda>i. g i = k) (map (h \<circ> snd) m) = map_option h (map_of m k)"
  if "\<And>e. g (h e) = f e" for g :: "'b \<Rightarrow> 'k" and h :: "'c \<Rightarrow> 'b" and k
  using that by (induction m) auto

lemma users_find:
  assumes "keyed s"
  shows "List.find (\<lambda>i. ui_client_id i = c) (users s) = user s c" and "distinct (map ui_client_id (users s))"
proof -
  have k: "\<forall>(k, e)\<in>set (s_clients s). ui_client_id (c_info e) = k" using assms by (simp add: keyed_def)
  then show "List.find (\<lambda>i. ui_client_id i = c) (users s) = user s c"
    unfolding users_def user_def by (rule find_keyed [rotated]) simp
  have "map ui_client_id (users s) = map fst (s_clients s)" using k by (auto simp: users_def)
  then show "distinct (map ui_client_id (users s))" using assms by (simp add: keyed_def)
qed

lemma find_filter_distinct:
  "distinct (map f xs) \<Longrightarrow> List.find (\<lambda>x. f x = k) (filter P xs) =
     (case List.find (\<lambda>x. f x = k) xs of Some x \<Rightarrow> if P x then Some x else None | None \<Rightarrow> None)"
proof (induction xs)
  case (Cons x xs)
  have "f x = k \<Longrightarrow> \<forall>y\<in>set (filter P xs). f y \<noteq> k"
    using Cons.prems by (auto simp: image_iff)
  then have "f x = k \<Longrightarrow> List.find (\<lambda>x. f x = k) (filter P xs) = None" by (simp add: find_None_iff)
  with Cons show ?case by auto
qed simp

lemma bt_invar_fold_insert: "bt_invar m \<Longrightarrow> bt_invar (fold (\<lambda>c. bt_insert (f c) (g c)) cs m)"
  by (induction cs arbitrary: m) (simp_all add: bt_invar_bt_insert)

text \<open>
  The mirror an application builds from the frame that completes a login agrees with the server that
  sent it.
\<close>

lemma session_agrees:
  assumes "wf s" and "distinct (map r_id (ps_roles (s_perms s)))" and "user s (ui_client_id i) = Some i"
  shows "agree cr s i (from_session cr probe (ui_fingerprint cr i) (session_of hello (auth_ok_frame cr i s)))"
proof -
  have k: "keyed s" and inv: "bt_invar (s_channels s)" and chs: "\<forall>(k, c)\<in>set (s_channels s). ch_id c = k"
    using assms(1) by (auto simp: wf_def)
  note find = bt_map_of_find [OF inv chs]
  let ?vis = "visible_channels cr s i"
  have d: "distinct (map ch_id ?vis)"
    using find(2) unfolding visible_channels_def by (rule distinct_map_filter)
  have "map_of (fold (\<lambda>c. bt_insert (ch_id c) c) ?vis []) = view cr s i"
    unfolding map_of_fold_bt_insert [OF d] fun_eq_iff
    by (simp add: visible_channels_def find_filter_distinct [OF find(2)] find(1) view_def channel_get_def split: option.splits)
  moreover have "bt_invar (fold (\<lambda>c. bt_insert (ch_id c) c) ?vis [])"
    by (rule bt_invar_fold_insert) (simp add: bt_invar_def)
  moreover have "map_of (fold (\<lambda>i. AList.update (ui_client_id i) (standing_of cr i)) (users s) []) t =
      map_option (standing_of cr) (user s t)" for t
    by (simp add: map_of_fold_update [OF users_find(2) [OF k]] users_find(1) [OF k] split: option.splits)
  ultimately show ?thesis
    using assms(2,3)
    by (simp add: agree_def from_session_def session_of_def auth_ok_frame_def roles_snapshot_def users_find(1) [OF k] Let_def)
qed

lemma sample_wf: "wf sample_shared"
proof -
  have "nickname_ok 32 (u ''nick'')" by code_simp
  then have "info_ok sample_shared (c_info (sample_client i roles owner))" for i roles owner
    by (simp add: info_ok_def sample_client_def voice_state_default_def server_limits_default_def)
  then show ?thesis
    unfolding wf_def using sample_keyed by (simp add: bt_invar_def sample_client_def sample_room_def sample_hidden_def)
qed

lemma sample_coherent: "coherent sample_ext sample_shared"
  unfolding coherent_def cached_ok_def member_roles_def is_owner_def sample_shared_simps by code_simp

lemma sample_mirrors:
  "mirrors sample_ext sample_shared 2 (from_session sample_ext (sample_key 9) (ui_fingerprint sample_ext (c_info (sample_client 2 [1] False)))
     (session_of hello (auth_ok_frame sample_ext (c_info (sample_client 2 [1] False)) sample_shared)))"
proof -
  have "user sample_shared 2 = Some (c_info (sample_client 2 [1] False))" by (simp add: user_def)
  moreover have "ui_client_id (c_info (sample_client 2 [1] False)) = 2" by (simp add: sample_client_def)
  moreover have "distinct (map r_id (ps_roles (s_perms sample_shared)))" unfolding sample_shared_simps by code_simp
  ultimately show ?thesis unfolding mirrors_def using session_agrees [OF sample_wf] by auto
qed


end
