(* ===== verification/Pickle_Replica.thy ===== *)
theory Pickle_Replica
  imports Pickle_System Pickle_Mirror
begin

text \<open>
  The server and the mirrors of all its clients together. A client's mirror lags behind the server
  by the frames still in its queue; folded over them it agrees with the server. The theory splits a
  mirror into its four parts (roles, own standing, channels, members), says which frames change
  which, and shows that every step of the server sends each client exactly what keeps its mirror in
  step.
\<close>

section \<open>A mirror hears a frame\<close>

definition hear :: "ext \<Rightarrow> server_control \<Rightarrow> perm_mirror \<Rightarrow> perm_mirror" where
  "hear cr f m = (case translate f of Some ev \<Rightarrow> snd (mirror_apply cr ev m) | None \<Rightarrow> m)"

fun role_step :: "server_control \<Rightarrow> role list \<Rightarrow> role list" where
  "role_step (RoleCreated r) rs = insert_role_sorted r rs"
| "role_step (RoleUpdated r) rs = insert_role_sorted r rs"
| "role_step (RoleDeleted i) rs = filter (\<lambda>r. r_id r \<noteq> i) rs"
| "role_step (RolesReordered ps) rs = sort_key r_position (fold (\<lambda>(i, p). set_position i p) ps rs)"
| "role_step _ rs = rs"

fun mine_step :: "ext \<Rightarrow> fingerprint \<Rightarrow> server_control \<Rightarrow> role_id list \<times> bool \<Rightarrow> role_id list \<times> bool" where
  "mine_step cr fp (RoleDeleted i) own = (filter (\<lambda>r. r \<noteq> i) (fst own), snd own)"
| "mine_step cr fp (UserJoined i) own = (if ui_fingerprint cr i = fp then (ui_roles i, ui_owner i) else own)"
| "mine_step cr fp (UserUpdated i) own = (if ui_fingerprint cr i = fp then (ui_roles i, ui_owner i) else own)"
| "mine_step cr fp _ own = own"

fun chan_step :: "server_control \<Rightarrow> (channel_id \<rightharpoonup> channel) \<Rightarrow> (channel_id \<rightharpoonup> channel)" where
  "chan_step (ChannelCreated c) v = v(ch_id c \<mapsto> c)"
| "chan_step (ChannelUpdated c) v = v(ch_id c \<mapsto> c)"
| "chan_step (ChannelRemoved i) v = v(i := None)"
| "chan_step _ v = v"

fun user_step :: "ext \<Rightarrow> server_control \<Rightarrow> (client_id \<rightharpoonup> member_standing) \<Rightarrow> (client_id \<rightharpoonup> member_standing)" where
  "user_step cr (UserJoined i) v = v(ui_client_id i \<mapsto> standing_of cr i)"
| "user_step cr (UserUpdated i) v = v(ui_client_id i \<mapsto> standing_of cr i)"
| "user_step cr (UserLeft t _) v = v(t := None)"
| "user_step cr _ v = v"

lemma hear_parts:
  "pm_fingerprint (hear cr f m) = pm_fingerprint m"
  "pm_roles (hear cr f m) = role_step f (pm_roles m)"
  "(pm_my_roles (hear cr f m), pm_owner (hear cr f m)) = mine_step cr (pm_fingerprint m) f (pm_my_roles m, pm_owner m)"
  "map_of (pm_channels (hear cr f m)) = chan_step f (map_of (pm_channels m))"
  "map_of (pm_users (hear cr f m)) = user_step cr f (map_of (pm_users m))"
  by (cases f; simp add: hear_def mirror_user_def Let_def update_conv' delete_conv' map_of_bt_insert fun_eq_iff)+

lemma bt_invar_hear: "bt_invar (pm_channels m) \<Longrightarrow> bt_invar (pm_channels (hear cr f m))"
  by (cases f) (simp_all add: hear_def mirror_user_def Let_def bt_invar_bt_insert bt.invar_delete)

lemma hear_all_parts:
  "pm_fingerprint (fold (hear cr) q m) = pm_fingerprint m"
  "pm_roles (fold (hear cr) q m) = fold role_step q (pm_roles m)"
  "(pm_my_roles (fold (hear cr) q m), pm_owner (fold (hear cr) q m)) =
     fold (mine_step cr (pm_fingerprint m)) q (pm_my_roles m, pm_owner m)"
  "map_of (pm_channels (fold (hear cr) q m)) = fold chan_step q (map_of (pm_channels m))"
  "map_of (pm_users (fold (hear cr) q m)) = fold (user_step cr) q (map_of (pm_users m))"
  "bt_invar (pm_channels m) \<Longrightarrow> bt_invar (pm_channels (fold (hear cr) q m))"
  by (induction q arbitrary: m) (simp_all add: hear_parts bt_invar_hear)

text \<open>The frames a mirror reacts to; departures are kept apart, since fan-out adds them of its own.\<close>

fun heard :: "server_control \<Rightarrow> bool" where
  "heard (UserJoined _) = True"
| "heard (UserUpdated _) = True"
| "heard (ChannelCreated _) = True"
| "heard (ChannelUpdated _) = True"
| "heard (ChannelRemoved _) = True"
| "heard (RoleCreated _) = True"
| "heard (RoleUpdated _) = True"
| "heard (RoleDeleted _) = True"
| "heard (RolesReordered _) = True"
| "heard _ = False"

lemma unheard_role: "\<not> heard f \<Longrightarrow> role_step f rs = rs"
  by (cases f) simp_all

lemma unheard_mine: "\<not> heard f \<Longrightarrow> mine_step cr fp f own = own"
  by (cases f) simp_all

lemma unheard_chan: "\<not> heard f \<Longrightarrow> chan_step f v = v"
  by (cases f) simp_all

lemma unheard_user: "\<not> heard f \<Longrightarrow> f \<noteq> UserLeft t (case f of UserLeft _ r \<Rightarrow> r | _ \<Rightarrow> Quit) \<Longrightarrow> user_step cr f us t = us t"
  by (cases f) simp_all

lemma fold_heard:
  "fold role_step (filter heard q) rs = fold role_step q rs"
  "fold (mine_step cr fp) (filter heard q) own = fold (mine_step cr fp) q own"
  "fold chan_step (filter heard q) v = fold chan_step q v"
  by (induction q arbitrary: rs own v) (simp_all add: unheard_role unheard_mine unheard_chan)

definition told :: "server_control \<Rightarrow> user_info option" where
  "told f = (case f of UserJoined i \<Rightarrow> Some i | UserUpdated i \<Rightarrow> Some i | _ \<Rightarrow> None)"

lemma told_simps [simp]: "told (UserJoined i) = Some i" "told (UserUpdated i) = Some i"
  by (simp_all add: told_def)

lemma told_heard: "told f = Some i \<Longrightarrow> heard f"
  by (cases f) (simp_all add: told_def)

lemma user_step_at:
  "user_step cr f us t =
     (case told f of Some i \<Rightarrow> if ui_client_id i = t then Some (standing_of cr i) else us t
      | None \<Rightarrow> if \<exists>r. f = UserLeft t r then None else us t)"
  by (cases f) (auto simp: told_def)

lemma user_fold:
  assumes "\<And>f i. f \<in> set q \<Longrightarrow> told f = Some i \<Longrightarrow> ui_client_id i = t \<Longrightarrow> standing_of cr i = st"
    and "\<And>r. UserLeft t r \<notin> set q"
    and "us t = Some st \<or> (\<exists>f\<in>set q. \<exists>i. told f = Some i \<and> ui_client_id i = t)"
  shows "fold (user_step cr) q us t = Some st"
  using assms
proof (induction q arbitrary: us)
  case (Cons f q)
  have "user_step cr f us t = Some st \<or> (\<exists>f\<in>set q. \<exists>i. told f = Some i \<and> ui_client_id i = t)"
    using Cons.prems(1) [of f] Cons.prems(2,3) by (auto simp: user_step_at split: option.splits)
  moreover have "standing_of cr i = st" if "f' \<in> set q" "told f' = Some i" "ui_client_id i = t" for f' i
    using Cons.prems(1) [OF _ that(2,3)] that(1) by simp
  moreover have "UserLeft t r \<notin> set q" for r using Cons.prems(2) [of r] by simp
  ultimately have "fold (user_step cr) q (user_step cr f us) t = Some st" by (intro Cons.IH)
  then show ?case by simp
qed simp

text \<open>
  What the frames \<open>g\<close> must do for one client when the server goes from \<open>s\<close> to \<open>s'\<close> and the client's
  own info from \<open>i\<close> to \<open>i'\<close>.
\<close>

definition informs :: "ext \<Rightarrow> shared \<Rightarrow> user_info \<Rightarrow> shared \<Rightarrow> user_info \<Rightarrow> server_control list \<Rightarrow> bool" where
  "informs cr s i s' i' g \<longleftrightarrow>
     (\<forall>rs. distinct (map r_id rs) \<and> set rs = set (ps_roles (s_perms s)) \<longrightarrow>
        distinct (map r_id (fold role_step g rs)) \<and> set (fold role_step g rs) = set (ps_roles (s_perms s'))) \<and>
     fold (mine_step cr (ui_fingerprint cr i)) g (ui_roles i, ui_owner i) = (ui_roles i', ui_owner i') \<and>
     fold chan_step g (view cr s i) = view cr s' i' \<and>
     (\<forall>t j. user s' t = Some j \<longrightarrow>
        (\<forall>f\<in>set g. \<forall>k. told f = Some k \<and> ui_client_id k = t \<longrightarrow> standing_of cr k = standing_of cr j) \<and>
        (map_option (standing_of cr) (user s t) = Some (standing_of cr j) \<or>
         (\<exists>f\<in>set g. \<exists>k. told f = Some k \<and> ui_client_id k = t)))"

lemma agree_step:
  assumes "agree cr s i m" and "informs cr s i s' i' (filter heard q)" and "ui_identity i' = ui_identity i"
    and "\<And>t r. UserLeft t r \<in> set q \<Longrightarrow> user s' t = None"
  shows "agree cr s' i' (fold (hear cr) q m)"
proof -
  have fp: "ui_fingerprint cr i' = ui_fingerprint cr i" using assms(3) by (simp add: ui_fingerprint_def)
  note a = assms(1) [unfolded agree_def] and g = assms(2) [unfolded informs_def fold_heard]
  have users: "fold (user_step cr) q (map_of (pm_users m)) t = Some (standing_of cr j)" if "user s' t = Some j" for t j
  proof (rule user_fold)
    fix f k
    assume "f \<in> set q" and "told f = Some k" and "ui_client_id k = t"
    then show "standing_of cr k = standing_of cr j" using g that told_heard [of f k] by auto
  next
    have "map_option (standing_of cr) (user s t) = Some (standing_of cr j) \<Longrightarrow> map_of (pm_users m) t = Some (standing_of cr j)"
      using a by auto
    then show "map_of (pm_users m) t = Some (standing_of cr j) \<or> (\<exists>f\<in>set q. \<exists>k. told f = Some k \<and> ui_client_id k = t)"
      using g that by fastforce
  qed (use assms(4) that in auto)
  have "(pm_my_roles (fold (hear cr) q m), pm_owner (fold (hear cr) q m)) = (ui_roles i', ui_owner i')"
    using a g by (simp add: hear_all_parts(3))
  then have "pm_my_roles (fold (hear cr) q m) = ui_roles i'" "pm_owner (fold (hear cr) q m) = ui_owner i'"
    by simp_all
  then show ?thesis
    unfolding agree_def using a g users by (simp add: hear_all_parts fp)
qed

section \<open>What a step sends\<close>

abbreviation lookup :: "shared \<Rightarrow> client_id \<Rightarrow> connected_client option" where
  "lookup s c \<equiv> map_of (s_clients s) c"

definition same_standing :: "user_info \<Rightarrow> user_info \<Rightarrow> bool" where
  "same_standing i i' \<longleftrightarrow> ui_client_id i' = ui_client_id i \<and> ui_identity i' = ui_identity i \<and>
     ui_roles i' = ui_roles i \<and> ui_owner i' = ui_owner i"

text \<open>
  \<open>sends \<Phi> s s'\<close>: whoever is still connected was connected before, with the same standing, and got
  frames of which those a mirror hears satisfy \<open>\<Phi>\<close>, besides departures of clients that are gone.
\<close>

definition sends :: "(client_id \<Rightarrow> server_control list \<Rightarrow> bool) \<Rightarrow> shared \<Rightarrow> shared \<Rightarrow> bool" where
  "sends \<Phi> s s' \<longleftrightarrow> s_perms s' = s_perms s \<and> s_owner s' = s_owner s \<and> s_channels s' = s_channels s \<and>
     (\<forall>c e'. lookup s' c = Some e' \<longrightarrow>
        (\<exists>e. lookup s c = Some e \<and> same_standing (c_info e) (c_info e') \<and>
           (\<not> c_gone e' \<longrightarrow> \<not> c_gone e \<and> (\<exists>q. c_queue e' = c_queue e @ q \<and> \<Phi> c (filter heard q) \<and>
              (\<forall>t r. UserLeft t r \<in> set q \<longrightarrow> lookup s' t = None)))))"

lemma same_standing_refl [simp]: "same_standing i i"
  by (simp add: same_standing_def)

lemma same_standing_trans: "same_standing i j \<Longrightarrow> same_standing j k \<Longrightarrow> same_standing i k"
  by (simp add: same_standing_def)

lemma same_standing_of: "same_standing i i' \<Longrightarrow> standing_of cr i' = standing_of cr i"
  by (simp add: same_standing_def standing_of_def ui_fingerprint_def)

lemma sends_trans:
  assumes "sends \<Phi> s t" and "sends \<Psi> t w"
    and "\<And>c g h e. lookup w c = Some e \<Longrightarrow> \<Phi> c g \<Longrightarrow> \<Psi> c h \<Longrightarrow> \<Theta> c (g @ h)"
  shows "sends \<Theta> s w"
  unfolding sends_def
proof (intro conjI allI impI)
  fix c e''
  assume w: "lookup w c = Some e''"
  then obtain e' where t: "lookup t c = Some e'" "same_standing (c_info e') (c_info e'')"
    and q': "\<not> c_gone e'' \<longrightarrow> \<not> c_gone e' \<and> (\<exists>q. c_queue e'' = c_queue e' @ q \<and> \<Psi> c (filter heard q) \<and>
              (\<forall>t r. UserLeft t r \<in> set q \<longrightarrow> lookup w t = None))"
    using assms(2) unfolding sends_def by blast
  then obtain e where s: "lookup s c = Some e" "same_standing (c_info e) (c_info e')"
    and q: "\<not> c_gone e' \<longrightarrow> \<not> c_gone e \<and> (\<exists>q. c_queue e' = c_queue e @ q \<and> \<Phi> c (filter heard q) \<and>
              (\<forall>x r. UserLeft x r \<in> set q \<longrightarrow> lookup t x = None))"
    using assms(1) unfolding sends_def by blast
  have gone: "lookup w x = None" if "lookup t x = None" for x
    using assms(2) that unfolding sends_def by (metis not_None_eq option.distinct(1))
  have "\<not> c_gone e \<and> (\<exists>q. c_queue e'' = c_queue e @ q \<and> \<Theta> c (filter heard q) \<and>
              (\<forall>t r. UserLeft t r \<in> set q \<longrightarrow> lookup w t = None))" if alive: "\<not> c_gone e''"
  proof -
    obtain q2 where q2: "\<not> c_gone e'" "c_queue e'' = c_queue e' @ q2" "\<Psi> c (filter heard q2)"
        "\<forall>t r. UserLeft t r \<in> set q2 \<longrightarrow> lookup w t = None" using q' alive by blast
    obtain q1 where q1: "\<not> c_gone e" "c_queue e' = c_queue e @ q1" "\<Phi> c (filter heard q1)"
        "\<forall>x r. UserLeft x r \<in> set q1 \<longrightarrow> lookup t x = None" using q q2(1) by blast
    have "c_queue e'' = c_queue e @ (q1 @ q2)" by (simp add: q1(2) q2(2))
    moreover have "\<Theta> c (filter heard (q1 @ q2))" using assms(3) [OF w q1(3) q2(3)] by simp
    moreover have "\<forall>t r. UserLeft t r \<in> set (q1 @ q2) \<longrightarrow> lookup w t = None" using q1(4) q2(4) gone by auto
    ultimately show ?thesis using q1(1) by blast
  qed
  then show "\<exists>e. lookup s c = Some e \<and> same_standing (c_info e) (c_info e'') \<and>
      (\<not> c_gone e'' \<longrightarrow> \<not> c_gone e \<and> (\<exists>q. c_queue e'' = c_queue e @ q \<and> \<Theta> c (filter heard q) \<and>
         (\<forall>t r. UserLeft t r \<in> set q \<longrightarrow> lookup w t = None)))"
    using s same_standing_trans [OF s(2) t(2)] by blast
qed (use assms(1,2) in \<open>auto simp: sends_def\<close>)

lemma sends_mono: "sends \<Phi> s t \<Longrightarrow> (\<And>c g e. lookup t c = Some e \<Longrightarrow> \<Phi> c g \<Longrightarrow> \<Psi> c g) \<Longrightarrow> sends \<Psi> s t"
  unfolding sends_def by meson

lemma sends_fan_out:
  assumes k: "keyed s" and left: "\<And>t r. m = UserLeft t r \<Longrightarrow> lookup s t = None"
  shows "sends (\<lambda>c g. \<exists>e. lookup s c = Some e \<and> g = (if P c e then filter heard [m] else [])) s (fan_out P m s)"
  unfolding sends_def
proof (intro conjI allI impI)
  let ?s = "fan_out P m s"
  note quiet = quiet_fan_out [of s P m]
  show "s_perms ?s = s_perms s" "s_owner ?s = s_owner s" "s_channels ?s = s_channels s"
    using quietD(1) [OF quiet] quiet by (auto simp: quiet_def)
  fix c e'
  assume c: "lookup ?s c = Some e'"
  then obtain e where e: "lookup s c = Some e" using quiet_gone [OF quiet, of c] by force
  have ov: "\<not> (P c e \<and> overflows e)" using fan_out_lookup [OF k e, of P m] c by auto
  then obtain ls where ls: "e' = e\<lparr>c_queue := c_queue e @ (if P c e \<and> \<not> c_gone e then [m] else []) @ ls\<rparr>"
    and d: "departures {j. \<exists>x. lookup s j = Some x \<and> P j x \<and> overflows x} ls"
    using fan_out_lookup [OF k e, of P m] c by auto
  have "lookup ?s t = None" if "UserLeft t r \<in> set ls" for t r
    using d that fan_out_lookup [OF k, of t _ P m] unfolding departures_def by fastforce
  moreover have "filter heard ls = []" using d by (auto simp: departures_def filter_empty_conv)
  moreover have "lookup ?s t = None" if "m = UserLeft t r" for t r using quiet_gone [OF quiet left [OF that]] .
  ultimately show "\<exists>e. lookup s c = Some e \<and> same_standing (c_info e) (c_info e') \<and>
      (\<not> c_gone e' \<longrightarrow> \<not> c_gone e \<and> (\<exists>q. c_queue e' = c_queue e @ q \<and>
         (\<exists>e. lookup s c = Some e \<and> filter heard q = (if P c e then filter heard [m] else [])) \<and>
         (\<forall>t r. UserLeft t r \<in> set q \<longrightarrow> lookup ?s t = None)))"
    using e by (intro exI [of _ e]) (auto simp: ls intro!: exI [of _ "(if P c e \<and> \<not> c_gone e then [m] else []) @ ls"])
qed

section \<open>Calm steps\<close>

named_theorems calm_intros

text \<open>A user frame that tells nothing but the truth.\<close>

definition sound :: "ext \<Rightarrow> shared \<Rightarrow> server_control \<Rightarrow> bool" where
  "sound cr s f \<longleftrightarrow> (\<exists>i. told f = Some i \<and> cached_ok cr s i \<and>
     (\<forall>e. lookup s (ui_client_id i) = Some e \<longrightarrow> ui_identity (c_info e) = ui_identity i))"

definition calm :: "ext \<Rightarrow> shared \<Rightarrow> shared \<Rightarrow> bool" where
  "calm cr s s' \<longleftrightarrow> keyed s' \<and> sends (\<lambda>_ g. \<forall>f\<in>set g. sound cr s' f) s s'"

lemma sends_keeps_sound:
  assumes "sends \<Phi> s s'" and "sound cr s f"
  shows "sound cr s' f"
proof -
  have "cached_ok cr s' = cached_ok cr s"
    using assms(1) by (auto simp: sends_def cached_ok_def member_roles_def is_owner_def fun_eq_iff)
  moreover have "ui_identity (c_info e') = x" if "lookup s' c = Some e'" "\<forall>e. lookup s c = Some e \<longrightarrow> ui_identity (c_info e) = x" for c e' x
    using assms(1) that unfolding sends_def same_standing_def by metis
  ultimately show ?thesis using assms(2) unfolding sound_def by metis
qed

lemma calm_refl: "keyed s \<Longrightarrow> calm cr s s"
  by (auto simp: calm_def sends_def)

lemma calm_then:
  assumes "calm cr s t" and "keyed t \<Longrightarrow> calm cr t t'"
  shows "calm cr s t'"
proof -
  have t: "calm cr t t'" using assms by (simp add: calm_def)
  have st: "sends (\<lambda>_ g. \<forall>f\<in>set g. sound cr t f) s t" and tt: "sends (\<lambda>_ g. \<forall>f\<in>set g. sound cr t' f) t t'"
    using assms(1) t by (simp_all add: calm_def)
  have "sends (\<lambda>_ g. \<forall>f\<in>set g. sound cr t' f) s t'"
    by (rule sends_trans [OF st tt]) (use sends_keeps_sound [OF tt] in auto)
  then show ?thesis using t by (simp add: calm_def)
qed

lemma calm_fan_out:
  assumes "calm cr s t" and "\<not> heard m \<or> sound cr t m" and "\<And>c r. m = UserLeft c r \<Longrightarrow> lookup t c = None"
  shows "calm cr s (fan_out P m t)"
proof (rule calm_then [OF assms(1)])
  assume k: "keyed t"
  note p = sends_fan_out [OF k assms(3), where P = P]
  have "sends (\<lambda>_ g. \<forall>f\<in>set g. sound cr (fan_out P m t) f) t (fan_out P m t)"
    by (rule sends_mono [OF p]) (use sends_keeps_sound [OF p] assms(2) in \<open>auto split: if_splits\<close>)
  then show "calm cr t (fan_out P m t)" using keyed_quiet [OF k quiet_fan_out] by (simp add: calm_def)
qed

text \<open>A change of the entries that adds no frames.\<close>

lemma calm_entries:
  assumes "calm cr s t" and "s_perms t' = s_perms t" "s_owner t' = s_owner t" "s_channels t' = s_channels t"
    and "keyed t \<Longrightarrow> keyed t'"
    and "\<And>c e'. lookup t' c = Some e' \<Longrightarrow> \<exists>e. lookup t c = Some e \<and> same_standing (c_info e) (c_info e') \<and>
      (\<not> c_gone e' \<longrightarrow> \<not> c_gone e \<and> c_queue e' = c_queue e)"
  shows "calm cr s t'"
proof (rule calm_then [OF assms(1)])
  assume k: "keyed t"
  have "sends (\<lambda>_ g. \<forall>f\<in>set g. sound cr t' f) t t'"
    unfolding sends_def using assms(2-4,6) by fastforce
  then show "calm cr t t'" using assms(5) k by (simp add: calm_def)
qed

lemma calm_fields:
  assumes "calm cr s t" and "s_clients t' = s_clients t" "s_perms t' = s_perms t" "s_owner t' = s_owner t" "s_channels t' = s_channels t"
  shows "calm cr s t'"
  by (rule calm_entries [OF assms(1,3-5)]) (simp_all add: assms(2) keyed_def)

lemma calm_map_entry:
  assumes "calm cr s t" and "\<And>e. same_standing (c_info e) (c_info (f e)) \<and> (\<not> c_gone (f e) \<longrightarrow> \<not> c_gone e \<and> c_queue (f e) = c_queue e)"
  shows "calm cr s (t\<lparr>s_clients := AList.map_entry c f (s_clients t)\<rparr>)" (is "calm cr s ?t")
proof (rule calm_entries [OF assms(1)])
  assume k: "keyed t"
  have "ui_client_id (c_info e') = i" if "(i, e') \<in> set (AList.map_entry c f (s_clients t))" for i e'
    using map_entry_mem [OF that] k assms(2) unfolding keyed_def same_standing_def by (metis (mono_tags, lifting) case_prodD)
  then show "keyed ?t" using k by (auto simp: keyed_def)
qed (use assms(2) in \<open>auto simp: map_of_map_entry split: if_splits option.splits\<close>)

lemma calm_modify_info:
  "calm cr s t \<Longrightarrow> (\<And>i. same_standing i (f i)) \<Longrightarrow> calm cr s (modify_info c f t)"
  unfolding modify_info_def by (rule calm_map_entry) simp_all

lemma calm_delete: "calm cr s t \<Longrightarrow> calm cr s (t\<lparr>s_clients := AList.delete c (s_clients t)\<rparr>)"
  by (erule calm_entries) (auto simp: delete_conv' intro: keyed_quiet quiet_delete split: if_splits)

lemma calm_map_clients:
  assumes "calm cr s t" and "\<And>i e. same_standing (c_info e) (c_info (f i e)) \<and> c_gone (f i e) = c_gone e \<and> c_queue (f i e) = c_queue e"
  shows "calm cr s (t\<lparr>s_clients := map (\<lambda>(i, e). (i, f i e)) (s_clients t)\<rparr>)" (is "calm cr s ?t")
proof (rule calm_entries [OF assms(1)])
  have l: "lookup ?t c = map_option (f c) (lookup t c)" for c by (simp add: map_of_map_val)
  fix c e'
  assume "lookup ?t c = Some e'"
  then show "\<exists>e. lookup t c = Some e \<and> same_standing (c_info e) (c_info e') \<and>
      (\<not> c_gone e' \<longrightarrow> \<not> c_gone e \<and> c_queue e' = c_queue e)"
    unfolding l using assms(2) by auto
next
  assume k: "keyed t"
  have "ui_client_id (c_info (f i e)) = ui_client_id (c_info e)" for i e using assms(2) by (auto simp: same_standing_def)
  then show "keyed ?t" using k by (auto simp: keyed_def comp_def case_prod_unfold)
qed simp_all

lemma calm_send [calm_intros]:
  "calm cr s t \<Longrightarrow> \<not> heard m \<Longrightarrow> (\<And>c r. m \<noteq> UserLeft c r) \<Longrightarrow> calm cr s (send c m t)"
  unfolding send_fan_out by (rule calm_fan_out) auto

lemma calm_broadcast [calm_intros]:
  "calm cr s t \<Longrightarrow> \<not> heard m \<Longrightarrow> (\<And>c r. m \<noteq> UserLeft c r) \<Longrightarrow> calm cr s (broadcast m except t)"
  unfolding broadcast_fan_out by (rule calm_fan_out) auto

lemma calm_broadcast_filtered [calm_intros]:
  "calm cr s t \<Longrightarrow> \<not> heard m \<Longrightarrow> (\<And>c r. m \<noteq> UserLeft c r) \<Longrightarrow> calm cr s (broadcast_filtered cr' m channel except t)"
  unfolding broadcast_filtered_fan_out by (auto intro: calm_fan_out split: option.splits)

lemma calm_updated:
  assumes "calm cr s t" and "coherent cr t" and "user t c = Some i"
  shows "calm cr s (broadcast (UserUpdated i) except t)"
  unfolding broadcast_fan_out
proof (rule calm_fan_out [OF assms(1)])
  obtain e where e: "lookup t c = Some e" "i = c_info e" using assms(3) by (auto simp: user_def)
  moreover have "keyed t" using assms(1) by (simp add: calm_def)
  ultimately have "ui_client_id i = c" "cached_ok cr t i"
    using keyed_lookup assms(2) map_of_SomeD [OF e(1)] by (fastforce simp: coherent_def)+
  then have "sound cr t (UserUpdated i)" using e by (simp add: sound_def)
  then show "\<not> heard (UserUpdated i) \<or> sound cr t (UserUpdated i)" ..
qed simp

lemma calm_departed:
  "calm cr s t \<Longrightarrow> lookup t c = None \<Longrightarrow> calm cr s (broadcast (UserLeft c r) except t)"
  unfolding broadcast_fan_out by (rule calm_fan_out) auto

lemma calm_coherent:
  assumes "calm cr s t" and "coherent cr s"
  shows "coherent cr t"
proof -
  have "cached_ok cr t (c_info e')" if "(c, e') \<in> set (s_clients t)" for c e'
  proof -
    have "lookup t c = Some e'" using that assms(1) by (simp add: calm_def keyed_def)
    then obtain e where e: "lookup s c = Some e" "same_standing (c_info e) (c_info e')"
      using assms(1) unfolding calm_def sends_def by blast
    have "cached_ok cr s (c_info e)" using assms(2) map_of_SomeD [OF e(1)] by (auto simp: coherent_def)
    then show ?thesis
      using e(2) assms(1)
      by (auto simp: cached_ok_def same_standing_def ui_fingerprint_def calm_def sends_def member_roles_def is_owner_def)
  qed
  then show ?thesis by (auto simp: coherent_def)
qed

section \<open>The commands that are calm\<close>

lemma calm_ack [calm_intros]: "calm cr s t \<Longrightarrow> calm cr s (ack c n t)"
  unfolding ack_def by (rule calm_send) simp_all

lemma calm_refuse [calm_intros]: "calm cr s t \<Longrightarrow> calm cr s (refuse c n code detail t)"
  unfolding refuse_def by (rule calm_send) simp_all

lemma calm_db_call: "calm cr s t \<Longrightarrow> db_call q t = (r, t') \<Longrightarrow> calm cr s t'"
  by (rule db_call_ex [of q t]) (auto intro: calm_fields)

lemma calm_eject:
  assumes "calm cr s t"
  shows "calm cr s (eject_and_close v reason t)"
proof -
  have "calm cr s (snd (eject v reason t))"
    using assms calm_departed [OF calm_delete [OF assms], of v v reason None]
    by (auto simp: eject_def Let_def delete_conv' split: option.splits)
  then have "calm cr s (close_transport v code why (snd (eject v reason t)))" "calm cr s (snd (eject v reason t))" for code why
    by (auto simp: close_transport_def intro: calm_fields)
  then show ?thesis
    by (auto simp: eject_and_close_def split: prod.splits option.splits disconnect_reason.splits)
qed

lemma calm_fold: "calm cr s t \<Longrightarrow> (\<And>x t. calm cr s t \<Longrightarrow> calm cr s (f x t)) \<Longrightarrow> calm cr s (fold f xs t)"
  by (induction xs arbitrary: t) auto

lemma calm_authorize:
  "calm cr s t \<Longrightarrow> authorize_against_online cr a n flag v t = (r, t') \<Longrightarrow> calm cr s t'"
  using authorize_cases [of cr a n flag v t r t'] by (auto intro: calm_intros split: option.splits)

lemma calm_kick: "keyed s \<Longrightarrow> calm cr s (kick cr a n v reason s)"
  using calm_authorize [OF calm_refl]
  by (auto simp: kick_def intro!: calm_ack calm_eject split: prod.splits option.splits)

lemma calm_ban: "keyed s \<Longrightarrow> calm cr s (ban cr now a n fp reason until s)"
  using calm_db_call [OF calm_refl]
  by (auto simp: ban_def Let_def calm_refl intro!: calm_ack calm_refuse calm_fold calm_eject split: prod.splits sum.splits)

lemma calm_unban: "keyed s \<Longrightarrow> calm cr s (unban cr a n fp s)"
  using calm_db_call [OF calm_refl]
  by (auto simp: unban_def calm_refl intro!: calm_ack calm_refuse split: prod.splits sum.splits)

lemma calm_list_bans: "keyed s \<Longrightarrow> calm cr s (list_bans cr a n s)"
  using calm_db_call [OF calm_refl]
  by (auto simp: list_bans_def calm_refl intro!: calm_send calm_refuse split: prod.splits sum.splits)

lemma calm_set_server_mute:
  assumes "keyed s" and "coherent cr s"
  shows "calm cr s (set_server_mute cr a n v muted s)"
proof -
  obtain r t where t: "authorize_against_online cr a n MUTE_MEMBERS v s = (r, t)" by fastforce
  have c: "calm cr s t" by (rule calm_authorize [OF calm_refl [OF assms(1)] t])
  let ?t = "modify_info v (\<lambda>i. i\<lparr>ui_voice := (ui_voice i)\<lparr>server_muted := muted\<rparr>\<rparr>) t"
  have c': "calm cr s ?t" by (rule calm_modify_info [OF c]) (simp add: same_standing_def)
  have "calm cr s (broadcast (UserUpdated i) None ?t)" if "user ?t v = Some i" for i
    by (rule calm_updated [OF c' calm_coherent [OF c' assms(2)] that])
  then show ?thesis
    using c c' by (auto simp: set_server_mute_def t set_server_muted_def Let_def intro!: calm_ack calm_refuse split: option.splits)
qed

lemma calm_move_member: "keyed s \<Longrightarrow> calm cr s (move_member cr a n v to s)"
proof -
  assume k: "keyed s"
  obtain r t where t: "authorize_against_online cr a n MOVE_MEMBERS v s = (r, t)" by fastforce
  have c: "calm cr s t" by (rule calm_authorize [OF calm_refl [OF k] t])
  then have "calm cr s (snd (force_move v to t))"
    by (auto simp: force_move_def same_standing_def intro!: calm_modify_info split: option.splits)
  then show ?thesis
    using c by (auto simp: move_member_def t intro!: calm_intros split: option.splits sum.splits prod.splits) 
qed

lemma calm_fetch_history: "keyed s \<Longrightarrow> calm cr s (fetch_history cr c channel before limit s)"
  using calm_db_call [OF calm_refl]
  by (auto simp: fetch_history_def Let_def calm_refl intro!: calm_send split: prod.splits sum.splits)

lemma calm_send_message:
  assumes "keyed s"
  shows "calm cr s (send_message cr now c channel content reply_to nonce s)"
proof -
  note r = calm_refl [OF assms, of cr]
  have b: "calm cr s t" if "build_message cr now author channel content reply_to s = (m, t)" for author m t
    using that r by (auto simp: build_message_def next_message_id_def intro: calm_fields)
  note d = calm_db_call [OF b]
  show ?thesis
    unfolding send_message_def Let_def
    by (auto simp: r intro!: calm_send calm_broadcast_filtered intro: b d split: prod.splits sum.splits option.splits if_splits)
qed

lemma calm_typing: "keyed s \<Longrightarrow> calm cr s (typing cr c channel s)"
  by (auto simp: typing_def calm_refl intro!: calm_broadcast_filtered)

lemma calm_join_request: "keyed s \<Longrightarrow> calm cr s (join_request cr c channel s)"
proof -
  assume k: "keyed s"
  then have "calm cr s (snd (join_channel cr c channel s))"
    by (auto simp: join_channel_def Let_def same_standing_def calm_refl intro!: calm_modify_info split: option.splits)
  then show ?thesis by (auto simp: join_request_def intro!: calm_send calm_broadcast split: prod.splits sum.splits)
qed

lemma calm_leave_request: "keyed s \<Longrightarrow> calm cr s (leave_request c s)"
  by (auto simp: leave_request_def leave_channel_def same_standing_def calm_refl intro!: calm_modify_info calm_broadcast)

lemma calm_voice_request:
  assumes "keyed s" and "coherent cr s"
  shows "calm cr s (voice_request c muted deafened s)"
proof -
  let ?t = "modify_info c (voice_update muted deafened) s"
  have c: "calm cr s ?t"
    by (rule calm_modify_info [OF calm_refl [OF assms(1)]]) (simp add: same_standing_def voice_update_def Let_def)
  show ?thesis
    using c calm_updated [OF c calm_coherent [OF c assms(2)]]
    by (auto simp: voice_request_def set_voice_state_def Let_def split: option.splits)
qed

lemma calm_nickname_request:
  assumes "keyed s" and "coherent cr s"
  shows "calm cr s (nickname_request c nickname s)"
proof -
  let ?t = "\<lambda>n. modify_info c (\<lambda>i. i\<lparr>ui_nickname := n\<rparr>) s"
  have c: "calm cr s (?t n)" for n
    by (rule calm_modify_info [OF calm_refl [OF assms(1)]]) (simp add: same_standing_def)
  show ?thesis
    using c calm_updated [OF c calm_coherent [OF c assms(2)]]
    by (auto simp: nickname_request_def set_nickname_def Let_def calm_refl [OF assms(1)] intro!: calm_send split: option.splits)
qed

lemma calm_end_session: "keyed s \<Longrightarrow> calm cr s (end_session c s)"
proof -
  assume k: "keyed s"
  note d = calm_delete [OF calm_refl [OF k], of cr c]
  show ?thesis
    using d calm_departed [OF d, of c] by (auto simp: end_session_def remove_client_def delete_conv' split: option.splits)
qed

lemma calm_hang_up: "keyed s \<Longrightarrow> calm cr s (hang_up c s)"
  unfolding hang_up_def by (rule calm_map_entry [OF calm_refl]) simp_all

lemma calm_datagram_in: "keyed s \<Longrightarrow> calm cr s (datagram_in cr c d s)"
proof -
  assume k: "keyed s"
  have "calm cr s (relay_voice cr c packet s)" for packet
    using relay_entries [of cr c packet s] calm_map_clients [OF calm_refl [OF k], where f = "\<lambda>i e. e\<lparr>c_datagrams := c_datagrams e @ g i e\<rparr>" for g]
    by fastforce
  then show ?thesis using k by (auto simp: datagram_in_def calm_refl split: sum.splits)
qed

text \<open>The commands that change roles, grants, overwrites or channels are the ones that are not.\<close>

fun administers :: "client_control \<Rightarrow> bool" where
  "administers (CreateRole _ _ _) = True"
| "administers (UpdateRole _ _ _ _ _) = True"
| "administers (DeleteRole _ _) = True"
| "administers (ReorderRoles _ _) = True"
| "administers (SetMemberRoles _ _ _) = True"
| "administers (SetChannelOverwrite _ _ _ _ _) = True"
| "administers (DeleteChannelOverwrite _ _ _) = True"
| "administers (CreateChannel _ _ _ _ _ _ _) = True"
| "administers (UpdateChannel _ _ _ _ _ _ _ _) = True"
| "administers (DeleteChannel _ _) = True"
| "administers _ = False"

lemma calm_request:
  assumes "keyed s" and "coherent cr s" and "handle_control cr now me m s = Some s'" and "\<not> administers m"
  shows "calm cr s s'"
  using assms(3,4) calm_refl [OF assms(1), of cr] assms(1,2)
  by (cases m)
    (auto simp: calm_kick calm_ban calm_unban calm_list_bans calm_set_server_mute calm_move_member calm_fetch_history
      calm_send_message calm_typing calm_join_request calm_leave_request calm_voice_request calm_nickname_request intro!: calm_send)

section \<open>Mirrors in step\<close>

definition follows :: "ext \<Rightarrow> (client_id \<Rightarrow> perm_mirror) \<Rightarrow> shared \<Rightarrow> bool" where
  "follows cr M s \<longleftrightarrow> (\<forall>c e. lookup s c = Some e \<and> \<not> c_gone e \<longrightarrow>
     agree cr s (c_info e) (fold (hear cr) (c_queue e) (M c)))"

text \<open>A change in memory that leaves the queues alone, and then frames that inform everyone of it.\<close>

definition edits :: "shared \<Rightarrow> shared \<Rightarrow> bool" where
  "edits s t \<longleftrightarrow> (\<forall>c e'. lookup t c = Some e' \<longrightarrow> (\<exists>e. lookup s c = Some e \<and> c_gone e' = c_gone e \<and>
     c_queue e' = c_queue e \<and> ui_client_id (c_info e') = ui_client_id (c_info e) \<and> ui_identity (c_info e') = ui_identity (c_info e)))"

lemma edits_refl: "edits s s"
  by (simp add: edits_def)

lemma follows_sends:
  assumes "sends \<Phi> t w"
    and "\<And>c e' e'' g. lookup t c = Some e' \<Longrightarrow> \<not> c_gone e' \<Longrightarrow> lookup w c = Some e'' \<Longrightarrow> same_standing (c_info e') (c_info e'') \<Longrightarrow>
      \<Phi> c g \<Longrightarrow> \<exists>s i. agree cr s i (fold (hear cr) (c_queue e') (M c)) \<and> ui_identity i = ui_identity (c_info e') \<and>
        informs cr s i w (c_info e'') g"
  shows "follows cr M w"
  unfolding follows_def
proof (intro allI impI, elim conjE)
  fix c e''
  assume w: "lookup w c = Some e''" and alive: "\<not> c_gone e''"
  obtain e' q where e': "lookup t c = Some e'" "same_standing (c_info e') (c_info e'')" "\<not> c_gone e'"
    and q: "c_queue e'' = c_queue e' @ q" "\<Phi> c (filter heard q)" "\<forall>x r. UserLeft x r \<in> set q \<longrightarrow> lookup w x = None"
    using assms(1) w alive unfolding sends_def by blast
  obtain s i where a: "agree cr s i (fold (hear cr) (c_queue e') (M c))" "ui_identity i = ui_identity (c_info e')"
    and g: "informs cr s i w (c_info e'') (filter heard q)"
    using assms(2) [OF e'(1,3) w e'(2) q(2)] by blast
  have "ui_identity (c_info e'') = ui_identity i" using a(2) e'(2) by (simp add: same_standing_def)
  then have "agree cr w (c_info e'') (fold (hear cr) q (fold (hear cr) (c_queue e') (M c)))"
    using agree_step [OF a(1) g] q(3) by (auto simp: user_def)
  then show "agree cr w (c_info e'') (fold (hear cr) (c_queue e'') (M c))" by (simp add: q(1))
qed

lemma follows_edit:
  assumes "follows cr M s" and "edits s t" and "sends \<Phi> t w"
    and "\<And>c e e' e'' g. lookup s c = Some e \<Longrightarrow> lookup t c = Some e' \<Longrightarrow> lookup w c = Some e'' \<Longrightarrow>
      same_standing (c_info e') (c_info e'') \<Longrightarrow> \<Phi> c g \<Longrightarrow> informs cr s (c_info e) w (c_info e'') g"
  shows "follows cr M w"
proof (rule follows_sends [OF assms(3)])
  fix c e' e'' g
  assume e': "lookup t c = Some e'" "\<not> c_gone e'" and w: "lookup w c = Some e''" "same_standing (c_info e') (c_info e'')" "\<Phi> c g"
  obtain e where e: "lookup s c = Some e" "c_gone e' = c_gone e" "c_queue e' = c_queue e" "ui_identity (c_info e') = ui_identity (c_info e)"
    using assms(2) e'(1) unfolding edits_def by blast
  have "agree cr s (c_info e) (fold (hear cr) (c_queue e') (M c))" using assms(1) e e'(2) unfolding follows_def by simp
  then show "\<exists>s i. agree cr s i (fold (hear cr) (c_queue e') (M c)) \<and> ui_identity i = ui_identity (c_info e') \<and> informs cr s i w (c_info e'') g"
    using assms(4) [OF e(1) e'(1) w] e(4) by (intro exI [of _ s] exI [of _ "c_info e"]) simp
qed

lemma told_steps:
  assumes "told f = Some k"
  shows "role_step f rs = rs" and "chan_step f v = v"
    and "mine_step cr fp f own = (if ui_fingerprint cr k = fp then (ui_roles k, ui_owner k) else own)"
  using assms by (cases f; simp add: told_def)+

lemma told_folds:
  assumes "\<And>f. f \<in> set g \<Longrightarrow> \<exists>k. told f = Some k"
  shows "fold role_step g rs = rs" and "fold chan_step g v = v"
  using assms
proof (induction g arbitrary: rs v)
  case (Cons f g)
  { case 1 with Cons.IH(1) told_steps(1) [of f] show ?case by fastforce }
  { case 2 with Cons.IH(2) told_steps(2) [of f] show ?case by fastforce }
qed simp_all

lemma mine_fold:
  assumes "\<And>f k. f \<in> set g \<Longrightarrow> told f = Some k \<Longrightarrow> ui_fingerprint cr k = fp \<Longrightarrow> (ui_roles k, ui_owner k) = own"
    and "\<And>f. f \<in> set g \<Longrightarrow> \<exists>k. told f = Some k"
    and "own' = own \<or> (\<exists>f\<in>set g. \<exists>k. told f = Some k \<and> ui_fingerprint cr k = fp)"
  shows "fold (mine_step cr fp) g own' = own"
  using assms
proof (induction g arbitrary: own')
  case (Cons f g)
  obtain k where k: "told f = Some k" using Cons.prems(2) by force
  have "mine_step cr fp f own' = own \<or> (\<exists>f\<in>set g. \<exists>k. told f = Some k \<and> ui_fingerprint cr k = fp)"
    using Cons.prems(1) [OF _ k] Cons.prems(3) k by (auto simp: told_steps(3) [OF k])
  moreover have "(ui_roles k, ui_owner k) = own" if "f' \<in> set g" "told f' = Some k" "ui_fingerprint cr k = fp" for f' k
    using Cons.prems(1) [OF _ that(2,3)] that(1) by simp
  moreover have "\<exists>k. told f' = Some k" if "f' \<in> set g" for f' using Cons.prems(2) that by simp
  ultimately have "fold (mine_step cr fp) g (mine_step cr fp f own') = own" by (intro Cons.IH)
  then show ?case by simp
qed simp

lemma view_cong:
  "s_perms s' = s_perms s \<Longrightarrow> s_channels s' = s_channels s \<Longrightarrow> ui_identity i' = ui_identity i \<Longrightarrow> ui_roles i' = ui_roles i \<Longrightarrow>
     ui_owner i' = ui_owner i \<Longrightarrow> view cr s' i' = view cr s i"
  by (auto simp: view_def channel_get_def can_view_def member_bits_def ui_fingerprint_def fun_eq_iff split: option.splits)

lemma follows_calm:
  assumes "follows cr M s" and "calm cr s s'" and "coherent cr s"
  shows "follows cr M s'"
proof (rule follows_edit [OF assms(1) edits_refl])
  have se: "sends (\<lambda>_ g. \<forall>f\<in>set g. sound cr s' f) s s'" using assms(2) by (simp add: calm_def)
  then show "sends (\<lambda>_ g. \<forall>f\<in>set g. sound cr s' f) s s'" .
  fix c e e' e'' g
  assume l: "lookup s c = Some e" "lookup s c = Some e'" "lookup s' c = Some e''" "same_standing (c_info e') (c_info e'')"
    and g: "\<forall>f\<in>set g. sound cr s' f"
  have st: "same_standing (c_info e) (c_info e'')" using l by simp
  have coh: "cached_ok cr s' (c_info x)" if "lookup s' t = Some x" for t x
    using calm_coherent [OF assms(2,3)] map_of_SomeD [OF that] by (auto simp: coherent_def)
  have told: "\<exists>k. told f = Some k" if "f \<in> set g" for f using g that by (auto simp: sound_def)
  have known: "cached_ok cr s' k" "\<And>x. lookup s' (ui_client_id k) = Some x \<Longrightarrow> ui_identity (c_info x) = ui_identity k"
    if "f \<in> set g" "told f = Some k" for f k using g that by (auto simp: sound_def)
  have "fold (mine_step cr (ui_fingerprint cr (c_info e))) g (ui_roles (c_info e), ui_owner (c_info e)) =
      (ui_roles (c_info e''), ui_owner (c_info e''))"
  proof (rule mine_fold)
    fix f k
    assume "f \<in> set g" "told f = Some k" "ui_fingerprint cr k = ui_fingerprint cr (c_info e)"
    then show "(ui_roles k, ui_owner k) = (ui_roles (c_info e''), ui_owner (c_info e''))"
      using known(1) coh [OF l(3)] st by (simp add: cached_ok_def same_standing_def ui_fingerprint_def)
  next
    show "(ui_roles (c_info e), ui_owner (c_info e)) = (ui_roles (c_info e''), ui_owner (c_info e'')) \<or>
        (\<exists>f\<in>set g. \<exists>k. told f = Some k \<and> ui_fingerprint cr k = ui_fingerprint cr (c_info e))"
      using st by (auto simp: same_standing_def)
  qed (rule told)
  moreover have "view cr s' (c_info e'') = view cr s (c_info e)"
    using se st by (intro view_cong) (simp_all add: sends_def same_standing_def)
  moreover have "standing_of cr k = standing_of cr j" if h: "user s' t = Some j" "f \<in> set g" "told f = Some k" "ui_client_id k = t" for t j f k
  proof -
    obtain x where x: "lookup s' t = Some x" "j = c_info x" using h(1) by (auto simp: user_def)
    have "ui_identity j = ui_identity k" using known(2) [OF h(2,3)] x h(4) by simp
    then show ?thesis
      using known(1) [OF h(2,3)] coh [OF x(1)] x(2) by (simp add: standing_of_def cached_ok_def ui_fingerprint_def)
  qed
  moreover have "map_option (standing_of cr) (user s t) = Some (standing_of cr j)" if "user s' t = Some j" for t j
    using se that same_standing_of unfolding sends_def user_def by fastforce
  moreover have "ps_roles (s_perms s') = ps_roles (s_perms s)" using se by (simp add: sends_def)
  ultimately show "informs cr s (c_info e) s' (c_info e'') g"
    unfolding informs_def by (auto simp: told_folds [OF told])
qed

end
