(* ===== verification/Pickle_Follow.thy ===== *)
theory Pickle_Follow
  imports Pickle_Replica
begin

text \<open>
  The administrative commands send every mirror what changed: the roles, the standing of whoever
  was granted or lost one, and the channels that appeared, disappeared or were edited. With the
  calm steps this gives the invariant of the whole system, the server with the mirrors of its
  clients: no interleaving of commands makes a mirror drift.
\<close>

section \<open>Exact posting\<close>

named_theorems posting

definition posts :: "(client_id \<Rightarrow> server_control list) \<Rightarrow> shared \<Rightarrow> shared \<Rightarrow> bool" where
  "posts G s t \<longleftrightarrow> keyed t \<and> sends (\<lambda>c g. g = G c) s t"

lemma posts_refl: "keyed s \<Longrightarrow> posts (\<lambda>_. []) s s"
  by (auto simp: posts_def sends_def)

lemma posts_cong: "posts G s t \<Longrightarrow> (\<And>c. G c = H c) \<Longrightarrow> posts H s t"
  by (simp add: posts_def)

lemma posts_fan_out:
  assumes "posts G s t" and "heard m \<or> (\<forall>c r. m \<noteq> UserLeft c r)"
    and "\<And>c e. P c e = Q c"
  shows "posts (\<lambda>c. if Q c then G c @ filter heard [m] else G c) s (fan_out P m t)"
proof -
  have k: "keyed t" and st: "sends (\<lambda>c g. g = G c) s t" using assms(1) by (simp_all add: posts_def)
  have left: "lookup t c = None" if "m = UserLeft c r" for c r using assms(2) that by auto
  have "sends (\<lambda>c g. g = (if Q c then G c @ filter heard [m] else G c)) s (fan_out P m t)"
    by (rule sends_trans [OF st sends_fan_out [OF k left, where P = P]]) (auto simp: assms(3))
  then show ?thesis using keyed_quiet [OF k quiet_fan_out] by (simp add: posts_def)
qed

lemma posts_broadcast:
  assumes "posts G s t" and "heard m"
  shows "posts (\<lambda>c. G c @ [m]) s (broadcast m None t)"
  using posts_fan_out [OF assms(1), of m "\<lambda>i _. Some i \<noteq> None" "\<lambda>_. True"] assms(2) by (simp add: broadcast_fan_out)

lemma posts_silent:
  assumes "posts G s t" and "\<not> heard m" and "\<And>c r. m \<noteq> UserLeft c r"
  shows "posts G s (send c m t)" and "posts G s (broadcast m None t)"
  using posts_fan_out [OF assms(1), of m "\<lambda>i _. i = c" "\<lambda>i. i = c"] posts_fan_out [OF assms(1), of m "\<lambda>i _. Some i \<noteq> None" "\<lambda>_. True"] assms(2,3)
  by (simp_all add: broadcast_fan_out send_fan_out if_cancel cong del: if_weak_cong)

lemma posts_send:
  assumes "posts G s t" and "heard m"
  shows "posts (\<lambda>c. if c = k then G c @ [m] else G c) s (send k m t)"
  using posts_fan_out [OF assms(1), of m "\<lambda>i _. i = k" "\<lambda>i. i = k"] assms(2) by (simp add: send_fan_out cong: if_cong)

lemma posts_ack: "posts G s t \<Longrightarrow> posts G s (ack c n t)"
  unfolding ack_def by (rule posts_silent(1)) simp_all

lemma posts_updates:
  "posts G s t \<Longrightarrow> posts (\<lambda>c. G c @ map UserUpdated infos) s (fold (\<lambda>i. broadcast (UserUpdated i) None) infos t)"
proof (induction infos arbitrary: G t)
  case (Cons i infos)
  from Cons.IH [OF posts_broadcast [OF Cons.prems, of "UserUpdated i"]] show ?case by simp
qed simp

lemma posts_moves:
  "posts G s t \<Longrightarrow> posts (\<lambda>c. G c @ map UserUpdated infos) s (fold (\<lambda>i s. broadcast (UserUpdated i) None (broadcast (UserMoved (f i) a b) None s)) infos t)"
proof (induction infos arbitrary: G t)
  case (Cons i infos)
  have "posts G s (broadcast (UserMoved (f i) a b) None t)" by (rule posts_silent(2) [OF Cons.prems]) simp_all
  from Cons.IH [OF posts_broadcast [OF this, of "UserUpdated i"]] show ?case by simp
qed simp

lemma posts_sends:
  "posts G s t \<Longrightarrow> \<forall>f\<in>set fs. heard f \<Longrightarrow> posts (\<lambda>c. if c = k then G c @ fs else G c) s (fold (send k) fs t)"
proof (induction fs arbitrary: G t)
  case (Cons f fs)
  have "heard f" "\<forall>f\<in>set fs. heard f" using Cons.prems(2) by simp_all
  from Cons.IH [OF posts_send [OF Cons.prems(1) this(1), of k] this(2)] show ?case by (simp cong: if_cong)
next
  case Nil
  from Nil(1) show ?case unfolding fold.simps id_apply by (rule posts_cong) simp
qed

section \<open>Resynchronising the channels\<close>

lemma resync_heard: "f \<in> set (resync_frames s was now touched) \<Longrightarrow> heard f"
  by (auto simp: resync_frames_def map_filter_def split: if_splits)

lemma posts_each:
  assumes "posts G s t" and "distinct (map fst before)" and "\<And>f c was. f \<in> set (F c was) \<Longrightarrow> heard f"
  shows "posts (\<lambda>c. G c @ (case map_of before c of Some was \<Rightarrow> F c was | None \<Rightarrow> [])) s
    (fold (\<lambda>(c, was). fold (send c) (F c was)) before t)"
  using assms(1,2)
proof (induction before arbitrary: G t)
  case (Cons b before)
  obtain k was where b: "b = (k, was)" by (cases b)
  have n: "map_of before k = None" using Cons.prems(2) by (simp add: b map_of_eq_None_iff)
  have h: "\<forall>f\<in>set (F k was). heard f" using assms(3) by blast
  have "posts (\<lambda>c. (if c = k then G c @ F k was else G c) @ (case map_of before c of Some was \<Rightarrow> F c was | None \<Rightarrow> [])) s
      (fold (\<lambda>(c, was). fold (send c) (F c was)) before (fold (send k) (F k was) t))"
    using Cons.IH [OF posts_sends [OF Cons.prems(1) h, of k]] Cons.prems(2) by simp
  moreover have "(\<lambda>c. (if c = k then G c @ F k was else G c) @ (case map_of before c of Some was \<Rightarrow> F c was | None \<Rightarrow> [])) =
      (\<lambda>c. G c @ (case map_of (b # before) c of Some was \<Rightarrow> F c was | None \<Rightarrow> []))"
    by (auto simp: b n fun_eq_iff)
  ultimately show ?case by (simp add: b)
qed simp

definition visible_ids :: "ext \<Rightarrow> shared \<Rightarrow> user_info \<Rightarrow> channel_id list" where
  "visible_ids cr s i = map ch_id (visible_channels cr s i)"

lemma visible_ids_lookup:
  assumes "keyed s"
  shows "map_of (visible_ids_by_client cr s) c = map_option (visible_ids cr s \<circ> c_info) (lookup s c)"
    and "map fst (visible_ids_by_client cr s) = map fst (s_clients s)"
proof -
  have k: "\<forall>(i, e)\<in>set (s_clients s). ui_client_id (c_info e) = i" using assms by (simp add: keyed_def)
  then have e: "visible_ids_by_client cr s = map (\<lambda>(i, e). (i, visible_ids cr s (c_info e))) (s_clients s)"
    by (auto simp: visible_ids_by_client_def visible_ids_def)
  show "map_of (visible_ids_by_client cr s) c = map_option (visible_ids cr s \<circ> c_info) (lookup s c)"
    unfolding e map_of_map_val by (simp add: comp_def)
  show "map fst (visible_ids_by_client cr s) = map fst (s_clients s)" by (auto simp: e)
qed

lemma posts_resync:
  assumes "posts G s t" and "keyed s0"
  shows "posts (\<lambda>c. G c @ (case lookup s0 c of
       Some e \<Rightarrow> (case lookup t c of
           Some e' \<Rightarrow> resync_frames t (visible_ids cr s0 (c_info e)) (visible_ids cr t (c_info e')) touched | None \<Rightarrow> [])
     | None \<Rightarrow> [])) s (resync_visibility cr (visible_ids_by_client cr s0) touched t)"
proof -
  have k: "keyed t" using assms(1) by (simp add: posts_def)
  let ?before = "visible_ids_by_client cr s0"
  let ?F = "\<lambda>c was. case lookup t c of Some e' \<Rightarrow> resync_frames t was (visible_ids cr t (c_info e')) touched | None \<Rightarrow> []"
  have d: "distinct (map fst ?before)" "distinct (map fst (visible_ids_by_client cr t))"
    using assms(2) k by (simp_all add: visible_ids_lookup keyed_def)
  have after: "map_of (rev (visible_ids_by_client cr t)) c = map_option (visible_ids cr t \<circ> c_info) (lookup t c)" for c
    using map_of_inject_set [of "rev (visible_ids_by_client cr t)" "visible_ids_by_client cr t"] d(2)
    by (simp add: visible_ids_lookup(1) [OF k] flip: rev_map)
  have "resync_visibility cr ?before touched t = fold (\<lambda>(c, was). fold (send c) (?F c was)) ?before t"
    unfolding resync_visibility_def Let_def after
    by (rule fold_cong) (auto simp: fun_eq_iff split: option.splits)
  moreover have h: "f \<in> set (?F c was) \<Longrightarrow> heard f" for f c was by (auto split: option.splits dest: resync_heard)
  have p: "posts (\<lambda>c. G c @ (case map_of ?before c of Some was \<Rightarrow> ?F c was | None \<Rightarrow> [])) s
      (fold (\<lambda>(c, was). fold (send c) (?F c was)) ?before t)"
    by (rule posts_each [OF assms(1) d(1)]) (rule h)
  ultimately show ?thesis
    by (elim ssubst) (rule posts_cong [OF p], simp add: visible_ids_lookup(1) [OF assms(2)] split: option.splits)
qed

lemma fold_channel_frames:
  assumes "\<And>c v. chan_step (F c) v = v(ch_id c \<mapsto> c)" and "\<And>k c. m k = Some c \<Longrightarrow> ch_id c = k"
  shows "fold chan_step (List.map_filter (\<lambda>i. if S i then map_option F (m i) else None) xs) v ch =
    (if ch \<in> set xs \<and> S ch \<and> m ch \<noteq> None then m ch else v ch)"
proof (induction xs arbitrary: v)
  case (Cons x xs)
  then show ?case using assms by (cases "m x") (auto simp: map_filter_simps)
qed (simp add: map_filter_simps)

lemma fold_removed: "fold chan_step (map ChannelRemoved xs) v ch = (if ch \<in> set xs then None else v ch)"
  by (induction xs arbitrary: v) auto

lemma set_visible_ids:
  assumes "wf s"
  shows "ch \<in> set (visible_ids cr s i) \<longleftrightarrow> view cr s i ch \<noteq> None"
proof -
  have inv: "bt_invar (s_channels s)" and chs: "\<forall>(k, c)\<in>set (s_channels s). ch_id c = k" using assms by (auto simp: wf_def)
  have "distinct (map fst (s_channels s))" using inv by (rule bt.invar_distinct)
  then have "(k, c) \<in> set (s_channels s) \<longleftrightarrow> channel_get s k = Some c" for k c by (simp add: channel_get_def)
  moreover have "ch \<in> set (visible_ids cr s i) \<longleftrightarrow> (\<exists>k c. (k, c) \<in> set (s_channels s) \<and> can_view cr s i c \<and> ch_id c = ch)"
    by (force simp: visible_ids_def visible_channels_def)
  moreover have "(k, c) \<in> set (s_channels s) \<Longrightarrow> ch_id c = k" for k c using chs by auto
  ultimately have "ch \<in> set (visible_ids cr s i) \<longleftrightarrow> (\<exists>c. channel_get s ch = Some c \<and> can_view cr s i c)" by metis
  then show ?thesis by (auto simp: view_def split: option.splits)
qed

lemma channel_get_id: "wf s \<Longrightarrow> channel_get s ch = Some c \<Longrightarrow> ch_id c = ch"
  by (auto simp: wf_def channel_get_def dest!: map_of_SomeD)

lemma view_Some: "view cr s i ch = Some c \<Longrightarrow> channel_get s ch = Some c"
  by (simp add: view_def split: option.splits if_splits)

text \<open>The frames of a resynchronisation turn the old view into the new one.\<close>

lemma resync_view:
  assumes "wf s" and "wf t" and "\<And>ch. ch \<notin> set touched \<Longrightarrow> channel_get t ch \<noteq> None \<Longrightarrow> channel_get s ch \<noteq> None \<Longrightarrow> channel_get t ch = channel_get s ch"
  shows "fold chan_step (resync_frames t (visible_ids cr s i) (visible_ids cr t j) touched) (view cr s i) = view cr t j"
proof
  fix ch
  let ?was = "visible_ids cr s i" and ?now = "visible_ids cr t j" and ?m = "map_of (s_channels t)"
  have ids: "?m k = Some c \<Longrightarrow> ch_id c = k" for k c using channel_get_id [OF assms(2)] by (simp add: channel_get_def)
  have created: "fold chan_step (List.map_filter (\<lambda>i. map_option ChannelCreated (?m i)) xs) v ch =
      (if ch \<in> set xs \<and> ?m ch \<noteq> None then ?m ch else v ch)" for xs v
    using fold_channel_frames [of ChannelCreated ?m "\<lambda>_. True" xs v ch] ids by simp
  note updated = fold_channel_frames [of ChannelUpdated ?m "\<lambda>i. i \<in> set ?was \<and> i \<in> set ?now" touched _ ch, OF _ ids]
  have "fold chan_step (resync_frames t ?was ?now touched) (view cr s i) ch =
      (if ch \<in> set touched \<and> ch \<in> set ?was \<and> ch \<in> set ?now \<and> ?m ch \<noteq> None then ?m ch
       else if ch \<in> set ?was \<and> ch \<notin> set ?now then None
       else if ch \<in> set ?now \<and> ch \<notin> set ?was \<and> ?m ch \<noteq> None then ?m ch else view cr s i ch)"
    by (auto simp: resync_frames_def updated fold_removed created)
  also have "\<dots> = view cr t j ch"
    using assms(3) [of ch] view_Some [of cr s i ch] view_Some [of cr t j ch]
    by (cases "view cr s i ch"; cases "view cr t j ch")
      (simp_all add: set_visible_ids [OF assms(1)] set_visible_ids [OF assms(2)] channel_get_def)
  finally show "fold chan_step (resync_frames t ?was ?now touched) (view cr s i) ch = view cr t j ch" .
qed

section \<open>Informing a client\<close>

fun about_roles :: "server_control \<Rightarrow> bool" where
  "about_roles (RoleCreated _) = True"
| "about_roles (RoleUpdated _) = True"
| "about_roles (RoleDeleted _) = True"
| "about_roles (RolesReordered _) = True"
| "about_roles _ = False"

fun about_channels :: "server_control \<Rightarrow> bool" where
  "about_channels (ChannelCreated _) = True"
| "about_channels (ChannelUpdated _) = True"
| "about_channels (ChannelRemoved _) = True"
| "about_channels _ = False"

lemma about_steps:
  "about_roles f \<Longrightarrow> chan_step f v = v" "about_roles f \<Longrightarrow> told f = None"
  "about_channels f \<Longrightarrow> role_step f rs = rs" "about_channels f \<Longrightarrow> told f = None"
  "about_channels f \<Longrightarrow> mine_step cr fp f own = own"
  by (cases f; simp add: told_def)+

lemma about_folds:
  "\<forall>f\<in>set fs. about_roles f \<Longrightarrow> fold chan_step fs v = v"
  "\<forall>f\<in>set fs. about_channels f \<Longrightarrow> fold role_step fs rs = rs"
  "\<forall>f\<in>set fs. about_channels f \<Longrightarrow> fold (mine_step cr fp) fs own = own"
  by (induction fs arbitrary: v rs own) (simp_all add: about_steps)

lemma updates_folds:
  "fold role_step (map UserUpdated infos) rs = rs" "fold chan_step (map UserUpdated infos) v = v"
  by (induction infos) simp_all

lemma resync_about: "f \<in> set (resync_frames s was now touched) \<Longrightarrow> about_channels f"
  by (auto simp: resync_frames_def map_filter_def split: if_splits)

lemma resync_frames_cong: "s_channels t' = s_channels t \<Longrightarrow> resync_frames t' = resync_frames t"
  by (simp add: resync_frames_def fun_eq_iff cong del: if_weak_cong)

lemma visible_ids_cong:
  "s_perms s' = s_perms s \<Longrightarrow> s_channels s' = s_channels s \<Longrightarrow> same_standing i i' \<Longrightarrow> visible_ids cr s' i' = visible_ids cr s i"
  by (simp add: visible_ids_def visible_channels_def can_view_def [abs_def] member_bits_def ui_fingerprint_def same_standing_def)

definition resync_for :: "ext \<Rightarrow> shared \<Rightarrow> shared \<Rightarrow> channel_id list \<Rightarrow> client_id \<Rightarrow> server_control list" where
  "resync_for cr s t touched c =
     (case (lookup s c, lookup t c) of
        (Some e, Some e') \<Rightarrow> resync_frames t (visible_ids cr s (c_info e)) (visible_ids cr t (c_info e')) touched
      | _ \<Rightarrow> [])"

lemma posts_resynced:
  assumes "posts G t t'" and "keyed s"
  shows "posts (\<lambda>c. G c @ resync_for cr s t touched c) t (resync_visibility cr (visible_ids_by_client cr s) touched t')"
proof -
  let ?w = "resync_visibility cr (visible_ids_by_client cr s) touched t'"
  have tt: "sends (\<lambda>c g. g = G c) t t'" using assms(1) by (simp add: posts_def)
  note p = posts_resync [OF assms, of cr touched]
  have "resync_for cr s t touched c = (case lookup s c of
       Some e \<Rightarrow> (case lookup t' c of
           Some e' \<Rightarrow> resync_frames t' (visible_ids cr s (c_info e)) (visible_ids cr t' (c_info e')) touched | None \<Rightarrow> [])
     | None \<Rightarrow> [])" if w: "lookup ?w c = Some e''" for c e''
  proof -
    obtain x' where x': "lookup t' c = Some x'" using quiet_gone [OF quiet_resync_visibility, of t' c] w by (cases "lookup t' c") auto
    then obtain x where x: "lookup t c = Some x" "same_standing (c_info x) (c_info x')" using tt unfolding sends_def by blast
    have "s_perms t' = s_perms t" "s_channels t' = s_channels t" using tt by (simp_all add: sends_def)
    then show ?thesis
      using x x' visible_ids_cong [OF _ _ x(2), of t' t cr] resync_frames_cong [of t' t]
      by (simp add: resync_for_def split: option.splits)
  qed
  then have "sends (\<lambda>c g. g = G c @ resync_for cr s t touched c) t ?w"
    by (intro sends_mono [OF conjunct2 [OF p [unfolded posts_def]]]) simp
  then show ?thesis using p by (simp add: posts_def)
qed

lemma resync_for_about: "f \<in> set (resync_for cr s t touched c) \<Longrightarrow> about_channels f"
  by (auto simp: resync_for_def resync_about split: option.splits)

lemma follows_admin:
  assumes "follows cr M s" and "edits s t" and "keyed t" and "coherent cr t"
    and p: "posts (\<lambda>c. rf @ map UserUpdated infos @ cf c) t w"
    and rf: "\<And>f. f \<in> set rf \<Longrightarrow> about_roles f" and cf: "\<And>c f. f \<in> set (cf c) \<Longrightarrow> about_channels f"
    and R: "\<And>rs. distinct (map r_id rs) \<Longrightarrow> set rs = set (ps_roles (s_perms s)) \<Longrightarrow>
      distinct (map r_id (fold role_step rf rs)) \<and> set (fold role_step rf rs) = set (ps_roles (s_perms t))"
    and V: "\<And>c e e'. lookup s c = Some e \<Longrightarrow> lookup t c = Some e' \<Longrightarrow> fold chan_step (cf c) (view cr s (c_info e)) = view cr t (c_info e')"
    and K: "\<And>k. k \<in> set infos \<Longrightarrow> \<exists>c e. lookup t c = Some e \<and> k = c_info e"
    and O: "\<And>c e e'. lookup s c = Some e \<Longrightarrow> lookup t c = Some e' \<Longrightarrow> c_info e' \<notin> set infos \<Longrightarrow>
      fold (mine_step cr (ui_fingerprint cr (c_info e))) rf (ui_roles (c_info e), ui_owner (c_info e)) = (ui_roles (c_info e'), ui_owner (c_info e')) \<and>
      standing_of cr (c_info e') = standing_of cr (c_info e)"
  shows "follows cr M w"
proof (rule follows_edit [OF assms(1,2)])
  show tw: "sends (\<lambda>c g. g = rf @ map UserUpdated infos @ cf c) t w" using p by (simp add: posts_def)
  fix c e e' e'' g
  assume l: "lookup s c = Some e" "lookup t c = Some e'" "lookup w c = Some e''" and st: "same_standing (c_info e') (c_info e'')"
    and g: "g = rf @ map UserUpdated infos @ cf c"
  have same: "s_perms w = s_perms t" "s_channels w = s_channels t" using tw by (simp_all add: sends_def)
  have cached: "cached_ok cr t (c_info x)" "ui_client_id (c_info x) = k" if "lookup t k = Some x" for k x
  proof -
    show "cached_ok cr t (c_info x)" using assms(4) map_of_SomeD [OF that] unfolding coherent_def by blast
    show "ui_client_id (c_info x) = k" by (rule keyed_lookup [OF assms(3) that])
  qed
  have toldu: "\<exists>k. told f = Some k" if "f \<in> set (map UserUpdated infos)" for f using that by auto
  have roles: "fold role_step g rs = fold role_step rf rs" for rs
    using about_folds(2) [of "cf c"] cf by (simp add: g updates_folds)
  have chans: "fold chan_step g v = fold chan_step (cf c) v" for v
    using about_folds(1) [of rf] rf by (simp add: g updates_folds)
  have told: "f \<in> set g \<and> told f = Some k \<longleftrightarrow> f = UserUpdated k \<and> k \<in> set infos" for f k
  proof -
    have "f \<in> set rf \<Longrightarrow> told f = None" "f \<in> set (cf c) \<Longrightarrow> told f = None"
      by (rule about_steps(2) [OF rf], assumption) (rule about_steps(4) [OF cf], assumption)
    then show ?thesis by (auto simp: g)
  qed
  let ?fp = "ui_fingerprint cr (c_info e)" and ?own = "(ui_roles (c_info e'), ui_owner (c_info e'))"
  have fp: "ui_fingerprint cr (c_info e') = ?fp"
  proof -
    obtain x where "lookup s c = Some x" "ui_identity (c_info e') = ui_identity (c_info x)"
      using assms(2) l(2) unfolding edits_def by blast
    then have "ui_identity (c_info e') = ui_identity (c_info e)" using l(1) by simp
    then show ?thesis by (simp add: ui_fingerprint_def)
  qed
  have "fold (mine_step cr ?fp) (map UserUpdated infos) (fold (mine_step cr ?fp) rf (ui_roles (c_info e), ui_owner (c_info e))) = ?own"
  proof (rule mine_fold)
    fix f k
    assume "f \<in> set (map UserUpdated infos)" "told f = Some k" "ui_fingerprint cr k = ?fp"
    then have "k \<in> set infos" by auto
    then have "cached_ok cr t k" using K [of k] cached(1) by blast
    then show "(ui_roles k, ui_owner k) = ?own"
      using cached(1) [OF l(2)] fp \<open>ui_fingerprint cr k = ?fp\<close> by (simp add: cached_ok_def)
  next
    show "fold (mine_step cr ?fp) rf (ui_roles (c_info e), ui_owner (c_info e)) = ?own \<or>
        (\<exists>f\<in>set (map UserUpdated infos). \<exists>k. told f = Some k \<and> ui_fingerprint cr k = ?fp)"
    proof (cases "c_info e' \<in> set infos")
      case True
      then have "UserUpdated (c_info e') \<in> set (map UserUpdated infos)" by simp
      then show ?thesis using fp by (intro disjI2 bexI [of _ "UserUpdated (c_info e')"]) simp_all
    qed (use O [OF l(1,2)] in blast)
  qed (rule toldu)
  then have mine: "fold (mine_step cr ?fp) g (ui_roles (c_info e), ui_owner (c_info e)) = (ui_roles (c_info e''), ui_owner (c_info e''))"
    using about_folds(3) [of "cf c"] cf st by (simp add: g same_standing_def)
  have users: "(\<forall>k. UserUpdated k \<in> set g \<and> ui_client_id k = x \<longrightarrow> standing_of cr k = standing_of cr j) \<and>
      (map_option (standing_of cr) (user s x) = Some (standing_of cr j) \<or> (\<exists>k\<in>set infos. ui_client_id k = x))"
    if j: "user w x = Some j" for x j
  proof -
    obtain y'' where y'': "lookup w x = Some y''" "j = c_info y''" using j by (auto simp: user_def)
    then obtain y' where y': "lookup t x = Some y'" "same_standing (c_info y') (c_info y'')" using tw unfolding sends_def by blast
    obtain y where y: "lookup s x = Some y" using assms(2) y'(1) unfolding edits_def by blast
    have sj: "standing_of cr j = standing_of cr (c_info y')" using same_standing_of [OF y'(2)] y''(2) by simp
    have only: "k = c_info y'" if k: "k \<in> set infos" "ui_client_id k = x" for k
    proof -
      obtain d z where z: "lookup t d = Some z" "k = c_info z" using K [OF k(1)] by blast
      then show ?thesis using cached(2) [OF z(1)] k(2) y'(1) by simp
    qed
    show ?thesis
    proof (intro conjI allI impI)
      fix k
      assume "UserUpdated k \<in> set g \<and> ui_client_id k = x"
      then show "standing_of cr k = standing_of cr j" using only [of k] told [of "UserUpdated k" k] sj by simp
    next
      show "map_option (standing_of cr) (user s x) = Some (standing_of cr j) \<or> (\<exists>k\<in>set infos. ui_client_id k = x)"
        using O [OF y y'(1)] sj cached(2) [OF y'(1)]
        by (cases "c_info y' \<in> set infos") (auto simp: user_def y)
    qed
  qed
  have "view cr w (c_info e'') = view cr t (c_info e')" by (rule view_cong) (use same st in \<open>auto simp: same_standing_def\<close>)
  then show "informs cr s (c_info e) w (c_info e'') g"
    unfolding informs_def roles chans mine
  proof (intro conjI allI impI ballI)
    fix rs
    assume "distinct (map r_id rs) \<and> set rs = set (ps_roles (s_perms s))"
    then show "distinct (map r_id (fold role_step rf rs))" "set (fold role_step rf rs) = set (ps_roles (s_perms w))"
      using R [of rs] same by simp_all
  next
    show "fold chan_step (cf c) (view cr s (c_info e)) = view cr w (c_info e'')"
      using V [OF l(1,2)] \<open>view cr w (c_info e'') = view cr t (c_info e')\<close> by simp
  next
    fix x j f k
    assume "user w x = Some j" "f \<in> set g" "told f = Some k \<and> ui_client_id k = x"
    then show "standing_of cr k = standing_of cr j" using users [of x j] told [of f k] by blast
  next
    fix x j
    assume "user w x = Some j"
    then show "map_option (standing_of cr) (user s x) = Some (standing_of cr j) \<or> (\<exists>f\<in>set g. \<exists>k. told f = Some k \<and> ui_client_id k = x)"
      using users [of x j] told by blast
  qed (rule refl)
qed

section \<open>The role table of a mirror\<close>

lemma set_position_map:
  "distinct (map r_id rs) \<Longrightarrow> set_position i p rs = map (\<lambda>r. if r_id r = i then r\<lparr>r_position := p\<rparr> else r) rs"
proof (induction rs)
  case (Cons r rs)
  have "map (\<lambda>x. if r_id x = r_id r then x\<lparr>r_position := p\<rparr> else x) rs = rs"
    using Cons.prems by (intro map_idI) (auto simp: image_iff)
  then show ?case using Cons by auto
qed simp

definition repositioned :: "(role_id \<rightharpoonup> u32) \<Rightarrow> role \<Rightarrow> role" where
  "repositioned f r = (case f (r_id r) of Some p \<Rightarrow> r\<lparr>r_position := p\<rparr> | None \<Rightarrow> r)"

lemma repositioned_id [simp]: "r_id (repositioned f r) = r_id r" "r_id \<circ> repositioned f = r_id"
  by (auto simp: repositioned_def split: option.splits)

lemma fold_set_position:
  "distinct (map r_id rs) \<Longrightarrow> distinct (map fst ps) \<Longrightarrow>
     fold (\<lambda>(i, p). set_position i p) ps rs = map (repositioned (map_of ps)) rs"
proof (induction ps arbitrary: rs)
  case (Cons x ps)
  obtain i p where x: "x = (i, p)" by (cases x)
  let ?rs = "map (\<lambda>r. if r_id r = i then r\<lparr>r_position := p\<rparr> else r) rs"
  have ids: "map r_id ?rs = map r_id rs" by simp
  have none: "map_of ps i = None" using Cons.prems(2) by (simp add: x map_of_eq_None_iff)
  have "fold (\<lambda>(i, p). set_position i p) (x # ps) rs = map (repositioned (map_of ps)) ?rs"
    using Cons.IH [of ?rs] Cons.prems by (simp add: x set_position_map comp_def if_distrib cong: if_cong)
  also have "\<dots> = map (repositioned (map_of (x # ps))) rs"
    by (auto simp: x none repositioned_def split: option.splits)
  finally show ?case .
qed (simp add: repositioned_def [abs_def])

lemma apply_positions_map: "apply_positions ps rs = map (repositioned (map_of ps)) rs"
proof -
  have "List.find (\<lambda>(j, _). j = i) ps = map_option (Pair i) (map_of ps i)" for i by (induction ps) auto
  then show ?thesis by (auto simp: apply_positions_def repositioned_def split: option.splits)
qed

lemma mirror_reordered:
  assumes "distinct (map r_id rs)" and "distinct (map fst ps)"
  shows "distinct (map r_id (role_step (RolesReordered ps) rs))"
    and "set (role_step (RolesReordered ps) rs) = repositioned (map_of ps) ` set rs"
  using assms by (simp_all add: fold_set_position distinct_map_sort_key)

text \<open>Roles that differ in their positions only come out equal once the positions are sent.\<close>

lemma reordered_to:
  assumes "distinct (map r_id rs)" and "distinct (map r_id new)"
    and "(\<lambda>r. r\<lparr>r_position := 0\<rparr>) ` set rs = (\<lambda>r. r\<lparr>r_position := 0\<rparr>) ` set new"
  shows "set (role_step (RolesReordered (ordering_of new)) rs) = set new"
proof -
  let ?e = "\<lambda>r. r\<lparr>r_position := 0\<rparr> :: role"
  let ?f = "repositioned (map_of (ordering_of new))"
  have d: "distinct (map fst (ordering_of new))" using assms(2) by (simp add: ordering_of_def comp_def)
  have pos: "?f (?e r) = r" if "r \<in> set new" for r
  proof -
    have "map_of (ordering_of new) (r_id r) = Some (r_position r)"
      using d that by (intro map_of_is_SomeI) (auto simp: ordering_of_def)
    then show ?thesis by (simp add: repositioned_def)
  qed
  have fe: "?f (?e r) = ?f r" if r: "r \<in> set rs" for r
  proof -
    have "?e r \<in> ?e ` set new" using imageI [OF r, of ?e] unfolding assms(3) .
    then obtain x where x: "x \<in> set new" "?e r = ?e x" by (rule imageE)
    have "r_id (?e r) = r_id (?e x)" by (simp only: x(2))
    then have "r_id r = r_id x" by simp
    moreover have "map_of (ordering_of new) (r_id x) = Some (r_position x)"
      using d x(1) by (intro map_of_is_SomeI) (auto simp: ordering_of_def)
    ultimately show ?thesis by (simp add: repositioned_def)
  qed
  have "?f ` set rs = (\<lambda>r. ?f (?e r)) ` set rs" by (rule image_cong) (simp_all only: fe)
  also have "\<dots> = ?f ` (?e ` set rs)" by (simp only: image_image)
  also have "\<dots> = (\<lambda>r. ?f (?e r)) ` set new" by (simp only: assms(3) image_image)
  also have "\<dots> = (\<lambda>r. r) ` set new" by (rule image_cong) (simp_all only: pos)
  also have "\<dots> = set new" by simp
  finally show ?thesis unfolding mirror_reordered(2) [OF assms(1) d] .
qed

lemma insert_role_sorted_set:
  "set (insert_role_sorted r rs) = {x \<in> set rs. r_id x \<noteq> r_id r} \<union> {r}"
  "distinct (map r_id rs) \<Longrightarrow> distinct (map r_id (insert_role_sorted r rs))"
  by (auto simp: insert_role_sorted_def distinct_map_sort_key distinct_map_filter)

lemma replace_first_set:
  assumes "distinct (map r_id roles)" and "List.find (\<lambda>r. r_id r = i) roles = Some old"
  shows "set (replace_first (\<lambda>r. r_id r = i) new roles) = {x \<in> set roles. r_id x \<noteq> i} \<union> {new}"
  using assms
proof (induction roles)
  case (Cons r roles)
  have "r_id r = i \<Longrightarrow> \<forall>x\<in>set roles. r_id x \<noteq> i" using Cons.prems(1) by (auto simp: image_iff)
  then show ?case using Cons by (cases "r_id r = i") (auto simp: replace_first_def)
qed simp

lemma position_erased:
  "(\<lambda>r. r\<lparr>r_position := 0\<rparr>) ` set (roles_with_new r roles) = (\<lambda>r. r\<lparr>r_position := 0\<rparr>) ` (set roles \<union> {r})"
  "(\<lambda>r. r\<lparr>r_position := 0\<rparr>) ` set (compacted roles) = (\<lambda>r. r\<lparr>r_position := 0\<rparr>) ` set roles"
proof -
  have r: "(repositioned f x)\<lparr>r_position := 0\<rparr> = x\<lparr>r_position := 0\<rparr>" for f x
    by (auto simp: repositioned_def split: option.splits)
  show "(\<lambda>r. r\<lparr>r_position := 0\<rparr>) ` set (roles_with_new r roles) = (\<lambda>r. r\<lparr>r_position := 0\<rparr>) ` (set roles \<union> {r})"
    by (auto simp: roles_with_new_def apply_positions_map image_iff r)
  have "map (\<lambda>r. r\<lparr>r_position := 0\<rparr>) (compacted roles) = map (\<lambda>r. r\<lparr>r_position := 0\<rparr>) (sort_key r_position roles)"
    by (simp add: compacted_def enumerate_eq_zip comp_def case_prod_unfold) (simp flip: map_map [of _ snd, unfolded comp_def])
  then show "(\<lambda>r. r\<lparr>r_position := 0\<rparr>) ` set (compacted roles) = (\<lambda>r. r\<lparr>r_position := 0\<rparr>) ` set roles"
    by (metis list.set_map set_sort)
qed

end
