(* ===== verification/Pickle_Power.thy ===== *)
theory Pickle_Power
  imports Pickle_Session
begin

text \<open>
  Who can change who may do what. An abstract specification of the permission inputs: the five
  changes a member may make to them, each under the conditions that gate it (\<open>perm_change\<close>). Every
  control message a session handles implements it: it leaves the inputs alone or makes one such
  change in the standing of its sender. What role edits can and cannot do is then shown on the
  specification.
\<close>

section \<open>The specification\<close>

inductive perm_change :: "fingerprint option \<Rightarrow> actor \<Rightarrow> perm_state \<Rightarrow> perm_state \<Rightarrow> bool"
  for owner :: "fingerprint option" and a :: actor and p :: perm_state where
  created: "may_grant a (r_permissions r) \<Longrightarrow> r_id r = next_role_id (ps_roles p) \<Longrightarrow> r_position r = 1 \<Longrightarrow>
    perm_change owner a p (p\<lparr>ps_roles := roles_with_new r (ps_roles p)\<rparr>)"
| updated: "List.find (\<lambda>r. r_id r = i) (ps_roles p) = Some old \<Longrightarrow>
    can_manage_role (ps_roles p) (a_roles a) (a_owner a) i \<Longrightarrow>
    r_id new = i \<Longrightarrow> r_position new = r_position old \<Longrightarrow>
    may_grant a (without (r_permissions new) (r_permissions old)) \<or> r_permissions new = r_permissions old \<Longrightarrow>
    perm_change owner a p (p\<lparr>ps_roles := replace_first (\<lambda>r. r_id r = i) new (ps_roles p)\<rparr>)"
| deleted: "i \<noteq> EVERYONE_ROLE_ID \<Longrightarrow> can_manage_role (ps_roles p) (a_roles a) (a_owner a) i \<Longrightarrow>
    perm_change owner a p (perms_without_role i p)"
| reordered: "dense_positions positions (ps_roles p) \<Longrightarrow> \<not> moves_everyone positions \<Longrightarrow>
    \<not> out_of_reach a (ps_roles p) positions \<Longrightarrow>
    perm_change owner a p (p\<lparr>ps_roles := sort_key r_position (apply_positions positions (ps_roles p))\<rparr>)"
| granted: "EVERYONE_ROLE_ID \<notin> set roles \<Longrightarrow> set roles \<subseteq> r_id ` set (ps_roles p) \<Longrightarrow>
    (owner = Some fp \<Longrightarrow> a_owner a) \<Longrightarrow>
    (\<And>r. (r \<in> set roles) \<noteq> (r \<in> set (case map_of (ps_members p) fp of Some rs \<Rightarrow> rs | None \<Rightarrow> [])) \<Longrightarrow>
       can_manage_role (ps_roles p) (a_roles a) (a_owner a) r) \<Longrightarrow>
    perm_change owner a p (perms_with_grants fp roles p)"

definition standing :: "shared \<Rightarrow> fingerprint \<Rightarrow> actor" where
  "standing s fp = \<lparr>a_roles = member_roles s fp, a_owner = is_owner s fp,
     a_base = resolve (ps_roles (s_perms s)) (member_roles s fp) fp (is_owner s fp) None\<rparr>"

section \<open>The commands implement it\<close>

interpretation same_perms: session_invariant "\<lambda>s. s_perms s = p" cr for p cr
proof unfold_locales
  show "s_perms (snd (admit cr now ident nickname s)) = p" if "s_perms s = p" for s now ident nickname
    using that by (cases rule: admit_exhaust [of cr now ident nickname s]) simp_all
qed (simp_all add: quiet_fields relay_fields)

lemma settles_perms: "settles f s s' \<Longrightarrow> (\<And>st. s_perms (f (s\<lparr>s_store := st\<rparr>)) = p) \<Longrightarrow> s_perms s' = p"
  unfolding settles_def using quiet_fields(5) by metis

lemma refused_perms: "refused s s' \<Longrightarrow> s_perms s' = s_perms s"
  by (erule settles_perms) simp

lemma actor_of_standing:
  "actor_of cr client nonce s = (Some a, s') \<Longrightarrow>
     \<exists>fp. client_fingerprint cr s client = Some fp \<and> can_globally cr s client MANAGE_ROLES \<and> a = standing s fp"
  by (auto simp: actor_of_def standing_def Let_def split: if_splits option.splits)

text \<open>What a request may do to the permission inputs.\<close>

definition permitted_change :: "ext \<Rightarrow> client_id \<Rightarrow> shared \<Rightarrow> shared \<Rightarrow> bool" where
  "permitted_change cr me s s' \<longleftrightarrow> s_perms s' = s_perms s \<or>
     (\<exists>fp. client_fingerprint cr s me = Some fp \<and> can_globally cr s me MANAGE_ROLES \<and>
        perm_change (s_owner s) (standing s fp) (s_perms s) (s_perms s'))"

lemma permitted_same: "s_perms s' = s_perms s \<Longrightarrow> permitted_change cr me s s'"
  by (simp add: permitted_change_def)

lemma permitted_by_actor:
  "actor_of cr me nonce s = (Some a, t) \<Longrightarrow> perm_change (s_owner s) a (s_perms s) (s_perms s') \<Longrightarrow>
     permitted_change cr me s s'"
  using actor_of_standing [of cr me nonce s a t] by (auto simp: permitted_change_def)

lemma with_roles_perms [simp]:
  "s_perms (with_roles roles (s\<lparr>s_store := st\<rparr>)) = (s_perms s)\<lparr>ps_roles := roles\<rparr>"
  by (simp add: with_roles_def swap_perm_state_def)

lemma permitted_create_role: "permitted_change cr me s (create_role cr me nonce name perms s)"
  using create_role_cases [of s cr me nonce name perms]
proof (elim disjE exE conjE)
  fix a r
  assume a: "actor_of cr me nonce s = (Some a, s)" "may_grant a (intersect perms ALL_BITS)"
    and r: "r = \<lparr>r_id = next_role_id (ps_roles (s_perms s)), r_name = trim name, r_color = None,
           r_position = 1, r_permissions = intersect perms ALL_BITS\<rparr>"
    and st: "settles (with_roles (roles_with_new r (ps_roles (s_perms s)))) s (create_role cr me nonce name perms s)"
  have "s_perms (create_role cr me nonce name perms s) =
      (s_perms s)\<lparr>ps_roles := roles_with_new r (ps_roles (s_perms s))\<rparr>"
    by (rule settles_perms [OF st]) simp
  moreover have "perm_change (s_owner s) a (s_perms s) ((s_perms s)\<lparr>ps_roles := roles_with_new r (ps_roles (s_perms s))\<rparr>)"
    by (rule perm_change.created) (use a r in simp_all)
  ultimately show ?thesis using permitted_by_actor [OF a(1)] by simp
qed (intro permitted_same refused_perms)

lemma updated_role_grants:
  "updated_role a old name color perms = Inr new \<Longrightarrow>
     may_grant a (without (r_permissions new) (r_permissions old)) \<or> r_permissions new = r_permissions old"
  by (auto simp: updated_role_def Let_def split: option.splits if_splits sum.splits)

lemma permitted_update_role: "permitted_change cr me s (update_role cr me nonce i name color perms s)"
  using update_role_cases [of s cr me nonce i name color perms]
proof (elim disjE exE conjE)
  fix a old new
  let ?p = "(s_perms s)\<lparr>ps_roles := replace_first (\<lambda>r. r_id r = i) new (ps_roles (s_perms s))\<rparr>"
  assume a: "actor_of cr me nonce s = (Some a, s)"
    and f: "List.find (\<lambda>r. r_id r = i) (ps_roles (s_perms s)) = Some old"
    and m: "can_manage_role (ps_roles (s_perms s)) (a_roles a) (a_owner a) i"
    and u: "updated_role a old name color perms = Inr new"
    and st: "settles (with_roles (replace_first (\<lambda>r. r_id r = i) new (ps_roles (s_perms s)))) s
        (update_role cr me nonce i name color perms s)"
  have "s_perms (update_role cr me nonce i name color perms s) = ?p"
    by (rule settles_perms [OF st]) simp
  moreover have "perm_change (s_owner s) a (s_perms s) ?p"
    using updated_role_fields [OF u] find_Some_mem [OF f] updated_role_grants [OF u]
    by (intro perm_change.updated [OF f m]) simp_all
  ultimately show ?thesis using permitted_by_actor [OF a] by simp
qed (intro permitted_same refused_perms)

lemma permitted_delete_role: "permitted_change cr me s (delete_role cr me nonce i s)"
  using delete_role_cases [of s cr me nonce i]
proof (elim disjE exE conjE)
  fix a
  assume a: "actor_of cr me nonce s = (Some a, s)" and i: "i \<noteq> EVERYONE_ROLE_ID"
    and m: "can_manage_role (ps_roles (s_perms s)) (a_roles a) (a_owner a) i"
    and st: "settles (\<lambda>s. snd (snd (drop_role_mem i s))) s (delete_role cr me nonce i s)"
  have "s_perms (delete_role cr me nonce i s) = perms_without_role i (s_perms s)"
    by (rule settles_perms [OF st])
      (simp add: drop_role_mem_def strip_role_overwrites_def strip_live_role_def swap_perm_state_def Let_def)
  then show ?thesis using permitted_by_actor [OF a] perm_change.deleted [OF i m] by simp
qed (intro permitted_same refused_perms)

lemma permitted_reorder: "permitted_change cr me s (reorder_roles cr me nonce positions s)"
  using reorder_roles_cases [of s cr me nonce positions]
proof (elim disjE exE conjE)
  fix a
  assume a: "actor_of cr me nonce s = (Some a, s)"
    and c: "dense_positions positions (ps_roles (s_perms s))" "\<not> moves_everyone positions"
      "\<not> out_of_reach a (ps_roles (s_perms s)) positions"
    and st: "settles (with_roles (sort_key r_position (apply_positions positions (ps_roles (s_perms s))))) s
        (reorder_roles cr me nonce positions s)"
  have "s_perms (reorder_roles cr me nonce positions s) =
      (s_perms s)\<lparr>ps_roles := sort_key r_position (apply_positions positions (ps_roles (s_perms s)))\<rparr>"
    by (rule settles_perms [OF st]) simp
  then show ?thesis using permitted_by_actor [OF a] perm_change.reordered [OF c] by simp
qed (intro permitted_same refused_perms)

lemma permitted_set_member_roles: "permitted_change cr me s (set_member_roles cr me nonce fp roles s)"
  using set_member_roles_cases [of s cr me nonce fp roles]
proof (elim disjE exE conjE)
  fix a
  assume a: "actor_of cr me nonce s = (Some a, s)" and e: "EVERYONE_ROLE_ID \<notin> set roles"
    and sub: "set roles \<subseteq> r_id ` set (ps_roles (s_perms s))" and o: "is_owner s fp \<longrightarrow> a_owner a"
    and d: "\<forall>r. (r \<in> set roles) \<noteq> (r \<in> set (member_roles s fp)) \<longrightarrow>
         can_manage_role (ps_roles (s_perms s)) (a_roles a) (a_owner a) r"
    and st: "settles (\<lambda>s. snd (grant_mem cr fp roles s)) s (set_member_roles cr me nonce fp roles s)"
  have "s_perms (set_member_roles cr me nonce fp roles s) = perms_with_grants fp roles (s_perms s)"
    by (rule settles_perms [OF st])
      (simp add: grant_mem_def update_live_member_roles_def swap_perm_state_def Let_def)
  moreover have "perm_change (s_owner s) a (s_perms s) (perms_with_grants fp roles (s_perms s))"
    by (rule perm_change.granted [OF e sub])
      (use o d in \<open>auto simp: is_owner_def member_roles_def\<close>)
  ultimately show ?thesis using permitted_by_actor [OF a] by simp
qed (intro permitted_same refused_perms)

lemma same_perms_requests:
  "s_perms (kick cr me nonce client why s) = s_perms s"
  "s_perms (ban cr now me nonce fp why until s) = s_perms s"
  "s_perms (unban cr me nonce fp s) = s_perms s"
  "s_perms (list_bans cr me nonce s) = s_perms s"
  "s_perms (set_server_mute cr me nonce client muted s) = s_perms s"
  "s_perms (move_member cr me nonce client to s) = s_perms s"
  "s_perms (join_request cr me channel s) = s_perms s"
  "s_perms (leave_request me s) = s_perms s"
  "s_perms (voice_request me muted deafened s) = s_perms s"
  "s_perms (nickname_request me nickname s) = s_perms s"
  "s_perms (send_message cr now me channel content reply_to nonce s) = s_perms s"
  "s_perms (typing cr me channel s) = s_perms s"
  "s_perms (fetch_history cr me channel before limit s) = s_perms s"
  "s_perms (send me m s) = s_perms s"
  by (rule same_perms.kick_keeps same_perms.ban_keeps same_perms.unban_keeps same_perms.list_bans_keeps
      same_perms.set_server_mute_keeps same_perms.move_member_keeps same_perms.join_request_keeps
      same_perms.leave_request_keeps same_perms.voice_request_keeps same_perms.nickname_request_keeps
      same_perms.send_message_keeps same_perms.typing_keeps same_perms.fetch_history_keeps
      same_perms.send_keeps, rule refl)+

lemma settles_same: "settles f s s' \<Longrightarrow> (\<And>t. s_perms (f t) = s_perms t) \<Longrightarrow> s_perms s' = s_perms s"
  by (erule settles_perms) simp

lemma same_perms_mem:
  "s_perms (snd (set_channel_overwrite_mem channel ow s)) = s_perms s"
  "s_perms (snd (remove_channel_overwrite channel target s)) = s_perms s"
  "s_perms (insert_channel_mem c s) = s_perms s"
  "s_perms (snd (update_channel_mem c s)) = s_perms s"
  "s_perms (snd (remove_channel_mem channel s)) = s_perms s"
  by (simp_all add: set_channel_overwrite_mem_def remove_channel_overwrite_def insert_channel_mem_def
      update_channel_mem_def remove_channel_mem_def Let_def)

lemma same_perms_channels:
  "s_perms (set_channel_overwrite cr me nonce channel target al de s) = s_perms s"
  "s_perms (delete_channel_overwrite cr me nonce channel target s) = s_perms s"
  "s_perms (delete_channel cr me nonce i s) = s_perms s"
proof -
  show "s_perms (set_channel_overwrite cr me nonce channel target al de s) = s_perms s"
    using set_channel_overwrite_cases [of s cr me nonce channel target al de]
    by (elim disjE exE conjE; elim settles_same) (simp_all only: same_perms_mem)
  show "s_perms (delete_channel_overwrite cr me nonce channel target s) = s_perms s"
    using delete_channel_overwrite_cases [of s cr me nonce channel target]
    by (elim disjE exE conjE; elim settles_same) (simp_all only: same_perms_mem)
  show "s_perms (delete_channel cr me nonce i s) = s_perms s"
    using delete_channel_cases [of s cr me nonce i]
    by (elim disjE exE conjE; elim settles_same) (simp_all only: same_perms_mem)
qed

lemma same_perms_create_channel:
  assumes "create_channel cr me nonce name parent topic kind mx order s = Some s'"
  shows "s_perms s' = s_perms s"
proof -
  obtain c where "refused s s' \<or> settles (insert_channel_mem c) s s'"
    using create_channel_cases [of cr me nonce name parent topic kind mx order s] assms by auto
  then show ?thesis by (elim disjE; elim settles_same) (simp_all only: same_perms_mem)
qed

lemma same_perms_update_channel:
  assumes "update_channel cr me nonce i parent name topic kind mx order s = Some s'"
  shows "s_perms s' = s_perms s"
  using update_channel_cases [OF assms]
  by (elim disjE exE conjE; elim settles_same) (simp_all only: same_perms_mem)

lemma permitted_request:
  assumes "handle_control cr now me message s = Some s'"
  shows "permitted_change cr me s s'"
  using assms
  by (cases message)
    (auto simp: permitted_create_role permitted_update_role permitted_delete_role permitted_reorder
      permitted_set_member_roles same_perms_requests same_perms_channels same_perms_create_channel
      same_perms_update_channel intro: permitted_same)

text \<open>
  C4. Role management implements its specification: whatever control message a session handles, the
  roles and grants afterwards are the ones before, or come from them by one of the five specified
  changes (a role created, edited, deleted, the ladder reordered, the grants of a member replaced)
  under the conditions that gate it in the standing the sender has at that moment, and only if the
  sender then holds \<open>MANAGE_ROLES\<close>.
\<close>

theorem requests_refine_permission_spec:
  assumes "handle_control cr now me message s = Some s'"
  shows "s_perms s' = s_perms s \<or>
     (\<exists>fp. client_fingerprint cr s me = Some fp \<and> can_globally cr s me MANAGE_ROLES \<and>
        perm_change (s_owner s) (standing s fp) (s_perms s) (s_perms s'))"
  using permitted_request [OF assms] by (simp add: permitted_change_def)

section \<open>What edits cannot do\<close>

lemma apply_positions_eq:
  "apply_positions positions roles = map (\<lambda>r. r\<lparr>r_position :=
     (case List.find (\<lambda>(i, _). i = r_id r) positions of Some (_, q) \<Rightarrow> q | None \<Rightarrow> r_position r)\<rparr>) roles"
  unfolding apply_positions_def by (auto split: option.splits)

lemma apply_positions_mem:
  "r \<in> set (apply_positions positions roles) \<Longrightarrow> \<exists>r0\<in>set roles. \<exists>q. r = r0\<lparr>r_position := q\<rparr>"
  unfolding apply_positions_eq by auto

lemma apply_positions_kept: "r0 \<in> set roles \<Longrightarrow> \<exists>q. r0\<lparr>r_position := q\<rparr> \<in> set (apply_positions positions roles)"
  unfolding apply_positions_eq by auto

lemma compacted_mem:
  assumes "r \<in> set (compacted roles)"
  shows "\<exists>r0\<in>set roles. \<exists>q. r = r0\<lparr>r_position := q\<rparr>"
proof -
  obtain k x where "(k, x) \<in> set (enumerate 0 (sort_key r_position roles))" "r = x\<lparr>r_position := of_nat k\<rparr>"
    using assms unfolding compacted_def by auto
  moreover from this(1) have "x \<in> set (sort_key r_position roles)"
    by (auto simp: in_set_enumerate_eq simp del: set_sort)
  ultimately show ?thesis by auto
qed

lemma compacted_kept: "r0 \<in> set roles \<Longrightarrow> \<exists>q. r0\<lparr>r_position := q\<rparr> \<in> set (compacted roles)"
proof -
  assume "r0 \<in> set roles"
  then obtain k where "k < length (sort_key r_position roles)" "sort_key r_position roles ! k = r0"
    by (metis in_set_conv_nth set_sort)
  then have "(k, r0) \<in> set (enumerate 0 (sort_key r_position roles))" by (auto simp: in_set_enumerate_eq)
  then show ?thesis unfolding compacted_def by force
qed

lemma replace_first_mem: "r \<in> set (replace_first P new roles) \<Longrightarrow> r = new \<or> r \<in> set roles"
  unfolding replace_first_def by (auto split: list.splits dest: set_takeWhileD set_dropWhileD) (metis list.set_intros(2) set_dropWhileD)

lemma replace_first_kept: "r \<in> set roles \<Longrightarrow> \<not> P r \<Longrightarrow> r \<in> set (replace_first P new roles)"
proof (induction roles)
  case (Cons x roles)
  then show ?case by (cases "P x") (auto simp: replace_first_def)
qed simp

lemma perm_change_mints_nothing:
  assumes "perm_change owner a p p'" and "\<not> a_owner a" and "\<not> contains (a_base a) ADMINISTRATOR"
    and "r \<in> set (ps_roles p')" and "bit (r_permissions r) n"
  shows "bit (a_base a) n \<or> (\<exists>r0\<in>set (ps_roles p). r_id r0 = r_id r \<and> bit (r_permissions r0) n)"
proof -
  have grant: "may_grant a bits \<Longrightarrow> bit bits n \<Longrightarrow> bit (a_base a) n" for bits
    using assms(2,3) by (auto simp: may_grant_def contains_iff)
  from assms(1) show ?thesis
  proof cases
    case (created r1)
    then have "r = r1 \<or> r \<in> set (apply_positions (shifted_positions (ps_roles p)) (ps_roles p))"
      using assms(4) by (auto simp: roles_with_new_def)
    then show ?thesis
      using grant created(2) assms(5) apply_positions_mem by fastforce
  next
    case (updated i old new)
    show ?thesis
    proof (cases "r = new")
      case True
      have "r_id old = i" "old \<in> set (ps_roles p)" using find_Some_mem [OF updated(2)] by auto
      then show ?thesis
        using True updated(4,6) assms(5) grant [of "without (r_permissions new) (r_permissions old)"]
        by (auto simp: without_def bit_simps dest: bit_imp_le_length)
    next
      case False
      then have "r \<in> set (ps_roles p)" using assms(4) updated(1) replace_first_mem by fastforce
      then show ?thesis using assms(5) by blast
    qed
  next
    case (deleted i)
    then show ?thesis
      using assms(4,5) by (fastforce simp: perms_without_role_def dest!: compacted_mem)
  next
    case (reordered positions)
    then show ?thesis
      using assms(4,5) by (fastforce dest!: apply_positions_mem)
  next
    case (granted roles fp)
    then show ?thesis using assms(4,5) by (auto simp: perms_with_grants_def)
  qed
qed

text \<open>
  C5. Nobody mints powers: when somebody who is neither the owner nor an administrator makes any
  request whatsoever, a role holds afterwards no permission bit that it did not hold before, except
  bits the sender holds server-wide.
\<close>

theorem edits_mint_no_power:
  assumes "handle_control cr now me message s = Some s'" and "client_fingerprint cr s me = Some fp"
    and "\<not> is_owner s fp" and "base = resolve (ps_roles (s_perms s)) (member_roles s fp) fp False None"
    and "\<not> contains base ADMINISTRATOR"
    and "r \<in> set (ps_roles (s_perms s'))" and "bit (r_permissions r) n"
  shows "bit base n \<or> (\<exists>r0\<in>set (ps_roles (s_perms s)). r_id r0 = r_id r \<and> bit (r_permissions r0) n)"
  using permitted_request [OF assms(1)] unfolding permitted_change_def
proof (elim disjE exE conjE)
  assume "s_perms s' = s_perms s"
  then show ?thesis using assms(6,7) by auto
next
  fix fp'
  assume "client_fingerprint cr s me = Some fp'" and c: "perm_change (s_owner s) (standing s fp') (s_perms s) (s_perms s')"
  then have "standing s fp' = \<lparr>a_roles = member_roles s fp, a_owner = False, a_base = base\<rparr>"
    using assms(2-4) by (simp add: standing_def)
  then show ?thesis using perm_change_mints_nothing [OF c _ _ assms(6,7)] assms(5) by simp
qed

lemma senior_unmanageable:
  assumes "distinct (map r_id roles)" and "r \<in> set roles" and "top_role_position roles ids \<le> r_position r"
  shows "\<not> can_manage_role roles ids False (r_id r)"
proof -
  have "List.find (\<lambda>x. r_id x = r_id r) roles = Some r"
    using assms(1,2) by (induction roles) auto
  then show ?thesis using assms(3) by (simp add: can_manage_role_def)
qed

definition grants :: "perm_state \<Rightarrow> fingerprint \<Rightarrow> role_id list" where
  "grants p fp = (case map_of (ps_members p) fp of Some rs \<Rightarrow> rs | None \<Rightarrow> [])"

lemma grants_without: "grants (perms_without_role i p) fp = filter (\<lambda>r. r \<noteq> i) (grants p fp)"
proof -
  have "map_of (map (\<lambda>(f, rs). (f, filter (\<lambda>r. r \<noteq> i) rs)) m) fp = map_option (filter (\<lambda>r. r \<noteq> i)) (map_of m fp)"
    for m :: "(fingerprint, role_id list) hash_map" by (induction m) auto
  then show ?thesis by (simp add: grants_def perms_without_role_def split: option.splits)
qed

lemma grants_with: "grants (perms_with_grants f roles p) fp = (if fp = f then roles else grants p fp)"
  by (auto simp: grants_def perms_with_grants_def update_conv' delete_conv' split: option.splits)

lemma perm_change_spares_seniors:
  assumes "perm_change owner a p p'" and "\<not> a_owner a" and "distinct (map r_id (ps_roles p))"
    and "r \<in> set (ps_roles p)" and "top_role_position (ps_roles p) (a_roles a) \<le> r_position r"
  shows "(\<exists>q. r\<lparr>r_position := q\<rparr> \<in> set (ps_roles p')) \<and> (r_id r \<in> set (grants p' fp) \<longleftrightarrow> r_id r \<in> set (grants p fp))"
proof -
  have no: "\<not> can_manage_role (ps_roles p) (a_roles a) (a_owner a) (r_id r)"
    using senior_unmanageable [OF assms(3-5)] assms(2) by simp
  have same: "r\<lparr>r_position := r_position r\<rparr> = r" by simp
  from assms(1) show ?thesis
  proof cases
    case (created r1)
    then show ?thesis
      using apply_positions_kept [OF assms(4), of "shifted_positions (ps_roles p)"]
      by (auto simp: roles_with_new_def grants_def)
  next
    case (updated i old new)
    then have "r_id r \<noteq> i" using no by auto
    then have "r \<in> set (ps_roles p')" using updated(1) replace_first_kept [OF assms(4)] by simp
    then have "\<exists>q. r\<lparr>r_position := q\<rparr> \<in> set (ps_roles p')" using same by metis
    then show ?thesis using updated(1) by (simp add: grants_def)
  next
    case (deleted i)
    then have "r_id r \<noteq> i" using no by auto
    then show ?thesis
      using deleted(1) compacted_kept [of r "filter (\<lambda>r. r_id r \<noteq> i) (ps_roles p)"] assms(4)
      by (simp add: grants_without) (simp add: perms_without_role_def)
  next
    case (reordered positions)
    then show ?thesis using apply_positions_kept [OF assms(4), of positions] by (auto simp: grants_def)
  next
    case (granted roles f)
    then have "r_id r \<in> set roles \<longleftrightarrow> r_id r \<in> set (grants p f)" using no unfolding grants_def by blast
    moreover have "\<exists>q. r\<lparr>r_position := q\<rparr> \<in> set (ps_roles p')"
      using granted(1) assms(4) same by (metis perms_with_grants_def perm_state.ext_inject perm_state.surjective perm_state.update_convs(2))
    ultimately show ?thesis using granted(1) by (simp add: grants_with)
  qed
qed


section \<open>A manager\<close>

text \<open>
  A server with a role for managing roles: client 2 holds it and it outranks a role for bots that
  carries \<open>ADMINISTRATOR\<close>.
\<close>

definition manager_roles :: "role list" where
  "manager_roles =
    [\<lparr>r_id = EVERYONE_ROLE_ID, r_name = [101], r_color = None, r_position = 0, r_permissions = DEFAULT_EVERYONE\<rparr>,
     \<lparr>r_id = 5, r_name = [98], r_color = None, r_position = 1, r_permissions = ADMINISTRATOR\<rparr>,
     \<lparr>r_id = 6, r_name = [109], r_color = None, r_position = 2, r_permissions = MANAGE_ROLES\<rparr>]"

definition manager_shared :: shared where
  "manager_shared = sample_shared\<lparr>s_perms := \<lparr>ps_roles = manager_roles, ps_members = [(sample_key 2, [6])]\<rparr>,
     s_clients := [(2, sample_client 2 [6] False), (3, sample_client 3 [] False)]\<rparr>"

lemma manager_shared_simps [simp]:
  "s_perms manager_shared = \<lparr>ps_roles = manager_roles, ps_members = [(sample_key 2, [6])]\<rparr>"
  "s_clients manager_shared = [(2, sample_client 2 [6] False), (3, sample_client 3 [] False)]"
  "s_channels manager_shared = [(1, sample_room), (2, sample_hidden)]"
  "s_owner manager_shared = Some (sample_key 1)" "s_store manager_shared = Some (store_with sample_db)"
  by (simp_all add: manager_shared_def)

lemma manager_facts:
  "client_fingerprint sample_ext manager_shared 2 = Some (sample_key 2)"
  "\<not> is_owner manager_shared (sample_key 2)"
  "member_roles manager_shared (sample_key 2) = [6]"
  "can_globally sample_ext manager_shared 2 MANAGE_ROLES"
  "resolve manager_roles [6] (sample_key 2) False None = DEFAULT_EVERYONE OR MANAGE_ROLES"
proof -
  have k: "sample_key 1 \<noteq> sample_key 2" by code_simp
  show "client_fingerprint sample_ext manager_shared 2 = Some (sample_key 2)"
    by (simp add: client_fingerprint_def) code_simp
  show "\<not> is_owner manager_shared (sample_key 2)" using k by (simp add: is_owner_def)
  show "member_roles manager_shared (sample_key 2) = [6]" by (simp add: member_roles_def)
  show "can_globally sample_ext manager_shared 2 MANAGE_ROLES"
    by (simp add: can_globally_def member_bits_def) code_simp
  show "resolve manager_roles [6] (sample_key 2) False None = DEFAULT_EVERYONE OR MANAGE_ROLES" by code_simp
qed

lemma set_member_roles_accepted:
  assumes "actor_of cr me nonce s = (Some a, s)" and "EVERYONE_ROLE_ID \<notin> set roles"
    and "set roles \<subseteq> r_id ` set (ps_roles (s_perms s))" and "is_owner s fp \<longrightarrow> a_owner a"
    and "\<forall>r\<in>set (member_roles s fp) \<union> set roles. r \<notin> set (member_roles s fp) \<inter> set roles \<longrightarrow>
      can_manage_role (ps_roles (s_perms s)) (a_roles a) (a_owner a) r"
    and "s_store s = Some st" and "replace_member_roles cr fp roles st = (Inr (), st')"
  shows "s_perms (set_member_roles cr me nonce fp roles s) = perms_with_grants fp roles (s_perms s)"
proof -
  have q: "s_perms (ack me nonce (resync_visibility cr before [] (fold (\<lambda>info. broadcast (UserUpdated info) None) infos t))) =
      s_perms t" for before infos t
    by (rule quiet_fields(5)) (intro quiet_then quiet_then_fold quiet_refl)
  have ok: "\<not> (\<exists>i\<in>set roles. \<not> (\<exists>r\<in>set (ps_roles (s_perms s)). r_id r = i))"
    "\<not> (\<exists>r\<in>set (filter (\<lambda>r. r \<notin> set roles) (member_roles s fp) @ filter (\<lambda>r. r \<notin> set (member_roles s fp)) roles).
        \<not> can_manage_role (ps_roles (s_perms s)) (a_roles a) (a_owner a) r)"
    using assms(3,5) by auto
  have st: "db_call (replace_member_roles cr fp roles) s = (Inr (), s\<lparr>s_store := Some st'\<rparr>)" "s_store s = Some st"
    using assms(6,7) by (simp_all add: db_call_def)
  show ?thesis
    unfolding set_member_roles_def assms(1) using assms(2,4) ok st
    by (auto simp: Let_def q update_live_member_roles_def swap_perm_state_def)
qed

text \<open>
  Granting is gated by rank alone: a member who may manage roles but is no administrator grants
  itself a junior role that carries \<open>ADMINISTRATOR\<close>, and thereby holds every permission.
\<close>

theorem manager_becomes_administrator:
  "let s = manager_shared; fp = sample_key 2;
       s' = set_member_roles sample_ext 2 9 fp [6, 5] s in
   \<not> contains (resolve (ps_roles (s_perms s)) (member_roles s fp) fp (is_owner s fp) None) ADMINISTRATOR \<and>
   resolve (ps_roles (s_perms s')) (member_roles s' fp) fp (is_owner s fp) None = ALL_BITS"
proof -
  let ?s = manager_shared and ?fp = "sample_key 2"
  let ?a = "standing ?s ?fp"
  have a: "actor_of sample_ext 2 9 ?s = (Some ?a, ?s)"
    using manager_facts by (simp add: actor_of_def standing_def Let_def)
  have m: "can_manage_role manager_roles [6] False 5" by code_simp
  obtain st' where st': "replace_member_roles sample_ext ?fp [6, 5] (store_with sample_db) = (Inr (), st')"
    by (simp add: replace_member_roles_def store_with_def attempt_def sample_db_def empty_db_def Let_def
        i64_of_u32_def)
  have p: "s_perms (set_member_roles sample_ext 2 9 ?fp [6, 5] ?s) = perms_with_grants ?fp [6, 5] (s_perms ?s)"
  proof (rule set_member_roles_accepted [OF a _ _ _ _ _ st'])
    show "set [6, 5] \<subseteq> r_id ` set (ps_roles (s_perms ?s))" by (simp add: manager_roles_def)
    show "is_owner ?s ?fp \<longrightarrow> a_owner ?a" using manager_facts(2) by simp
    show "\<forall>r\<in>set (member_roles ?s ?fp) \<union> set [6, 5]. r \<notin> set (member_roles ?s ?fp) \<inter> set [6, 5] \<longrightarrow>
      can_manage_role (ps_roles (s_perms ?s)) (a_roles ?a) (a_owner ?a) r"
      using m manager_facts(2,3) by (simp add: standing_def)
  qed (simp_all add: EVERYONE_ROLE_ID_def)
  have "contains (base_permissions manager_roles [6, 5]) ADMINISTRATOR" by code_simp
  then have "resolve manager_roles [6, 5] ?fp False None = ALL_BITS" by (simp add: resolve_def Let_def)
  moreover have "\<not> contains (DEFAULT_EVERYONE OR MANAGE_ROLES) ADMINISTRATOR" by code_simp
  ultimately show ?thesis
    using manager_facts(2,3,5) by (simp add: Let_def p member_roles_def perms_with_grants_def)
qed

section \<open>Witnesses\<close>

lemma manager_renames:
  obtains s' where "handle_control sample_ext 0 2 (UpdateRole 9 5 (Some [120]) None None) manager_shared = Some s'"
  by simp

theorem requests_refine_permission_spec_witness:
  "\<exists>s'. handle_control sample_ext 0 2 (UpdateRole 9 5 (Some [120]) None None) manager_shared = Some s' \<and>
    (s_perms s' = s_perms manager_shared \<or>
     (\<exists>fp. client_fingerprint sample_ext manager_shared 2 = Some fp \<and>
        can_globally sample_ext manager_shared 2 MANAGE_ROLES \<and>
        perm_change (s_owner manager_shared) (standing manager_shared fp) (s_perms manager_shared) (s_perms s')))"
proof -
  obtain s' where h: "handle_control sample_ext 0 2 (UpdateRole 9 5 (Some [120]) None None) manager_shared = Some s'"
    by (rule manager_renames)
  show ?thesis by (rule exI [of _ s'], rule conjI [OF h requests_refine_permission_spec [OF h]])
qed

theorem edits_mint_no_power_witness:
  "\<exists>s'. handle_control sample_ext 0 2 (UpdateRole 9 5 (Some [120]) None None) manager_shared = Some s' \<and>
    \<not> (\<exists>r n. r \<in> set (ps_roles (s_perms s')) \<and> bit (r_permissions r) n \<and>
      \<not> bit (DEFAULT_EVERYONE OR MANAGE_ROLES) n \<and>
      \<not> (\<exists>r0\<in>set manager_roles. r_id r0 = r_id r \<and> bit (r_permissions r0) n))"
proof -
  obtain s' where h: "handle_control sample_ext 0 2 (UpdateRole 9 5 (Some [120]) None None) manager_shared = Some s'"
    by (rule manager_renames)
  have b: "DEFAULT_EVERYONE OR MANAGE_ROLES =
      resolve (ps_roles (s_perms manager_shared)) (member_roles manager_shared (sample_key 2)) (sample_key 2) False None"
    using manager_facts(3,5) by simp
  have "\<not> contains (DEFAULT_EVERYONE OR MANAGE_ROLES) ADMINISTRATOR" by code_simp
  from edits_mint_no_power [OF h manager_facts(1,2) b this]
  have "\<And>r n. r \<in> set (ps_roles (s_perms s')) \<Longrightarrow> bit (r_permissions r) n \<Longrightarrow>
      bit (DEFAULT_EVERYONE OR MANAGE_ROLES) n \<or> (\<exists>r0\<in>set manager_roles. r_id r0 = r_id r \<and> bit (r_permissions r0) n)"
    by (simp only: manager_shared_simps perm_state.select_convs)
  with h show ?thesis by blast
qed


end
