(* ===== verification/Pickle_Converge.thy ===== *)
theory Pickle_Converge
  imports Pickle_Follow Pickle_Power
begin

text \<open>
  Every command of \<open>admin.rs\<close> keeps the mirrors of all clients in step, and so does every step of the
  running server: a client's mirror, once it has heard the frames in its queue, agrees with the
  server.
\<close>

section \<open>What the commands post\<close>

lemma keyed_fields [simp]:
  "keyed (s\<lparr>s_store := st\<rparr>) = keyed s" "keyed (s\<lparr>s_perms := p\<rparr>) = keyed s" "keyed (s\<lparr>s_channels := m\<rparr>) = keyed s"
  by (simp_all add: keyed_def)

lemma calm_refusals [simp]:
  assumes "keyed s"
  shows "calm cr s s" and "calm cr s (refuse c n code detail s)" and "calm cr s (refuse c n code detail (s\<lparr>s_store := st\<rparr>))"
proof -
  show r: "calm cr s s" using assms by (rule calm_refl)
  have "calm cr s (s\<lparr>s_store := st\<rparr>)" by (rule calm_fields [OF r]) simp_all
  then show "calm cr s (refuse c n code detail s)" "calm cr s (refuse c n code detail (s\<lparr>s_store := st\<rparr>))"
    using r by (simp_all add: calm_refuse)
qed

lemma actor_of_calm [consumes 1, case_names refused standing]:
  assumes "keyed s"
  obtains (refused) t where "actor_of cr client nonce s = (None, t)" "calm cr s t"
  | (standing) a where "actor_of cr client nonce s = (Some a, s)"
proof (cases "can_globally cr s client MANAGE_ROLES")
  case True
  then show ?thesis
    using assms standing refused
    by (cases "client_fingerprint cr s client") (simp_all add: actor_of_def Let_def)
next
  case False
  then show ?thesis using assms refused by (simp add: actor_of_def)
qed

text \<open>The three changes of roster entries in memory: who was changed, and how the roster looks then.\<close>

definition marks :: "(connected_client \<Rightarrow> bool) \<Rightarrow> (connected_client \<Rightarrow> connected_client) \<Rightarrow> shared \<Rightarrow> user_info list \<Rightarrow> shared \<Rightarrow> bool" where
  "marks P f s infos t \<longleftrightarrow> s_clients t = map (\<lambda>(k, e). (k, if P e then f e else e)) (s_clients s) \<and>
     infos = map (\<lambda>(_, e). c_info (f e)) (filter (\<lambda>(_, e). P e) (s_clients s))"

lemma remove_channel_marks:
  assumes "remove_channel_mem i s = (evicted, t)"
  shows "marks (\<lambda>e. map_of (s_channels s) i \<noteq> None \<and> ui_channel (c_info e) = Some i)
      (\<lambda>e. e\<lparr>c_info := (c_info e)\<lparr>ui_channel := None\<rparr>\<rparr>) s evicted t"
    and "s_perms t = s_perms s" and "s_owner t = s_owner s" and "s_channels t = AList.delete i (s_channels s)"
  using assms by (auto simp: remove_channel_mem_def Let_def marks_def map_of_eq_None_iff split: if_splits)

lemma drop_role_marks:
  assumes "drop_role_mem i s = (touched, holders, t)"
  shows "marks (\<lambda>e. i \<in> set (ui_roles (c_info e)))
      (\<lambda>e. e\<lparr>c_info := (c_info e)\<lparr>ui_roles := filter (\<lambda>x. x \<noteq> i) (ui_roles (c_info e))\<rparr>\<rparr>) s holders t"
    and "s_perms t = perms_without_role i (s_perms s)" and "s_owner t = s_owner s"
    and "s_channels t = map (\<lambda>(k, c). (k, if \<exists>w\<in>set (ch_overwrites c). o_target w = TRole i
        then c\<lparr>ch_overwrites := filter (\<lambda>w. o_target w \<noteq> TRole i) (ch_overwrites c)\<rparr> else c)) (s_channels s)"
    and "touched = map (ch_id \<circ> snd) (filter (\<lambda>(_, c). \<exists>w\<in>set (ch_overwrites c). o_target w = TRole i) (s_channels s))"
  using assms
  by (auto simp: drop_role_mem_def strip_role_overwrites_def strip_live_role_def swap_perm_state_def Let_def marks_def)

lemma grant_marks:
  assumes "grant_mem cr fp roles s = (infos, t)"
  shows "marks (\<lambda>e. ui_fingerprint cr (c_info e) = fp) (\<lambda>e. e\<lparr>c_info := (c_info e)\<lparr>ui_roles := roles\<rparr>\<rparr>) s infos t"
    and "s_perms t = perms_with_grants fp roles (s_perms s)" and "s_owner t = s_owner s" and "s_channels t = s_channels s"
  using assms by (auto simp: grant_mem_def update_live_member_roles_def swap_perm_state_def Let_def marks_def)

lemma marks_lookup:
  assumes "marks P f s infos t"
  shows "lookup t c = map_option (\<lambda>e. if P e then f e else e) (lookup s c)"
  using assms by (simp add: marks_def map_of_map_val)

lemma marks_keyed:
  assumes "marks P f s infos t" and "keyed s" and "\<And>e. ui_client_id (c_info (f e)) = ui_client_id (c_info e)"
  shows "keyed t"
  using assms by (auto simp: marks_def keyed_def comp_def case_prod_unfold)

lemma marks_infos:
  assumes m: "marks P f s infos t" and "keyed s"
  shows "k \<in> set infos \<Longrightarrow> \<exists>c e. lookup t c = Some e \<and> k = c_info e"
    and "lookup s c = Some e \<Longrightarrow> P e \<Longrightarrow> c_info (f e) \<in> set infos"
proof -
  assume "k \<in> set infos"
  then obtain c e where e: "(c, e) \<in> set (s_clients s)" "P e" "k = c_info (f e)" using m by (auto simp: marks_def)
  then have "lookup s c = Some e" using assms(2) by (simp add: keyed_def)
  then have "lookup t c = Some (f e)" using e(2) by (simp add: marks_lookup [OF m])
  then show "\<exists>c e. lookup t c = Some e \<and> k = c_info e" using e(3) by blast
next
  assume "lookup s c = Some e" and "P e"
  then have "(c, e) \<in> set (filter (\<lambda>(_, e). P e) (s_clients s))" by (auto dest: map_of_SomeD)
  then show "c_info (f e) \<in> set infos" using m by (force simp: marks_def)
qed

lemma marks_edits:
  assumes "marks P f s infos t" and "\<And>e. c_gone (f e) = c_gone e \<and> c_queue (f e) = c_queue e \<and>
      ui_client_id (c_info (f e)) = ui_client_id (c_info e) \<and> ui_identity (c_info (f e)) = ui_identity (c_info e)"
  shows "edits s t"
  using assms(2) by (auto simp: edits_def marks_lookup [OF assms(1)])

lemma create_role_posts:
  assumes k: "keyed s" and "\<And>r. new r = roles_with_new r (ps_roles (s_perms s))"
  shows "calm cr s (create_role cr client nonce name perms s) \<or>
    (\<exists>st r. r_id r = next_role_id (ps_roles (s_perms s)) \<and> r_position r = 1 \<and>
       posts (\<lambda>_. [RoleCreated r, RolesReordered (ordering_of (new r))]) (with_roles (new r) (s\<lparr>s_store := st\<rparr>))
         (create_role cr client nonce name perms s))"
  using k
proof (cases rule: actor_of_calm [of s cr client nonce])
  case (refused t)
  then show ?thesis by (simp add: create_role_def)
next
  case (standing a)
  let ?roles = "ps_roles (s_perms s)"
  let ?r = "\<lparr>r_id = next_role_id ?roles, r_name = trim name, r_color = None,
           r_position = 1, r_permissions = intersect perms ALL_BITS\<rparr>"
  obtain r1 st1 where d1: "db_call (set_role_positions (shifted_positions ?roles)) s = (r1, s\<lparr>s_store := st1\<rparr>)"
    by (rule db_call_ex)
  obtain r2 st2 where d2: "db_call (insert_role ?r) (s\<lparr>s_store := st1\<rparr>) = (r2, s\<lparr>s_store := st2\<rparr>)"
    by (rule db_call_ex [of "insert_role ?r" "s\<lparr>s_store := st1\<rparr>"]) simp
  let ?t = "swap_perm_state ((s_perms s)\<lparr>ps_roles := new ?r\<rparr>) (s\<lparr>s_store := st2\<rparr>)"
  have "posts (\<lambda>_. [RoleCreated ?r, RolesReordered (ordering_of (new ?r))]) ?t
      (ack client nonce (broadcast (RolesReordered (ordering_of (new ?r))) None (broadcast (RoleCreated ?r) None ?t)))"
    by (rule posts_ack, rule posts_cong, rule posts_broadcast, rule posts_broadcast, rule posts_refl)
      (simp_all add: k swap_perm_state_def)
  then show ?thesis
    using standing k
    by (auto simp: create_role_def Let_def d1 d2 with_roles_def assms(2) split: sum.splits intro!: exI [of _ st2] exI [of _ ?r])
qed

lemma update_role_posts:
  assumes k: "keyed s" and "\<And>r. new r = replace_first (\<lambda>r. r_id r = i) r (ps_roles (s_perms s))"
  shows "calm cr s (update_role cr client nonce i name color perms s) \<or>
    (\<exists>st old r. List.find (\<lambda>r. r_id r = i) (ps_roles (s_perms s)) = Some old \<and> r_id r = i \<and> r_position r = r_position old \<and>
       posts (\<lambda>c. [RoleUpdated r] @ resync_for cr s (with_roles (new r) (s\<lparr>s_store := st\<rparr>)) [] c) (with_roles (new r) (s\<lparr>s_store := st\<rparr>))
         (update_role cr client nonce i name color perms s))"
  using k
proof (cases rule: actor_of_calm [of s cr client nonce])
  case (refused t)
  then show ?thesis by (simp add: update_role_def)
next
  case (standing a)
  show ?thesis
  proof (cases "List.find (\<lambda>r. r_id r = i) (ps_roles (s_perms s))")
    case None
    then show ?thesis using standing k by (simp add: update_role_def)
  next
    case (Some old)
    have i: "r_id old = i" using find_Some_mem [OF Some] by simp
    show ?thesis
    proof (cases "updated_role a old name color perms")
      case (Inl e)
      then show ?thesis using standing Some k by (cases e) (simp add: update_role_def Let_def)
    next
      case (Inr r)
      obtain r1 st1 where d1: "db_call (store_update_role r) s = (r1, s\<lparr>s_store := st1\<rparr>)" by (rule db_call_ex)
      let ?t = "swap_perm_state ((s_perms s)\<lparr>ps_roles := new r\<rparr>) (s\<lparr>s_store := st1\<rparr>)"
      have "posts (\<lambda>c. [RoleUpdated r] @ resync_for cr s ?t [] c) ?t
          (ack client nonce (resync_visibility cr (visible_ids_by_client cr s) [] (broadcast (RoleUpdated r) None ?t)))"
        by (rule posts_ack, rule posts_resynced [OF _ k], rule posts_cong, rule posts_broadcast, rule posts_refl)
          (simp_all add: k swap_perm_state_def)
      then show ?thesis
        using standing k Some Inr i updated_role_fields [OF Inr]
        by (auto simp: update_role_def Let_def d1 with_roles_def assms(2) split: sum.splits intro!: exI [of _ st1] exI [of _ r])
    qed
  qed
qed

lemma delete_role_posts:
  assumes k: "keyed s"
  shows "calm cr s (delete_role cr client nonce i s) \<or>
    (\<exists>st touched holders t. i \<noteq> EVERYONE_ROLE_ID \<and> drop_role_mem i (s\<lparr>s_store := st\<rparr>) = (touched, holders, t) \<and>
       posts (\<lambda>c. [RoleDeleted i, RolesReordered (ordering_of (ps_roles (s_perms t)))] @ map UserUpdated holders @
           resync_for cr s t touched c) t (delete_role cr client nonce i s))"
  using k
proof (cases rule: actor_of_calm [of s cr client nonce])
  case (refused t)
  then show ?thesis by (simp add: delete_role_def)
next
  case (standing a)
  let ?ord = "ordering_of (ps_roles (perms_without_role i (s_perms s)))"
  obtain r1 st1 where d1: "db_call (store_delete_role i) s = (r1, s\<lparr>s_store := st1\<rparr>)"
    by (rule db_call_ex)
  obtain r2 st2 where d2: "db_call (set_role_positions ?ord) (s\<lparr>s_store := st1\<rparr>) = (r2, s\<lparr>s_store := st2\<rparr>)"
    by (rule db_call_ex [of "set_role_positions ?ord" "s\<lparr>s_store := st1\<rparr>"]) simp
  obtain touched holders t where m: "drop_role_mem i (s\<lparr>s_store := st2\<rparr>) = (touched, holders, t)"
    by (metis surj_pair)
  have kt: "keyed t" by (rule marks_keyed [OF drop_role_marks(1) [OF m]]) (simp_all add: k)
  have pt: "s_perms t = perms_without_role i (s_perms s)"
    using drop_role_marks(2) [OF m] by simp
  let ?w = "ack client nonce (resync_visibility cr (visible_ids_by_client cr s) touched
        (fold (\<lambda>info. broadcast (UserUpdated info) None) holders
          (broadcast (RolesReordered ?ord) None (broadcast (RoleDeleted i) None t))))"
  have p: "posts (\<lambda>c. [RoleDeleted i, RolesReordered ?ord] @ map UserUpdated holders @ resync_for cr s t touched c) t ?w"
    by (rule posts_ack, rule posts_cong, rule posts_resynced [OF _ k], rule posts_updates, rule posts_broadcast,
        rule posts_broadcast, rule posts_refl) (simp_all add: kt)
  have "calm cr s (delete_role cr client nonce i s) \<or> i \<noteq> EVERYONE_ROLE_ID \<and> delete_role cr client nonce i s = ?w"
    using standing k by (simp add: delete_role_def Let_def d1 d2 m split: sum.splits)
  then show ?thesis using m p pt by (elim disjE conjE) (simp, metis)
qed

lemma reorder_roles_posts:
  assumes k: "keyed s" and "new = sort_key r_position (apply_positions positions (ps_roles (s_perms s)))"
  shows "calm cr s (reorder_roles cr client nonce positions s) \<or>
    (\<exists>st. dense_positions positions (ps_roles (s_perms s)) \<and> \<not> moves_everyone positions \<and>
       posts (\<lambda>_. [RolesReordered positions]) (with_roles new (s\<lparr>s_store := st\<rparr>)) (reorder_roles cr client nonce positions s))"
  using k
proof (cases rule: actor_of_calm [of s cr client nonce])
  case (refused t)
  then show ?thesis by (simp add: reorder_roles_def)
next
  case (standing a)
  obtain r1 st1 where d1: "db_call (set_role_positions positions) s = (r1, s\<lparr>s_store := st1\<rparr>)" by (rule db_call_ex)
  let ?t = "swap_perm_state ((s_perms s)\<lparr>ps_roles := new\<rparr>) (s\<lparr>s_store := st1\<rparr>)"
  have "posts (\<lambda>_. [RolesReordered positions]) ?t (ack client nonce (broadcast (RolesReordered positions) None ?t))"
    by (rule posts_ack, rule posts_cong, rule posts_broadcast, rule posts_refl) (simp_all add: k swap_perm_state_def)
  then show ?thesis
    using standing k by (auto simp: reorder_roles_def Let_def d1 with_roles_def assms(2) split: sum.splits)
qed

lemma set_member_roles_posts:
  assumes k: "keyed s"
  shows "calm cr s (set_member_roles cr client nonce fp roles s) \<or>
    (\<exists>st infos t. grant_mem cr fp roles (s\<lparr>s_store := st\<rparr>) = (infos, t) \<and>
       posts (\<lambda>c. map UserUpdated infos @ resync_for cr s t [] c) t (set_member_roles cr client nonce fp roles s))"
  using k
proof (cases rule: actor_of_calm [of s cr client nonce])
  case (refused t)
  then show ?thesis by (simp add: set_member_roles_def)
next
  case (standing a)
  obtain r1 st1 where d1: "db_call (replace_member_roles cr fp roles) s = (r1, s\<lparr>s_store := st1\<rparr>)"
    by (rule db_call_ex)
  obtain infos t where m: "grant_mem cr fp roles (s\<lparr>s_store := st1\<rparr>) = (infos, t)" by fastforce
  have m': "update_live_member_roles cr fp roles
      (swap_perm_state (perms_with_grants fp roles (s_perms s)) (s\<lparr>s_store := st1\<rparr>)) = (infos, t)"
    using m by (simp add: grant_mem_def)
  have kt: "keyed t" by (rule marks_keyed [OF grant_marks(1) [OF m]]) (simp_all add: k)
  have "posts (\<lambda>c. map UserUpdated infos @ resync_for cr s t [] c) t
      (ack client nonce (resync_visibility cr (visible_ids_by_client cr s) []
        (fold (\<lambda>info. broadcast (UserUpdated info) None) infos t)))"
    by (rule posts_ack, rule posts_resynced [OF _ k], rule posts_cong, rule posts_updates, rule posts_refl) (simp_all add: kt)
  then show ?thesis
    using standing k m by (auto simp: set_member_roles_def Let_def d1 m' split: sum.splits)
qed

lemma posts_resync_only:
  "keyed s \<Longrightarrow> keyed t \<Longrightarrow> posts (resync_for cr s t touched) t (ack c n (resync_visibility cr (visible_ids_by_client cr s) touched t))"
  by (rule posts_ack, rule posts_cong, rule posts_resynced, rule posts_refl) simp_all

lemma overwrite_posts:
  assumes k: "keyed s"
  shows "calm cr s (set_channel_overwrite cr client nonce channel target give take_away s) \<or>
    (\<exists>st t. (\<exists>ow. t = snd (set_channel_overwrite_mem channel ow (s\<lparr>s_store := st\<rparr>))) \<and>
       posts (resync_for cr s t [channel]) t (set_channel_overwrite cr client nonce channel target give take_away s))"
  and "calm cr s (delete_channel_overwrite cr client nonce channel target s) \<or>
    (\<exists>st t. t = snd (remove_channel_overwrite channel target (s\<lparr>s_store := st\<rparr>)) \<and>
       posts (resync_for cr s t [channel]) t (delete_channel_overwrite cr client nonce channel target s))"
proof -
  have kt: "keyed (snd (set_channel_overwrite_mem channel ow (s\<lparr>s_store := st\<rparr>)))"
    "keyed (snd (remove_channel_overwrite channel target (s\<lparr>s_store := st\<rparr>)))" for ow st
    using k by (simp_all add: set_channel_overwrite_mem_def remove_channel_overwrite_def)
  show "calm cr s (set_channel_overwrite cr client nonce channel target give take_away s) \<or>
    (\<exists>st t. (\<exists>ow. t = snd (set_channel_overwrite_mem channel ow (s\<lparr>s_store := st\<rparr>))) \<and>
       posts (resync_for cr s t [channel]) t (set_channel_overwrite cr client nonce channel target give take_away s))"
    using k
  proof (cases rule: actor_of_calm [of s cr client nonce])
    case (refused t)
    then show ?thesis by (simp add: set_channel_overwrite_def)
  next
    case (standing a)
    let ?ow = "\<lparr>o_target = target, o_allow = intersect give CHANNEL_SCOPED, o_deny = intersect take_away CHANNEL_SCOPED\<rparr>"
    obtain r1 st1 where d1: "db_call (upsert_overwrite cr channel ?ow) s = (r1, s\<lparr>s_store := st1\<rparr>)"
      by (rule db_call_ex)
    show ?thesis
      using standing k posts_resync_only [OF k kt(1) [of ?ow st1], where cr = cr and touched = "[channel]" and c = client and n = nonce]
      by (auto simp: set_channel_overwrite_def Let_def d1 split: sum.splits option.splits)
  qed
  show "calm cr s (delete_channel_overwrite cr client nonce channel target s) \<or>
    (\<exists>st t. t = snd (remove_channel_overwrite channel target (s\<lparr>s_store := st\<rparr>)) \<and>
       posts (resync_for cr s t [channel]) t (delete_channel_overwrite cr client nonce channel target s))"
    using k
  proof (cases rule: actor_of_calm [of s cr client nonce])
    case (refused t)
    then show ?thesis by (simp add: delete_channel_overwrite_def)
  next
    case (standing a)
    obtain r1 st1 where d1: "db_call (delete_overwrite cr channel target) s = (r1, s\<lparr>s_store := st1\<rparr>)"
      by (rule db_call_ex)
    show ?thesis
      using standing k posts_resync_only [OF k kt(2) [of st1], where cr = cr and touched = "[channel]" and c = client and n = nonce]
      by (auto simp: delete_channel_overwrite_def Let_def d1 split: sum.splits)
  qed
qed

lemma resync_for_store [simp]: "resync_for cr (s\<lparr>s_store := st\<rparr>) = resync_for cr s"
proof -
  have "visible_ids cr (s\<lparr>s_store := st\<rparr>) i = visible_ids cr s i" for i by (rule visible_ids_cong) simp_all
  then show ?thesis by (simp add: resync_for_def fun_eq_iff split: option.splits)
qed

lemma create_channel_posts:
  assumes k: "keyed s" and w: "create_channel cr client nonce name parent topic kind mx order s = Some w"
  shows "calm cr s w \<or> (\<exists>st c t. ch_id c = next_channel_id s \<and> t = insert_channel_mem c (s\<lparr>s_store := st\<rparr>) \<and> posts (resync_for cr s t []) t w)"
proof (cases "the (validate_channel None name parent s)")
  case (Inl d)
  then have "validate_channel None name parent s = Some (Inl d)" using validate_create [of name parent s] by (cases "validate_channel None name parent s") auto
  then show ?thesis using w k by (auto simp: create_channel_def split: if_splits)
next
  case (Inr n)
  then have v: "validate_channel None name parent s = Some (Inr n)" using validate_create [of name parent s] by (cases "validate_channel None name parent s") auto
  let ?c = "\<lparr>ch_id = next_channel_id s, ch_parent = parent, ch_name = n, ch_topic = topic, ch_kind = kind, ch_max_users = mx,
      ch_order = order, ch_overwrites = []\<rparr>"
  obtain r1 st1 where d1: "db_call (insert_channel ?c) s = (r1, s\<lparr>s_store := st1\<rparr>)" by (rule db_call_ex)
  let ?s = "s\<lparr>s_store := st1\<rparr>"
  have "keyed (insert_channel_mem ?c ?s)" using k by (simp add: insert_channel_mem_def)
  then have p: "posts (resync_for cr s (insert_channel_mem ?c ?s) []) (insert_channel_mem ?c ?s)
      (ack client nonce (resync_visibility cr (visible_ids_by_client cr ?s) [] (insert_channel_mem ?c ?s)))"
    using posts_resync_only [of ?s "insert_channel_mem ?c ?s" cr "[]" client nonce] k by simp
  have "calm cr s w \<or> w = ack client nonce (resync_visibility cr (visible_ids_by_client cr ?s) [] (insert_channel_mem ?c ?s))"
    using w v k by (auto simp: create_channel_def Let_def d1 split: sum.splits if_splits)
  then show ?thesis
  proof
    assume "w = ack client nonce (resync_visibility cr (visible_ids_by_client cr ?s) [] (insert_channel_mem ?c ?s))"
    then show ?thesis using p by (intro disjI2 exI [of _ st1] exI [of _ ?c] exI [of _ "insert_channel_mem ?c ?s"]) simp
  qed simp
qed

lemma update_channel_posts:
  assumes k: "keyed s" and w: "update_channel cr client nonce i parent name topic kind mx order s = Some w"
  shows "calm cr s w \<or> (\<exists>st c t. ch_id c = i \<and> t = snd (update_channel_mem c (s\<lparr>s_store := st\<rparr>)) \<and> posts (resync_for cr s t [i]) t w)"
proof (cases "validate_channel (Some i) name parent s")
  case None
  then show ?thesis using w k by (auto simp: update_channel_def split: if_splits)
next
  case (Some v)
  show ?thesis
  proof (cases v)
    case (Inl d)
    then show ?thesis using w Some k by (auto simp: update_channel_def split: if_splits)
  next
    case (Inr n)
    let ?c = "\<lparr>ch_id = i, ch_parent = parent, ch_name = n, ch_topic = topic, ch_kind = kind, ch_max_users = mx,
        ch_order = order, ch_overwrites = []\<rparr>"
    obtain r1 st1 where d1: "db_call (store_update_channel ?c) s = (r1, s\<lparr>s_store := st1\<rparr>)" by (rule db_call_ex)
    let ?s = "s\<lparr>s_store := st1\<rparr>"
    let ?t = "snd (update_channel_mem ?c ?s)"
    have "keyed ?t" using k by (simp add: update_channel_mem_def)
    then have p: "posts (resync_for cr s ?t [i]) ?t (ack client nonce (resync_visibility cr (visible_ids_by_client cr ?s) [i] ?t))"
      using posts_resync_only [of ?s ?t cr "[i]" client nonce] k by simp
    have "calm cr s w \<or> w = ack client nonce (resync_visibility cr (visible_ids_by_client cr ?s) [i] ?t)"
      using w Some Inr k by (auto simp: update_channel_def Let_def d1 split: sum.splits if_splits)
    then show ?thesis
    proof
      assume "w = ack client nonce (resync_visibility cr (visible_ids_by_client cr ?s) [i] ?t)"
      then show ?thesis using p by (intro disjI2 exI [of _ st1] exI [of _ ?c] exI [of _ ?t]) simp
    qed simp
  qed
qed

lemma delete_channel_posts:
  assumes k: "keyed s"
  shows "calm cr s (delete_channel cr client nonce i s) \<or>
    (\<exists>st evicted t. remove_channel_mem i (s\<lparr>s_store := st\<rparr>) = (evicted, t) \<and>
       posts (\<lambda>c. map UserUpdated evicted @ resync_for cr s t [] c) t (delete_channel cr client nonce i s))"
proof -
  obtain r1 st1 where d1: "db_call (store_delete_channel i) s = (r1, s\<lparr>s_store := st1\<rparr>)" by (rule db_call_ex)
  let ?s = "s\<lparr>s_store := st1\<rparr>"
  obtain evicted t where m: "remove_channel_mem i ?s = (evicted, t)" by fastforce
  have kt: "keyed t" by (rule marks_keyed [OF remove_channel_marks(1) [OF m]]) (simp_all add: k)
  let ?w = "ack client nonce (resync_visibility cr (visible_ids_by_client cr ?s) []
        (fold (\<lambda>info s. broadcast (UserUpdated info) None
           (broadcast (UserMoved (ui_client_id info) (Some i) None) None s)) evicted t))"
  have "posts (\<lambda>c. map UserUpdated evicted @ resync_for cr ?s t [] c) t ?w"
    by (rule posts_ack, rule posts_resynced, rule posts_cong, rule posts_moves, rule posts_refl) (simp_all add: kt k)
  moreover have "calm cr s (delete_channel cr client nonce i s) \<or> delete_channel cr client nonce i s = ?w"
    using k by (simp add: delete_channel_def Let_def d1 m split: sum.splits)
  ultimately show ?thesis using m by (elim disjE) (simp, metis resync_for_store)
qed

section \<open>The commands keep the mirrors in step\<close>

lemma resync_for_view:
  assumes "wf s" and "wf t" and "\<And>ch. ch \<notin> set touched \<Longrightarrow> channel_get t ch \<noteq> None \<Longrightarrow> channel_get s ch \<noteq> None \<Longrightarrow> channel_get t ch = channel_get s ch"
    and "lookup s c = Some e" and "lookup t c = Some e'"
  shows "fold chan_step (resync_for cr s t touched c) (view cr s (c_info e)) = view cr t (c_info e')"
  using resync_view [OF assms(1-3)] assms(4,5) by (simp add: resync_for_def)

lemma coherent_cong:
  "coherent cr s \<Longrightarrow> s_clients t = s_clients s \<Longrightarrow> s_perms t = s_perms s \<Longrightarrow> s_owner t = s_owner s \<Longrightarrow> coherent cr t"
  by (simp add: coherent_def cached_ok_def member_roles_def is_owner_def)

lemma follows_channels:
  assumes "follows cr M s" and "wf s" and "coherent cr s" and "wf t"
    and "s_clients t = s_clients s" "s_perms t = s_perms s" "s_owner t = s_owner s"
    and "\<And>ch. ch \<notin> set touched \<Longrightarrow> channel_get t ch \<noteq> None \<Longrightarrow> channel_get s ch \<noteq> None \<Longrightarrow> channel_get t ch = channel_get s ch"
    and "posts (resync_for cr s t touched) t w"
  shows "follows cr M w"
proof (rule follows_admin [OF assms(1), where rf = "[]" and infos = "[]" and cf = "resync_for cr s t touched"])
  show "edits s t" by (simp add: edits_def assms(5))
  show "keyed t" using assms(4) by (simp add: wf_def)
  show "coherent cr t" by (rule coherent_cong [OF assms(3,5-7)])
  show "posts (\<lambda>c. [] @ map UserUpdated [] @ resync_for cr s t touched c) t w" using assms(9) by simp
qed (use resync_for_view [OF assms(2,4,8)] assms(5,6) in \<open>simp_all add: resync_for_about\<close>)

lemma next_channel_fresh:
  assumes "next_channel_id s \<noteq> 0"
  shows "channel_get s (next_channel_id s) = None"
proof (cases "s_channels s = []")
  case False
  let ?ids = "set (map fst (s_channels s))"
  have m: "next_channel_id s = Max ?ids + 1" using False by (simp add: next_channel_id_def)
  then have "unat (1 + Max ?ids) = Suc (unat (Max ?ids))" by (intro unatSuc) (use assms in \<open>simp add: add.commute\<close>)
  then have "Max ?ids < Max ?ids + 1" by (simp add: word_less_nat_alt add.commute)
  moreover have "i \<le> Max ?ids" if "i \<in> ?ids" for i by (rule Max_ge) (use that in simp_all)
  ultimately have "next_channel_id s \<notin> ?ids" unfolding m by (metis leD)
  then show ?thesis by (simp add: channel_get_def map_of_eq_None_iff)
qed (simp add: channel_get_def)

lemma follows_overwrite:
  assumes "follows cr M s" and "wf s" and "coherent cr s"
  shows "follows cr M (set_channel_overwrite cr client nonce channel target give take_away s)"
    and "follows cr M (delete_channel_overwrite cr client nonce channel target s)"
proof -
  have k: "keyed s" using assms(2) by (simp add: wf_def)
  have w: "wf (s\<lparr>s_store := st\<rparr>)" for st by (rule wf_frame(2) [OF assms(2)])
  from overwrite_posts(1) [OF k, of cr client nonce channel target give take_away]
  show "follows cr M (set_channel_overwrite cr client nonce channel target give take_away s)"
  proof (elim disjE exE conjE)
    fix st t ow
    assume t: "t = snd (set_channel_overwrite_mem channel ow (s\<lparr>s_store := st\<rparr>))"
      and p: "posts (resync_for cr s t [channel]) t (set_channel_overwrite cr client nonce channel target give take_away s)"
    show ?thesis
      by (rule follows_channels [OF assms _ _ _ _ _ p])
        (use wf_server.set_overwrite_law [OF w] in \<open>auto simp: t set_channel_overwrite_mem_def channel_get_def map_of_map_entry\<close>)
  qed (rule follows_calm [OF assms(1) _ assms(3)])
  from overwrite_posts(2) [OF k, of cr client nonce channel target]
  show "follows cr M (delete_channel_overwrite cr client nonce channel target s)"
  proof (elim disjE exE conjE)
    fix st t
    assume t: "t = snd (remove_channel_overwrite channel target (s\<lparr>s_store := st\<rparr>))"
      and p: "posts (resync_for cr s t [channel]) t (delete_channel_overwrite cr client nonce channel target s)"
    show ?thesis
      by (rule follows_channels [OF assms _ _ _ _ _ p])
        (use wf_server.remove_overwrite_law [OF w] in \<open>auto simp: t remove_channel_overwrite_def channel_get_def map_of_map_entry\<close>)
  qed (rule follows_calm [OF assms(1) _ assms(3)])
qed

lemma follows_create_channel:
  assumes "follows cr M s" and "wf s" and "coherent cr s" and "next_channel_id s \<noteq> 0"
    and c: "create_channel cr client nonce name parent topic kind mx order s = Some w"
  shows "follows cr M w"
proof -
  have k: "keyed s" using assms(2) by (simp add: wf_def)
  from create_channel_posts [OF k c] show ?thesis
  proof (elim disjE exE conjE)
    fix st c t
    assume t: "t = insert_channel_mem c (s\<lparr>s_store := st\<rparr>)" and c: "ch_id c = next_channel_id s" and p: "posts (resync_for cr s t []) t w"
    have "wf t" unfolding t by (rule wf_server.insert_channel_law [OF wf_frame(2) [OF assms(2)]]) (simp add: c)
    moreover have "channel_get t ch = channel_get s ch" if "channel_get s ch \<noteq> None" for ch
      using that next_channel_fresh [OF assms(4)] c by (auto simp: t insert_channel_mem_def channel_get_def map_of_bt_insert)
    ultimately show ?thesis by (intro follows_channels [OF assms(1-3) _ _ _ _ _ p]) (simp_all add: t insert_channel_mem_def)
  qed (rule follows_calm [OF assms(1) _ assms(3)])
qed

lemma follows_update_channel:
  assumes "follows cr M s" and "wf s" and "coherent cr s"
    and c: "update_channel cr client nonce i parent name topic kind mx order s = Some w"
  shows "follows cr M w"
proof -
  have k: "keyed s" using assms(2) by (simp add: wf_def)
  from update_channel_posts [OF k c] show ?thesis
  proof (elim disjE exE conjE)
    fix st c t
    assume t: "t = snd (update_channel_mem c (s\<lparr>s_store := st\<rparr>))" and c: "ch_id c = i" and p: "posts (resync_for cr s t [i]) t w"
    show ?thesis
      by (rule follows_channels [OF assms(1-3) _ _ _ _ _ p])
        (use wf_server.update_channel_law [OF wf_frame(2) [OF assms(2)]] c in \<open>auto simp: t update_channel_mem_def channel_get_def map_of_map_entry\<close>)
  qed (rule follows_calm [OF assms(1) _ assms(3)])
qed

lemma follows_delete_channel:
  assumes "follows cr M s" and "wf s" and "coherent cr s"
  shows "follows cr M (delete_channel cr client nonce i s)"
proof -
  have k: "keyed s" using assms(2) by (simp add: wf_def)
  from delete_channel_posts [OF k, of cr client nonce i] show ?thesis
  proof (elim disjE exE conjE)
    fix st evicted t
    let ?s = "s\<lparr>s_store := st\<rparr>"
    assume m: "remove_channel_mem i ?s = (evicted, t)"
      and p: "posts (\<lambda>c. map UserUpdated evicted @ resync_for cr s t [] c) t (delete_channel cr client nonce i s)"
    note marks = remove_channel_marks [OF m]
    have wt: "wf t" and ct: "coherent cr t"
      using wf_server.remove_channel_law [OF wf_frame(2) [OF assms(2)], of i st]
        coherent_remove_channel [OF coherent.store_keeps [OF assms(3)], of i st] by (simp_all add: m)
    have e: "edits s t" using marks_edits [OF marks(1)] by (simp add: edits_def)
    have same: "channel_get t ch = channel_get s ch" if "channel_get t ch \<noteq> None" for ch
      using that marks(4) by (auto simp: channel_get_def delete_conv' split: if_splits)
    show ?thesis
    proof (rule follows_admin [OF assms(1) e _ ct, where rf = "[]" and infos = evicted and cf = "resync_for cr s t []"])
      show "keyed t" using wt by (simp add: wf_def)
      show "posts (\<lambda>c. [] @ map UserUpdated evicted @ resync_for cr s t [] c) t (delete_channel cr client nonce i s)" using p by simp
      show "\<exists>c e. lookup t c = Some e \<and> x = c_info e" if "x \<in> set evicted" for x
        by (rule marks_infos(1) [OF marks(1) _ that]) (simp add: k)
      show "fold chan_step (resync_for cr s t [] c) (view cr s (c_info e)) = view cr t (c_info e')"
        if "lookup s c = Some e" "lookup t c = Some e'" for c e e'
        by (rule resync_for_view [OF assms(2) wt same that])
      show "fold (mine_step cr (ui_fingerprint cr (c_info e))) [] (ui_roles (c_info e), ui_owner (c_info e)) =
          (ui_roles (c_info e'), ui_owner (c_info e')) \<and> standing_of cr (c_info e') = standing_of cr (c_info e)"
        if "lookup s c = Some e" "lookup t c = Some e'" for c e e'
        using that marks_lookup [OF marks(1), of c] by (auto simp: standing_of_def ui_fingerprint_def split: if_splits)
    qed (use marks(2) in \<open>auto simp: resync_for_about\<close>)
  qed (rule follows_calm [OF assms(1) _ assms(3)])
qed

lemma role_permissions_kept:
  assumes "distinct (map r_id rs)" and "distinct (map r_id rs')" and "j \<in> r_id ` set rs"
    and "\<And>r. r \<in> set rs \<Longrightarrow> \<exists>p. r\<lparr>r_position := p\<rparr> \<in> set rs'"
  shows "role_permissions rs' j = role_permissions rs j"
proof -
  obtain r where r: "r \<in> set rs" "r_id r = j" using assms(3) by blast
  obtain p where p: "r\<lparr>r_position := p\<rparr> \<in> set rs'" using assms(4) [OF r(1)] by blast
  have "List.find (\<lambda>x. r_id x = j) rs = Some r" using find_distinct [OF assms(1) r(1)] r(2) by simp
  moreover have "List.find (\<lambda>x. r_id x = j) rs' = Some (r\<lparr>r_position := p\<rparr>)" using find_distinct [OF assms(2) p] r(2) by simp
  ultimately show ?thesis by (simp add: role_permissions_def)
qed

lemma resolve_held_cong:
  assumes "\<And>i. i = EVERYONE_ROLE_ID \<or> i \<in> set ids \<Longrightarrow> role_permissions roles' i = role_permissions roles i"
  shows "resolve roles' ids fp owner ows = resolve roles ids fp owner ows"
proof -
  have "fold (\<lambda>i base. or base (role_permissions roles' i)) ids b = fold (\<lambda>i base. or base (role_permissions roles i)) ids b" for b
    by (rule fold_cong) (simp_all add: assms)
  then have "base_permissions roles' ids = base_permissions roles ids" using assms by (simp add: base_permissions_def)
  then show ?thesis by (simp add: resolve_def)
qed

text \<open>Every role granted to anyone exists.\<close>

definition known :: "perm_state \<Rightarrow> bool" where
  "known p \<longleftrightarrow> (\<forall>fp. set (grants p fp) \<subseteq> r_id ` set (ps_roles p))"

lemma view_roles:
  assumes "ladder s" and "ladder t" and "known (s_perms s)" and "cached_ok cr s i"
    and "s_channels t = s_channels s"
    and "\<And>r. r \<in> set (ps_roles (s_perms s)) \<Longrightarrow> \<exists>p. r\<lparr>r_position := p\<rparr> \<in> set (ps_roles (s_perms t))"
  shows "view cr t i = view cr s i"
proof -
  let ?rs = "ps_roles (s_perms s)" and ?rs' = "ps_roles (s_perms t)"
  have d: "distinct (map r_id ?rs)" "distinct (map r_id ?rs')" "EVERYONE_ROLE_ID \<in> r_id ` set ?rs"
    using assms(1,2) hd_in_set by (force simp: ladder_def ladder_ok_def)+
  have "ui_roles i = grants (s_perms s) (ui_fingerprint cr i)"
    using assms(4) by (simp add: cached_ok_def member_roles_def grants_def)
  then have "set (ui_roles i) \<subseteq> r_id ` set ?rs" using assms(3) by (simp add: known_def)
  then have "role_permissions ?rs' j = role_permissions ?rs j" if "j = EVERYONE_ROLE_ID \<or> j \<in> set (ui_roles i)" for j
    using that d(3) by (intro role_permissions_kept [OF d(1,2) _ assms(6)]) auto
  then have "member_bits cr t i ows = member_bits cr s i ows" for ows
    unfolding member_bits_def by (intro resolve_held_cong) blast
  then show ?thesis by (auto simp: view_def channel_get_def can_view_def assms(5) fun_eq_iff split: option.splits)
qed

lemma with_roles_fields [simp]:
  "s_clients (with_roles roles s) = s_clients s" "s_channels (with_roles roles s) = s_channels s"
  "s_owner (with_roles roles s) = s_owner s" "ps_roles (s_perms (with_roles roles s)) = roles"
  by (simp_all add: with_roles_def swap_perm_state_def)

lemma follows_role_table:
  assumes "follows cr M s" and "wf s" and "coherent cr s" and t: "t = with_roles roles (s\<lparr>s_store := st\<rparr>)"
    and p: "posts (\<lambda>c. rf @ cf c) t w"
    and "\<And>f. f \<in> set rf \<Longrightarrow> about_roles f \<and> (\<forall>i. f \<noteq> RoleDeleted i)" and "\<And>c f. f \<in> set (cf c) \<Longrightarrow> about_channels f"
    and "\<And>rs. distinct (map r_id rs) \<Longrightarrow> set rs = set (ps_roles (s_perms s)) \<Longrightarrow>
      distinct (map r_id (fold role_step rf rs)) \<and> set (fold role_step rf rs) = set roles"
    and "\<And>c e. lookup s c = Some e \<Longrightarrow> fold chan_step (cf c) (view cr s (c_info e)) = view cr t (c_info e)"
  shows "follows cr M w"
proof (rule follows_admin [OF assms(1), where rf = rf and infos = "[]" and cf = cf])
  have f: "s_clients t = s_clients s" by (simp add: t)
  show "edits s t" by (simp add: edits_def f)
  show "keyed t" using assms(2) by (simp add: t wf_def keyed_def)
  show "coherent cr t" unfolding t by (rule coherent_with_roles [OF coherent.store_keeps [OF assms(3)]])
  show "posts (\<lambda>c. rf @ map UserUpdated [] @ cf c) t w" using p by simp
  have "fold (mine_step cr fp) rf own = own" for fp own
    using assms(6)
  proof (induction rf)
    case (Cons f rf)
    have "about_roles f \<and> (\<forall>i. f \<noteq> RoleDeleted i)" using Cons.prems by simp
    then have "mine_step cr fp f own = own" by (cases f) auto
    with Cons show ?case by simp
  qed simp
  then show "fold (mine_step cr (ui_fingerprint cr (c_info e))) rf (ui_roles (c_info e), ui_owner (c_info e)) =
      (ui_roles (c_info e'), ui_owner (c_info e')) \<and> standing_of cr (c_info e') = standing_of cr (c_info e)"
    if "lookup s c = Some e" "lookup t c = Some e'" for c e e' using that f by simp
  show "fold chan_step (cf c) (view cr s (c_info e)) = view cr t (c_info e')"
    if "lookup s c = Some e" "lookup t c = Some e'" for c e e' using assms(9) that f by simp
qed (use assms(6-8) t in auto)

lemma lookup_cached: "coherent cr s \<Longrightarrow> lookup s c = Some e \<Longrightarrow> cached_ok cr s (c_info e)"
  by (auto simp: coherent_def dest!: map_of_SomeD)

lemma roles_with_new_kept: "x \<in> set roles \<Longrightarrow> \<exists>p. x\<lparr>r_position := p\<rparr> \<in> set (roles_with_new r roles)"
  using apply_positions_kept [of x roles "shifted_positions roles"] by (auto simp: roles_with_new_def)

lemma follows_create_role:
  assumes "follows cr M s" and "wf s" and "coherent cr s" and "ladder s" and "known (s_perms s)"
    and id: "next_role_id (ps_roles (s_perms s)) \<noteq> 0"
  shows "follows cr M (create_role cr client nonce name perms s)"
proof -
  let ?roles = "ps_roles (s_perms s)"
  have k: "keyed s" using assms(2) by (simp add: wf_def)
  from create_role_posts [OF k refl, of cr client nonce name perms] show ?thesis
  proof (elim disjE exE conjE)
    fix st r
    let ?new = "roles_with_new r ?roles"
    let ?t = "with_roles ?new (s\<lparr>s_store := st\<rparr>)"
    assume r: "r_id r = next_role_id ?roles" "r_position r = 1"
      and p: "posts (\<lambda>_. [RoleCreated r, RolesReordered (ordering_of ?new)]) ?t (create_role cr client nonce name perms s)"
    have lt: "ladder ?t" using ladder.create_role_law [OF ladder.store_keeps [OF assms(4)], of r st] r id by simp
    then have new: "distinct (map r_id ?new)" by (simp add: ladder_def ladder_ok_def)
    have roles: "distinct (map r_id ?roles)" "?roles \<noteq> []" using assms(4) by (simp_all add: ladder_def ladder_ok_def)
    have fresh: "r_id x \<noteq> r_id r" if "x \<in> set ?roles" for x
      using length_lt_next_id(2) [OF roles id] r(1) that by force
    show ?thesis
    proof (rule follows_role_table [OF assms(1-3) refl])
      show "posts (\<lambda>c. [RoleCreated r, RolesReordered (ordering_of ?new)] @ []) ?t (create_role cr client nonce name perms s)"
        using p by simp
      fix rs :: "role list"
      assume rs: "distinct (map r_id rs)" "set rs = set ?roles"
      let ?rs = "insert_role_sorted r rs"
      have ids: "distinct (map r_id ?rs)" by (rule insert_role_sorted_set(2) [OF rs(1)])
      have "set ?rs = set ?roles \<union> {r}" using fresh rs(2) by (auto simp: insert_role_sorted_set(1))
      then have "set (role_step (RolesReordered (ordering_of ?new)) ?rs) = set ?new"
        by (intro reordered_to [OF ids new]) (simp add: position_erased)
      moreover have "distinct (map fst (ordering_of ?new))" using new by (simp add: ordering_of_def comp_def)
      ultimately show "distinct (map r_id (fold role_step [RoleCreated r, RolesReordered (ordering_of ?new)] rs)) \<and>
          set (fold role_step [RoleCreated r, RolesReordered (ordering_of ?new)] rs) = set ?new"
        using mirror_reordered(1) [OF ids] by simp
    next
      fix c e
      assume "lookup s c = Some e"
      then show "fold chan_step [] (view cr s (c_info e)) = view cr ?t (c_info e)"
        using view_roles [OF assms(4) lt assms(5) lookup_cached [OF assms(3)]] roles_with_new_kept by simp
    qed auto
  qed (rule follows_calm [OF assms(1) _ assms(3)])
qed

lemma follows_update_role:
  assumes "follows cr M s" and "wf s" and "coherent cr s" and "ladder s"
  shows "follows cr M (update_role cr client nonce i name color perms s)"
proof -
  let ?roles = "ps_roles (s_perms s)"
  have k: "keyed s" using assms(2) by (simp add: wf_def)
  from update_role_posts [OF k refl, of cr client nonce i name color perms] show ?thesis
  proof (elim disjE exE conjE)
    fix st old r
    let ?new = "replace_first (\<lambda>r. r_id r = i) r ?roles"
    let ?t = "with_roles ?new (s\<lparr>s_store := st\<rparr>)"
    assume old: "List.find (\<lambda>r. r_id r = i) ?roles = Some old" and r: "r_id r = i"
      and p: "posts (\<lambda>c. [RoleUpdated r] @ resync_for cr s ?t [] c) ?t (update_role cr client nonce i name color perms s)"
    have roles: "distinct (map r_id ?roles)" using assms(4) by (simp add: ladder_def ladder_ok_def)
    have wt: "wf ?t" using wf_frame(2) [OF assms(2)] by (simp add: with_roles_def swap_perm_state_def)
    show ?thesis
    proof (rule follows_role_table [OF assms(1-3) refl p])
      fix rs :: "role list"
      assume rs: "distinct (map r_id rs)" "set rs = set ?roles"
      then show "distinct (map r_id (fold role_step [RoleUpdated r] rs)) \<and> set (fold role_step [RoleUpdated r] rs) = set ?new"
        by (simp add: insert_role_sorted_set r replace_first_set [OF roles old])
    next
      fix c e
      assume "lookup s c = Some e"
      then show "fold chan_step (resync_for cr s ?t [] c) (view cr s (c_info e)) = view cr ?t (c_info e)"
        by (intro resync_for_view [OF assms(2) wt]) (simp_all add: channel_get_def)
    qed (auto simp: resync_for_about)
  qed (rule follows_calm [OF assms(1) _ assms(3)])
qed

lemma dense_positions_distinct:
  assumes "distinct (map r_id roles)" and "dense_positions positions roles"
  shows "distinct (map fst positions)"
proof -
  have len: "length positions = length roles" and sub: "set (map r_id roles) \<subseteq> set (map fst positions)"
    using assms(2) by (auto simp: dense_positions_def Let_def image_iff) (metis fst_conv)
  have c: "card (set (map r_id roles)) = length positions" using distinct_card [OF assms(1)] len by simp
  have "card (set (map fst positions)) \<le> length positions" by (metis card_length length_map)
  then have "set (map r_id roles) = set (map fst positions)" using card_seteq [OF _ sub] c by simp
  then show ?thesis using c by (metis card_distinct length_map)
qed

lemma follows_reorder_roles:
  assumes "follows cr M s" and "wf s" and "coherent cr s" and "ladder s" and "known (s_perms s)"
  shows "follows cr M (reorder_roles cr client nonce positions s)"
proof -
  let ?roles = "ps_roles (s_perms s)"
  let ?new = "sort_key r_position (apply_positions positions ?roles)"
  have k: "keyed s" using assms(2) by (simp add: wf_def)
  from reorder_roles_posts [OF k refl, of cr client nonce positions] show ?thesis
  proof (elim disjE exE conjE)
    fix st
    let ?t = "with_roles ?new (s\<lparr>s_store := st\<rparr>)"
    assume d: "dense_positions positions ?roles" "\<not> moves_everyone positions"
      and p: "posts (\<lambda>_. [RolesReordered positions]) ?t (reorder_roles cr client nonce positions s)"
    have roles: "distinct (map r_id ?roles)" using assms(4) by (simp add: ladder_def ladder_ok_def)
    have lt: "ladder ?t" using ladder.reorder_law [OF ladder.store_keeps [OF assms(4)], of positions st] d by simp
    show ?thesis
    proof (rule follows_role_table [OF assms(1-3) refl])
      show "posts (\<lambda>c. [RolesReordered positions] @ []) ?t (reorder_roles cr client nonce positions s)" using p by simp
      fix rs :: "role list"
      assume rs: "distinct (map r_id rs)" "set rs = set ?roles"
      note mr = mirror_reordered [OF rs(1) dense_positions_distinct [OF roles d(1)]]
      show "distinct (map r_id (fold role_step [RolesReordered positions] rs)) \<and>
          set (fold role_step [RolesReordered positions] rs) = set ?new"
        using mr rs(2) by (simp add: apply_positions_map)
    next
      fix c e
      assume "lookup s c = Some e"
      then show "fold chan_step [] (view cr s (c_info e)) = view cr ?t (c_info e)"
        using view_roles [OF assms(4) lt assms(5) lookup_cached [OF assms(3)]] apply_positions_kept by simp
    qed auto
  qed (rule follows_calm [OF assms(1) _ assms(3)])
qed

lemma follows_set_member_roles:
  assumes "follows cr M s" and "wf s" and "coherent cr s"
  shows "follows cr M (set_member_roles cr client nonce fp roles s)"
proof -
  have k: "keyed s" using assms(2) by (simp add: wf_def)
  from set_member_roles_posts [OF k, of cr client nonce fp roles] show ?thesis
  proof (elim disjE exE conjE)
    fix st infos t
    assume m: "grant_mem cr fp roles (s\<lparr>s_store := st\<rparr>) = (infos, t)"
      and p: "posts (\<lambda>c. map UserUpdated infos @ resync_for cr s t [] c) t (set_member_roles cr client nonce fp roles s)"
    note marks = grant_marks [OF m]
    have wt: "wf t" and ct: "coherent cr t"
      using wf_grant [OF wf_frame(2) [OF assms(2)], of cr fp roles st]
        coherent_grant [OF coherent.store_keeps [OF assms(3)], of fp roles st] by (simp_all add: m)
    have e: "edits s t" using marks_edits [OF marks(1)] by (simp add: edits_def)
    show ?thesis
    proof (rule follows_admin [OF assms(1) e _ ct, where rf = "[]" and infos = infos and cf = "resync_for cr s t []"])
      show "keyed t" using wt by (simp add: wf_def)
      show "posts (\<lambda>c. [] @ map UserUpdated infos @ resync_for cr s t [] c) t (set_member_roles cr client nonce fp roles s)" using p by simp
      show "\<exists>c e. lookup t c = Some e \<and> x = c_info e" if "x \<in> set infos" for x
        by (rule marks_infos(1) [OF marks(1) _ that]) (simp add: k)
      show "fold chan_step (resync_for cr s t [] c) (view cr s (c_info e)) = view cr t (c_info e')"
        if "lookup s c = Some e" "lookup t c = Some e'" for c e e'
        by (rule resync_for_view [OF assms(2) wt _ that]) (simp add: channel_get_def marks(4))
      show "fold (mine_step cr (ui_fingerprint cr (c_info e))) [] (ui_roles (c_info e), ui_owner (c_info e)) =
          (ui_roles (c_info e'), ui_owner (c_info e')) \<and> standing_of cr (c_info e') = standing_of cr (c_info e)"
        if "lookup s c = Some e" "lookup t c = Some e'" "c_info e' \<notin> set infos" for c e e'
        using that marks_lookup [OF marks(1), of c] marks_infos(2) [OF marks(1), of c e] k by (auto split: if_splits)
    qed (use marks(2) in \<open>auto simp: resync_for_about perms_with_grants_def\<close>)
  qed (rule follows_calm [OF assms(1) _ assms(3)])
qed

lemma follows_delete_role:
  assumes "follows cr M s" and "wf s" and "coherent cr s" and "ladder s"
  shows "follows cr M (delete_role cr client nonce i s)"
proof -
  let ?roles = "ps_roles (s_perms s)"
  have k: "keyed s" using assms(2) by (simp add: wf_def)
  from delete_role_posts [OF k, of cr client nonce i] show ?thesis
  proof (elim disjE exE conjE)
    fix st touched holders and t :: shared
    let ?rf = "[RoleDeleted i, RolesReordered (ordering_of (ps_roles (s_perms t)))]"
    assume ev: "i \<noteq> EVERYONE_ROLE_ID" and m: "drop_role_mem i (s\<lparr>s_store := st\<rparr>) = (touched, holders, t)"
      and p: "posts (\<lambda>c. ?rf @ map UserUpdated holders @ resync_for cr s t touched c) t (delete_role cr client nonce i s)"
    note marks = drop_role_marks [OF m]
    have wt: "wf t" and ct: "coherent cr t" and lt: "ladder t"
      using wf_drop_role [OF wf_frame(2) [OF assms(2)], of i st] coherent_drop_role [OF coherent.store_keeps [OF assms(3)], of i st]
        ladder.delete_role_law [OF ladder.store_keeps [OF assms(4)] ev, of st] by (simp_all add: m)
    have e: "edits s t" using marks_edits [OF marks(1)] by (simp add: edits_def)
    have new: "distinct (map r_id (ps_roles (s_perms t)))" using lt by (simp add: ladder_def ladder_ok_def)
    have pt: "ps_roles (s_perms t) = compacted (filter (\<lambda>r. r_id r \<noteq> i) ?roles)"
      by (simp add: marks(2) perms_without_role_def)
    have same: "channel_get t ch = channel_get s ch" if "ch \<notin> set touched" for ch
    proof (cases "channel_get s ch")
      case (Some c)
      then have c: "(ch, c) \<in> set (s_channels s)" "ch_id c = ch"
        using channel_get_id [OF assms(2)] by (auto simp: channel_get_def dest: map_of_SomeD)
      then have "\<not> (\<exists>w\<in>set (ch_overwrites c). o_target w = TRole i)" using that marks(5) by force
      then show ?thesis using Some marks(4) by (simp add: channel_get_def map_of_map_val)
    qed (use marks(4) in \<open>simp add: channel_get_def map_of_map_val\<close>)
    show ?thesis
    proof (rule follows_admin [OF assms(1) e _ ct p])
      show "keyed t" using wt by (simp add: wf_def)
      fix rs :: "role list"
      assume rs: "distinct (map r_id rs)" "set rs = set ?roles"
      let ?rs = "filter (\<lambda>r. r_id r \<noteq> i) rs"
      have ids: "distinct (map r_id ?rs)" using rs(1) by (rule distinct_map_filter)
      have "set (role_step (RolesReordered (ordering_of (ps_roles (s_perms t)))) ?rs) = set (ps_roles (s_perms t))"
        using rs(2) by (intro reordered_to [OF ids new]) (simp add: pt position_erased)
      moreover have "distinct (map fst (ordering_of (ps_roles (s_perms t))))" using new by (simp add: ordering_of_def comp_def)
      ultimately show "distinct (map r_id (fold role_step ?rf rs)) \<and> set (fold role_step ?rf rs) = set (ps_roles (s_perms t))"
        using mirror_reordered(1) [OF ids] by simp
    next
      show "\<exists>c e. lookup t c = Some e \<and> x = c_info e" if "x \<in> set holders" for x
        by (rule marks_infos(1) [OF marks(1) _ that]) (simp add: k)
      show "fold chan_step (resync_for cr s t touched c) (view cr s (c_info e)) = view cr t (c_info e')"
        if "lookup s c = Some e" "lookup t c = Some e'" for c e e'
        by (rule resync_for_view [OF assms(2) wt same that])
      show "fold (mine_step cr (ui_fingerprint cr (c_info e))) ?rf (ui_roles (c_info e), ui_owner (c_info e)) =
          (ui_roles (c_info e'), ui_owner (c_info e')) \<and> standing_of cr (c_info e') = standing_of cr (c_info e)"
        if l: "lookup s c = Some e" "lookup t c = Some e'" "c_info e' \<notin> set holders" for c e e'
      proof -
        have "i \<notin> set (ui_roles (c_info e))"
        proof
          assume "i \<in> set (ui_roles (c_info e))"
          then show False using l marks_lookup [OF marks(1), of c] marks_infos(2) [OF marks(1), of c e] k by simp
        qed
        then show ?thesis
          using l marks_lookup [OF marks(1), of c] by (auto intro!: filter_True)
      qed
    qed (auto simp: resync_for_about)
  qed (rule follows_calm [OF assms(1) _ assms(3)])
qed

end
