(* ===== verification/Pickle_Joint.thy ===== *)
theory Pickle_Joint
  imports Pickle_Converge
begin

text \<open>
  The whole system: the running server of \<open>Pickle_System\<close> together with the permission mirror every
  connected application keeps. A login gives the application its mirror, a delivered frame is folded
  into it, and everything else happens on the server. However the sessions interleave, the mirrors
  never drift from the server.
\<close>

section \<open>Grants name existing roles\<close>

lemma kept_ids:
  assumes "\<And>r. r \<in> S \<Longrightarrow> \<exists>p. r\<lparr>r_position := p\<rparr> \<in> T"
  shows "r_id ` S \<subseteq> r_id ` T"
proof
  fix x
  assume "x \<in> r_id ` S"
  then obtain r where r: "r \<in> S" "x = r_id r" by blast
  obtain p where "r\<lparr>r_position := p\<rparr> \<in> T" using assms [OF r(1)] by blast
  then show "x \<in> r_id ` T" by (rule rev_image_eqI) (simp add: r(2))
qed

lemma known_perm_change:
  assumes "perm_change owner a p p'" and "known p"
  shows "known p'"
  using assms(1)
proof cases
  case (created r)
  then show ?thesis
    using assms(2) kept_ids [of "set (ps_roles p)", OF roles_with_new_kept] by (simp add: known_def grants_def) blast
next
  case (updated i old new)
  have "map r_id (replace_first (\<lambda>r. r_id r = i) new (ps_roles p)) = map r_id (ps_roles p)"
    using replace_first_map [OF updated(2), of r_id new] find_Some_mem [OF updated(2)] updated(4) by simp
  then have "r_id ` set (replace_first (\<lambda>r. r_id r = i) new (ps_roles p)) = r_id ` set (ps_roles p)" by (metis list.set_map)
  then show ?thesis using assms(2) updated(1) by (simp add: known_def grants_def)
next
  case (deleted i)
  let ?rs = "filter (\<lambda>r. r_id r \<noteq> i) (ps_roles p)"
  have "x \<in> r_id ` set (compacted ?rs)" if "x \<in> set (grants p fp)" "x \<noteq> i" for x fp
  proof -
    have "x \<in> r_id ` set ?rs" using assms(2) that by (auto simp: known_def)
    then show ?thesis using kept_ids [of "set ?rs", OF compacted_kept] by blast
  qed
  moreover have "ps_roles (perms_without_role i p) = compacted ?rs" by (simp add: perms_without_role_def)
  ultimately show ?thesis by (auto simp: known_def deleted(1) grants_without)
next
  case (reordered positions)
  then show ?thesis
    using assms(2) kept_ids [of "set (ps_roles p)", OF apply_positions_kept] by (simp add: known_def grants_def) blast
next
  case (granted roles fp)
  moreover have "ps_roles (perms_with_grants fp roles p) = ps_roles p" by (simp add: perms_with_grants_def)
  ultimately show ?thesis using assms(2) by (simp add: known_def grants_with)
qed

lemma known_request:
  "handle_control cr now me m s = Some s' \<Longrightarrow> known (s_perms s) \<Longrightarrow> known (s_perms s')"
  using permitted_request [of cr now me m s s'] known_perm_change by (auto simp: permitted_change_def)

section \<open>Requests\<close>

definition in_step :: "ext \<Rightarrow> (client_id \<Rightarrow> perm_mirror) \<Rightarrow> shared \<Rightarrow> bool" where
  "in_step cr M s \<longleftrightarrow> wf s \<and> coherent cr s \<and> ladder s \<and> known (s_perms s) \<and> follows cr M s"

lemma in_step_request:
  assumes "in_step cr M s" and "handle_control cr now me m s = Some s'"
    and "next_role_id (ps_roles (s_perms s)) \<noteq> 0" and "next_channel_id s \<noteq> 0"
  shows "in_step cr M s'"
proof -
  have i: "wf s" "coherent cr s" "ladder s" "known (s_perms s)" "follows cr M s" using assms(1) by (simp_all add: in_step_def)
  have "follows cr M s'"
  proof (cases "administers m")
    case False
    then show ?thesis using follows_calm [OF i(5) calm_request [OF _ i(2) assms(2)] i(2)] i(1) by (simp add: wf_def)
  next
    case True
    then show ?thesis
      using assms(2-4) i
      by (cases m)
        (auto intro: follows_create_role follows_update_role follows_delete_role follows_reorder_roles follows_set_member_roles
          follows_overwrite follows_create_channel follows_update_channel follows_delete_channel)
  qed
  then show ?thesis
    using i wf_server.handle_control_keeps [OF i(1) assms(3,2)] coherent_server.handle_control_keeps [OF i(2) assms(3,2)]
      ladder.handle_control_keeps [OF i(3) assms(3,2)] known_request [OF assms(2) i(4)]
    by (simp add: in_step_def)
qed

lemma in_step_calm:
  assumes "in_step cr M s" and "calm cr s s'" and "wf s'"
  shows "in_step cr M s'"
proof -
  have p: "s_perms s' = s_perms s" using assms(2) by (simp add: calm_def sends_def)
  then show ?thesis
    using assms follows_calm [of cr M s s'] calm_coherent [OF assms(2)] by (simp add: in_step_def ladder_def)
qed

section \<open>Logins\<close>

text \<open>
  The frames of a successful login give the application the mirror of its session, under the
  fingerprint of the identity it logged in with; the fingerprint generated for the probe is an
  argument. A frame taken off a client's queue reaches its mirror.
\<close>

definition logged_in :: "ext \<Rightarrow> fingerprint \<Rightarrow> (codec_error + client_control) option \<Rightarrow> server_control list \<Rightarrow>
    (client_id \<Rightarrow> perm_mirror) \<Rightarrow> (client_id \<Rightarrow> perm_mirror)" where
  "logged_in cr probe first frames M =
     (case (first, frames) of
        (Some (Inr (Auth auth)), [Hello h, AuthOk k]) \<Rightarrow>
          M(ok_client_id k := from_session cr probe (pi_fingerprint cr (ca_identity auth)) (session_of h k))
      | _ \<Rightarrow> M)"

definition received :: "ext \<Rightarrow> client_id \<Rightarrow> shared \<Rightarrow> (client_id \<Rightarrow> perm_mirror) \<Rightarrow> (client_id \<Rightarrow> perm_mirror)" where
  "received cr c s M =
     (case lookup s c of
        None \<Rightarrow> M
      | Some e \<Rightarrow> (case c_queue e of [] \<Rightarrow> M | f # _ \<Rightarrow> M(c := hear cr f (M c))))"

lemma informs_nothing:
  assumes "sends \<Phi> t w" and "same_standing i i'"
  shows "informs cr t i w i' []"
proof -
  have "view cr w i' = view cr t i" by (rule view_cong) (use assms in \<open>auto simp: sends_def same_standing_def\<close>)
  moreover have "map_option (standing_of cr) (user t x) = Some (standing_of cr j)" if j: "user w x = Some j" for x j
  proof -
    obtain y'' where y'': "lookup w x = Some y''" "j = c_info y''" using j by (auto simp: user_def)
    then obtain y where "lookup t x = Some y" "same_standing (c_info y) (c_info y'')" using assms(1) unfolding sends_def by blast
    then show ?thesis using same_standing_of y''(2) by (simp add: user_def)
  qed
  ultimately show ?thesis using assms by (simp add: informs_def sends_def same_standing_def)
qed

lemma follows_joined:
  assumes "follows cr M s" and wf: "wf t" and coh: "coherent cr t" and l: "ladder t"
    and t: "s_perms t = s_perms s" "s_channels t = s_channels s" "s_clients t = AList.update c (fresh_client info) (s_clients s)"
    and c: "ui_client_id info = c"
    and M': "M' = M(c := from_session cr probe (ui_fingerprint cr info) (session_of hello (auth_ok_frame cr info t)))"
  shows "follows cr M' (broadcast (UserJoined info) (Some c) t)" (is "follows cr M' ?w")
proof -
  have k: "keyed t" using wf by (simp add: wf_def)
  have lk: "lookup t x = (if x = c then Some (fresh_client info) else lookup s x)" for x by (simp add: t(3) update_conv')
  have ids: "distinct (map r_id (ps_roles (s_perms t)))" using l by (simp add: ladder_def ladder_ok_def)
  have cached: "cached_ok cr t info" using lookup_cached [OF coh, of c] lk [of c] by (simp add: fresh_client_def)
  have tw: "sends (\<lambda>x g. g = (if x = c then [] else [UserJoined info])) t ?w"
    by (rule sends_mono [OF sends_fan_out [OF k, of "UserJoined info" "\<lambda>i _. Some i \<noteq> Some c", folded broadcast_fan_out]]) auto
  show ?thesis
  proof (rule follows_sends [OF tw])
    fix x e' e'' g
    assume x: "lookup t x = Some e'" "\<not> c_gone e'" and w: "lookup ?w x = Some e''" "same_standing (c_info e') (c_info e'')"
      and g: "g = (if x = c then [] else [UserJoined info])"
    show "\<exists>s i. agree cr s i (fold (hear cr) (c_queue e') (M' x)) \<and> ui_identity i = ui_identity (c_info e') \<and> informs cr s i ?w (c_info e'') g"
    proof (cases "x = c")
      case True
      then have e': "e' = fresh_client info" using x(1) lk by simp
      have "user t (ui_client_id info) = Some info" using lk [of c] c by (simp add: user_def fresh_client_def)
      then have "agree cr t info (M' c)" unfolding M' by (simp add: session_agrees [OF wf ids])
      moreover have "informs cr t info ?w (c_info e'') []"
        by (rule informs_nothing [OF tw]) (use w(2) in \<open>simp add: e' fresh_client_def\<close>)
      ultimately show ?thesis using True g by (intro exI [of _ t] exI [of _ info]) (simp add: e' fresh_client_def)
    next
      case False
      then have s: "lookup s x = Some e'" using x(1) lk by simp
      have "agree cr s (c_info e') (fold (hear cr) (c_queue e') (M' x))"
        using assms(1) s x(2) False unfolding follows_def M' by simp
      moreover have "informs cr s (c_info e') ?w (c_info e'') g"
      proof -
        have same: "s_perms ?w = s_perms s" "s_channels ?w = s_channels s" using tw t by (simp_all add: sends_def)
        have "view cr ?w (c_info e'') = view cr s (c_info e')" by (rule view_cong) (use same w(2) in \<open>auto simp: same_standing_def\<close>)
        moreover have "(ui_roles info, ui_owner info) = (ui_roles (c_info e'), ui_owner (c_info e'))"
          if "ui_fingerprint cr info = ui_fingerprint cr (c_info e')"
          using cached lookup_cached [OF coh x(1)] that by (simp add: cached_ok_def)
        moreover have "(y = c \<longrightarrow> standing_of cr info = standing_of cr j) \<and>
            (y = c \<or> map_option (standing_of cr) (user s y) = Some (standing_of cr j))" if j: "user ?w y = Some j" for y j
        proof -
          obtain z'' where z'': "lookup ?w y = Some z''" "j = c_info z''" using j by (auto simp: user_def)
          then obtain z where z: "lookup t y = Some z" "same_standing (c_info z) (c_info z'')" using tw unfolding sends_def by blast
          then show ?thesis using lk [of y] same_standing_of [OF z(2), of cr] z''(2) by (auto simp: user_def fresh_client_def)
        qed
        ultimately show ?thesis
          using same w(2) False c by (auto simp: informs_def g same_standing_def)
      qed
      ultimately show ?thesis by blast
    qed
  qed
qed

lemma no_login:
  "logged_in cr probe first [] M = M" "logged_in cr probe first [Hello x] M = M"
  "logged_in cr probe first [Hello x, AuthFailed y] M = M"
  by (auto simp: logged_in_def split: option.splits sum.splits client_control.splits)

lemma handshake_outcomes:
  assumes "handshake cr now nonce hello_ok first reply_ok s = (r, frames, s')"
  shows "(\<exists>st x y. s' = s\<lparr>s_store := st\<rparr> \<and> (frames = [] \<or> frames = [Hello x] \<or> frames = [Hello x, AuthFailed y])) \<or>
    (\<exists>auth st hello. first = Some (Inr (Auth auth)) \<and> admit_and_greet cr now reply_ok hello auth (s\<lparr>s_store := st\<rparr>) = (r, frames, s'))"
proof -
  have s: "s = s\<lparr>s_store := s_store s\<rparr>" by simp
  show ?thesis
  proof (cases "\<exists>auth. first = Some (Inr (Auth auth)) \<and> hello_ok \<and> (\<exists>x. verify_auth cr auth nonce s = Inr x)")
    case True
    then obtain auth where a: "first = Some (Inr (Auth auth))" "hello_ok" "verify_auth cr auth nonce s = Inr ()" by auto
    show ?thesis
    proof (cases "s_store s")
      case None
      then have "admit_and_greet cr now reply_ok (hello_frame cr nonce s) auth s = (r, frames, s')"
        using assms a by (simp add: handshake_def Let_def)
      then show ?thesis using a(1) s by metis
    next
      case (Some st)
      then show ?thesis
        using assms a
        by (cases "active_ban cr (pi_fingerprint cr (ca_identity auth)) now st")
          (auto simp: handshake_def Let_def refuse_auth_def split: sum.splits option.splits if_splits)
    qed
  next
    case False
    then have "s' = s \<and> (\<exists>x y. frames = [] \<or> frames = [Hello x] \<or> frames = [Hello x, AuthFailed y])"
      using assms
      by (auto simp: handshake_def Let_def refuse_auth_def split: if_splits option.splits sum.splits client_control.splits)
    then show ?thesis using s by metis
  qed
qed

lemma in_step_handshake:
  assumes i: "in_step cr M s" and h: "handshake cr now nonce hello_ok first reply_ok s = (r, frames, s')"
  shows "in_step cr (logged_in cr probe first frames M) s'"
proof -
  have k: "keyed s" using i by (simp add: in_step_def wf_def)
  have stays: "in_step cr M s" "in_step cr M (s\<lparr>s_store := st\<rparr>)" for st
  proof -
    have "calm cr s (s\<lparr>s_store := st\<rparr>)" by (rule calm_fields [OF calm_refl [OF k]]) simp_all
    then show "in_step cr M (s\<lparr>s_store := st\<rparr>)" using in_step_calm [OF i] wf_frame(2) i by (simp add: in_step_def)
  qed (rule i)
  have greet: "in_step cr (logged_in cr probe first frames M) s'"
    if i: "in_step cr M t" and g: "admit_and_greet cr now reply_ok hello auth t = (r, frames, s')" and f: "first = Some (Inr (Auth auth))" for t hello auth
  proof (cases rule: admit_exhaust [of cr now "ca_identity auth" "ca_nickname auth" t])
    case (refused x)
    then have "s' = t" "frames = [Hello hello, AuthFailed x] \<or> frames = [Hello hello]"
      using g by (auto simp: admit_and_greet_def refuse_auth_def split: if_splits)
    then show ?thesis using i f by (auto simp: logged_in_def)
  next
    case (admitted n info)
    let ?c = "s_next_client_id t"
    let ?t = "t\<lparr>s_next_client_id := max (s_next_client_id t + 1) 1, s_clients := AList.update ?c (fresh_client info) (s_clients t)\<rparr>"
    have c: "ui_client_id info = ?c" "ui_identity info = ca_identity auth" by (simp_all add: admitted(3) fresh_info_def)
    have wt: "wf ?t" "coherent cr ?t" "ladder ?t" "known (s_perms ?t)" "follows cr M t"
      using i wf_admit [of t cr now "ca_identity auth" "ca_nickname auth"] coherent_admit [of cr t now "ca_identity auth" "ca_nickname auth"]
      by (simp_all add: in_step_def admitted(4) ladder_def)
    show ?thesis
    proof (cases reply_ok)
      case False
      then have s': "s' = ?t\<lparr>s_clients := AList.delete ?c (s_clients ?t)\<rparr>" and fr: "frames = [Hello hello]"
        using g by (auto simp: admit_and_greet_def admitted(4) remove_client_def c(1))
      have "wf s'" unfolding s' by (rule wf_quiet [OF wt(1) quiet_delete])
      moreover have "calm cr t s'"
        by (rule calm_entries [OF calm_refl])
          (use i \<open>wf s'\<close> in \<open>auto simp: s' in_step_def wf_def delete_conv' update_conv' split: if_splits\<close>)
      ultimately show ?thesis using in_step_calm [OF i] f by (simp add: logged_in_def fr)
    next
      case True
      then have s': "s' = broadcast (UserJoined info) (Some ?c) ?t" and fr: "frames = [Hello hello, AuthOk (auth_ok_frame cr info ?t)]"
        using g by (auto simp: admit_and_greet_def admitted(4) c(1))
      let ?M = "M(?c := from_session cr probe (ui_fingerprint cr info) (session_of hello (auth_ok_frame cr info ?t)))"
      have "logged_in cr probe first frames M = ?M"
        by (simp add: logged_in_def f fr c(1) auth_ok_frame_def ui_fingerprint_def c(2))
      moreover have "follows cr ?M s'" unfolding s'
        by (rule follows_joined [OF wt(5,1-3) _ _ _ c(1) refl]) simp_all
      moreover have q: "quiet ?t s'" unfolding s' by (rule quiet_broadcast)
      ultimately show ?thesis
        using wf_quiet [OF wt(1) q] coherent_quiet [OF wt(2) q] wt(3,4) quiet_fields(5) [OF q] by (simp add: in_step_def ladder_def)
    qed
  qed
  from handshake_outcomes [OF h] show ?thesis
  proof (elim disjE exE conjE)
    fix auth st hello
    assume "first = Some (Inr (Auth auth))" "admit_and_greet cr now reply_ok hello auth (s\<lparr>s_store := st\<rparr>) = (r, frames, s')"
    then show ?thesis using greet [OF stays(2)] by blast
  qed (use stays in \<open>auto simp: no_login\<close>)
qed

lemma in_step_deliver:
  assumes "in_step cr M s"
  shows "in_step cr (received cr c s M) (deliver c s)"
proof -
  have "follows cr (received cr c s M) (deliver c s)"
    unfolding follows_def
  proof (intro allI impI, elim conjE)
    fix x e'
    assume x: "lookup (deliver c s) x = Some e'" and alive: "\<not> c_gone e'"
    obtain e where e: "lookup s x = Some e" "e' = (if x = c then e\<lparr>c_queue := tl (c_queue e)\<rparr> else e)"
      using x by (auto simp: deliver_def map_of_map_entry split: if_splits option.splits)
    have "agree cr s (c_info e) (fold (hear cr) (c_queue e) (M x))"
      using assms e alive unfolding in_step_def follows_def by (auto split: if_splits)
    moreover have "fold (hear cr) (c_queue e') (received cr c s M x) = fold (hear cr) (c_queue e) (M x)"
      using e by (cases "c_queue e") (auto simp: received_def split: option.splits list.splits)
    moreover have "agree cr (deliver c s) = agree cr s"
    proof -
      have "user (deliver c s) y = user s y" for y
        by (auto simp: user_def deliver_def map_of_map_entry split: option.splits)
      moreover have "view cr (deliver c s) i = view cr s i" for i by (rule view_cong) (simp_all add: deliver_def)
      ultimately show ?thesis by (simp add: agree_def fun_eq_iff) (simp add: deliver_def)
    qed
    moreover have "c_info e' = c_info e" using e(2) by simp
    ultimately show "agree cr (deliver c s) (c_info e') (fold (hear cr) (c_queue e') (received cr c s M x))"
      by (simp only:)
  qed
  then show ?thesis
    using assms running_wf.deliver_keeps running_coherent.deliver_keeps running_ladder.deliver_keeps
    by (simp add: in_step_def) (simp add: deliver_def)
qed

section \<open>The joint system\<close>

text \<open>
  A step of the server with the mirrors of its clients. The shutdown, which tells every client that
  it left, is not part of it. A request is excluded only if the 32-bit counter of role or channel
  ids is exhausted.
\<close>

inductive joint_step :: "ext \<Rightarrow> event \<Rightarrow> shared \<times> (client_id \<Rightarrow> perm_mirror) \<Rightarrow> shared \<times> (client_id \<Rightarrow> perm_mirror) \<Rightarrow> bool"
  for cr :: ext where
  login: "handshake cr now nonce hello_ok first reply_ok s = (r, frames, s') \<Longrightarrow>
    joint_step cr EConnect (s, M) (s', logged_in cr probe first frames M)"
| request: "next_role_id (ps_roles (s_perms s)) \<noteq> 0 \<Longrightarrow> next_channel_id s \<noteq> 0 \<Longrightarrow>
    handle_control cr now me message s = Some s' \<Longrightarrow> joint_step cr (ERequest me message) (s, M) (s', M)"
| delivery: "joint_step cr (EDeliver me) (s, M) (deliver me s, received cr me s M)"
| other: "server_step cr e s s' \<Longrightarrow> e \<noteq> EConnect \<Longrightarrow> e \<noteq> EShutdown \<Longrightarrow> (\<And>me m. e \<noteq> ERequest me m) \<Longrightarrow>
    (\<And>me. e \<noteq> EDeliver me) \<Longrightarrow> joint_step cr e (s, M) (s', M)"

inductive joint_run :: "ext \<Rightarrow> shared \<Rightarrow> event list \<Rightarrow> shared \<times> (client_id \<Rightarrow> perm_mirror) \<Rightarrow> bool"
  for cr :: ext and s0 :: shared where
  joint_start: "joint_run cr s0 [] (s0, M)"
| joint_further: "joint_run cr s0 es x \<Longrightarrow> joint_step cr e x y \<Longrightarrow> joint_run cr s0 (es @ [e]) y"

lemma calm_other:
  assumes "server_step cr e s s'" and "keyed s" and "e \<noteq> EConnect" "e \<noteq> EShutdown" "\<And>me m. e \<noteq> ERequest me m" "\<And>me. e \<noteq> EDeliver me"
  shows "calm cr s s'"
  using assms
  by (induction rule: server_step.induct)
    (auto intro: calm_datagram_in calm_hang_up calm_end_session calm_send calm_refl)

lemma in_step_joint: "joint_step cr e x y \<Longrightarrow> in_step cr (snd x) (fst x) \<Longrightarrow> in_step cr (snd y) (fst y)"
proof (induction rule: joint_step.induct)
  case (login now nonce hello_ok first reply_ok s r frames s' M probe)
  then show ?case using in_step_handshake by simp
next
  case (request s now me message s' M)
  then show ?case using in_step_request by simp
next
  case (delivery me s M)
  then show ?case using in_step_deliver by simp
next
  case (other e s s' M)
  then have i: "in_step cr M s" and k: "keyed s" by (simp_all add: in_step_def wf_def)
  have "wf s'" using i running_wf.step_keeps [OF other(1)] by (simp add: in_step_def)
  then show ?case using in_step_calm [OF i calm_other [OF other(1) k other(2-5)]] by simp
qed

lemma in_step_joint_run: "joint_run cr s0 es x \<Longrightarrow> s_clients s0 = [] \<Longrightarrow> wf s0 \<Longrightarrow> ladder s0 \<Longrightarrow> known (s_perms s0) \<Longrightarrow> in_step cr (snd x) (fst x)"
proof (induction rule: joint_run.induct)
  case (joint_start M)
  then show ?case by (simp add: in_step_def follows_def coherent_def)
next
  case (joint_further es x e y)
  then show ?case using in_step_joint by blast
qed


end
