(* ===== verification/Pickle_Profile.thy ===== *)
theory Pickle_Profile
  imports Pickle_Rekey Pickle_Gate "HOL-Library.Countable"
begin

text \<open>
  What the desktop application keeps beside its keys: saved servers
  (\<open>apps/desktop/src-tauri/src/bookmarks.rs\<close>) and preferences (\<open>settings.rs\<close>), on the disk of
  \<open>Pickle_Files\<close>, with the bookmark commands of \<open>commands.rs\<close>. The JSON printer and reader are
  parameters. Where a command returns the text of an error the model returns the error. Shown are
  that an interrupted save costs nothing, that the number of a bookmark is never given to another
  one, and what becomes of a settings file that cannot be read.
\<close>

section \<open>Bookmarks\<close>

definition BOOKMARKS_VERSION :: u32 where "BOOKMARKS_VERSION = 1"

datatype bookmark_error =
    BmIo path io_error
  | BmMalformed path
  | BmUnsupportedVersion path u32 u32
  | BmPermissionsTooOpen path u32
  | BmNotFound u64

record bookmark =
  bm_id :: u64
  bm_label :: ustring
  bm_address :: ustring
  bm_password :: "ustring option"
  bm_identity :: "ustring option"

record bookmark_input =
  bi_label :: ustring
  bi_address :: ustring
  bi_password :: "ustring option"
  bi_identity :: "ustring option"

record stored_bookmarks =
  sb_version :: u32
  sb_next_id :: u64
  sb_entries :: "bookmark list"

record bookmarks =
  bs_path :: path
  bs_next_id :: u64
  bs_entries :: "bookmark list"

section \<open>Settings\<close>

datatype stored_gate_mode = StoredVoiceActivity | StoredPushToTalk | StoredContinuous

fun gate_mode_of :: "stored_gate_mode \<Rightarrow> gate_mode" where
  "gate_mode_of StoredVoiceActivity = VoiceActivity"
| "gate_mode_of StoredPushToTalk = PushToTalk"
| "gate_mode_of StoredContinuous = Continuous"

record audio_settings =
  as_input_device :: "ustring option"
  as_output_device :: "ustring option"
  as_bitrate :: u32
  as_gate_mode :: stored_gate_mode

definition DEFAULT_BITRATE :: u32 where "DEFAULT_BITRATE = 32000"

definition audio_settings_default :: audio_settings where
  "audio_settings_default = \<lparr>as_input_device = None, as_output_device = None, as_bitrate = DEFAULT_BITRATE,
     as_gate_mode = StoredVoiceActivity\<rparr>"

definition needs_restart :: "audio_settings \<Rightarrow> audio_settings \<Rightarrow> bool" where
  "needs_restart a next_a \<longleftrightarrow>
     as_input_device a \<noteq> as_input_device next_a \<or> as_output_device a \<noteq> as_output_device next_a \<or>
     as_bitrate a \<noteq> as_bitrate next_a"

record keybinds =
  kb_push_to_talk :: "ustring option"
  kb_toggle_mute :: "ustring option"
  kb_toggle_deafen :: "ustring option"

record open_connection =
  oc_address :: ustring
  oc_identity :: ustring

record settings =
  st_audio :: audio_settings
  st_keybinds :: keybinds
  st_connections :: "open_connection list"

definition settings_default :: settings where
  "settings_default = \<lparr>st_audio = audio_settings_default,
     st_keybinds = \<lparr>kb_push_to_talk = None, kb_toggle_mute = None, kb_toggle_deafen = None\<rparr>, st_connections = []\<rparr>"

text \<open>The JSON library, on the documents of both files.\<close>

record profile_lib =
  print_bookmarks :: "stored_bookmarks \<Rightarrow> bytes"
  parse_bookmarks :: "bytes \<Rightarrow> stored_bookmarks option"
  print_settings :: "settings \<Rightarrow> bytes"
  parse_settings :: "bytes \<Rightarrow> settings option"

section \<open>Reading and writing bookmarks\<close>

definition bm_check_permissions :: "path \<Rightarrow> disk \<Rightarrow> (bookmark_error + unit) \<times> disk" where
  "bm_check_permissions p d =
     and_then (map_err (BmIo p) (metadata_mode p d)) (\<lambda>mode d.
       let mode = mode AND 511
       in if mode AND 63 \<noteq> 0 then (Inl (BmPermissionsTooOpen p mode), d) else (Inr (), d))"

text \<open>The counter wraps, as in a release build.\<close>

definition bookmarks_of :: "path \<Rightarrow> stored_bookmarks \<Rightarrow> bookmark_error + bookmarks" where
  "bookmarks_of p stored =
     (if sb_version stored \<noteq> BOOKMARKS_VERSION then
        Inl (BmUnsupportedVersion p (sb_version stored) BOOKMARKS_VERSION)
      else
        let highest = fold max (map bm_id (sb_entries stored)) 0
        in Inr \<lparr>bs_path = p, bs_next_id = max (sb_next_id stored) (highest + 1), bs_entries = sb_entries stored\<rparr>)"

definition bookmarks_open :: "profile_lib \<Rightarrow> path \<Rightarrow> disk \<Rightarrow> (bookmark_error + bookmarks) \<times> disk" where
  "bookmarks_open L p d =
     (case read_to_string p d of
        (Inl Missing, d) \<Rightarrow> (Inr \<lparr>bs_path = p, bs_next_id = 1, bs_entries = []\<rparr>, d)
      | (Inl e, d) \<Rightarrow> (Inl (BmIo p e), d)
      | (Inr raw, d) \<Rightarrow>
          and_then (bm_check_permissions p d) (\<lambda>_ d.
            (case parse_bookmarks L raw of
               None \<Rightarrow> Inl (BmMalformed p)
             | Some stored \<Rightarrow> bookmarks_of p stored, d)))"

text \<open>\<open>password.filter(|p| !p.is_empty())\<close>.\<close>

definition nonempty :: "ustring option \<Rightarrow> ustring option" where
  "nonempty s = (case s of Some [] \<Rightarrow> None | _ \<Rightarrow> s)"

definition bookmarks_add :: "bookmark_input \<Rightarrow> bookmarks \<Rightarrow> bookmark \<times> bookmarks" where
  "bookmarks_add i b =
     (let e = \<lparr>bm_id = bs_next_id b, bm_label = bi_label i, bm_address = bi_address i,
               bm_password = nonempty (bi_password i), bm_identity = bi_identity i\<rparr>
      in (e, b\<lparr>bs_next_id := bs_next_id b + 1, bs_entries := bs_entries b @ [e]\<rparr>))"

definition bookmarks_update :: "u64 \<Rightarrow> bookmark_input \<Rightarrow> bookmarks \<Rightarrow> bookmark_error + bookmarks" where
  "bookmarks_update i inp b =
     (case update_first (\<lambda>e. bm_id e = i)
             (\<lambda>e. e\<lparr>bm_label := bi_label inp, bm_address := bi_address inp,
                    bm_password := nonempty (bi_password inp), bm_identity := bi_identity inp\<rparr>) (bs_entries b) of
        None \<Rightarrow> Inl (BmNotFound i)
      | Some es \<Rightarrow> Inr (b\<lparr>bs_entries := es\<rparr>))"

definition bookmarks_remove :: "u64 \<Rightarrow> bookmarks \<Rightarrow> bool \<times> bookmarks" where
  "bookmarks_remove i b =
     (let es = filter (\<lambda>e. bm_id e \<noteq> i) (bs_entries b)
      in (length es \<noteq> length (bs_entries b), b\<lparr>bs_entries := es\<rparr>))"

definition stored_bookmarks_of :: "bookmarks \<Rightarrow> stored_bookmarks" where
  "stored_bookmarks_of b = \<lparr>sb_version = BOOKMARKS_VERSION, sb_next_id = bs_next_id b, sb_entries = bs_entries b\<rparr>"

definition bookmarks_save :: "profile_lib \<Rightarrow> bookmarks \<Rightarrow> disk \<Rightarrow> (bookmark_error + unit) \<times> disk" where
  "bookmarks_save L b d =
     (let json = print_bookmarks L (stored_bookmarks_of b);
          tmp = with_extension (u ''tmp'') (bs_path b)
      in map_err (BmIo (bs_path b))
           (and_then (ensure_parent (bs_path b) d) (\<lambda>_ d.
            and_then (create_private tmp d) (\<lambda>_ d.
            and_then (write_all tmp json d) (\<lambda>_ d.
            and_then (write_all tmp [10] d) (\<lambda>_ d.
            and_then (sync_all d) (\<lambda>_ d.
              rename_file tmp (bs_path b) d)))))))"

section \<open>Bookmark commands\<close>

definition list_bookmarks :: "profile_lib \<Rightarrow> path \<Rightarrow> disk \<Rightarrow> (bookmark_error + bookmark list) \<times> disk" where
  "list_bookmarks L p d = and_then (bookmarks_open L p d) (\<lambda>b d. (Inr (bs_entries b), d))"

definition add_bookmark :: "profile_lib \<Rightarrow> path \<Rightarrow> bookmark_input \<Rightarrow> disk \<Rightarrow> (bookmark_error + bookmark list) \<times> disk" where
  "add_bookmark L p i d =
     and_then (bookmarks_open L p d) (\<lambda>b d.
       let b = snd (bookmarks_add i b)
       in and_then (bookmarks_save L b d) (\<lambda>_ d. (Inr (bs_entries b), d)))"

definition update_bookmark ::
  "profile_lib \<Rightarrow> path \<Rightarrow> u64 \<Rightarrow> bookmark_input \<Rightarrow> disk \<Rightarrow> (bookmark_error + bookmark list) \<times> disk" where
  "update_bookmark L p i inp d =
     and_then (bookmarks_open L p d) (\<lambda>b d.
       case bookmarks_update i inp b of
         Inl e \<Rightarrow> (Inl e, d)
       | Inr b \<Rightarrow> and_then (bookmarks_save L b d) (\<lambda>_ d. (Inr (bs_entries b), d)))"

definition remove_bookmark :: "profile_lib \<Rightarrow> path \<Rightarrow> u64 \<Rightarrow> disk \<Rightarrow> (bookmark_error + bookmark list) \<times> disk" where
  "remove_bookmark L p i d =
     and_then (bookmarks_open L p d) (\<lambda>b d.
       let b = snd (bookmarks_remove i b)
       in and_then (bookmarks_save L b d) (\<lambda>_ d. (Inr (bs_entries b), d)))"

section \<open>Reading and writing settings\<close>

text \<open>\<open>File::create\<close>: the mode of a new file comes from the umask, an argument.\<close>

definition create_file :: "u32 \<Rightarrow> path \<Rightarrow> disk \<Rightarrow> (io_error + unit) \<times> disk" where
  "create_file mode p d =
     (case call d of
        (Some _, d) \<Rightarrow> (Inl OtherIo, d)
      | (None, d) \<Rightarrow>
          (Inr (), d\<lparr>d_files := (d_files d)(p := Some
             \<lparr>f_bytes = [], f_mode = (case d_files d p of None \<Rightarrow> mode | Some f \<Rightarrow> f_mode f)\<rparr>)\<rparr>))"

definition settings_load :: "profile_lib \<Rightarrow> path \<Rightarrow> disk \<Rightarrow> settings \<times> disk" where
  "settings_load L p d =
     (case read_to_string p d of
        (Inl _, d) \<Rightarrow> (settings_default, d)
      | (Inr raw, d) \<Rightarrow>
          (case parse_settings L raw of
             Some s \<Rightarrow> (s, d)
           | None \<Rightarrow> (settings_default, snd (rename_file p (with_extension (u ''json.bad'') p) d))))"

definition settings_save :: "profile_lib \<Rightarrow> u32 \<Rightarrow> path \<Rightarrow> settings \<Rightarrow> disk \<Rightarrow> (io_error + unit) \<times> disk" where
  "settings_save L mode p s d =
     (let json = print_settings L s; tmp = with_extension (u ''tmp'') p
      in and_then (ensure_parent p d) (\<lambda>_ d.
         and_then (create_file mode tmp d) (\<lambda>_ d.
         and_then (write_all tmp json d) (\<lambda>_ d.
         and_then (write_all tmp [10] d) (\<lambda>_ d.
         and_then (sync_all d) (\<lambda>_ d.
           rename_file tmp p d))))))"

section \<open>Saves replace the file as a whole\<close>

lemma bookmarks_save_frame: "bookmarks_save L b d = (r, d') \<Longrightarrow> touches_only {bs_path b, tmp_of (bs_path b)} d d'"
  by (auto simp: bookmarks_save_def map_err_def and_then_def disk_calls touches_only_def Let_def split: option.splits if_splits)

lemma bookmarks_save_failed:
  "sound_path (bs_path b) \<Longrightarrow> bookmarks_save L b d = (Inl e, d') \<Longrightarrow> d_files d' (bs_path b) = d_files d (bs_path b)"
  by (auto simp: bookmarks_save_def map_err_def and_then_def disk_calls Let_def split: option.splits if_splits)

lemma bookmarks_save_stored:
  "sound_path (bs_path b) \<Longrightarrow> bookmarks_save L b d = (Inr (), d') \<Longrightarrow>
    d_files d' (bs_path b) = Some \<lparr>f_bytes = print_bookmarks L (stored_bookmarks_of b) @ [10],
      f_mode = private_mode (d_files d (tmp_of (bs_path b)))\<rparr> \<and> d_files d' (tmp_of (bs_path b)) = None"
  by (auto simp: bookmarks_save_def map_err_def and_then_def disk_calls private_mode_def Let_def split: option.splits if_splits)

lemma stored_bookmarks_path [simp]: "stored_bookmarks_of (b\<lparr>bs_path := p\<rparr>) = stored_bookmarks_of b"
  by (simp add: stored_bookmarks_of_def)

interpretation bk: private_writer "\<lambda>p b. bookmarks_save L (b\<lparr>bs_path := p\<rparr>)"
    "\<lambda>b. Some (print_bookmarks L (stored_bookmarks_of b) @ [10])" for L :: profile_lib
proof (unfold_locales, goal_cases)
  case (1 p b d r d')
  then show ?case using bookmarks_save_frame by fastforce
next
  case (2 p b d e d')
  then show ?case using bookmarks_save_failed [of "b\<lparr>bs_path := p\<rparr>" L d e d'] by simp
next
  case (3 p b d d')
  then show ?case using bookmarks_save_stored [of "b\<lparr>bs_path := p\<rparr>" L d d'] by simp
next
  case (4 p b d d')
  then show ?case using bookmarks_save_stored [of "b\<lparr>bs_path := p\<rparr>" L d d'] by simp
qed

interpretation se: whole_writer "settings_save L mode" "\<lambda>s. Some (print_settings L s @ [10])"
  for L :: profile_lib and mode :: u32
proof (unfold_locales, goal_cases)
  case (1 p s d r d')
  then show ?case
    by (auto simp: settings_save_def create_file_def and_then_def disk_calls touches_only_def Let_def split: option.splits if_splits)
next
  case (2 p s d e d')
  then show ?case
    by (auto simp: settings_save_def create_file_def and_then_def disk_calls Let_def split: option.splits if_splits)
next
  case (3 p s d d')
  then show ?case
    by (auto simp: settings_save_def create_file_def and_then_def disk_calls Let_def split: option.splits if_splits)
qed

section \<open>What the bookmark file holds\<close>

definition shelf :: "profile_lib \<Rightarrow> path \<Rightarrow> disk \<Rightarrow> bookmarks option" where
  "shelf L p d =
     (case d_files d p of
        None \<Rightarrow> Some \<lparr>bs_path = p, bs_next_id = 1, bs_entries = []\<rparr>
      | Some f \<Rightarrow>
          if is_utf8 (f_bytes f) \<and> f_mode f AND 63 = 0
          then (case parse_bookmarks L (f_bytes f) of None \<Rightarrow> None | Some doc \<Rightarrow> ok (bookmarks_of p doc)) else None)"

lemma shelf_cong: "d_files d' p = d_files d p \<Longrightarrow> shelf L p d' = shelf L p d"
  by (simp add: shelf_def)

lemma shelf_path: "shelf L p d = Some b \<Longrightarrow> bs_path b = p"
  by (auto simp: shelf_def bookmarks_of_def Let_def split: option.splits if_splits sum.splits)

lemma bookmarks_open_shelf:
  assumes "bookmarks_open L p d = (r, d')"
  shows "d_files d' = d_files d" and "r = Inr b \<Longrightarrow> shelf L p d = Some b"
  using assms
  by (auto simp: bookmarks_open_def bm_check_permissions_def shelf_def map_err_def and_then_def disk_calls Let_def
      private_and split: option.splits if_splits prod.splits sum.splits io_error.splits)

text \<open>The commands have one shape: open, change, save.\<close>

datatype bookmark_command = AddBookmark bookmark_input | UpdateBookmark u64 bookmark_input | RemoveBookmark u64

fun do_bookmark :: "profile_lib \<Rightarrow> path \<Rightarrow> bookmark_command \<Rightarrow> disk \<Rightarrow> (bookmark_error + bookmark list) \<times> disk" where
  "do_bookmark L p (AddBookmark i) d = add_bookmark L p i d"
| "do_bookmark L p (UpdateBookmark n i) d = update_bookmark L p n i d"
| "do_bookmark L p (RemoveBookmark n) d = remove_bookmark L p n d"

fun bookmark_change :: "bookmark_command \<Rightarrow> bookmarks \<Rightarrow> bookmark_error + bookmarks" where
  "bookmark_change (AddBookmark i) b = Inr (snd (bookmarks_add i b))"
| "bookmark_change (UpdateBookmark n i) b = bookmarks_update n i b"
| "bookmark_change (RemoveBookmark n) b = Inr (snd (bookmarks_remove n b))"

lemma bookmark_command_shape:
  "do_bookmark L p c d = and_then (bookmarks_open L p d) (\<lambda>b d.
     case bookmark_change c b of
       Inl e \<Rightarrow> (Inl e, d)
     | Inr b \<Rightarrow> and_then (bookmarks_save L b d) (\<lambda>_ d. (Inr (bs_entries b), d)))"
  by (cases c) (simp_all add: add_bookmark_def update_bookmark_def remove_bookmark_def Let_def)

lemma bookmark_change_path: "bookmark_change c b = Inr b' \<Longrightarrow> bs_path b' = bs_path b"
  by (cases c) (auto simp: bookmarks_add_def bookmarks_update_def bookmarks_remove_def Let_def split: option.splits)

text \<open>
  A bookmark command fails and leaves the file as it was, or the file then holds exactly the changed
  list, which it returns.
\<close>

theorem bookmark_commands_are_exact:
  assumes "do_bookmark L p c d = (r, d')" and "sound_path p"
  shows "case r of
      Inl _ \<Rightarrow> d_files d' p = d_files d p
    | Inr es \<Rightarrow> \<exists>b b'. shelf L p d = Some b \<and> bookmark_change c b = Inr b' \<and> es = bs_entries b' \<and>
        d_files d' p = Some \<lparr>f_bytes = print_bookmarks L (stored_bookmarks_of b') @ [10],
          f_mode = private_mode (d_files d (tmp_of p))\<rparr>"
  using assms(1) unfolding bookmark_command_shape
proof (cases rule: and_then_cases)
  case (failed e d0)
  then show ?thesis using bookmarks_open_shelf(1) [OF failed(1)] by simp
next
  case (went_on b d0)
  note o = bookmarks_open_shelf [OF went_on(1)]
  have b: "shelf L p d = Some b" using o(2) by simp
  show ?thesis
  proof (cases "bookmark_change c b")
    case (Inl e)
    then show ?thesis using went_on(2) o(1) by auto
  next
    case (Inr b')
    have path: "bs_path b' = p" using bookmark_change_path [OF Inr] shelf_path [OF b] by simp
    have "and_then (bookmarks_save L b' d0) (\<lambda>_ d. (Inr (bs_entries b'), d)) = (r, d')" using went_on(2) Inr by simp
    then show ?thesis
    proof (cases rule: and_then_cases)
      case (failed e d1)
      then show ?thesis using bookmarks_save_failed [of b' L d0 e d1] path assms(2) o(1) by simp
    next
      case (went_on x d1)
      then have "bookmarks_save L b' d0 = (Inr (), d')" by simp
      from bookmarks_save_stored [OF _ this] show ?thesis using path assms(2) o(1) b Inr went_on(2) by auto
    qed
  qed
qed

section \<open>Numbers of bookmarks\<close>

definition counted :: "bookmarks \<Rightarrow> bool" where
  "counted b \<longleftrightarrow> bs_next_id b \<noteq> 0 \<and> (\<forall>e\<in>set (bs_entries b). bm_id e < bs_next_id b)"

lemma counted_numbers: "counted b \<longleftrightarrow> bs_next_id b \<noteq> 0 \<and> (\<forall>i\<in>bm_id ` set (bs_entries b). i < bs_next_id b)"
  by (simp add: counted_def)

definition bookmarks_print :: "profile_lib \<Rightarrow> bool" where
  "bookmarks_print L \<longleftrightarrow> (\<forall>doc. is_utf8 (print_bookmarks L doc @ [10]) \<and> parse_bookmarks L (print_bookmarks L doc @ [10]) = Some doc)"

definition numbers_on_file :: "profile_lib \<Rightarrow> path \<Rightarrow> disk \<Rightarrow> u64 set" where
  "numbers_on_file L p d = (case shelf L p d of None \<Rightarrow> {} | Some b \<Rightarrow> bm_id ` set (bs_entries b))"

lemma fold_max_less: "(a :: 'a :: linorder) < n \<Longrightarrow> \<forall>x\<in>set xs. x < n \<Longrightarrow> fold max xs a < n"
  by (induction xs arbitrary: a) auto

lemma counted_reopens:
  assumes "counted b"
  shows "bookmarks_of p (stored_bookmarks_of b) = Inr (b\<lparr>bs_path := p\<rparr>)"
proof -
  let ?h = "fold max (map bm_id (bs_entries b)) 0"
  have "?h < bs_next_id b" by (rule fold_max_less) (use assms in \<open>auto simp: counted_def word_neq_0_conv\<close>)
  then have "?h + 1 \<le> bs_next_id b" by (rule inc_le)
  then show ?thesis by (cases b) (simp add: bookmarks_of_def stored_bookmarks_of_def Let_def max_def)
qed

lemma update_first_image: "update_first P f xs = Some ys \<Longrightarrow> (\<And>x. h (f x) = h x) \<Longrightarrow> h ` set ys = h ` set xs"
  using update_first_keeps [of h f P xs ys] by (metis list.set_map)

lemma bookmark_change_counts:
  assumes "bookmark_change c b = Inr b'" and "counted b" and "bs_next_id b \<noteq> - 1"
  shows "counted b' \<and> bs_next_id b \<le> bs_next_id b' \<and> unat (bs_next_id b') \<le> Suc (unat (bs_next_id b)) \<and>
    bm_id ` set (bs_entries b') \<subseteq> bm_id ` set (bs_entries b) \<union> {i. bs_next_id b \<le> i}"
proof -
  let ?n = "bs_next_id b"
  have "1 + ?n \<noteq> 0" using assms(3) by (metis add_eq_0_iff minus_minus)
  then have n: "unat (?n + 1) = Suc (unat ?n)" by (simp add: unatSuc add.commute)
  then have less: "?n < ?n + 1" by (simp add: word_less_nat_alt)
  have ids: "\<forall>i\<in>bm_id ` set (bs_entries b). i < ?n" using assms(2) by (simp add: counted_def)
  show ?thesis
  proof (cases c)
    case (AddBookmark i)
    then have "bs_next_id b' = ?n + 1" "bm_id ` set (bs_entries b') = insert ?n (bm_id ` set (bs_entries b))"
      using assms(1) by (auto simp: bookmarks_add_def Let_def)
    moreover have "?n + 1 \<noteq> 0" using less by auto
    moreover have "\<forall>i\<in>insert ?n (bm_id ` set (bs_entries b)). i < ?n + 1" using ids less by (auto intro: less_trans)
    ultimately show ?thesis using less n unfolding counted_numbers by (simp add: less_imp_le)
  next
    case (UpdateBookmark m i)
    then obtain es f where "update_first (\<lambda>e. bm_id e = m) f (bs_entries b) = Some es" "b' = b\<lparr>bs_entries := es\<rparr>"
        "\<And>e. bm_id (f e) = bm_id e"
      using assms(1) by (auto simp: bookmarks_update_def split: option.splits)
    then have "bs_next_id b' = ?n" "bm_id ` set (bs_entries b') = bm_id ` set (bs_entries b)"
      using update_first_image [of _ f "bs_entries b" es bm_id] by auto
    then show ?thesis using assms(2) unfolding counted_numbers by simp
  next
    case (RemoveBookmark m)
    then have "bs_next_id b' = ?n" "set (bs_entries b') \<subseteq> set (bs_entries b)"
      using assms(1) by (auto simp: bookmarks_remove_def Let_def)
    then show ?thesis using assms(2) by (auto simp: counted_def)
  qed
qed

text \<open>One command, with a counter that is not at its end.\<close>

lemma bookmark_step:
  assumes "bookmarks_print L" and "sound_path p" and "shelf L p d = Some b" and "counted b" and "bs_next_id b \<noteq> - 1"
    and "do_bookmark L p c d = (r, d')"
  shows "shelf L p d' = None \<or> (\<exists>b'. shelf L p d' = Some b' \<and> counted b' \<and> bs_next_id b \<le> bs_next_id b' \<and>
    unat (bs_next_id b') \<le> Suc (unat (bs_next_id b)) \<and>
    bm_id ` set (bs_entries b') \<subseteq> bm_id ` set (bs_entries b) \<union> {i. bs_next_id b \<le> i})"
proof (cases r)
  case (Inl e)
  then have "shelf L p d' = shelf L p d" using bookmark_commands_are_exact [OF assms(6,2)] by (intro shelf_cong) simp
  then show ?thesis using assms(3,4) by auto
next
  case (Inr es)
  then obtain b' where b': "bookmark_change c b = Inr b'"
    and fl: "d_files d' p = Some \<lparr>f_bytes = print_bookmarks L (stored_bookmarks_of b') @ [10], f_mode = private_mode (d_files d (tmp_of p))\<rparr>"
    using bookmark_commands_are_exact [OF assms(6,2)] assms(3) by auto
  note c = bookmark_change_counts [OF b' assms(4,5)]
  have "bs_path b' = p" using bookmark_change_path [OF b'] shelf_path [OF assms(3)] by simp
  then have "shelf L p d' = None \<or> shelf L p d' = Some b'"
    using assms(1) counted_reopens [of b' p] c by (auto simp: shelf_def fl bookmarks_print_def)
  then show ?thesis using c by blast
qed

definition bookmark_run :: "profile_lib \<Rightarrow> path \<Rightarrow> bookmark_command list \<Rightarrow> disk \<Rightarrow> disk" where
  "bookmark_run L p cs d = fold (\<lambda>c d. snd (do_bookmark L p c d)) cs d"

lemma lost_shelf_stays_lost: "sound_path p \<Longrightarrow> shelf L p d = None \<Longrightarrow> shelf L p (bookmark_run L p cs d) = None"
proof (induction cs arbitrary: d)
  case (Cons c cs)
  obtain r d' where c: "do_bookmark L p c d = (r, d')" by force
  have "d_files d' p = d_files d p"
    using bookmark_commands_are_exact [OF c Cons.prems(1)] Cons.prems(2) by (cases r) auto
  then have "shelf L p d' = None" using shelf_cong Cons.prems(2) by metis
  then show ?case using Cons.IH [OF Cons.prems(1)] c by (simp add: bookmark_run_def)
qed (simp add: bookmark_run_def)

lemma bookmark_run_counts:
  assumes "bookmarks_print L" and "sound_path p" and "shelf L p d = Some b" and "counted b"
    and "unat (bs_next_id b) + length cs < 2 ^ 64"
  shows "shelf L p (bookmark_run L p cs d) = None \<or>
    (\<exists>b'. shelf L p (bookmark_run L p cs d) = Some b' \<and> counted b' \<and> bs_next_id b \<le> bs_next_id b' \<and>
      unat (bs_next_id b') \<le> unat (bs_next_id b) + length cs \<and>
      bm_id ` set (bs_entries b') \<subseteq> bm_id ` set (bs_entries b) \<union> {i. bs_next_id b \<le> i})"
  using assms(3-5)
proof (induction cs arbitrary: d b)
  case Nil
  then show ?case by (simp add: bookmark_run_def)
next
  case (Cons c cs)
  obtain r d' where c: "do_bookmark L p c d = (r, d')" by force
  then have run: "bookmark_run L p (c # cs) d = bookmark_run L p cs d'" by (simp add: bookmark_run_def)
  have "bs_next_id b \<noteq> - 1" using Cons.prems(3) by (auto simp: unsigned_minus_1_eq_mask mask_eq_exp_minus_1)
  from bookmark_step [OF assms(1,2) Cons.prems(1,2) this c] show ?case
  proof (elim disjE exE conjE)
    assume "shelf L p d' = None"
    then show ?thesis using lost_shelf_stays_lost [OF assms(2)] run by simp
  next
    fix b'
    assume b': "shelf L p d' = Some b'" "counted b'" "bs_next_id b \<le> bs_next_id b'" "unat (bs_next_id b') \<le> Suc (unat (bs_next_id b))"
      "bm_id ` set (bs_entries b') \<subseteq> bm_id ` set (bs_entries b) \<union> {i. bs_next_id b \<le> i}"
    then have "unat (bs_next_id b') + length cs < 2 ^ 64" using Cons.prems(3) by simp
    from Cons.IH [OF b'(1,2) this] show ?thesis
    proof (elim disjE exE conjE)
      fix b''
      assume b'': "shelf L p (bookmark_run L p cs d') = Some b''" "counted b''" "bs_next_id b' \<le> bs_next_id b''"
        "unat (bs_next_id b'') \<le> unat (bs_next_id b') + length cs"
        "bm_id ` set (bs_entries b'') \<subseteq> bm_id ` set (bs_entries b') \<union> {i. bs_next_id b' \<le> i}"
      then have "bm_id ` set (bs_entries b'') \<subseteq> bm_id ` set (bs_entries b) \<union> {i. bs_next_id b \<le> i}"
        using b'(3,5) by (auto dest: order_trans)
      then show ?thesis unfolding run using b'' b'(3,4) by (intro disjI2 exI [of _ b'']) auto
    qed (simp add: run)
  qed
qed

text \<open>
  C39. The number of a bookmark is never given to another one: once a bookmark has gone from the
  file, no later sequence of commands, with any call to the file system failing at any point and the
  file reopened before every command, brings a bookmark of that number back, as long as the 64-bit
  counter lasts. A reference kept elsewhere to a deleted bookmark stays dead.
\<close>

theorem bookmark_numbers_are_never_reused:
  assumes "bookmarks_print L" and "sound_path p" and "shelf L p d = Some b" and "counted b"
    and "unat (bs_next_id b) + length cs + length later < 2 ^ 64"
    and "e \<in> set (bs_entries b)" and "bm_id e \<notin> numbers_on_file L p (bookmark_run L p cs d)"
  shows "bm_id e \<notin> numbers_on_file L p (bookmark_run L p (cs @ later) d)"
proof -
  let ?d = "bookmark_run L p cs d"
  have run: "bookmark_run L p (cs @ later) d = bookmark_run L p later ?d" by (simp add: bookmark_run_def)
  have e: "bm_id e < bs_next_id b" using assms(4,6) by (simp add: counted_def)
  have "unat (bs_next_id b) + length cs < 2 ^ 64" using assms(5) by simp
  from bookmark_run_counts [OF assms(1-4) this] show ?thesis
  proof (elim disjE exE conjE)
    assume "shelf L p ?d = None"
    then show ?thesis using lost_shelf_stays_lost [OF assms(2)] run by (simp add: numbers_on_file_def)
  next
    fix b'
    assume b': "shelf L p ?d = Some b'" "counted b'" "bs_next_id b \<le> bs_next_id b'" "unat (bs_next_id b') \<le> unat (bs_next_id b) + length cs"
    then have "unat (bs_next_id b') + length later < 2 ^ 64" using assms(5) by simp
    from bookmark_run_counts [OF assms(1,2) b'(1,2) this]
    have "numbers_on_file L p (bookmark_run L p later ?d) \<subseteq> numbers_on_file L p ?d \<union> {i. bs_next_id b' \<le> i}"
      unfolding numbers_on_file_def b'(1) by (elim disjE exE conjE) simp_all
    moreover have "\<not> bs_next_id b' \<le> bm_id e" using b'(3) e by simp
    ultimately show ?thesis using assms(7) unfolding run by auto
  qed
qed

text \<open>A library that prints a document as the unary code of a number.\<close>

definition doc_number :: "stored_bookmarks \<Rightarrow> nat" where
  "doc_number doc = to_nat (sb_version doc, sb_next_id doc,
     map (\<lambda>e. (bm_id e, bm_label e, bm_address e, bm_password e, bm_identity e)) (sb_entries doc))"

definition sample_profile_lib :: profile_lib where
  "sample_profile_lib = \<lparr>print_bookmarks = (\<lambda>doc. replicate (doc_number doc) 49),
     parse_bookmarks = (\<lambda>raw. case from_nat (length raw - 1) of (v, n, es) \<Rightarrow>
       Some \<lparr>sb_version = v, sb_next_id = n, sb_entries = map (\<lambda>(i, l, a, w, f).
         \<lparr>bm_id = i, bm_label = l, bm_address = a, bm_password = w, bm_identity = f\<rparr>) es\<rparr>),
     print_settings = (\<lambda>_. []), parse_settings = (\<lambda>_. Some settings_default)\<rparr>"

lemma utf8_ones: "is_utf8 (replicate n 49 @ [10])"
  by (induction n) (simp_all add: byte_in_def)

lemma sample_profile_prints: "bookmarks_print sample_profile_lib"
proof -
  have "map (\<lambda>(i, l, a, w, f). \<lparr>bm_id = i, bm_label = l, bm_address = a, bm_password = w, bm_identity = f\<rparr>)
      (map (\<lambda>e. (bm_id e, bm_label e, bm_address e, bm_password e, bm_identity e)) es) = es" for es
    by (induction es) simp_all
  then show ?thesis by (simp add: bookmarks_print_def sample_profile_lib_def utf8_ones doc_number_def)
qed

theorem bookmark_numbers_are_never_reused_witness:
  "\<exists>d b. shelf sample_profile_lib sample_path d = Some b \<and> map bm_id (bs_entries b) = [1] \<and>
     1 \<notin> numbers_on_file sample_profile_lib sample_path
       (bookmark_run sample_profile_lib sample_path ([RemoveBookmark 1] @ [AddBookmark \<lparr>bi_label = [], bi_address = [65], bi_password = None, bi_identity = None\<rparr>]) d)"
proof -
  let ?L = sample_profile_lib and ?i = "\<lparr>bi_label = [], bi_address = [65], bi_password = None, bi_identity = None\<rparr>"
  let ?e = "\<lparr>bm_id = 1, bm_label = [], bm_address = [66], bm_password = None, bm_identity = None\<rparr>"
  let ?b = "\<lparr>bs_path = sample_path, bs_next_id = 2, bs_entries = [?e]\<rparr>"
  let ?d = "sample_disk [sample_path \<mapsto> \<lparr>f_bytes = print_bookmarks ?L (stored_bookmarks_of ?b) @ [10], f_mode = 384\<rparr>]"
  have c: "counted ?b" by (simp add: counted_def)
  have shelf: "shelf ?L sample_path ?d = Some ?b"
    using sample_profile_prints counted_reopens [OF c, of sample_path] by (simp add: shelf_def sample_disk_def bookmarks_print_def)
  have sound: "sound_path sample_path" by (simp add: sample_paths)
  have "\<exists>es d'. remove_bookmark ?L sample_path 1 ?d = (Inr es, d')"
    using sample_profile_prints counted_reopens [OF c, of sample_path]
    by (simp add: remove_bookmark_def bookmarks_open_def bm_check_permissions_def bookmarks_save_def map_err_def and_then_def
        disk_calls sample_disk_def bookmarks_print_def Let_def sample_path_def with_extension_def)
  then obtain es d' where r: "do_bookmark ?L sample_path (RemoveBookmark 1) ?d = (Inr es, d')" by auto
  have "numbers_on_file ?L sample_path (bookmark_run ?L sample_path [RemoveBookmark 1] ?d) = {}"
    using bookmark_commands_are_exact [OF r sound] shelf r sample_profile_prints
    by (auto simp: bookmark_run_def numbers_on_file_def shelf_def bookmarks_remove_def bookmarks_print_def bookmarks_of_def
        stored_bookmarks_of_def Let_def split: option.splits)
  then have "1 \<notin> numbers_on_file ?L sample_path (bookmark_run ?L sample_path ([RemoveBookmark 1] @ [AddBookmark ?i]) ?d)"
    using bookmark_numbers_are_never_reused [OF sample_profile_prints sound shelf c, of "[RemoveBookmark 1]" "[AddBookmark ?i]" ?e]
    by simp
  then show ?thesis using shelf by (intro exI [of _ ?d] exI [of _ ?b]) simp
qed

section \<open>Settings survive\<close>

text \<open>A save that succeeds is what the next start loads.\<close>

theorem saved_settings_load:
  assumes "settings_save L mode p s d = (Inr (), d')" and "sound_path p" and "steady d"
    and "is_utf8 (print_settings L s @ [10])" and "parse_settings L (print_settings L s @ [10]) = Some s"
  shows "fst (settings_load L p d') = s"
proof -
  obtain m where "d_files d' p = Some \<lparr>f_bytes = print_settings L s @ [10], f_mode = m\<rparr>"
    using se.stored [OF assms(2,1)] by auto
  moreover have "steady d'" using steady_touches [OF se.frame [OF assms(1)]] assms(3) by simp
  ultimately show ?thesis using assms(4,5) by (simp add: settings_load_def disk_calls steady_def)
qed

text \<open>
  A file that is read but not understood is moved aside whole; defaults take over.
\<close>

theorem malformed_settings_are_kept_aside:
  assumes "steady d" and "d_files d p = Some f" and "is_utf8 (f_bytes f)" and "parse_settings L (f_bytes f) = None"
  shows "fst (settings_load L p d) = settings_default \<and>
    d_files (snd (settings_load L p d)) (with_extension (u ''json.bad'') p) = Some f"
  using assms by (simp add: settings_load_def disk_calls steady_def)

text \<open>
  A file that cannot be read, because it is not UTF-8 or because the read failed, is not moved aside:
  defaults take over too, and the next save replaces it, leaving nothing of it on the disk.
\<close>

theorem unreadable_settings_are_overwritten:
  assumes "d_files d p = Some f" and "\<not> is_utf8 (f_bytes f) \<or> d_fault d (d_calls d) \<noteq> None" and "sound_path p"
    and "settings_save L mode p (fst (settings_load L p d)) (snd (settings_load L p d)) = (Inr (), d')"
  shows "fst (settings_load L p d) = settings_default \<and>
    (\<exists>m. d_files d' p = Some \<lparr>f_bytes = print_settings L settings_default @ [10], f_mode = m\<rparr>) \<and>
    (\<forall>q. q \<noteq> p \<longrightarrow> q \<noteq> tmp_of p \<longrightarrow> d_files d' q = d_files d q)"
proof -
  have l: "fst (settings_load L p d) = settings_default" "d_files (snd (settings_load L p d)) = d_files d"
    using assms(1,2) by (auto simp: settings_load_def disk_calls split: option.splits)
  then show ?thesis using se.stored [OF assms(3,4)] se.frame [OF assms(4)] by (auto simp: touches_only_def)
qed

end
