(* ===== verification/Pickle_Dto.thy ===== *)
theory Pickle_Dto
  imports Pickle_Profile Pickle_Mirror Pickle_Mixer
begin

text \<open>
  What crosses from the desktop application to its web frontend
  (\<open>apps/desktop/src-tauri/src/dto.rs\<close>): the shapes, and the translation of the client library's
  events. Shown are which events stay behind and that error codes stay apart.
\<close>

section \<open>Identities\<close>

record identity_dto =
  idd_fingerprint :: ustring
  idd_short :: ustring
  idd_security_level :: nat
  idd_nickname :: ustring

definition id_security_level :: "ext \<Rightarrow> identity \<Rightarrow> nat" where
  "id_security_level cr i = security_level cr (public_of cr (id_secret i)) (id_counter i)"

definition identity_dto_new :: "ext \<Rightarrow> identity \<Rightarrow> ustring \<Rightarrow> identity_dto" where
  "identity_dto_new cr i nickname =
     \<lparr>idd_fingerprint = fingerprint_to_string cr (id_fingerprint cr i), idd_short = fingerprint_short cr (id_fingerprint cr i),
      idd_security_level = id_security_level cr i, idd_nickname = nickname\<rparr>"

record vault_entry_dto =
  ved_fingerprint :: ustring
  ved_short :: ustring
  ved_security_level :: nat
  ved_nickname :: ustring
  ved_label :: ustring

definition vault_entry_dto_new :: "ext \<Rightarrow> vault_entry \<Rightarrow> vault_entry_dto" where
  "vault_entry_dto_new cr e =
     \<lparr>ved_fingerprint = fingerprint_to_string cr (id_fingerprint cr (ve_identity e)),
      ved_short = fingerprint_short cr (id_fingerprint cr (ve_identity e)),
      ved_security_level = id_security_level cr (ve_identity e), ved_nickname = ve_nickname e, ved_label = ve_label e\<rparr>"

record identity_list_dto =
  ild_active :: ustring
  ild_identities :: "vault_entry_dto list"

section \<open>Channels, people and messages\<close>

record channel_dto =
  cd_id :: channel_id
  cd_parent :: "channel_id option"
  cd_name :: ustring
  cd_topic :: ustring
  cd_has_voice :: bool
  cd_has_text :: bool
  cd_order :: int
  cd_max_users :: "u16 option"

definition to_channel_dto :: "channel \<Rightarrow> channel_dto" where
  "to_channel_dto c =
     \<lparr>cd_id = ch_id c, cd_parent = ch_parent c, cd_name = ch_name c, cd_topic = ch_topic c,
      cd_has_voice = has_voice (ch_kind c), cd_has_text = has_text (ch_kind c), cd_order = ch_order c,
      cd_max_users = ch_max_users c\<rparr>"

record user_dto =
  ud_client_id :: client_id
  ud_nickname :: ustring
  ud_fingerprint :: ustring
  ud_short :: ustring
  ud_security_level :: nat
  ud_channel :: "channel_id option"
  ud_self_muted :: bool
  ud_self_deafened :: bool
  ud_server_muted :: bool
  ud_roles :: "role_id list"

definition to_user_dto :: "ext \<Rightarrow> user_info \<Rightarrow> user_dto" where
  "to_user_dto cr i =
     \<lparr>ud_client_id = ui_client_id i, ud_nickname = ui_nickname i,
      ud_fingerprint = fingerprint_to_string cr (ui_fingerprint cr i), ud_short = fingerprint_short cr (ui_fingerprint cr i),
      ud_security_level = pi_security_level cr (ui_identity i), ud_channel = ui_channel i,
      ud_self_muted = self_muted (ui_voice i), ud_self_deafened = self_deafened (ui_voice i),
      ud_server_muted = server_muted (ui_voice i), ud_roles = ui_roles i\<rparr>"

record ban_dto =
  bd_fingerprint :: ustring
  bd_short :: ustring
  bd_reason :: ustring
  bd_until :: "u64 option"
  bd_issued_by_short :: ustring
  bd_issued_at :: u64

definition to_ban_dto :: "ext \<Rightarrow> ban_entry \<Rightarrow> ban_dto" where
  "to_ban_dto cr b =
     \<lparr>bd_fingerprint = fingerprint_to_string cr (be_fingerprint b), bd_short = fingerprint_short cr (be_fingerprint b),
      bd_reason = be_reason b, bd_until = be_until b, bd_issued_by_short = fingerprint_short cr (be_issued_by b),
      bd_issued_at = be_issued_at b\<rparr>"

record message_dto =
  md_id :: message_id
  md_channel :: channel_id
  md_author_nickname :: ustring
  md_author_fingerprint :: ustring
  md_content :: ustring
  md_sent_at :: u64

definition to_message_dto :: "ext \<Rightarrow> chat_message \<Rightarrow> message_dto" where
  "to_message_dto cr m =
     \<lparr>md_id = cm_id m, md_channel = cm_channel m, md_author_nickname = cm_author_nickname m,
      md_author_fingerprint = fingerprint_short cr (cm_author_fingerprint m), md_content = cm_content m,
      md_sent_at = cm_sent_at m\<rparr>"

section \<open>Connections\<close>

record session_dto =
  sd_client_id :: client_id
  sd_server_name :: ustring
  sd_server_fingerprint :: ustring
  sd_default_channel :: "channel_id option"
  sd_channels :: "channel_dto list"
  sd_users :: "user_dto list"

definition to_session_dto :: "ext \<Rightarrow> session_info \<Rightarrow> session_dto" where
  "to_session_dto cr s =
     \<lparr>sd_client_id = si_client_id s, sd_server_name = si_server_name s,
      sd_server_fingerprint = fingerprint_to_string cr (pi_fingerprint cr (si_server_identity s)),
      sd_default_channel = si_default_channel s, sd_channels = map to_channel_dto (si_channels s),
      sd_users = map (to_user_dto cr) (si_users s)\<rparr>"

type_synonym session_id = u64

record connection_dto =
  cnd_permissions :: my_permissions_dto
  cnd_roles :: "role_dto_record list"
  cnd_session :: session_id
  cnd_info :: session_dto
  cnd_identity :: ustring

record speaking_dto =
  spk_session :: "session_id option"
  spk_clients :: "client_id list"

record session_list_dto =
  sl_sessions :: "connection_dto list"
  sl_voice :: "session_id option"

section \<open>Events\<close>

datatype event_dto =
    DtoUserJoined user_dto
  | DtoUserLeft client_id string
  | DtoUserMoved client_id "channel_id option"
  | DtoUserUpdated user_dto
  | DtoMessage message_dto
  | DtoHistory channel_id "message_dto list" bool
  | DtoTyping client_id channel_id
  | DtoChannelCreated channel_dto
  | DtoChannelUpdated channel_dto
  | DtoChannelRemoved channel_id
  | DtoServerError string ustring
  | DtoBanList "ban_dto list"
  | DtoCommandFailed u64 string ustring
  | DtoRolesChanged "role_dto_record list"
  | DtoPermissionsChanged my_permissions_dto
  | DtoDisconnected ustring

fun error_code_str :: "error_code \<Rightarrow> string" where
  "error_code_str NotAuthenticated = ''notAuthenticated''"
| "error_code_str NoSuchChannel = ''noSuchChannel''"
| "error_code_str NoSuchMessage = ''noSuchMessage''"
| "error_code_str ChannelFull = ''channelFull''"
| "error_code_str ChannelPasswordRequired = ''channelPasswordRequired''"
| "error_code_str NotPermitted = ''notPermitted''"
| "error_code_str RateLimited = ''rateLimited''"
| "error_code_str MessageTooLong = ''messageTooLong''"
| "error_code_str Malformed = ''malformed''"
| "error_code_str Internal = ''internal''"

definition left_reason :: "disconnect_reason \<Rightarrow> string" where
  "left_reason r = (case r of Kicked \<Rightarrow> ''kicked'' | Banned \<Rightarrow> ''banned'' | _ \<Rightarrow> ''left'')"

fun from_event :: "ext \<Rightarrow> client_event \<Rightarrow> event_dto option" where
  "from_event cr (EvUserJoined i) = Some (DtoUserJoined (to_user_dto cr i))"
| "from_event cr (EvUserLeft c r) = Some (DtoUserLeft c (left_reason r))"
| "from_event cr (EvUserMoved c _ to) = Some (DtoUserMoved c to)"
| "from_event cr (EvUserUpdated i) = Some (DtoUserUpdated (to_user_dto cr i))"
| "from_event cr (EvMessagePosted m _) = Some (DtoMessage (to_message_dto cr m))"
| "from_event cr (EvHistory c ms start) = Some (DtoHistory c (map (to_message_dto cr) ms) start)"
| "from_event cr (EvTyping c ch) = Some (DtoTyping c ch)"
| "from_event cr (EvChannelCreated c) = Some (DtoChannelCreated (to_channel_dto c))"
| "from_event cr (EvChannelUpdated c) = Some (DtoChannelUpdated (to_channel_dto c))"
| "from_event cr (EvChannelRemoved i) = Some (DtoChannelRemoved i)"
| "from_event cr (EvServerError code detail) = Some (DtoServerError (error_code_str code) detail)"
| "from_event cr (EvDisconnected reason) = Some (DtoDisconnected reason)"
| "from_event cr (EvBanList bs) = Some (DtoBanList (map (to_ban_dto cr) bs))"
| "from_event cr (EvCommandFailed nonce code detail) = Some (DtoCommandFailed nonce (error_code_str code) detail)"
| "from_event cr (EvRoleCreated _) = None"
| "from_event cr (EvRoleUpdated _) = None"
| "from_event cr (EvRoleDeleted _) = None"
| "from_event cr (EvRolesReordered _) = None"
| "from_event cr (EvAck _) = None"
| "from_event cr (EvVoice _) = None"
| "from_event cr (EvVoiceActivity _ _) = None"
| "from_event cr (EvPong _) = None"
| "from_event cr (EvMessageEdited _ _ _) = None"
| "from_event cr (EvMessageDeleted _) = None"

section \<open>Failed connections\<close>

record identity_changed_dto =
  icd_address_key :: ustring
  icd_previous :: ustring
  icd_current :: ustring

record connect_failure_dto =
  cfd_message :: ustring
  cfd_identity_changed :: "identity_changed_dto option"

definition failure_text :: "ustring \<Rightarrow> connect_failure_dto" where
  "failure_text message = \<lparr>cfd_message = message, cfd_identity_changed = None\<rparr>"

text \<open>\<open>say\<close> is the \<open>Display\<close> of the library's errors.\<close>

definition failure_of :: "ext \<Rightarrow> (connect_error \<Rightarrow> ustring) \<Rightarrow> connect_error \<Rightarrow> connect_failure_dto" where
  "failure_of cr say e =
     \<lparr>cfd_message = say e,
      cfd_identity_changed =
        (case e of
           Untrusted (IdentityChanged address expected actual) \<Rightarrow>
             Some \<lparr>icd_address_key = address, icd_previous = fingerprint_to_string cr expected,
                   icd_current = fingerprint_to_string cr actual\<rparr>
         | _ \<Rightarrow> None)\<rparr>"

section \<open>Nothing is confused on the way\<close>

lemma error_code_str_inj [simp]: "error_code_str c = error_code_str c' \<longleftrightarrow> c = c'"
  by (cases c; cases c') simp_all

text \<open>What the frontend is not told directly reaches it through the mirror's snapshots or is of no
  meaning to it.\<close>

lemma untranslated_events:
  "from_event cr e = None \<longleftrightarrow> touches_roles e \<or>
     (case e of EvAck _ \<Rightarrow> True | EvVoice _ \<Rightarrow> True | EvVoiceActivity _ _ \<Rightarrow> True | EvPong _ \<Rightarrow> True
      | EvMessageEdited _ _ _ \<Rightarrow> True | EvMessageDeleted _ \<Rightarrow> True | _ \<Rightarrow> False)"
  by (cases e) simp_all

end
