(* ===== verification/Pickle_Desktop.thy ===== *)
theory Pickle_Desktop
  imports Pickle_Dto
begin

text \<open>
  The desktop application (\<open>apps/desktop/src-tauri/src\<close>): its state with the identities, the
  preferences, the audio engine and the open connections (\<open>state.rs\<close>), the handle of the audio engine
  (\<open>AudioEngine\<close> of \<open>pickle-audio/src/engine.rs\<close>) and the threads that carry voice and events
  (\<open>bridge.rs\<close>). What came of opening the sound devices is an argument; emitting to the frontend is
  taken to succeed.
\<close>

section \<open>The audio engine\<close>

record engine_config =
  ec_input_device :: "ustring option"
  ec_output_device :: "ustring option"
  ec_bitrate :: u32
  ec_gate_mode :: gate_mode

text \<open>The mixer, the controls shared with the capture callback, and whether the frame channel is still here.\<close>

record 'd engine =
  en_mixer :: "'d voice_mixer"
  en_controls :: capture_controls
  en_frames :: bool

text \<open>\<open>opened\<close> is what came of opening the devices on the audio thread.\<close>

definition engine_start :: "ustring + unit \<Rightarrow> engine_config \<Rightarrow> ustring + 'd engine" where
  "engine_start opened cfg =
     (case opened of
        Inl e \<Rightarrow> Inl e
      | Inr _ \<Rightarrow> Inr \<lparr>en_mixer = mixer_new, en_controls = controls_new (ec_gate_mode cfg), en_frames = True\<rparr>)"

definition take_frames :: "'d engine \<Rightarrow> bool \<times> 'd engine" where
  "take_frames e = (en_frames e, e\<lparr>en_frames := False\<rparr>)"

definition engine_accept :: "('e, 'd) opus \<Rightarrow> voice_downstream \<Rightarrow> 'd engine \<Rightarrow> 'd engine" where
  "engine_accept op packet e = e\<lparr>en_mixer := snd (accept op packet (en_mixer e))\<rparr>"

definition en_set_muted :: "bool \<Rightarrow> 'd engine \<Rightarrow> 'd engine" where
  "en_set_muted muted e = e\<lparr>en_controls := engine_set_muted muted (en_controls e)\<rparr>"

definition is_muted :: "'d engine \<Rightarrow> bool" where
  "is_muted e = cc_muted (en_controls e)"

definition en_set_deafened :: "bool \<Rightarrow> 'd engine \<Rightarrow> 'd engine" where
  "en_set_deafened deafened e = e\<lparr>en_mixer := set_deafened deafened (en_mixer e)\<rparr>"

definition is_deafened :: "'d engine \<Rightarrow> bool" where
  "is_deafened e = mx_deafened (en_mixer e)"

definition en_set_gate_mode :: "gate_mode \<Rightarrow> 'd engine \<Rightarrow> 'd engine" where
  "en_set_gate_mode mode e = e\<lparr>en_controls := controls_set_gate_mode mode (en_controls e)\<rparr>"

definition en_set_push_to_talk_held :: "bool \<Rightarrow> 'd engine \<Rightarrow> 'd engine" where
  "en_set_push_to_talk_held held e = e\<lparr>en_controls := set_push_to_talk_held held (en_controls e)\<rparr>"

definition input_level_dbfs :: "'d engine \<Rightarrow> level" where
  "input_level_dbfs e = cc_level_dbfs (en_controls e)"

definition is_transmitting :: "'d engine \<Rightarrow> bool" where
  "is_transmitting e = cc_transmitting (en_controls e)"

definition en_clear_speakers :: "'d engine \<Rightarrow> 'd engine" where
  "en_clear_speakers e = e\<lparr>en_mixer := clear_speakers (en_mixer e)\<rparr>"

definition en_speaking :: "'d engine \<Rightarrow> client_id list" where
  "en_speaking e = Pickle_Mixer.speaking (en_mixer e)"

section \<open>The state\<close>

text \<open>
  What a connection shares between its session, its event pump and the voice route: the client, the
  permission mirror, and whether the pump still runs. Each is created once per session number, by
  which a reference to it goes.
\<close>

record connection =
  cn_client :: client
  cn_perms :: perm_mirror
  cn_pump :: bool

record active_session =
  ac_address :: ustring
  ac_identity :: ustring

record app_voice =
  av_muted :: bool
  av_deafened :: bool

datatype ui_message =
    UiEvent session_id event_dto
  | UiConnected session_id connection_dto
  | UiVoiceState app_voice

text \<open>A connection being made: what \<open>connect\<close> holds between starting the pump and registering the session.\<close>

record pending =
  pd_id :: session_id
  pd_address :: ustring
  pd_identity :: ustring

record 'd app =
  ap_vault :: vault
  ap_bookmarks_path :: path
  ap_settings_path :: path
  ap_settings :: settings
  ap_engine :: "'d engine option"
  ap_sessions :: "(session_id, active_session) hash_map"
  ap_next_session_id :: u64
  ap_voice :: "(session_id \<times> session_id) option"
  ap_connections :: "(session_id, connection) hash_map"
  ap_pending :: "pending list"
  ap_nonce :: u64
  ap_trust_file :: "ustring option"
  ap_disk :: disk
  ap_ui :: "ui_message list"

text \<open>The libraries and the host system, and what one step draws or finds.\<close>

record ('e, 'd) host =
  h_ext :: ext
  h_opus :: "('e, 'd) opus"
  h_vault_lib :: vault_lib
  h_profile_lib :: profile_lib
  h_trust_from_json :: "ustring \<Rightarrow> store_file option"
  h_trust_to_json :: "store_file \<Rightarrow> ustring"
  h_lookup :: "ustring \<Rightarrow> ustring + ustring list"
  h_version :: ustring
  h_connect_text :: "connect_error \<Rightarrow> ustring"
  h_vault_text :: "vault_error \<Rightarrow> ustring"
  h_trust_text :: "trust_error \<Rightarrow> ustring"
  h_settings_text :: "io_error \<Rightarrow> ustring"
  h_bookmark_text :: "bookmark_error \<Rightarrow> ustring"
  h_fingerprint_text :: "identity_error \<Rightarrow> ustring"
  h_file_mode :: u32

record chance =
  ch_entropy :: entropy
  ch_now :: u64
  ch_nanos :: u64
  ch_probe :: fingerprint
  ch_opened :: "ustring + unit"
  ch_trust_fails :: bool
  ch_trust_write :: write_outcome

section \<open>Starting\<close>

definition profile_path :: "ustring \<Rightarrow> string \<Rightarrow> path" where
  "profile_path dir stem = \<lparr>p_dir = dir, p_stem = u stem, p_extension = Some (u ''json'')\<rparr>"

text \<open>\<open>dir\<close> is the application's data directory and \<open>nickname\<close> the user's name on the system.\<close>

definition load_with_passphrase ::
  "('e, 'd) host \<Rightarrow> chance \<Rightarrow> ustring \<Rightarrow> ustring \<Rightarrow> ustring option \<Rightarrow> ustring option \<Rightarrow> disk \<Rightarrow> ustring + 'd app" where
  "load_with_passphrase h x dir nickname passphrase trust_file d =
     (case open_with_passphrase (h_ext h) (h_vault_lib h) (ch_entropy x) (profile_path dir ''identities'')
             (profile_path dir ''identity'') nickname passphrase d of
        (Inl e, _) \<Rightarrow> Inl (h_vault_text h e)
      | (Inr v, d) \<Rightarrow>
          let (s, d) = settings_load (h_profile_lib h) (profile_path dir ''settings'') d
          in Inr \<lparr>ap_vault = v, ap_bookmarks_path = profile_path dir ''bookmarks'',
                  ap_settings_path = profile_path dir ''settings'', ap_settings = s, ap_engine = None,
                  ap_sessions = [], ap_next_session_id = 1, ap_voice = None, ap_connections = [], ap_pending = [],
                  ap_nonce = 1, ap_trust_file = trust_file, ap_disk = d, ap_ui = []\<rparr>)"

definition set_vault_passphrase ::
  "('e, 'd) host \<Rightarrow> chance \<Rightarrow> ustring option \<Rightarrow> 'd app \<Rightarrow> (ustring + unit) \<times> 'd app" where
  "set_vault_passphrase h x passphrase a =
     (case (case passphrase of
              Some p \<Rightarrow> set_passphrase (h_ext h) (h_vault_lib h) (ch_entropy x) p (ap_vault a) (ap_disk a)
            | None \<Rightarrow> remove_passphrase (h_ext h) (h_vault_lib h) (ch_entropy x) (ap_vault a) (ap_disk a)) of
        (Inl e, d) \<Rightarrow> (Inl (h_vault_text h e), a\<lparr>ap_disk := d\<rparr>)
      | (Inr v, d) \<Rightarrow> (Inr (), a\<lparr>ap_vault := v, ap_disk := d\<rparr>))"

section \<open>The voice route\<close>

definition voice_client :: "'d app \<Rightarrow> session_id option" where
  "voice_client a = map_option snd (ap_voice a)"

definition voice_session :: "'d app \<Rightarrow> session_id option" where
  "voice_session a = map_option fst (ap_voice a)"

definition voice_clear_if :: "session_id \<Rightarrow> 'd app \<Rightarrow> bool \<times> 'd app" where
  "voice_clear_if i a = (if voice_session a = Some i then (True, a\<lparr>ap_voice := None\<rparr>) else (False, a))"

definition with_engine :: "('d engine \<Rightarrow> 'd engine) \<Rightarrow> 'd app \<Rightarrow> 'd app" where
  "with_engine f a = a\<lparr>ap_engine := map_option f (ap_engine a)\<rparr>"

definition on_client :: "session_id \<Rightarrow> (client \<Rightarrow> bool \<times> client) \<Rightarrow> 'd app \<Rightarrow> 'd app" where
  "on_client i f a =
     a\<lparr>ap_connections := AList.map_entry i (\<lambda>c. c\<lparr>cn_client := snd (f (cn_client c))\<rparr>) (ap_connections a)\<rparr>"

section \<open>Files\<close>

definition persist_vault :: "('e, 'd) host \<Rightarrow> chance \<Rightarrow> 'd app \<Rightarrow> (ustring + unit) \<times> 'd app" where
  "persist_vault h x a =
     (case vault_save (h_vault_lib h) (rn_nonce (ch_entropy x)) (ap_vault a) (ap_disk a) of
        (Inl e, d) \<Rightarrow> (Inl (h_vault_text h e), a\<lparr>ap_disk := d\<rparr>)
      | (Inr _, d) \<Rightarrow> (Inr (), a\<lparr>ap_disk := d\<rparr>))"

definition persist_settings :: "('e, 'd) host \<Rightarrow> 'd app \<Rightarrow> (ustring + unit) \<times> 'd app" where
  "persist_settings h a =
     (case settings_save (h_profile_lib h) (h_file_mode h) (ap_settings_path a) (ap_settings a) (ap_disk a) of
        (Inl e, d) \<Rightarrow> (Inl (h_settings_text h e), a\<lparr>ap_disk := d\<rparr>)
      | (Inr _, d) \<Rightarrow> (Inr (), a\<lparr>ap_disk := d\<rparr>))"

definition trust_store_of :: "('e, 'd) host \<Rightarrow> chance \<Rightarrow> 'd app \<Rightarrow> ustring + trust_store" where
  "trust_store_of h x a =
     (case trust_open (h_trust_from_json h) (u ''known_servers.json'')
             (if ch_trust_fails x then ReadFailed
              else case ap_trust_file a of None \<Rightarrow> read_outcome.NotFound | Some raw \<Rightarrow> read_outcome.Contents raw) of
        Inl e \<Rightarrow> Inl (h_trust_text h e) | Inr st \<Rightarrow> Inr st)"

definition save_trust :: "('e, 'd) host \<Rightarrow> chance \<Rightarrow> trust_store \<Rightarrow> 'd app \<Rightarrow> (ustring + unit) \<times> 'd app" where
  "save_trust h x st a =
     (case save (h_trust_to_json h) (ch_trust_write x) st of
        (Inl e, c) \<Rightarrow> (Inl (h_trust_text h e), a\<lparr>ap_trust_file := c\<rparr>)
      | (Inr _, c) \<Rightarrow> (Inr (), a\<lparr>ap_trust_file := c\<rparr>))"

definition remember_open_connections :: "('e, 'd) host \<Rightarrow> 'd app \<Rightarrow> 'd app" where
  "remember_open_connections h a =
     snd (persist_settings h (a\<lparr>ap_settings := (ap_settings a)\<lparr>st_connections :=
       map (\<lambda>(_, s). \<lparr>oc_address = ac_address s, oc_identity = ac_identity s\<rparr>) (ap_sessions a)\<rparr>\<rparr>))"

section \<open>Identities\<close>

text \<open>\<open>None\<close> is the panic of a vault without its active entry.\<close>

definition active_identity :: "('e, 'd) host \<Rightarrow> 'd app \<Rightarrow> identity option" where
  "active_identity h a = map_option ve_identity (active_entry (h_ext h) (ap_vault a))"

definition identity_for ::
  "('e, 'd) host \<Rightarrow> ustring option \<Rightarrow> 'd app \<Rightarrow> (ustring + identity \<times> ustring \<times> ustring) option" where
  "identity_for h fp a =
     (let copy = (\<lambda>e. (ve_identity e, ve_nickname e, fp_text (h_ext h) e))
      in case fp of
           None \<Rightarrow> map_option (Inr \<circ> copy) (active_entry (h_ext h) (ap_vault a))
         | Some fp \<Rightarrow>
             Some (case vault_get (h_ext h) fp (ap_vault a) of
                     None \<Rightarrow> Inl (u ''No identity with fingerprint '' @ fp @ u ''.'')
                   | Some e \<Rightarrow> Inr (copy e)))"

definition identity_in_use :: "ustring \<Rightarrow> 'd app \<Rightarrow> bool" where
  "identity_in_use fp a \<longleftrightarrow> (\<exists>p\<in>set (ap_sessions a). ac_identity (snd p) = fp)"

section \<open>Audio\<close>

definition start_audio :: "chance \<Rightarrow> 'd app \<Rightarrow> (ustring + unit) \<times> 'd app" where
  "start_audio x a =
     (let audio = st_audio (ap_settings a);
          carried = map_option (\<lambda>e. (is_muted e, is_deafened e)) (ap_engine a)
      in case engine_start (ch_opened x)
                \<lparr>ec_input_device = as_input_device audio, ec_output_device = as_output_device audio,
                 ec_bitrate = as_bitrate audio, ec_gate_mode = gate_mode_of (as_gate_mode audio)\<rparr> of
           Inl e \<Rightarrow> (Inl (u ''The audio devices could not be opened: '' @ e), a)
         | Inr e \<Rightarrow>
             let e = (case carried of
                        Some (muted, deafened) \<Rightarrow> en_set_deafened deafened (en_set_muted muted e)
                      | None \<Rightarrow> e)
             in (Inr (), a\<lparr>ap_engine := Some (snd (take_frames e))\<rparr>))"

definition ensure_audio :: "chance \<Rightarrow> 'd app \<Rightarrow> (ustring + unit) \<times> 'd app" where
  "ensure_audio x a = (case ap_engine a of Some _ \<Rightarrow> (Inr (), a) | None \<Rightarrow> start_audio x a)"

definition stop_audio :: "'d app \<Rightarrow> 'd app" where
  "stop_audio a = a\<lparr>ap_engine := None\<rparr>"

definition route_voice :: "session_id \<Rightarrow> 'd app \<Rightarrow> (ustring + unit) \<times> 'd app" where
  "route_voice i a =
     (case map_of (ap_sessions a) i of
        None \<Rightarrow> (Inl (u ''That connection is no longer open.''), a)
      | Some _ \<Rightarrow>
          if voice_session a = Some i then (Inr (), a)
          else (Inr (), with_engine en_clear_speakers (a\<lparr>ap_voice := Some (i, i)\<rparr>)))"

definition announce_voice_state :: "'d engine \<Rightarrow> 'd app \<Rightarrow> app_voice \<times> 'd app" where
  "announce_voice_state e a =
     (let state = \<lparr>av_muted = is_muted e, av_deafened = is_deafened e\<rparr>
      in (state, fold (\<lambda>(i, _). on_client i (client_set_voice_state (av_muted state) (av_deafened state))) (ap_sessions a) a))"

definition app_set_muted :: "bool \<Rightarrow> 'd app \<Rightarrow> (ustring + app_voice) \<times> 'd app" where
  "app_set_muted muted a =
     (case ap_engine a of
        None \<Rightarrow> (Inl (u ''Audio is not running.''), a)
      | Some e \<Rightarrow>
          let e = en_set_muted muted e; (v, a) = announce_voice_state e (a\<lparr>ap_engine := Some e\<rparr>)
          in (Inr v, a))"

definition app_set_deafened :: "bool \<Rightarrow> 'd app \<Rightarrow> (ustring + app_voice) \<times> 'd app" where
  "app_set_deafened deafened a =
     (case ap_engine a of
        None \<Rightarrow> (Inl (u ''Audio is not running.''), a)
      | Some e \<Rightarrow>
          let e = en_set_deafened deafened e;
              e = (if deafened then en_set_muted True e else e);
              (v, a) = announce_voice_state e (a\<lparr>ap_engine := Some e\<rparr>)
          in (Inr v, a))"

definition toggle_muted :: "'d app \<Rightarrow> (ustring + app_voice) \<times> 'd app" where
  "toggle_muted a =
     (case ap_engine a of
        None \<Rightarrow> (Inl (u ''Audio is not running.''), a)
      | Some e \<Rightarrow> app_set_muted (\<not> is_muted e) a)"

definition toggle_deafened :: "'d app \<Rightarrow> (ustring + app_voice) \<times> 'd app" where
  "toggle_deafened a =
     (case ap_engine a of
        None \<Rightarrow> (Inl (u ''Audio is not running.''), a)
      | Some e \<Rightarrow> app_set_deafened (\<not> is_deafened e) a)"

definition app_set_push_to_talk_held :: "bool \<Rightarrow> 'd app \<Rightarrow> 'd app" where
  "app_set_push_to_talk_held held a = with_engine (en_set_push_to_talk_held held) a"

definition app_voice_state :: "'d app \<Rightarrow> app_voice" where
  "app_voice_state a =
     (case ap_engine a of
        Some e \<Rightarrow> \<lparr>av_muted = is_muted e, av_deafened = is_deafened e\<rparr>
      | None \<Rightarrow> \<lparr>av_muted = False, av_deafened = False\<rparr>)"

section \<open>Closing connections\<close>

definition session_shutdown :: "session_id \<Rightarrow> 'd app \<Rightarrow> 'd app" where
  "session_shutdown i a =
     a\<lparr>ap_connections := AList.map_entry i
         (\<lambda>c. c\<lparr>cn_pump := False, cn_client := client_disconnect (cn_client c)\<rparr>) (ap_connections a)\<rparr>"

definition app_end_session :: "session_id \<Rightarrow> 'd app \<Rightarrow> 'd app" where
  "app_end_session i a =
     (case map_of (ap_sessions a) i of
        None \<Rightarrow> a
      | Some _ \<Rightarrow>
          let a = session_shutdown i (a\<lparr>ap_sessions := AList.delete i (ap_sessions a)\<rparr>);
              (was, a) = voice_clear_if i a;
              a = (if was then with_engine en_clear_speakers a else a)
          in if ap_sessions a = [] then stop_audio a else a)"

definition end_all_sessions :: "'d app \<Rightarrow> 'd app" where
  "end_all_sessions a =
     stop_audio ((fold (\<lambda>(i, _). app_end_session i) (ap_sessions a) a)\<lparr>ap_voice := None\<rparr>)"

section \<open>The threads\<close>

text \<open>One captured frame: sent to the client voice points at, or dropped. \<open>fits\<close> says whether the
  transport takes the datagram.\<close>

definition capture_pump :: "(bytes \<Rightarrow> bool) \<Rightarrow> captured_frame \<Rightarrow> 'd app \<Rightarrow> 'd app" where
  "capture_pump fits f a =
     (case voice_client a of
        None \<Rightarrow> a
      | Some c \<Rightarrow> on_client c (\<lambda>cl. (True, send_voice fits (cf_seq f) (cf_flags f) (cf_payload f) cl)) a)"

definition emit :: "session_id \<Rightarrow> event_dto \<Rightarrow> 'd app \<Rightarrow> 'd app" where
  "emit i e a = a\<lparr>ap_ui := ap_ui a @ [UiEvent i e]\<rparr>"

definition set_perms :: "session_id \<Rightarrow> perm_mirror \<Rightarrow> 'd app \<Rightarrow> 'd app" where
  "set_perms i m a = a\<lparr>ap_connections := AList.map_entry i (\<lambda>c. c\<lparr>cn_perms := m\<rparr>) (ap_connections a)\<rparr>"

text \<open>One event taken by the pump of a session whose mirror is \<open>m\<close>.\<close>

definition event_pump :: "('e, 'd) host \<Rightarrow> session_id \<Rightarrow> client_event \<Rightarrow> perm_mirror \<Rightarrow> 'd app \<Rightarrow> 'd app" where
  "event_pump h i ev m a =
     (case ev of
        EvVoice packet \<Rightarrow>
          if voice_session a \<noteq> Some i then a else with_engine (engine_accept (h_opus h) packet) a
      | _ \<Rightarrow>
          let terminal = (case ev of EvDisconnected _ \<Rightarrow> True | _ \<Rightarrow> False);
              roles_changed = touches_roles ev;
              (perms_changed, m) = mirror_apply (h_ext h) ev m;
              a = set_perms i m a;
              a = (case from_event (h_ext h) ev of Some e \<Rightarrow> emit i e a | None \<Rightarrow> a);
              a = (if roles_changed then emit i (DtoRolesChanged (roles_dto m)) a else a);
              a = (if perms_changed then emit i (DtoPermissionsChanged (my_permissions m)) a else a)
          in if terminal then
               let (was, a) = voice_clear_if i a;
                   a = (if was then with_engine en_clear_speakers a else a)
               in a\<lparr>ap_connections := AList.map_entry i (\<lambda>c. c\<lparr>cn_pump := False\<rparr>) (ap_connections a)\<rparr>
             else a)"

end
