(* ===== verification/Pickle_Commands.thy ===== *)
theory Pickle_Commands
  imports Pickle_Desktop
begin

text \<open>
  The commands of the frontend (\<open>apps/desktop/src-tauri/src/commands.rs\<close>), the actions of global
  shortcuts (\<open>shortcuts.rs\<close>) and the table that dispatches them (\<open>lib.rs\<close>). The list a command
  returns is a query of the state it leaves, so the model returns only success or the error text.
  \<open>None\<close> is a panic. A command is one step, except connecting, during which events already arrive: it
  is two. Name lookup and the transport are arguments.
\<close>

section \<open>Addresses\<close>

definition DEFAULT_PORT :: nat where "DEFAULT_PORT = 42071"

text \<open>A closing bracket is character 93, a colon 58.\<close>

definition has_port :: "ustring \<Rightarrow> bool" where
  "has_port address =
     (if 93 \<in> set address then 58 \<in> set (takeWhile (\<lambda>c. c \<noteq> 93) (rev address))
      else count_list address 58 = 1)"

definition with_port :: "ustring \<Rightarrow> ustring" where
  "with_port trimmed = (if has_port trimmed then trimmed else trimmed @ 58 # dec DEFAULT_PORT)"

definition canonical_address :: "ustring \<Rightarrow> ustring" where
  "canonical_address input = with_port (trim input)"

definition resolve_address :: "('e, 'd) host \<Rightarrow> ustring \<Rightarrow> ustring + ustring" where
  "resolve_address h input =
     (let trimmed = trim input
      in if trimmed = [] then Inl (u ''Enter a server address.'')
         else case h_lookup h (with_port trimmed) of
                Inl e \<Rightarrow> Inl (u ''Could not look up '' @ trimmed @ u '': '' @ e)
              | Inr [] \<Rightarrow> Inl (trimmed @ u '' did not resolve to any address.'')
              | Inr (address # _) \<Rightarrow> Inr address)"

section \<open>Identities\<close>

definition no_visible_character :: ustring where
  "no_visible_character = u ''A nickname needs at least one visible character.''"

definition identity_info :: "('e, 'd) host \<Rightarrow> 'd app \<Rightarrow> identity_dto option" where
  "identity_info h a =
     map_option (\<lambda>e. identity_dto_new (h_ext h) (ve_identity e) (ve_nickname e)) (active_entry (h_ext h) (ap_vault a))"

definition identities :: "('e, 'd) host \<Rightarrow> 'd app \<Rightarrow> identity_list_dto" where
  "identities h a = \<lparr>ild_active = v_active (ap_vault a),
     ild_identities = map (vault_entry_dto_new (h_ext h)) (v_entries (ap_vault a))\<rparr>"

text \<open>A change of the vault in memory, then its file.\<close>

definition change_vault ::
  "('e, 'd) host \<Rightarrow> chance \<Rightarrow> vault_error + vault \<Rightarrow> 'd app \<Rightarrow> (ustring + unit) \<times> 'd app" where
  "change_vault h x r a =
     (case r of
        Inl e \<Rightarrow> (Inl (h_vault_text h e), a)
      | Inr v \<Rightarrow> persist_vault h x (a\<lparr>ap_vault := v\<rparr>))"

definition cmd_set_nickname :: "('e, 'd) host \<Rightarrow> chance \<Rightarrow> ustring \<Rightarrow> 'd app \<Rightarrow> (ustring + unit) \<times> 'd app" where
  "cmd_set_nickname h x nickname a =
     (let trimmed = trim nickname; active = v_active (ap_vault a)
      in if trimmed = [] then (Inl no_visible_character, a)
         else and_then (change_vault h x (vault_set_nickname (h_ext h) active trimmed (ap_vault a)) a) (\<lambda>_ a.
           (Inr (), fold (\<lambda>(i, s). if ac_identity s = active then on_client i (send_control (client_control.SetNickname trimmed)) else id)
              (ap_sessions a) a)))"

text \<open>The fresh identity has the 32 random bytes of the step as its secret and counter zero.\<close>

definition cmd_add_identity :: "('e, 'd) host \<Rightarrow> chance \<Rightarrow> ustring \<Rightarrow> ustring \<Rightarrow> 'd app \<Rightarrow> (ustring + unit) \<times> 'd app" where
  "cmd_add_identity h x nickname label a =
     (let nickname = trim nickname
      in if nickname = [] then (Inl no_visible_character, a)
         else
           let (fp, v) = vault_add (h_ext h) \<lparr>id_secret = rn_secret (ch_entropy x), id_counter = 0\<rparr> nickname (trim label) (ap_vault a);
               a = a\<lparr>ap_vault := v\<rparr>
           in change_vault h x (set_active (h_ext h) fp v) a)"

definition cmd_set_active_identity :: "('e, 'd) host \<Rightarrow> chance \<Rightarrow> ustring \<Rightarrow> 'd app \<Rightarrow> (ustring + unit) \<times> 'd app" where
  "cmd_set_active_identity h x fp a = change_vault h x (set_active (h_ext h) fp (ap_vault a)) a"

definition cmd_set_identity_label ::
  "('e, 'd) host \<Rightarrow> chance \<Rightarrow> ustring \<Rightarrow> ustring \<Rightarrow> 'd app \<Rightarrow> (ustring + unit) \<times> 'd app" where
  "cmd_set_identity_label h x fp label a = change_vault h x (set_label (h_ext h) fp (trim label) (ap_vault a)) a"

definition cmd_remove_identity :: "('e, 'd) host \<Rightarrow> chance \<Rightarrow> ustring \<Rightarrow> 'd app \<Rightarrow> ((ustring + unit) \<times> 'd app) option" where
  "cmd_remove_identity h x fp a =
     (if identity_in_use fp a then
        Some (Inl (u ''That identity is signed in to a server. Disconnect it before deleting the key.''), a)
      else map_option (\<lambda>r. change_vault h x r a) (vault_remove (h_ext h) fp (ap_vault a)))"

text \<open>Mining runs on a copy of the key; what it found is written back at the end, if the identity is still there.\<close>

definition cmd_mine_identity :: "u32 \<Rightarrow> ustring + unit" where
  "cmd_mine_identity target_level =
     (if target_level > 40 then
        Inl (u ''Levels above 40 take longer than any reasonable session. Try 24 to 32.'') else Inr ())"

definition mining_done :: "('e, 'd) host \<Rightarrow> chance \<Rightarrow> ustring \<Rightarrow> u64 \<Rightarrow> 'd app \<Rightarrow> 'd app" where
  "mining_done h x fp counter a =
     (case set_counter (h_ext h) fp counter (ap_vault a) of
        Inl _ \<Rightarrow> a
      | Inr v \<Rightarrow> snd (persist_vault h x (a\<lparr>ap_vault := v\<rparr>)))"

section \<open>Connecting\<close>

fun strip_the :: "ustring \<Rightarrow> ustring" where
  "strip_the (a # b # c # d # rest) = (if [a, b, c, d] = u ''The '' then strip_the rest else a # b # c # d # rest)"
| "strip_the s = s"

text \<open>
  The first step: everything up to the running event pump. The transport is an argument, as in
  \<open>connect\<close> of the client library. A store of pins that changed was saved there, whatever came of it.
\<close>

definition connect_opened ::
  "('e, 'd) host \<Rightarrow> chance \<Rightarrow> nat option \<Rightarrow> ustring \<Rightarrow> identity \<Rightarrow> ustring \<Rightarrow> session_info \<Rightarrow> 'd app \<Rightarrow>
     (connect_failure_dto + session_id) \<times> 'd app" where
  "connect_opened h x max_datagram address key fp info a =
     (let i = ap_next_session_id a;
          a = a\<lparr>ap_next_session_id := i + 1\<rparr>;
          client = \<lparr>cl_session = info, cl_open = True, cl_control = [], cl_datagrams = [], cl_max_datagram = max_datagram\<rparr>;
          perms = from_session (h_ext h) (ch_probe x) (id_fingerprint (h_ext h) key) info
      in case ensure_audio x a of
           (Inl e, a) \<Rightarrow> (Inl (failure_text (u ''Connected, but '' @ strip_the e)), a)
         | (Inr _, a) \<Rightarrow>
             (Inr i, a\<lparr>ap_connections := AList.update i \<lparr>cn_client = client, cn_perms = perms, cn_pump = True\<rparr> (ap_connections a),
                        ap_pending := ap_pending a @ [\<lparr>pd_id = i, pd_address = address, pd_identity = fp\<rparr>]\<rparr>))"

definition connect_begin ::
  "('e, 'd) host \<Rightarrow> chance \<Rightarrow> transport \<Rightarrow> nat option \<Rightarrow> ustring \<Rightarrow> ustring option \<Rightarrow> ustring option \<Rightarrow> 'd app \<Rightarrow>
     ((connect_failure_dto + session_id) \<times> 'd app) option" where
  "connect_begin h x tp max_datagram address password ident a =
     (case resolve_address h address of
        Inl e \<Rightarrow> Some (Inl (failure_text e), a)
      | Inr target \<Rightarrow>
     (case identity_for h ident a of
        None \<Rightarrow> None
      | Some (Inl e) \<Rightarrow> Some (Inl (failure_text e), a)
      | Some (Inr (key, nickname, fp)) \<Rightarrow>
     (case trust_store_of h x a of
        Inl e \<Rightarrow> Some (Inl (failure_text e), a)
      | Inr pins \<Rightarrow>
          let opts = with_trust OnFirstUse (with_server_key (canonical_address address) (connect_options_new target nickname));
              opts = (case nonempty password of Some p \<Rightarrow> with_password p opts | None \<Rightarrow> opts);
              (r, _, pins') = connect (h_ext h) (h_version h) (ch_now x) opts key tp pins;
              a = (if pins' = pins then a else snd (save_trust h x pins' a))
          in case r of
               Inl e \<Rightarrow> Some (Inl (failure_of (h_ext h) (h_connect_text h) e), a)
             | Inr info \<Rightarrow> Some (connect_opened h x max_datagram address key fp info a))))"

definition connection_dto_of :: "('e, 'd) host \<Rightarrow> session_id \<Rightarrow> connection \<Rightarrow> ustring \<Rightarrow> connection_dto" where
  "connection_dto_of h i c fp =
     \<lparr>cnd_permissions = my_permissions (cn_perms c), cnd_roles = roles_dto (cn_perms c), cnd_session = i,
      cnd_info = to_session_dto (h_ext h) (cl_session (cn_client c)), cnd_identity = fp\<rparr>"

text \<open>The second step: the session is registered, takes voice if nothing has it, and is reported.\<close>

definition connect_finish :: "('e, 'd) host \<Rightarrow> pending \<Rightarrow> connection \<Rightarrow> 'd app \<Rightarrow> 'd app" where
  "connect_finish h p c a =
     (let a = a\<lparr>ap_pending := remove1 p (ap_pending a),
                ap_sessions := AList.update (pd_id p) \<lparr>ac_address = pd_address p, ac_identity = pd_identity p\<rparr> (ap_sessions a)\<rparr>;
          a = (if voice_session a = None then snd (route_voice (pd_id p) a) else a);
          a = remember_open_connections h a
      in a\<lparr>ap_ui := ap_ui a @ [UiConnected (pd_id p) (connection_dto_of h (pd_id p) c (pd_identity p))]\<rparr>)"

definition cmd_disconnect :: "('e, 'd) host \<Rightarrow> session_id \<Rightarrow> 'd app \<Rightarrow> 'd app" where
  "cmd_disconnect h i a = remember_open_connections h (app_end_session i a)"

definition list_sessions :: "('e, 'd) host \<Rightarrow> 'd app \<Rightarrow> session_list_dto" where
  "list_sessions h a =
     \<lparr>sl_sessions = List.map_filter (\<lambda>(i, s). map_option (\<lambda>c. connection_dto_of h i c (ac_identity s)) (map_of (ap_connections a) i))
        (ap_sessions a),
      sl_voice = voice_session a\<rparr>"

section \<open>Requests to a server\<close>

definition connection_gone :: ustring where
  "connection_gone = u ''That connection is no longer open.''"

definition session_send :: "session_id \<Rightarrow> (client \<Rightarrow> bool \<times> client) \<Rightarrow> 'd app \<Rightarrow> (ustring + unit) \<times> 'd app" where
  "session_send i f a =
     (case map_of (ap_sessions a) i of None \<Rightarrow> (Inl connection_gone, a) | Some _ \<Rightarrow> (Inr (), on_client i f a))"

text \<open>A command with a number from \<open>admin_nonce\<close>, drawn once the session is found.\<close>

definition session_admin :: "session_id \<Rightarrow> (u64 \<Rightarrow> client \<Rightarrow> bool \<times> client) \<Rightarrow> 'd app \<Rightarrow> (ustring + unit) \<times> 'd app" where
  "session_admin i f a =
     (case map_of (ap_sessions a) i of
        None \<Rightarrow> (Inl connection_gone, a)
      | Some _ \<Rightarrow> (Inr (), on_client i (f (ap_nonce a)) (a\<lparr>ap_nonce := ap_nonce a + 1\<rparr>)))"

definition session_query :: "session_id \<Rightarrow> (connection \<Rightarrow> 'x) \<Rightarrow> 'd app \<Rightarrow> ustring + 'x" where
  "session_query i f a =
     (case (map_of (ap_sessions a) i, map_of (ap_connections a) i) of
        (Some _, Some c) \<Rightarrow> Inr (f c) | _ \<Rightarrow> Inl connection_gone)"

definition cmd_join_channel :: "session_id \<Rightarrow> channel_id \<Rightarrow> 'd app \<Rightarrow> (ustring + unit) \<times> 'd app" where
  "cmd_join_channel i channel = session_send i (client_join_channel channel)"

definition cmd_leave_channel :: "session_id \<Rightarrow> 'd app \<Rightarrow> (ustring + unit) \<times> 'd app" where
  "cmd_leave_channel i = session_send i client_leave_channel"

definition cmd_fetch_history :: "session_id \<Rightarrow> channel_id \<Rightarrow> 'd app \<Rightarrow> (ustring + unit) \<times> 'd app" where
  "cmd_fetch_history i channel = session_send i (client_fetch_history channel None 100)"

definition cmd_my_permissions :: "session_id \<Rightarrow> 'd app \<Rightarrow> ustring + my_permissions_dto" where
  "cmd_my_permissions i = session_query i (\<lambda>c. my_permissions (cn_perms c))"

definition cmd_kick :: "session_id \<Rightarrow> client_id \<Rightarrow> ustring option \<Rightarrow> 'd app \<Rightarrow> (ustring + unit) \<times> 'd app" where
  "cmd_kick i target reason = session_admin i (\<lambda>n. client_kick n target (case reason of Some r \<Rightarrow> r | None \<Rightarrow> []))"

definition with_fingerprint ::
  "('e, 'd) host \<Rightarrow> ustring \<Rightarrow> (fingerprint \<Rightarrow> 'd app \<Rightarrow> (ustring + unit) \<times> 'd app) \<Rightarrow> 'd app \<Rightarrow> (ustring + unit) \<times> 'd app" where
  "with_fingerprint h text_fp k a =
     (case fingerprint_parse (h_ext h) text_fp of
        Inl e \<Rightarrow> (Inl (u ''that fingerprint is not readable: '' @ h_fingerprint_text h e), a)
      | Inr fp \<Rightarrow> k fp a)"

definition cmd_ban ::
  "('e, 'd) host \<Rightarrow> session_id \<Rightarrow> ustring \<Rightarrow> ustring \<Rightarrow> u64 option \<Rightarrow> 'd app \<Rightarrow> (ustring + unit) \<times> 'd app" where
  "cmd_ban h i text_fp reason until =
     with_fingerprint h text_fp (\<lambda>fp. session_admin i (\<lambda>n. client_ban n fp reason until))"

definition cmd_unban :: "('e, 'd) host \<Rightarrow> session_id \<Rightarrow> ustring \<Rightarrow> 'd app \<Rightarrow> (ustring + unit) \<times> 'd app" where
  "cmd_unban h i text_fp = with_fingerprint h text_fp (\<lambda>fp. session_admin i (\<lambda>n. client_unban n fp))"

definition cmd_list_bans :: "session_id \<Rightarrow> 'd app \<Rightarrow> (ustring + unit) \<times> 'd app" where
  "cmd_list_bans i = session_admin i client_list_bans"

definition cmd_set_server_muted :: "session_id \<Rightarrow> client_id \<Rightarrow> bool \<Rightarrow> 'd app \<Rightarrow> (ustring + unit) \<times> 'd app" where
  "cmd_set_server_muted i target muted = session_admin i (\<lambda>n. client_set_server_mute n target muted)"

definition cmd_move_user :: "session_id \<Rightarrow> client_id \<Rightarrow> channel_id option \<Rightarrow> 'd app \<Rightarrow> (ustring + unit) \<times> 'd app" where
  "cmd_move_user i target channel = session_admin i (\<lambda>n. client_move_member n target channel)"

definition cmd_create_role :: "session_id \<Rightarrow> ustring \<Rightarrow> ustring list \<Rightarrow> 'd app \<Rightarrow> (ustring + unit) \<times> 'd app" where
  "cmd_create_role i name names = session_admin i (\<lambda>n. send_control (CreateRole n name (permissions_from_names names)))"

definition cmd_update_role ::
  "session_id \<Rightarrow> role_id \<Rightarrow> ustring option \<Rightarrow> u32 option \<Rightarrow> bool option \<Rightarrow> ustring list option \<Rightarrow> 'd app \<Rightarrow> (ustring + unit) \<times> 'd app" where
  "cmd_update_role i role name color clear_color names =
     (let perms = map_option permissions_from_names names;
          color = (if clear_color = Some True then Some None else map_option Some color)
      in session_admin i (\<lambda>n. send_control (UpdateRole n role name color perms)))"

definition cmd_delete_role :: "session_id \<Rightarrow> role_id \<Rightarrow> 'd app \<Rightarrow> (ustring + unit) \<times> 'd app" where
  "cmd_delete_role i role = session_admin i (\<lambda>n. send_control (DeleteRole n role))"

definition cmd_reorder_roles :: "session_id \<Rightarrow> (role_id \<times> u32) list \<Rightarrow> 'd app \<Rightarrow> (ustring + unit) \<times> 'd app" where
  "cmd_reorder_roles i positions = session_admin i (\<lambda>n. send_control (ReorderRoles n positions))"

definition cmd_set_member_roles ::
  "('e, 'd) host \<Rightarrow> session_id \<Rightarrow> ustring \<Rightarrow> role_id list \<Rightarrow> 'd app \<Rightarrow> (ustring + unit) \<times> 'd app" where
  "cmd_set_member_roles h i text_fp roles =
     with_fingerprint h text_fp (\<lambda>fp. session_admin i (\<lambda>n. send_control (SetMemberRoles n fp roles)))"

definition with_target ::
  "('e, 'd) host \<Rightarrow> overwrite_target_dto \<Rightarrow> (overwrite_target \<Rightarrow> 'd app \<Rightarrow> (ustring + unit) \<times> 'd app) \<Rightarrow> 'd app \<Rightarrow> (ustring + unit) \<times> 'd app" where
  "with_target h target k =
     (case target of
        RoleTarget r \<Rightarrow> k (TRole r)
      | MemberTarget text_fp \<Rightarrow> with_fingerprint h text_fp (\<lambda>fp. k (TMember fp)))"

definition cmd_set_channel_overwrite ::
  "('e, 'd) host \<Rightarrow> session_id \<Rightarrow> channel_id \<Rightarrow> overwrite_target_dto \<Rightarrow> ustring list \<Rightarrow> ustring list \<Rightarrow> 'd app \<Rightarrow> (ustring + unit) \<times> 'd app" where
  "cmd_set_channel_overwrite h i channel target allowed denied =
     with_target h target (\<lambda>t. session_admin i (\<lambda>n.
       send_control (SetChannelOverwrite n channel t (permissions_from_names allowed) (permissions_from_names denied))))"

definition cmd_delete_channel_overwrite ::
  "('e, 'd) host \<Rightarrow> session_id \<Rightarrow> channel_id \<Rightarrow> overwrite_target_dto \<Rightarrow> 'd app \<Rightarrow> (ustring + unit) \<times> 'd app" where
  "cmd_delete_channel_overwrite h i channel target =
     with_target h target (\<lambda>t. session_admin i (\<lambda>n. send_control (DeleteChannelOverwrite n channel t)))"

text \<open>The text of an unknown kind is Rust's \<open>{:?}\<close> of it, a parameter.\<close>

definition parse_kind :: "(ustring \<Rightarrow> ustring) \<Rightarrow> ustring \<Rightarrow> ustring + channel_kind" where
  "parse_kind debug kind =
     (if kind = u ''voice'' then Inr Voice else if kind = u ''text'' then Inr Text
      else if kind = u ''voice_and_text'' then Inr VoiceAndText
      else Inl (u ''unknown channel kind '' @ debug kind))"

definition cmd_create_channel ::
  "(ustring \<Rightarrow> ustring) \<Rightarrow> session_id \<Rightarrow> ustring \<Rightarrow> ustring \<Rightarrow> channel_id option \<Rightarrow> ustring option \<Rightarrow> u16 option \<Rightarrow> int option \<Rightarrow>
     'd app \<Rightarrow> (ustring + unit) \<times> 'd app" where
  "cmd_create_channel debug i name kind parent topic cap order a =
     (case parse_kind debug kind of
        Inl e \<Rightarrow> (Inl e, a)
      | Inr k \<Rightarrow> session_admin i (\<lambda>n. send_control (CreateChannel n name parent
          (case topic of Some t \<Rightarrow> t | None \<Rightarrow> []) k cap (case order of Some p \<Rightarrow> p | None \<Rightarrow> 0))) a)"

definition cmd_update_channel ::
  "(ustring \<Rightarrow> ustring) \<Rightarrow> session_id \<Rightarrow> channel_id \<Rightarrow> ustring \<Rightarrow> ustring \<Rightarrow> channel_id option \<Rightarrow> ustring \<Rightarrow> u16 option \<Rightarrow> int \<Rightarrow>
     'd app \<Rightarrow> (ustring + unit) \<times> 'd app" where
  "cmd_update_channel debug i channel name kind parent topic cap order a =
     (case parse_kind debug kind of
        Inl e \<Rightarrow> (Inl e, a)
      | Inr k \<Rightarrow> session_admin i (\<lambda>n. send_control (UpdateChannel n channel parent name topic k cap order)) a)"

definition cmd_delete_channel :: "session_id \<Rightarrow> channel_id \<Rightarrow> 'd app \<Rightarrow> (ustring + unit) \<times> 'd app" where
  "cmd_delete_channel i channel = session_admin i (\<lambda>n. send_control (DeleteChannel n channel))"

definition cmd_channel_matrix :: "session_id \<Rightarrow> channel_id \<Rightarrow> 'd app \<Rightarrow> ustring + matrix_row_dto list" where
  "cmd_channel_matrix i channel = session_query i (\<lambda>c. channel_matrix channel (cn_perms c))"

definition cmd_channel_overwrites :: "('e, 'd) host \<Rightarrow> session_id \<Rightarrow> channel_id \<Rightarrow> 'd app \<Rightarrow> ustring + overwrite_dto list" where
  "cmd_channel_overwrites h i channel = session_query i (\<lambda>c. overwrites_dto (h_ext h) channel (cn_perms c))"

definition cmd_moderation_options :: "session_id \<Rightarrow> client_id \<Rightarrow> 'd app \<Rightarrow> ustring + moderation_options_dto" where
  "cmd_moderation_options i client = session_query i (\<lambda>c. moderation_options client (cn_perms c))"

definition cmd_send_message :: "chance \<Rightarrow> session_id \<Rightarrow> channel_id \<Rightarrow> ustring \<Rightarrow> 'd app \<Rightarrow> (ustring + unit) \<times> 'd app" where
  "cmd_send_message x i channel content a =
     (if trim content = [] then (Inr (), a)
      else session_send i (client_send_message channel content (ch_nanos x)) a)"

section \<open>Voice\<close>

definition echo_voice :: "(ustring + app_voice) \<times> 'd app \<Rightarrow> (ustring + unit) \<times> 'd app" where
  "echo_voice r =
     (case r of (Inl e, a) \<Rightarrow> (Inl e, a) | (Inr v, a) \<Rightarrow> (Inr (), a\<lparr>ap_ui := ap_ui a @ [UiVoiceState v]\<rparr>))"

definition cmd_set_muted :: "bool \<Rightarrow> 'd app \<Rightarrow> (ustring + unit) \<times> 'd app" where
  "cmd_set_muted muted a = echo_voice (app_set_muted muted a)"

definition cmd_set_deafened :: "bool \<Rightarrow> 'd app \<Rightarrow> (ustring + unit) \<times> 'd app" where
  "cmd_set_deafened deafened a = echo_voice (app_set_deafened deafened a)"

definition input_activity :: "'d app \<Rightarrow> level \<times> bool" where
  "input_activity a =
     (case ap_engine a of Some e \<Rightarrow> (input_level_dbfs e, is_transmitting e) | None \<Rightarrow> (NegInfinity, False))"

definition cmd_speaking :: "'d app \<Rightarrow> speaking_dto" where
  "cmd_speaking a =
     (case (voice_session a, ap_engine a) of
        (Some voice, Some e) \<Rightarrow>
          \<lparr>spk_session = Some voice,
           spk_clients = en_speaking e @
             (if is_transmitting e then
                (case session_query voice (\<lambda>c. si_client_id (cl_session (cn_client c))) a of Inr c \<Rightarrow> [c] | Inl _ \<Rightarrow> []) else [])\<rparr>
      | _ \<Rightarrow> \<lparr>spk_session = None, spk_clients = []\<rparr>)"

datatype action = ActPushToTalk | ActToggleMute | ActToggleDeafen

definition shortcut_dispatch :: "action \<Rightarrow> bool \<Rightarrow> 'd app \<Rightarrow> 'd app" where
  "shortcut_dispatch act pressed a =
     (case act of
        ActPushToTalk \<Rightarrow> app_set_push_to_talk_held pressed a
      | ActToggleMute \<Rightarrow> if pressed then snd (echo_voice (toggle_muted a)) else a
      | ActToggleDeafen \<Rightarrow> if pressed then snd (echo_voice (toggle_deafened a)) else a)"

section \<open>Pins\<close>

definition known_servers :: "('e, 'd) host \<Rightarrow> chance \<Rightarrow> 'd app \<Rightarrow> ustring + (ustring \<times> ustring \<times> ustring) list" where
  "known_servers h x a =
     (case trust_store_of h x a of
        Inl e \<Rightarrow> Inl e
      | Inr st \<Rightarrow> Inr (map (\<lambda>(address, s). (address, ts_name s, fingerprint_short (h_ext h) (ts_fingerprint s))) (tr_servers st)))"

definition cmd_forget_server :: "('e, 'd) host \<Rightarrow> chance \<Rightarrow> ustring \<Rightarrow> 'd app \<Rightarrow> (ustring + unit) \<times> 'd app" where
  "cmd_forget_server h x address a =
     (case trust_store_of h x a of
        Inl e \<Rightarrow> (Inl e, a)
      | Inr st \<Rightarrow> save_trust h x (snd (forget address st)) a)"

definition cmd_trust_changed_identity ::
  "('e, 'd) host \<Rightarrow> chance \<Rightarrow> ustring \<Rightarrow> ustring \<Rightarrow> 'd app \<Rightarrow> (ustring + unit) \<times> 'd app" where
  "cmd_trust_changed_identity h x key text_fp =
     with_fingerprint h text_fp (\<lambda>fp a.
       case trust_store_of h x a of
         Inl e \<Rightarrow> (Inl e, a)
       | Inr st \<Rightarrow>
           let name = (case trust_get key st of Some s \<Rightarrow> ts_name s | None \<Rightarrow> [])
           in save_trust h x (trust (ch_now x) key fp name st) a)"

section \<open>Settings\<close>

definition cmd_set_audio_settings :: "('e, 'd) host \<Rightarrow> chance \<Rightarrow> audio_settings \<Rightarrow> 'd app \<Rightarrow> (ustring + unit) \<times> 'd app" where
  "cmd_set_audio_settings h x audio a =
     (let restart = needs_restart (st_audio (ap_settings a)) audio;
          a = a\<lparr>ap_settings := (ap_settings a)\<lparr>st_audio := audio\<rparr>\<rparr>
      in and_then (persist_settings h a) (\<lambda>_ a.
           case ap_engine a of
             None \<Rightarrow> (Inr (), a)
           | Some _ \<Rightarrow>
               if restart then start_audio x a
               else (Inr (), with_engine (en_set_gate_mode (gate_mode_of (as_gate_mode audio))) a)))"

text \<open>The grabs made afterwards are the host system's.\<close>

definition cmd_set_keybinds :: "('e, 'd) host \<Rightarrow> keybinds \<Rightarrow> 'd app \<Rightarrow> (ustring + unit) \<times> 'd app" where
  "cmd_set_keybinds h binds a = persist_settings h (a\<lparr>ap_settings := (ap_settings a)\<lparr>st_keybinds := binds\<rparr>\<rparr>)"

definition cmd_start_audio_preview :: "chance \<Rightarrow> 'd app \<Rightarrow> (ustring + unit) \<times> 'd app" where
  "cmd_start_audio_preview x a = ensure_audio x a"

definition cmd_stop_audio_preview :: "'d app \<Rightarrow> 'd app" where
  "cmd_stop_audio_preview a = (if ap_sessions a = [] then stop_audio a else a)"

section \<open>Dispatch\<close>

datatype session_command =
    CmdJoinChannel channel_id
  | CmdLeaveChannel
  | CmdFetchHistory channel_id
  | CmdKick client_id "ustring option"
  | CmdBan ustring ustring "u64 option"
  | CmdUnban ustring
  | CmdListBans
  | CmdSetServerMuted client_id bool
  | CmdMoveUser client_id "channel_id option"
  | CmdCreateRole ustring "ustring list"
  | CmdUpdateRole role_id "ustring option" "u32 option" "bool option" "ustring list option"
  | CmdDeleteRole role_id
  | CmdReorderRoles "(role_id \<times> u32) list"
  | CmdSetMemberRoles ustring "role_id list"
  | CmdSetChannelOverwrite channel_id overwrite_target_dto "ustring list" "ustring list"
  | CmdDeleteChannelOverwrite channel_id overwrite_target_dto
  | CmdCreateChannel ustring ustring "channel_id option" "ustring option" "u16 option" "int option"
  | CmdUpdateChannel channel_id ustring ustring "channel_id option" ustring "u16 option" int
  | CmdDeleteChannel channel_id
  | CmdSendMessage channel_id ustring

fun invoke_on ::
  "('e, 'd) host \<Rightarrow> (ustring \<Rightarrow> ustring) \<Rightarrow> chance \<Rightarrow> session_id \<Rightarrow> session_command \<Rightarrow> 'd app \<Rightarrow> (ustring + unit) \<times> 'd app" where
  "invoke_on h debug x i (CmdJoinChannel c) = cmd_join_channel i c"
| "invoke_on h debug x i CmdLeaveChannel = cmd_leave_channel i"
| "invoke_on h debug x i (CmdFetchHistory c) = cmd_fetch_history i c"
| "invoke_on h debug x i (CmdKick t r) = cmd_kick i t r"
| "invoke_on h debug x i (CmdBan fp r till) = cmd_ban h i fp r till"
| "invoke_on h debug x i (CmdUnban fp) = cmd_unban h i fp"
| "invoke_on h debug x i CmdListBans = cmd_list_bans i"
| "invoke_on h debug x i (CmdSetServerMuted t m) = cmd_set_server_muted i t m"
| "invoke_on h debug x i (CmdMoveUser t c) = cmd_move_user i t c"
| "invoke_on h debug x i (CmdCreateRole nm ps) = cmd_create_role i nm ps"
| "invoke_on h debug x i (CmdUpdateRole r nm c cl ps) = cmd_update_role i r nm c cl ps"
| "invoke_on h debug x i (CmdDeleteRole r) = cmd_delete_role i r"
| "invoke_on h debug x i (CmdReorderRoles ps) = cmd_reorder_roles i ps"
| "invoke_on h debug x i (CmdSetMemberRoles fp rs) = cmd_set_member_roles h i fp rs"
| "invoke_on h debug x i (CmdSetChannelOverwrite c t al de) = cmd_set_channel_overwrite h i c t al de"
| "invoke_on h debug x i (CmdDeleteChannelOverwrite c t) = cmd_delete_channel_overwrite h i c t"
| "invoke_on h debug x i (CmdCreateChannel nm k pa to mx od) = cmd_create_channel debug i nm k pa to mx od"
| "invoke_on h debug x i (CmdUpdateChannel c nm k pa to mx od) = cmd_update_channel debug i c nm k pa to mx od"
| "invoke_on h debug x i (CmdDeleteChannel c) = cmd_delete_channel i c"
| "invoke_on h debug x i (CmdSendMessage c content) = cmd_send_message x i c content"

datatype app_command =
    OnSession session_id session_command
  | CmdSetNickname ustring
  | CmdAddIdentity ustring ustring
  | CmdSetActiveIdentity ustring
  | CmdSetIdentityLabel ustring ustring
  | CmdRemoveIdentity ustring
  | CmdSetAudioSettings audio_settings
  | CmdSetKeybinds keybinds
  | CmdStartAudioPreview
  | CmdStopAudioPreview
  | CmdDisconnect session_id
  | CmdSetVoiceSession session_id
  | CmdSetMuted bool
  | CmdSetDeafened bool
  | CmdSetPushToTalkHeld bool
  | CmdShortcut action bool
  | CmdForgetServer ustring
  | CmdTrustChangedIdentity ustring ustring
  | CmdBookmark bookmark_command

definition bookmark_outcome :: "('e, 'd) host \<Rightarrow> (bookmark_error + bookmark list) \<times> disk \<Rightarrow> 'd app \<Rightarrow> (ustring + unit) \<times> 'd app" where
  "bookmark_outcome h r a =
     (case r of (Inl e, d) \<Rightarrow> (Inl (h_bookmark_text h e), a\<lparr>ap_disk := d\<rparr>) | (Inr _, d) \<Rightarrow> (Inr (), a\<lparr>ap_disk := d\<rparr>))"

fun invoke ::
  "('e, 'd) host \<Rightarrow> (ustring \<Rightarrow> ustring) \<Rightarrow> chance \<Rightarrow> app_command \<Rightarrow> 'd app \<Rightarrow> ((ustring + unit) \<times> 'd app) option" where
  "invoke h debug x (OnSession i c) a = Some (invoke_on h debug x i c a)"
| "invoke h debug x (CmdSetNickname n) a = Some (cmd_set_nickname h x n a)"
| "invoke h debug x (CmdAddIdentity n l) a = Some (cmd_add_identity h x n l a)"
| "invoke h debug x (CmdSetActiveIdentity fp) a = Some (cmd_set_active_identity h x fp a)"
| "invoke h debug x (CmdSetIdentityLabel fp l) a = Some (cmd_set_identity_label h x fp l a)"
| "invoke h debug x (CmdRemoveIdentity fp) a = cmd_remove_identity h x fp a"
| "invoke h debug x (CmdSetAudioSettings s) a = Some (cmd_set_audio_settings h x s a)"
| "invoke h debug x (CmdSetKeybinds k) a = Some (cmd_set_keybinds h k a)"
| "invoke h debug x CmdStartAudioPreview a = Some (cmd_start_audio_preview x a)"
| "invoke h debug x CmdStopAudioPreview a = Some (Inr (), cmd_stop_audio_preview a)"
| "invoke h debug x (CmdDisconnect i) a = Some (Inr (), cmd_disconnect h i a)"
| "invoke h debug x (CmdSetVoiceSession i) a = Some (route_voice i a)"
| "invoke h debug x (CmdSetMuted m) a = Some (cmd_set_muted m a)"
| "invoke h debug x (CmdSetDeafened d) a = Some (cmd_set_deafened d a)"
| "invoke h debug x (CmdSetPushToTalkHeld b) a = Some (Inr (), app_set_push_to_talk_held b a)"
| "invoke h debug x (CmdShortcut act pressed) a = Some (Inr (), shortcut_dispatch act pressed a)"
| "invoke h debug x (CmdForgetServer s) a = Some (cmd_forget_server h x s a)"
| "invoke h debug x (CmdTrustChangedIdentity k fp) a = Some (cmd_trust_changed_identity h x k fp a)"
| "invoke h debug x (CmdBookmark c) a =
     Some (bookmark_outcome h (do_bookmark (h_profile_lib h) (ap_bookmarks_path a) c (ap_disk a)) a)"

end
