(* ===== verification/Pickle_Cockpit.thy ===== *)
theory Pickle_Cockpit
  imports Pickle_Commands
begin

text \<open>
  The running desktop application: commands, connections being made, events arriving, frames being
  captured and played, in any order. Shown are that voice stays on one server, that the microphone
  reaches no connection but the one that holds voice, and that nothing but the user opens a muted
  microphone; and two races the code can lose, one of them because it does not take a voice packet in
  one step.
\<close>

section \<open>Steps\<close>

text \<open>
  A command, an event or a frame is one step, connecting is two. Mining ends, a passphrase is set and
  the capture callback meters the input at any time.
\<close>

datatype app_event =
    ABegin | AFinish session_id | AInvoke app_command | APump session_id client_event | ACapture | ARender | AMeter | AMined
  | APassphrase

inductive app_step :: "('e, 'd) host \<Rightarrow> app_event \<Rightarrow> 'd app \<Rightarrow> 'd app \<Rightarrow> bool" for h :: "('e, 'd) host" where
  begins: "connect_begin h x tp max_datagram address password ident a = Some (r, a') \<Longrightarrow>
    ap_next_session_id a \<noteq> - 1 \<Longrightarrow> app_step h ABegin a a'"
| finishes: "p \<in> set (ap_pending a) \<Longrightarrow> map_of (ap_connections a) (pd_id p) = Some c \<Longrightarrow>
    app_step h (AFinish (pd_id p)) a (connect_finish h p c a)"
| invokes: "invoke h debug x cmd a = Some (r, a') \<Longrightarrow> app_step h (AInvoke cmd) a a'"
| pumps: "map_of (ap_connections a) i = Some c \<Longrightarrow> cn_pump c \<Longrightarrow>
    app_step h (APump i ev) a (event_pump h i ev (cn_perms c) a)"
| captures: "app_step h ACapture a (capture_pump fits f a)"
| renders: "app_step h ARender a (with_engine (\<lambda>e. e\<lparr>en_mixer := snd (snd (render (h_opus h) out (en_mixer e)))\<rparr>) a)"
| meters: "app_step h AMeter a (with_engine (\<lambda>e. e\<lparr>en_controls := (en_controls e)\<lparr>cc_level_dbfs := l, cc_transmitting := t\<rparr>\<rparr>) a)"
| mined: "app_step h AMined a (mining_done h x fp counter a)"
| rekeyed: "app_step h APassphrase a (snd (set_vault_passphrase h x passphrase a))"

text \<open>
  Beside the state a run carries the packets heard from the server that holds voice since it took it.
\<close>

definition line_step :: "'d app \<Rightarrow> app_event \<Rightarrow> 'd app \<Rightarrow> voice_downstream list \<Rightarrow> voice_downstream list" where
  "line_step a e a' ps =
     (if voice_session a' \<noteq> voice_session a then []
      else case e of APump i (EvVoice p) \<Rightarrow> if voice_session a = Some i then ps @ [p] else ps | _ \<Rightarrow> ps)"

inductive app_run :: "('e, 'd) host \<Rightarrow> 'd app \<Rightarrow> app_event list \<Rightarrow> 'd app \<Rightarrow> voice_downstream list \<Rightarrow> bool"
  for h :: "('e, 'd) host" and a0 :: "'d app" where
  app_start: "app_run h a0 [] a0 []"
| app_further: "app_run h a0 es a ps \<Longrightarrow> app_step h e a a' \<Longrightarrow> app_run h a0 (es @ [e]) a' (line_step a e a' ps)"

section \<open>Steps that leave the connections alone\<close>

text \<open>The same connection, but for control frames sent on it.\<close>

definition same_connection :: "connection \<Rightarrow> connection \<Rightarrow> bool" where
  "same_connection c c' \<longleftrightarrow> cn_pump c' = cn_pump c \<and> cn_perms c' = cn_perms c \<and> cl_open (cn_client c') = cl_open (cn_client c) \<and>
     cl_session (cn_client c') = cl_session (cn_client c) \<and> cl_datagrams (cn_client c') = cl_datagrams (cn_client c)"

lemma same_connection_refl [simp]: "same_connection c c"
  by (simp add: same_connection_def)

definition calm_connections :: "'d app \<Rightarrow> 'd app \<Rightarrow> bool" where
  "calm_connections a a' \<longleftrightarrow> (\<forall>i. rel_option same_connection (map_of (ap_connections a) i) (map_of (ap_connections a') i))"

definition quiet_ui :: "'d app \<Rightarrow> 'd app \<Rightarrow> bool" where
  "quiet_ui a a' \<longleftrightarrow> (\<exists>vs. ap_ui a' = ap_ui a @ map UiVoiceState vs)"

definition at_ease :: "'d app \<Rightarrow> 'd app \<Rightarrow> bool" where
  "at_ease a a' \<longleftrightarrow> ap_sessions a' = ap_sessions a \<and> ap_voice a' = ap_voice a \<and> ap_pending a' = ap_pending a \<and>
     ap_next_session_id a' = ap_next_session_id a \<and> calm_connections a a' \<and> quiet_ui a a'"

lemma at_ease_refl [simp]: "at_ease a a"
  by (simp add: at_ease_def calm_connections_def quiet_ui_def option.rel_refl)

lemma at_ease_trans [trans]: "at_ease a b \<Longrightarrow> at_ease b c \<Longrightarrow> at_ease a c"
  unfolding at_ease_def calm_connections_def quiet_ui_def
  by (auto simp flip: map_append)
    (metis (mono_tags, lifting) option.rel_sel same_connection_def)

text \<open>Fields that play no part.\<close>

lemma at_ease_fields [simp]:
  "at_ease a (b\<lparr>ap_disk := d\<rparr>) = at_ease a b" "at_ease a (b\<lparr>ap_vault := v\<rparr>) = at_ease a b"
  "at_ease a (b\<lparr>ap_settings := s\<rparr>) = at_ease a b" "at_ease a (b\<lparr>ap_trust_file := f\<rparr>) = at_ease a b"
  "at_ease a (b\<lparr>ap_nonce := n\<rparr>) = at_ease a b" "at_ease a (b\<lparr>ap_engine := e\<rparr>) = at_ease a b"
  by (simp_all add: at_ease_def calm_connections_def quiet_ui_def)

lemma at_ease_with_engine [simp]: "at_ease a (with_engine f b) = at_ease a b"
  by (simp add: with_engine_def)

lemma at_ease_voice_state: "at_ease a b \<Longrightarrow> at_ease a (b\<lparr>ap_ui := ap_ui b @ [UiVoiceState v]\<rparr>)"
  unfolding at_ease_def calm_connections_def quiet_ui_def
  by simp (metis append_assoc list.map(1) list.map(2) map_append)

definition polite :: "(client \<Rightarrow> bool \<times> client) \<Rightarrow> bool" where
  "polite f \<longleftrightarrow> (\<forall>c. cl_open (snd (f c)) = cl_open c \<and> cl_session (snd (f c)) = cl_session c \<and> cl_datagrams (snd (f c)) = cl_datagrams c)"

lemma polite_send_control [simp]: "polite (send_control m)"
  by (simp add: polite_def send_control_def)

lemmas client_requests = client_join_channel_def client_leave_channel_def client_set_voice_state_def client_send_message_def
  client_kick_def client_ban_def client_unban_def client_list_bans_def client_set_server_mute_def client_move_member_def
  client_fetch_history_def

lemma on_client_frame [simp]:
  "ap_sessions (on_client i f a) = ap_sessions a" "ap_voice (on_client i f a) = ap_voice a"
  "ap_pending (on_client i f a) = ap_pending a" "ap_next_session_id (on_client i f a) = ap_next_session_id a"
  "ap_ui (on_client i f a) = ap_ui a" "ap_engine (on_client i f a) = ap_engine a"
  by (simp_all add: on_client_def)

lemma map_of_on_client:
  "map_of (ap_connections (on_client i f a)) k =
     (if k = i then map_option (\<lambda>c. c\<lparr>cn_client := snd (f (cn_client c))\<rparr>) (map_of (ap_connections a) i)
      else map_of (ap_connections a) k)"
  by (auto simp: on_client_def map_of_map_entry split: option.splits)

lemma at_ease_on_client:
  assumes "polite f" and "at_ease a b"
  shows "at_ease a (on_client i f b)"
proof -
  have "at_ease b (on_client i f b)"
    using assms(1)
    by (auto simp: at_ease_def quiet_ui_def calm_connections_def map_of_on_client same_connection_def polite_def option.rel_refl
        option.rel_map intro!: option.rel_refl_strong)
  with assms(2) show ?thesis by (rule at_ease_trans)
qed

section \<open>What the commands leave alone\<close>

lemma persist_vault_ease: "at_ease a (snd (persist_vault h x b)) = at_ease a b" "ap_engine (snd (persist_vault h x b)) = ap_engine b"
    "ap_sessions (snd (persist_vault h x b)) = ap_sessions b"
  by (auto simp: persist_vault_def split: prod.splits sum.splits)

lemma persist_settings_ease: "at_ease a (snd (persist_settings h b)) = at_ease a b" "ap_engine (snd (persist_settings h b)) = ap_engine b"
    "ap_sessions (snd (persist_settings h b)) = ap_sessions b"
  by (auto simp: persist_settings_def split: prod.splits sum.splits)

lemma save_trust_ease: "at_ease a (snd (save_trust h x st b)) = at_ease a b" "ap_engine (snd (save_trust h x st b)) = ap_engine b"
  by (auto simp: save_trust_def split: prod.splits sum.splits)

lemma remember_ease: "at_ease a (remember_open_connections h b) = at_ease a b" "ap_engine (remember_open_connections h b) = ap_engine b"
  by (simp_all add: remember_open_connections_def persist_settings_ease)

lemma change_vault_ease: "at_ease a (snd (change_vault h x r b)) = at_ease a b" "ap_engine (snd (change_vault h x r b)) = ap_engine b"
    "ap_sessions (snd (change_vault h x r b)) = ap_sessions b"
  by (auto simp: change_vault_def persist_vault_ease split: sum.splits)

lemma session_send_ease:
  "polite f \<Longrightarrow> at_ease a (snd (session_send i f a))" "ap_engine (snd (session_send i f a)) = ap_engine a"
  by (auto simp: session_send_def intro: at_ease_on_client split: option.splits)

lemma session_admin_ease:
  "(\<And>n. polite (f n)) \<Longrightarrow> at_ease a (snd (session_admin i f a))" "ap_engine (snd (session_admin i f a)) = ap_engine a"
  by (auto simp: session_admin_def intro: at_ease_on_client split: option.splits)

lemma with_fingerprint_ease:
  "(\<And>fp. at_ease a (snd (k fp a))) \<Longrightarrow> at_ease a (snd (with_fingerprint h s k a))"
  "(\<And>fp. ap_engine (snd (k fp a)) = ap_engine a) \<Longrightarrow> ap_engine (snd (with_fingerprint h s k a)) = ap_engine a"
  by (simp_all add: with_fingerprint_def split: sum.splits)

lemmas session_commands = cmd_join_channel_def cmd_leave_channel_def cmd_fetch_history_def cmd_kick_def cmd_ban_def cmd_unban_def
  cmd_list_bans_def cmd_set_server_muted_def cmd_move_user_def cmd_create_role_def cmd_update_role_def cmd_delete_role_def
  cmd_reorder_roles_def cmd_set_member_roles_def cmd_set_channel_overwrite_def cmd_delete_channel_overwrite_def
  cmd_create_channel_def cmd_update_channel_def cmd_delete_channel_def cmd_send_message_def with_target_def

lemma invoke_on_ease:
  "at_ease a (snd (invoke_on h debug x i c a)) \<and> ap_engine (snd (invoke_on h debug x i c a)) = ap_engine a"
  by (cases c)
    (auto simp: session_commands client_requests Let_def session_send_ease session_admin_ease
      split: sum.splits overwrite_target_dto.splits intro!: with_fingerprint_ease)

lemma fold_ease:
  assumes "\<And>p b. p \<in> set ss \<Longrightarrow> at_ease a b \<Longrightarrow> at_ease a (g p b) \<and> ap_engine (g p b) = ap_engine b" and "at_ease a b"
  shows "at_ease a (fold g ss b) \<and> ap_engine (fold g ss b) = ap_engine b"
  using assms
proof (induction ss arbitrary: b)
  case (Cons p ss)
  have "at_ease a (g p b) \<and> ap_engine (g p b) = ap_engine b" using Cons.prems by simp
  then show ?case using Cons.IH [of "g p b"] Cons.prems(1) by simp
qed simp

lemma announce_ease:
  assumes "at_ease a b"
  shows "at_ease a (snd (announce_voice_state e b)) \<and> ap_engine (snd (announce_voice_state e b)) = ap_engine b"
  unfolding announce_voice_state_def Let_def snd_conv
  by (rule fold_ease [OF _ assms]) (auto simp: client_requests intro: at_ease_on_client)

lemma set_nickname_ease: "at_ease a (snd (cmd_set_nickname h x n a)) \<and> ap_engine (snd (cmd_set_nickname h x n a)) = ap_engine a"
proof (cases "trim n = []")
  case False
  let ?c = "change_vault h x (vault_set_nickname (h_ext h) (v_active (ap_vault a)) (trim n) (ap_vault a)) a"
  let ?g = "\<lambda>(i, s). if ac_identity s = v_active (ap_vault a) then on_client i (send_control (client_control.SetNickname (trim n))) else id"
  have "at_ease a (fold ?g ss (snd ?c)) \<and> ap_engine (fold ?g ss (snd ?c)) = ap_engine (snd ?c)" for ss
    by (rule fold_ease) (auto simp: change_vault_ease intro!: at_ease_on_client)
  moreover have "at_ease a (snd ?c)" "ap_engine (snd ?c) = ap_engine a" by (simp_all add: change_vault_ease)
  ultimately show ?thesis
    using False
    by (cases ?c) (auto simp: cmd_set_nickname_def and_then_def Let_def split: sum.splits)
qed (simp add: cmd_set_nickname_def Let_def)

lemma voice_ease:
  "at_ease a (snd (app_set_muted m a))" "at_ease a (snd (app_set_deafened d a))"
  "at_ease a (snd (toggle_muted a))" "at_ease a (snd (toggle_deafened a))"
  using announce_ease [of a]
  by (auto simp: app_set_muted_def app_set_deafened_def toggle_muted_def toggle_deafened_def Let_def case_prod_beta split: option.splits)

lemma echo_ease: "at_ease a (snd r) \<Longrightarrow> at_ease a (snd (echo_voice r))"
  by (auto simp: echo_voice_def intro: at_ease_voice_state split: prod.splits sum.splits)

lemma audio_ease: "at_ease a (snd (start_audio x b)) = at_ease a b" "at_ease a (snd (ensure_audio x b)) = at_ease a b"
  by (auto simp: start_audio_def ensure_audio_def Let_def split: sum.splits option.splits prod.splits)

lemma set_audio_settings_ease: "at_ease a (snd (cmd_set_audio_settings h x s a))"
proof -
  let ?b = "a\<lparr>ap_settings := (ap_settings a)\<lparr>st_audio := s\<rparr>\<rparr>"
  have "at_ease a (snd (persist_settings h ?b))" by (simp add: persist_settings_ease)
  then show ?thesis
    by (cases "persist_settings h ?b")
      (auto simp: cmd_set_audio_settings_def and_then_def audio_ease Let_def split: sum.splits option.splits)
qed

text \<open>Every command but the two that open and close the line.\<close>

lemma invoke_ease:
  assumes "invoke h debug x cmd a = Some ra" and "\<And>i. cmd \<noteq> CmdDisconnect i" and "\<And>i. cmd \<noteq> CmdSetVoiceSession i"
  shows "at_ease a (snd ra)"
  using assms
  by (cases cmd)
    (auto simp: invoke_on_ease set_nickname_ease change_vault_ease
      cmd_add_identity_def cmd_set_active_identity_def cmd_set_identity_label_def cmd_remove_identity_def
      set_audio_settings_ease cmd_set_keybinds_def persist_settings_ease cmd_start_audio_preview_def audio_ease
      cmd_stop_audio_preview_def stop_audio_def cmd_set_muted_def cmd_set_deafened_def echo_ease voice_ease
      app_set_push_to_talk_held_def shortcut_dispatch_def cmd_forget_server_def cmd_trust_changed_identity_def save_trust_ease
      with_fingerprint_def bookmark_outcome_def Let_def case_prod_beta
      split: sum.splits if_splits action.splits)

section \<open>What the commands do to the engine\<close>

definition stream_keys :: "'d engine option \<Rightarrow> client_id set" where
  "stream_keys E = (case E of None \<Rightarrow> {} | Some e \<Rightarrow> fst ` set (mx_streams (en_mixer e)))"

text \<open>No stream is added, and unless \<open>opens\<close>, a muted microphone stays muted.\<close>

definition tamer :: "bool \<Rightarrow> 'd engine option \<Rightarrow> 'd engine option \<Rightarrow> bool" where
  "tamer opens E E' \<longleftrightarrow> stream_keys E' \<subseteq> stream_keys E \<and>
     (\<forall>e e'. \<not> opens \<longrightarrow> E = Some e \<longrightarrow> E' = Some e' \<longrightarrow> is_muted e \<longrightarrow> is_muted e')"

lemma tamer_refl [simp]: "tamer opens E E"
  by (simp add: tamer_def)

lemma tamer_None [simp]: "tamer opens E None"
  by (simp add: tamer_def stream_keys_def)

lemmas engine_parts = is_muted_def is_deafened_def en_set_muted_def en_set_deafened_def en_clear_speakers_def
  en_set_gate_mode_def en_set_push_to_talk_held_def engine_set_muted_def set_deafened_def clear_speakers_def
  controls_set_gate_mode_def set_push_to_talk_held_def

lemma tamer_map:
  assumes "\<And>e. mx_streams (en_mixer (f e)) = mx_streams (en_mixer e) \<or> mx_streams (en_mixer (f e)) = []"
    and "\<And>e. \<not> opens \<Longrightarrow> is_muted e \<Longrightarrow> is_muted (f e)"
  shows "tamer opens E (map_option f E)"
proof (cases E)
  case (Some e)
  then show ?thesis using assms(1) [of e] assms(2) [of e] by (auto simp: tamer_def stream_keys_def)
qed simp

lemma engine_set_voice:
  "ap_engine (snd (app_set_muted m a)) = map_option (en_set_muted m) (ap_engine a)"
  "ap_engine (snd (app_set_deafened d a)) =
     map_option (\<lambda>e. if d then en_set_muted True (en_set_deafened d e) else en_set_deafened d e) (ap_engine a)"
  "ap_engine (snd (toggle_muted a)) = map_option (\<lambda>e. en_set_muted (\<not> is_muted e) e) (ap_engine a)"
  "ap_engine (snd (toggle_deafened a)) =
     map_option (\<lambda>e. if is_deafened e then en_set_deafened False e else en_set_muted True (en_set_deafened True e)) (ap_engine a)"
  by (auto simp: app_set_muted_def app_set_deafened_def toggle_muted_def toggle_deafened_def Let_def case_prod_beta
      announce_ease [OF at_ease_refl, THEN conjunct2] split: option.splits)

lemma engine_echo: "ap_engine (snd (echo_voice r)) = ap_engine (snd r)"
  by (auto simp: echo_voice_def split: prod.splits sum.splits)

lemma tamer_start_audio: "tamer opens (ap_engine a) (ap_engine (snd (start_audio x a)))"
  by (auto simp: start_audio_def engine_start_def tamer_def stream_keys_def mixer_new_def take_frames_def engine_parts Let_def
      split: sum.splits option.splits prod.splits)

lemma tamer_ensure_audio: "tamer opens (ap_engine a) (ap_engine (snd (ensure_audio x a)))"
  using tamer_start_audio [of opens a x] by (auto simp: ensure_audio_def split: option.splits)

lemma tamer_with_engine:
  assumes "\<And>e. mx_streams (en_mixer (f e)) = mx_streams (en_mixer e) \<or> mx_streams (en_mixer (f e)) = []"
    and "\<And>e. \<not> opens \<Longrightarrow> is_muted e \<Longrightarrow> is_muted (f e)"
  shows "tamer opens (ap_engine a) (ap_engine (with_engine f a))"
  unfolding with_engine_def by (simp add: tamer_map [OF assms])

lemma tamer_clear: "tamer opens E (map_option en_clear_speakers E)"
  by (rule tamer_map) (simp_all add: engine_parts)

lemma tamer_end_session: "tamer opens (ap_engine a) (ap_engine (app_end_session i a))"
  by (auto simp: app_end_session_def session_shutdown_def voice_clear_if_def stop_audio_def with_engine_def tamer_clear Let_def
      voice_session_def split: option.splits)

fun unmutes :: "app_command \<Rightarrow> bool" where
  "unmutes (CmdSetMuted m) \<longleftrightarrow> \<not> m"
| "unmutes (CmdShortcut act pressed) \<longleftrightarrow> act = ActToggleMute \<and> pressed"
| "unmutes _ \<longleftrightarrow> False"

lemma tamer_set_audio_settings: "tamer opens (ap_engine a) (ap_engine (snd (cmd_set_audio_settings h x s a)))"
proof -
  let ?b = "snd (persist_settings h (a\<lparr>ap_settings := (ap_settings a)\<lparr>st_audio := s\<rparr>\<rparr>))"
  have e: "ap_engine ?b = ap_engine a" by (simp add: persist_settings_ease)
  have "tamer opens (ap_engine ?b) (ap_engine (with_engine (en_set_gate_mode m) ?b))" for m
    by (rule tamer_with_engine) (simp_all add: engine_parts)
  then show ?thesis
    using e tamer_start_audio [of opens ?b x]
    by (cases "persist_settings h (a\<lparr>ap_settings := (ap_settings a)\<lparr>st_audio := s\<rparr>\<rparr>)")
      (auto simp: cmd_set_audio_settings_def and_then_def Let_def split: sum.splits option.splits)
qed

lemma tamer_voice:
  "m \<or> opens \<Longrightarrow> tamer opens E (map_option (en_set_muted m) E)"
  "tamer opens E (map_option (\<lambda>e. if d then en_set_muted True (en_set_deafened d e) else en_set_deafened d e) E)"
  "tamer True E (map_option (\<lambda>e. en_set_muted (\<not> is_muted e) e) E)"
  "tamer opens E (map_option (\<lambda>e. if is_deafened e then en_set_deafened False e else en_set_muted True (en_set_deafened True e)) E)"
  "tamer opens E (map_option (en_set_push_to_talk_held b) E)"
  by (rule tamer_map; simp add: engine_parts)+

lemma invoke_engine:
  assumes "invoke h debug x cmd a = Some ra"
  shows "tamer (unmutes cmd) (ap_engine a) (ap_engine (snd ra))"
  using assms
  by (cases cmd)
    (auto simp: invoke_on_ease set_nickname_ease change_vault_ease engine_set_voice engine_echo tamer_voice
      cmd_add_identity_def cmd_set_active_identity_def cmd_set_identity_label_def cmd_remove_identity_def
      tamer_set_audio_settings cmd_set_keybinds_def persist_settings_ease cmd_start_audio_preview_def tamer_ensure_audio
      cmd_stop_audio_preview_def stop_audio_def cmd_set_muted_def cmd_set_deafened_def cmd_disconnect_def remember_ease
      tamer_end_session route_voice_def with_engine_def tamer_clear
      app_set_push_to_talk_held_def shortcut_dispatch_def cmd_forget_server_def cmd_trust_changed_identity_def save_trust_ease
      with_fingerprint_def bookmark_outcome_def Let_def case_prod_beta
      split: sum.splits if_splits action.splits option.splits)

section \<open>The line\<close>

definition open_connection_at :: "'d app \<Rightarrow> session_id \<Rightarrow> bool" where
  "open_connection_at a i \<longleftrightarrow> (\<exists>c. map_of (ap_connections a) i = Some c \<and> cl_open (cn_client c))"

definition lines_ok :: "'d app \<Rightarrow> bool" where
  "lines_ok a \<longleftrightarrow>
     (\<forall>i j. ap_voice a = Some (i, j) \<longrightarrow> j = i \<and> map_of (ap_sessions a) i \<noteq> None) \<and>
     (\<forall>i. map_of (ap_sessions a) i \<noteq> None \<longrightarrow> open_connection_at a i) \<and>
     (\<forall>p\<in>set (ap_pending a). map_of (ap_sessions a) (pd_id p) = None \<and> open_connection_at a (pd_id p)) \<and>
     distinct (map pd_id (ap_pending a)) \<and>
     (\<forall>i. map_of (ap_connections a) i \<noteq> None \<longrightarrow> i < ap_next_session_id a)"

definition audible_ok :: "'d app \<Rightarrow> voice_downstream list \<Rightarrow> bool" where
  "audible_ok a ps \<longleftrightarrow> stream_keys (ap_engine a) \<subseteq> (if ap_voice a = None then {} else vd_sender ` set ps)"

lemma at_ease_connections: "at_ease a b \<Longrightarrow> rel_option same_connection (map_of (ap_connections a) i) (map_of (ap_connections b) i)"
  by (simp add: at_ease_def calm_connections_def)

lemma at_ease_open: "at_ease a b \<Longrightarrow> open_connection_at b i = open_connection_at a i"
  using at_ease_connections [of a b i]
  by (cases "map_of (ap_connections a) i"; cases "map_of (ap_connections b) i") (auto simp: open_connection_at_def same_connection_def)

lemma at_ease_known: "at_ease a b \<Longrightarrow> map_of (ap_connections b) i = None \<longleftrightarrow> map_of (ap_connections a) i = None"
  using at_ease_connections [of a b i] by (cases "map_of (ap_connections a) i"; cases "map_of (ap_connections b) i") auto

lemma lines_at_ease: "at_ease a b \<Longrightarrow> lines_ok b = lines_ok a"
  using at_ease_open [of a b] at_ease_known [of a b] by (simp add: lines_ok_def at_ease_def)

lemma audible_tamer:
  assumes "audible_ok a ps" and "ap_voice b = ap_voice a" and "tamer opens (ap_engine a) (ap_engine b)"
  shows "audible_ok b ps"
  using assms by (auto simp: audible_ok_def tamer_def)

lemma connect_opened_cases:
  assumes "connect_opened h x md address key fp info a = (r, a')"
  obtains (deaf) "at_ease (a\<lparr>ap_next_session_id := ap_next_session_id a + 1\<rparr>) a'" "tamer False (ap_engine a) (ap_engine a')"
  | (connected) b c p where "at_ease (a\<lparr>ap_next_session_id := ap_next_session_id a + 1\<rparr>) b" "tamer False (ap_engine a) (ap_engine b)"
      "cl_open (cn_client c)" "cl_datagrams (cn_client c) = []" "pd_id p = ap_next_session_id a"
      "a' = b\<lparr>ap_connections := AList.update (ap_next_session_id a) c (ap_connections b), ap_pending := ap_pending b @ [p]\<rparr>"
proof -
  let ?n = "a\<lparr>ap_next_session_id := ap_next_session_id a + 1\<rparr>"
  obtain q b where q: "ensure_audio x ?n = (q, b)" by force
  have b: "at_ease ?n b" "tamer False (ap_engine a) (ap_engine b)"
    using audio_ease(2) [of ?n x ?n] tamer_ensure_audio [of False ?n x] by (simp_all add: q)
  show ?thesis
  proof (cases q)
    case (Inl e)
    then show ?thesis using assms q deaf b by (simp add: connect_opened_def Let_def)
  next
    case (Inr y)
    show ?thesis
      by (rule connected [OF b, of
            "\<lparr>cn_client = \<lparr>cl_session = info, cl_open = True, cl_control = [], cl_datagrams = [], cl_max_datagram = md\<rparr>,
              cn_perms = from_session (h_ext h) (ch_probe x) (id_fingerprint (h_ext h) key) info, cn_pump = True\<rparr>"
            "\<lparr>pd_id = ap_next_session_id a, pd_address = address, pd_identity = fp\<rparr>"])
        (use assms q Inr in \<open>auto simp: connect_opened_def Let_def\<close>)
  qed
qed

lemma connect_begin_cases:
  assumes "connect_begin h x tp md address password ident a = Some (r, a')"
  obtains (refused) "at_ease a a'" "ap_engine a' = ap_engine a"
  | (opened) b key fp info where "at_ease a b" "ap_engine b = ap_engine a" "connect_opened h x md address key fp info b = (r, a')"
proof -
  have saved: "at_ease a (if pins' = pins then a else snd (save_trust h x pins' a))"
      "ap_engine (if pins' = pins then a else snd (save_trust h x pins' a)) = ap_engine a" for pins pins'
    by (simp_all add: save_trust_ease)
  show ?thesis
    using assms refused opened [OF saved]
    by (auto simp: connect_begin_def Let_def save_trust_ease split: sum.splits option.splits prod.splits if_splits)
qed

text \<open>What the invariant looks at.\<close>

lemma lines_cong:
  assumes "ap_sessions b = ap_sessions a" "ap_voice b = ap_voice a" "ap_pending b = ap_pending a" "ap_next_session_id b = ap_next_session_id a"
    and "\<And>i. open_connection_at b i = open_connection_at a i"
    and "\<And>i. map_of (ap_connections b) i = None \<longleftrightarrow> map_of (ap_connections a) i = None"
  shows "lines_ok b = lines_ok a"
  by (simp add: lines_ok_def assms)

lemma open_connection_fields [simp]:
  "open_connection_at (a\<lparr>ap_ui := v\<rparr>) = open_connection_at a" "open_connection_at (a\<lparr>ap_engine := e\<rparr>) = open_connection_at a"
  "open_connection_at (a\<lparr>ap_voice := w\<rparr>) = open_connection_at a" "open_connection_at (a\<lparr>ap_sessions := ss\<rparr>) = open_connection_at a"
  "open_connection_at (a\<lparr>ap_pending := ps\<rparr>) = open_connection_at a" "open_connection_at (a\<lparr>ap_next_session_id := n\<rparr>) = open_connection_at a"
  by (simp_all add: open_connection_at_def fun_eq_iff)

lemma lines_fields [simp]:
  "lines_ok (a\<lparr>ap_ui := v\<rparr>) = lines_ok a" "lines_ok (a\<lparr>ap_engine := e\<rparr>) = lines_ok a" "lines_ok (with_engine f a) = lines_ok a"
  by (simp_all add: lines_ok_def with_engine_def)

lemma lines_hung_up: "lines_ok a \<Longrightarrow> lines_ok (a\<lparr>ap_voice := None\<rparr>)"
  by (simp add: lines_ok_def)

text \<open>Changing a connection without closing it.\<close>

lemma lines_connection:
  assumes "\<And>c. cl_open (cn_client (f c)) = cl_open (cn_client c)"
  shows "lines_ok (a\<lparr>ap_connections := AList.map_entry i f (ap_connections a)\<rparr>) = lines_ok a"
  by (rule lines_cong) (auto simp: open_connection_at_def map_of_map_entry assms)

lemma lines_more_ids: "lines_ok a \<Longrightarrow> ap_next_session_id a \<noteq> - 1 \<Longrightarrow> lines_ok (a\<lparr>ap_next_session_id := ap_next_session_id a + 1\<rparr>)"
  using inc_less_eq_self_iff_eq [of "ap_next_session_id a"] by (auto simp: lines_ok_def not_le dest: less_trans)

lemma lines_connected:
  assumes "lines_ok b" and "ap_next_session_id b = n + 1" and "\<And>i. map_of (ap_connections b) i \<noteq> None \<Longrightarrow> i < n" and "n \<noteq> - 1"
    and "cl_open (cn_client c)" and "pd_id p = n"
  shows "lines_ok (b\<lparr>ap_connections := AList.update n c (ap_connections b), ap_pending := ap_pending b @ [p]\<rparr>)"
proof -
  let ?b = "b\<lparr>ap_connections := AList.update n c (ap_connections b), ap_pending := ap_pending b @ [p]\<rparr>"
  have fresh: "map_of (ap_connections b) n = None" using assms(3) [of n] by (cases "map_of (ap_connections b) n") auto
  have op: "open_connection_at ?b i = (i = n \<or> open_connection_at b i)" for i
    using assms(5) fresh by (auto simp: open_connection_at_def update_conv')
  have none: "\<not> open_connection_at b n" using fresh by (simp add: open_connection_at_def)
  then have n: "map_of (ap_sessions b) n = None" "n \<notin> pd_id ` set (ap_pending b)" using assms(1) by (auto simp: lines_ok_def)
  have less: "n < n + 1" using inc_less_eq_self_iff_eq [of n] assms(4) by (simp add: not_le)
  show ?thesis
    using assms(1,2,6) n op less by (auto simp: lines_ok_def update_conv' image_iff)
qed

lemma lines_begin:
  assumes "connect_begin h x tp md address password ident a = Some (r, a')" and "lines_ok a" and "ap_next_session_id a \<noteq> - 1"
  shows "lines_ok a'"
  using assms(1)
proof (cases rule: connect_begin_cases)
  case refused
  then show ?thesis using lines_at_ease assms(2) by blast
next
  case (opened b key fp info)
  have b: "lines_ok b" "ap_next_session_id b \<noteq> - 1"
    using lines_at_ease [OF opened(1)] assms(2,3) opened(1) by (simp_all add: at_ease_def)
  note more = lines_more_ids [OF b]
  from opened(3) show ?thesis
  proof (cases rule: connect_opened_cases)
    case deaf
    then show ?thesis using lines_at_ease more by blast
  next
    case (connected d c p)
    have "lines_ok d" using lines_at_ease [OF connected(1)] more by simp
    moreover have "ap_next_session_id d = ap_next_session_id b + 1" using connected(1) by (simp add: at_ease_def)
    moreover have "i < ap_next_session_id b" if "map_of (ap_connections d) i \<noteq> None" for i
      using at_ease_known [OF connected(1), of i] that b(1) by (simp add: lines_ok_def)
    ultimately show ?thesis unfolding connected(6) using b(2) connected(3,5) by (intro lines_connected) auto
  qed
qed

lemma lines_route: "lines_ok a \<Longrightarrow> lines_ok (snd (route_voice i a))"
  by (auto simp: route_voice_def split: option.splits) (simp add: lines_ok_def)

lemma lines_remember: "lines_ok (remember_open_connections h a) = lines_ok a"
  by (rule lines_at_ease) (simp add: remember_ease)

lemma distinct_map_remove1:
  "distinct (map f xs) \<Longrightarrow> x \<in> set xs \<Longrightarrow> distinct (map f (remove1 x xs)) \<and> f ` set (remove1 x xs) = f ` set xs - {f x}"
  by (induction xs) (auto simp: image_iff)

lemma lines_finish:
  assumes "lines_ok a" and "p \<in> set (ap_pending a)"
  shows "lines_ok (connect_finish h p c a)"
proof -
  let ?ps = "remove1 p (ap_pending a)"
  let ?a = "a\<lparr>ap_pending := ?ps,
    ap_sessions := AList.update (pd_id p) \<lparr>ac_address = pd_address p, ac_identity = pd_identity p\<rparr> (ap_sessions a)\<rparr>"
  have "distinct (map pd_id ?ps)" "pd_id ` set ?ps = pd_id ` set (ap_pending a) - {pd_id p}"
    using distinct_map_remove1 [of pd_id "ap_pending a" p] assms by (simp_all add: lines_ok_def)
  then have "distinct (map pd_id ?ps)" "\<forall>q\<in>set ?ps. pd_id q \<noteq> pd_id p" by auto
  moreover have "\<forall>q\<in>set ?ps. map_of (ap_sessions a) (pd_id q) = None \<and> open_connection_at a (pd_id q)" "open_connection_at a (pd_id p)"
    using assms set_remove1_subset [of p "ap_pending a"] by (auto simp: lines_ok_def)
  ultimately have "lines_ok ?a" using assms(1) unfolding lines_ok_def by (simp add: update_conv') blast
  then have "lines_ok (if voice_session ?a = None then snd (route_voice (pd_id p) ?a) else ?a)" by (simp add: lines_route)
  then show ?thesis unfolding connect_finish_def Let_def lines_fields lines_remember .
qed

text \<open>What closing a session does, whatever it does to the engine.\<close>

lemma end_session_fields:
  assumes "map_of (ap_sessions a) i = Some s"
  shows "ap_sessions (app_end_session i a) = AList.delete i (ap_sessions a)"
    "ap_connections (app_end_session i a) =
       AList.map_entry i (\<lambda>c. c\<lparr>cn_pump := False, cn_client := client_disconnect (cn_client c)\<rparr>) (ap_connections a)"
    "ap_voice (app_end_session i a) = (if voice_session a = Some i then None else ap_voice a)"
    "ap_pending (app_end_session i a) = ap_pending a" "ap_next_session_id (app_end_session i a) = ap_next_session_id a"
    "ap_ui (app_end_session i a) = ap_ui a"
  using assms
  by (simp_all add: app_end_session_def session_shutdown_def voice_clear_if_def with_engine_def stop_audio_def voice_session_def Let_def)

lemma end_session_lookup:
  assumes "map_of (ap_sessions a) i = Some s"
  shows "map_of (ap_sessions (app_end_session i a)) k = (if k = i then None else map_of (ap_sessions a) k)"
    "open_connection_at (app_end_session i a) k \<longleftrightarrow> k \<noteq> i \<and> open_connection_at a k"
    "map_of (ap_connections (app_end_session i a)) k = None \<longleftrightarrow> map_of (ap_connections a) k = None"
    "ap_voice (app_end_session i a) = Some (k, j) \<longleftrightarrow> k \<noteq> i \<and> ap_voice a = Some (k, j)"
  by (auto simp: end_session_fields [OF assms] open_connection_at_def map_of_map_entry client_disconnect_def delete_conv' voice_session_def)

lemma lines_end_session:
  assumes "lines_ok a"
  shows "lines_ok (app_end_session i a)"
proof (cases "map_of (ap_sessions a) i")
  case (Some s)
  have "pd_id p \<noteq> i" if "p \<in> set (ap_pending a)" for p using assms that Some by (auto simp: lines_ok_def)
  then show ?thesis
    using assms unfolding lines_ok_def end_session_lookup [OF Some] end_session_fields(4,5) [OF Some] by simp
qed (use assms in \<open>simp add: app_end_session_def\<close>)

lemma lines_pump_parts [simp]:
  "lines_ok (emit k e a) = lines_ok a" "lines_ok (set_perms k m a) = lines_ok a"
  "lines_ok (a\<lparr>ap_connections := AList.map_entry k (\<lambda>c. c\<lparr>cn_pump := False\<rparr>) (ap_connections a)\<rparr>) = lines_ok a"
  by (simp_all add: emit_def set_perms_def lines_connection)

lemma lines_clear_if: "lines_ok a \<Longrightarrow> lines_ok (snd (voice_clear_if k a))"
  using lines_hung_up by (auto simp: voice_clear_if_def)

lemma lines_pump: "lines_ok a \<Longrightarrow> lines_ok (event_pump h i ev m a)"
  by (cases ev) (simp_all add: event_pump_def Let_def case_prod_beta lines_clear_if)

lemma lines_step: "app_step h e a a' \<Longrightarrow> lines_ok a \<Longrightarrow> lines_ok a'"
proof (induction rule: app_step.induct)
  case (begins x tp max_datagram address password ident a r a')
  then show ?case using lines_begin by blast
next
  case (finishes p a c)
  then show ?case using lines_finish by blast
next
  case (invokes debug x cmd a r a')
  show ?case
  proof (cases "\<exists>i. cmd = CmdDisconnect i \<or> cmd = CmdSetVoiceSession i")
    case True
    then show ?thesis
      using invokes(1) lines_end_session [OF invokes(2)] lines_route [OF invokes(2)] by (auto simp: cmd_disconnect_def lines_remember) (metis snd_conv)
  next
    case False
    then show ?thesis using invoke_ease [OF invokes(1)] lines_at_ease invokes(2) by fastforce
  qed
next
  case (pumps a i c ev)
  then show ?case using lines_pump by blast
next
  case (captures a fits f)
  then show ?case
    by (auto simp: capture_pump_def on_client_def send_voice_def Let_def lines_connection split: option.splits)
next
  case (mined a x fp counter)
  have "at_ease a (mining_done h x fp counter a)" by (simp add: mining_done_def persist_vault_ease split: sum.splits)
  then show ?case using lines_at_ease mined by blast
next
  case (rekeyed a x passphrase)
  have "at_ease a (snd (set_vault_passphrase h x passphrase a))"
    by (auto simp: set_vault_passphrase_def split: prod.splits sum.splits)
  then show ?case using lines_at_ease rekeyed by blast
qed simp_all

section \<open>What is audible\<close>

lemma render_streams_keys: "map fst (fst (render_streams op deaf g ss out n fin)) = map fst ss"
proof (induction ss arbitrary: out n fin)
  case (Cons x ss)
  then show ?case by (cases x) (simp add: Let_def case_prod_beta)
qed simp

lemma fold_delete_subset: "set (fold AList.delete ks m) \<subseteq> set m"
proof (induction ks arbitrary: m)
  case (Cons k ks)
  have "set (AList.delete k m) \<subseteq> set m" by (auto simp: AList.delete_eq)
  then show ?case using Cons.IH [of "AList.delete k m"] by simp
qed simp

lemma render_keys: "fst ` set (mx_streams (snd (snd (render op out m)))) \<subseteq> fst ` set (mx_streams m)"
proof (cases "length out = SAMPLES_PER_FRAME")
  case True
  let ?r = "render_streams op (mx_deafened m) (mx_master_gain m) (mx_streams m) (map (\<lambda>_. 0) out) 0 []"
  obtain ss o' n fin where r: "?r = (ss, o', n, fin)" by (metis prod_cases4)
  have "fst ` set ss = fst ` set (mx_streams m)"
    using render_streams_keys [of op "mx_deafened m" "mx_master_gain m" "mx_streams m" "map (\<lambda>_. 0) out" 0 "[]"] by (metis r fst_conv list.set_map)
  then show ?thesis using True r image_mono [OF fold_delete_subset [of fin ss], of fst] by (simp add: render_def Let_def)
qed (simp add: render_def Let_def)

lemma accept_keys: "fst ` set (mx_streams (snd (accept op p m))) \<subseteq> insert (vd_sender p) (fst ` set (mx_streams m))"
  by (auto simp: accept_def dom_map_of_conv_image_fst [symmetric] update_conv' split: option.splits sum.splits)

lemma engine_accept_keys: "stream_keys (map_option (engine_accept op p) E) \<subseteq> insert (vd_sender p) (stream_keys E)"
  using accept_keys [of op p] by (cases E) (simp_all add: stream_keys_def engine_accept_def)

text \<open>A step leaves the line as it is, empties it, or adds a packet of the server that holds it.\<close>

definition line_kept :: "app_event \<Rightarrow> 'd app \<Rightarrow> 'd app \<Rightarrow> bool" where
  "line_kept e a a' \<longleftrightarrow>
     stream_keys (ap_engine a') = {} \<or>
     ap_voice a' = ap_voice a \<and>
       (stream_keys (ap_engine a') \<subseteq> stream_keys (ap_engine a) \<or>
        (\<exists>i p. e = APump i (EvVoice p) \<and> voice_session a = Some i \<and>
           stream_keys (ap_engine a') \<subseteq> insert (vd_sender p) (stream_keys (ap_engine a))))"

lemma line_kept_ease: "at_ease a a' \<Longrightarrow> tamer opens (ap_engine a) (ap_engine a') \<Longrightarrow> line_kept e a a'"
  by (simp add: line_kept_def at_ease_def tamer_def)

lemma stream_keys_cleared [simp]: "stream_keys (map_option en_clear_speakers E) = {}"
  by (cases E) (simp_all add: stream_keys_def engine_parts)

lemma line_kept_route: "line_kept e a (snd (route_voice i a))"
  by (auto simp: route_voice_def line_kept_def with_engine_def split: option.splits)

lemma line_kept_end: "line_kept e a (app_end_session i a)"
  by (auto simp: app_end_session_def session_shutdown_def voice_clear_if_def with_engine_def stop_audio_def line_kept_def Let_def
      stream_keys_def [of None] split: option.splits)

lemma line_kept_finish: "line_kept e a (connect_finish h p c a)"
proof -
  have r: "ap_voice (remember_open_connections h b) = ap_voice b" "ap_engine (remember_open_connections h b) = ap_engine b" for b
    using remember_ease(1) [of b h b] remember_ease(2) [of h b] by (simp_all add: at_ease_def)
  show ?thesis
    by (auto simp: connect_finish_def Let_def line_kept_def r route_voice_def with_engine_def update_conv' split: option.splits)
qed

lemma line_kept_begin:
  assumes "connect_begin h x tp md address password ident a = Some (r, a')"
  shows "line_kept e a a'"
  using assms
proof (cases rule: connect_begin_cases)
  case refused
  then show ?thesis by (simp add: line_kept_def at_ease_def)
next
  case (opened b key fp info)
  from opened(3) show ?thesis
    by (cases rule: connect_opened_cases) (use opened(1,2) in \<open>auto simp: line_kept_def at_ease_def tamer_def\<close>)
qed

lemma line_kept_pump: "line_kept (APump i ev) a (event_pump h i ev m a)"
proof (cases ev)
  case (EvVoice p)
  show ?thesis
  proof (cases "voice_session a = Some i")
    case True
    then show ?thesis using engine_accept_keys [of "h_opus h" p "ap_engine a"] by (simp add: EvVoice event_pump_def line_kept_def with_engine_def)
  qed (simp add: EvVoice event_pump_def line_kept_def)
qed (simp_all add: event_pump_def Let_def case_prod_beta line_kept_def voice_clear_if_def with_engine_def emit_def set_perms_def split: option.splits)

lemma line_kept_step: "app_step h e a a' \<Longrightarrow> line_kept e a a'"
proof (induction rule: app_step.induct)
  case (invokes debug x cmd a r a')
  show ?case
  proof (cases "\<exists>i. cmd = CmdDisconnect i \<or> cmd = CmdSetVoiceSession i")
    case True
    have "line_kept (AInvoke cmd) a (remember_open_connections h (app_end_session i a))" for i
      using line_kept_end [of "AInvoke cmd" a i] remember_ease(1) [of "app_end_session i a" h "app_end_session i a"]
        remember_ease(2) [of h "app_end_session i a"] by (simp add: line_kept_def at_ease_def)
    then show ?thesis using True invokes line_kept_route [of "AInvoke cmd" a] by (auto simp: cmd_disconnect_def) (metis snd_conv)
  next
    case False
    then show ?thesis using invoke_ease [OF invokes] invoke_engine [OF invokes] line_kept_ease by fastforce
  qed
next
  case (captures a fits f)
  then show ?case by (simp add: capture_pump_def line_kept_def split: option.splits)
next
  case (renders a out)
  then show ?case
    using render_keys [of "h_opus h" out] by (cases "ap_engine a") (simp_all add: line_kept_def with_engine_def stream_keys_def)
next
  case (meters a l t)
  then show ?case by (cases "ap_engine a") (auto simp: line_kept_def with_engine_def stream_keys_def)
next
  case (mined a x fp counter)
  have "at_ease a (mining_done h x fp counter a)" "ap_engine (mining_done h x fp counter a) = ap_engine a"
    by (simp_all add: mining_done_def persist_vault_ease split: sum.splits)
  then show ?case by (simp add: line_kept_def at_ease_def)
next
  case (rekeyed a x passphrase)
  then show ?case by (auto simp: set_vault_passphrase_def line_kept_def split: prod.splits sum.splits)
qed (simp_all add: line_kept_begin line_kept_finish line_kept_pump)

lemma line_step_grows: "voice_session a' = voice_session a \<Longrightarrow> set ps \<subseteq> set (line_step a e a' ps)"
  by (cases e) (auto simp: line_step_def split: client_event.split)

lemma audible_step:
  assumes "app_step h e a a'" and "audible_ok a ps"
  shows "audible_ok a' (line_step a e a' ps)"
  using line_kept_step [OF assms(1)] unfolding line_kept_def
proof (elim disjE conjE exE)
  assume "stream_keys (ap_engine a') = {}"
  then show ?thesis by (simp add: audible_ok_def)
next
  assume v: "ap_voice a' = ap_voice a" and k: "stream_keys (ap_engine a') \<subseteq> stream_keys (ap_engine a)"
  have "set ps \<subseteq> set (line_step a e a' ps)" by (rule line_step_grows) (simp add: voice_session_def v)
  then have "vd_sender ` set ps \<subseteq> vd_sender ` set (line_step a e a' ps)" by (rule image_mono)
  moreover have "stream_keys (ap_engine a') \<subseteq> (if ap_voice a = None then {} else vd_sender ` set ps)"
    using k assms(2) unfolding audible_ok_def by (rule subset_trans)
  ultimately show ?thesis unfolding audible_ok_def v by (auto split: if_splits)
next
  fix i p
  assume v: "ap_voice a' = ap_voice a" and e: "e = APump i (EvVoice p)" "voice_session a = Some i"
    and k: "stream_keys (ap_engine a') \<subseteq> insert (vd_sender p) (stream_keys (ap_engine a))"
  have "line_step a e a' ps = ps @ [p]" using v e by (simp add: line_step_def voice_session_def)
  moreover have "ap_voice a \<noteq> None" using e(2) by (auto simp: voice_session_def)
  ultimately show ?thesis using k v assms(2) by (auto simp: audible_ok_def)
qed

lemma app_run_ok: "app_run h a0 es a ps \<Longrightarrow> lines_ok a0 \<Longrightarrow> audible_ok a0 [] \<Longrightarrow> lines_ok a \<and> audible_ok a ps"
  by (induction rule: app_run.induct) (auto dest: lines_step audible_step)

lemma loaded_ok:
  assumes "load_with_passphrase h x dir nickname passphrase pins d = Inr a0"
  shows "lines_ok a0 \<and> audible_ok a0 []"
  using assms
  by (auto simp: load_with_passphrase_def lines_ok_def audible_ok_def stream_keys_def Let_def split: prod.splits sum.splits)


section \<open>The microphone\<close>

text \<open>No step but one that captures puts voice on a connection, and only on the one that holds voice.\<close>

lemma at_ease_datagrams:
  assumes "at_ease a b" and "map_of (ap_connections a) k = Some c" and "map_of (ap_connections b) k = Some c'"
  shows "cl_datagrams (cn_client c') = cl_datagrams (cn_client c)"
  using at_ease_connections [OF assms(1), of k] unfolding assms(2,3) option.rel_inject same_connection_def by blast

lemma opened_datagrams:
  assumes "connect_opened h x md address key fp info a = (r, a')" and "lines_ok a"
    and "map_of (ap_connections a) k = Some c" and "map_of (ap_connections a') k = Some c'"
  shows "cl_datagrams (cn_client c') = cl_datagrams (cn_client c)"
proof -
  have c: "map_of (ap_connections (a\<lparr>ap_next_session_id := ap_next_session_id a + 1\<rparr>)) k = Some c" using assms(3) by simp
  have k: "k \<noteq> ap_next_session_id a" using assms(2,3) by (auto simp: lines_ok_def)
  from assms(1) show ?thesis
  proof (cases rule: connect_opened_cases)
    case deaf
    show ?thesis by (rule at_ease_datagrams [OF deaf(1) c assms(4)])
  next
    case (connected b c0 p)
    have "map_of (ap_connections b) k = Some c'" using assms(4) k by (simp add: connected(6) update_conv')
    from at_ease_datagrams [OF connected(1) c this] show ?thesis .
  qed
qed

definition voiceless :: "'d app \<Rightarrow> 'd app \<Rightarrow> bool" where
  "voiceless a b \<longleftrightarrow> (\<forall>k c c'. map_of (ap_connections a) k = Some c \<longrightarrow> map_of (ap_connections b) k = Some c' \<longrightarrow>
     cl_datagrams (cn_client c') = cl_datagrams (cn_client c))"

lemma voiceless_ease: "at_ease a b \<Longrightarrow> voiceless a b"
  unfolding voiceless_def by (intro allI impI) (rule at_ease_datagrams)

lemma voiceless_same: "ap_connections b = ap_connections a \<Longrightarrow> voiceless a b"
  by (simp add: voiceless_def)

lemma voiceless_entry:
  "ap_connections b = AList.map_entry i f (ap_connections a) \<Longrightarrow> (\<And>c. cl_datagrams (cn_client (f c)) = cl_datagrams (cn_client c)) \<Longrightarrow>
     voiceless a b"
  by (auto simp: voiceless_def map_of_map_entry split: if_splits)

lemma remember_connections [simp]: "ap_connections (remember_open_connections h a) = ap_connections a"
  by (auto simp: remember_open_connections_def persist_settings_def split: prod.splits sum.splits)

lemma route_connections [simp]: "ap_connections (snd (route_voice i a)) = ap_connections a"
  by (auto simp: route_voice_def with_engine_def split: option.splits)

lemma finish_connections [simp]: "ap_connections (connect_finish h p c a) = ap_connections a"
  by (simp add: connect_finish_def Let_def)

lemma voiceless_begin:
  assumes "connect_begin h x tp md address password ident a = Some (r, a')" and "lines_ok a"
  shows "voiceless a a'"
  using assms(1)
proof (cases rule: connect_begin_cases)
  case refused
  show ?thesis by (rule voiceless_ease) (rule refused)
next
  case (opened b key fp info)
  have b: "lines_ok b" using lines_at_ease [OF opened(1)] assms(2) by simp
  show ?thesis unfolding voiceless_def
  proof (intro allI impI)
    fix k c c'
    assume c: "map_of (ap_connections a) k = Some c" and c': "map_of (ap_connections a') k = Some c'"
    then obtain cb where cb: "map_of (ap_connections b) k = Some cb" using at_ease_known [OF opened(1), of k] by (cases "map_of (ap_connections b) k") auto
    show "cl_datagrams (cn_client c') = cl_datagrams (cn_client c)"
      using opened_datagrams [OF opened(3) b cb c'] at_ease_datagrams [OF opened(1) c cb] by simp
  qed
qed

lemma voiceless_pump_entries:
  "voiceless a b \<Longrightarrow> voiceless a (set_perms k m b)"
  "voiceless a b \<Longrightarrow> voiceless a (b\<lparr>ap_connections := AList.map_entry k (\<lambda>c. c\<lparr>cn_pump := False\<rparr>) (ap_connections b)\<rparr>)"
  by (auto simp: voiceless_def set_perms_def map_of_map_entry split: if_splits)

lemma voiceless_pump_parts [simp]:
  "voiceless a (emit k e b) = voiceless a b"
  "voiceless a (snd (voice_clear_if k b)) = voiceless a b" "voiceless a (with_engine f b) = voiceless a b"
  "voiceless a (b\<lparr>ap_ui := v\<rparr>) = voiceless a b" "voiceless a a"
  by (simp_all add: voiceless_def emit_def voice_clear_if_def with_engine_def)

lemma voiceless_pump: "voiceless a (event_pump h i ev m a)"
  by (cases ev) (simp_all add: event_pump_def Let_def case_prod_beta voiceless_pump_entries)

lemma voiceless_invoke:
  assumes "invoke h debug x cmd a = Some ra"
  shows "voiceless a (snd ra)"
proof (cases "\<exists>i. cmd = CmdDisconnect i \<or> cmd = CmdSetVoiceSession i")
  case True
  have "voiceless a (remember_open_connections h (app_end_session i a))" for i
  proof (cases "map_of (ap_sessions a) i")
    case None
    then show ?thesis by (intro voiceless_same) (simp add: app_end_session_def)
  next
    case (Some s)
    show ?thesis
      by (rule voiceless_entry [where i = i and f = "\<lambda>c. c\<lparr>cn_pump := False, cn_client := client_disconnect (cn_client c)\<rparr>"])
        (simp_all add: end_session_fields [OF Some] client_disconnect_def)
  qed
  moreover have "voiceless a (snd (route_voice i a))" for i by (rule voiceless_same) simp
  ultimately show ?thesis using True assms by (auto simp: cmd_disconnect_def)
next
  case False
  have "at_ease a (snd ra)" by (rule invoke_ease [OF assms]) (use False in auto)
  then show ?thesis by (rule voiceless_ease)
qed

theorem only_the_holder_hears_the_microphone:
  assumes "app_step h e a a'" and "lines_ok a" and "map_of (ap_connections a) k = Some c" and "map_of (ap_connections a') k = Some c'"
    and "cl_datagrams (cn_client c') \<noteq> cl_datagrams (cn_client c)"
  shows "e = ACapture \<and> voice_client a = Some k"
proof -
  have heard: "\<not> voiceless a a'" using assms(3-5) by (auto simp: voiceless_def)
  show ?thesis using assms(1)
  proof cases
    case (captures fits f)
    then show ?thesis using assms(3-5) by (auto simp: capture_pump_def map_of_on_client split: option.splits if_splits)
  next
    case (finishes p c0)
    then show ?thesis using heard voiceless_same [of "connect_finish h p c0 a" a] by simp
  next
    case (mined x fp counter)
    have "at_ease a (mining_done h x fp counter a)" by (simp add: mining_done_def persist_vault_ease split: sum.splits)
    from voiceless_ease [OF this] show ?thesis using heard mined by simp
  next
    case (rekeyed x passphrase)
    have "at_ease a (snd (set_vault_passphrase h x passphrase a))"
      by (auto simp: set_vault_passphrase_def split: prod.splits sum.splits)
    from voiceless_ease [OF this] show ?thesis using heard rekeyed by simp
  next
    case (begins x tp md address password ident r)
    show ?thesis using heard voiceless_begin [OF begins(2) assms(2)] by simp
  next
    case (invokes debug x cmd r)
    show ?thesis using heard voiceless_invoke [OF invokes(2)] by simp
  next
    case (pumps i c0 ev)
    show ?thesis using heard voiceless_pump [of a h i ev] pumps by simp
  qed (use heard in simp_all)
qed

section \<open>Mute\<close>

lemma tamer_step:
  assumes "app_step h e a a'" and "\<And>cmd. e = AInvoke cmd \<Longrightarrow> \<not> unmutes cmd"
    and "ap_engine a = Some en" and "ap_engine a' = Some en'" and "is_muted en"
  shows "is_muted en'"
  using assms(1)
proof cases
  case (begins x tp md address password ident r)
  from begins(2) show ?thesis
  proof (cases rule: connect_begin_cases)
    case (opened b key fp info)
    from opened(3) show ?thesis
      by (cases rule: connect_opened_cases) (use assms(3-5) opened(2) in \<open>auto simp: tamer_def\<close>)
  qed (use assms(3-5) in auto)
next
  case (finishes p c)
  have "ap_engine a' = ap_engine a \<or> ap_engine a' = map_option en_clear_speakers (ap_engine a)"
    by (simp add: finishes connect_finish_def Let_def remember_ease route_voice_def with_engine_def update_conv')
  then show ?thesis using assms(3-5) by (auto simp: engine_parts)
next
  case (invokes debug x cmd r)
  then show ?thesis using invoke_engine [OF invokes(2)] assms(2) [of cmd] assms(3-5) by (simp add: tamer_def)
next
  case (pumps i c ev)
  have "map_option is_muted (ap_engine a') = map_option is_muted (ap_engine a)"
    unfolding pumps(2) is_muted_def [abs_def]
    by (cases ev)
      (simp_all add: event_pump_def Let_def case_prod_beta voice_clear_if_def with_engine_def emit_def set_perms_def engine_parts
        engine_accept_def option.map_comp comp_def split: option.split)
  then show ?thesis using assms(3-5) by simp
next
  case (captures fits f)
  then show ?thesis using assms(3-5) by (simp add: capture_pump_def split: option.splits)
next
  case (mined x fp counter)
  then show ?thesis using assms(3-5) by (simp add: mining_done_def persist_vault_ease split: sum.splits)
next
  case (rekeyed x passphrase)
  then show ?thesis using assms(3-5) by (auto simp: set_vault_passphrase_def split: prod.splits sum.splits)
qed (use assms(3-5) in \<open>auto simp: with_engine_def is_muted_def\<close>)

text \<open>
  While an engine runs, a muted microphone stays muted until the user unmutes it by the button or by
  the shortcut: not by connecting, moving voice, changing devices or undeafening.
\<close>

theorem muted_until_unmuted:
  assumes "app_step h e a a'" and "e \<noteq> AInvoke (CmdSetMuted False)" and "e \<noteq> AInvoke (CmdShortcut ActToggleMute True)"
    and "ap_engine a = Some en" and "ap_engine a' = Some en'" and "is_muted en"
  shows "is_muted en'"
proof (rule tamer_step [OF assms(1) _ assms(4-6)])
  show "\<not> unmutes cmd" if "e = AInvoke cmd" for cmd using assms(2,3) that by (cases cmd) auto
qed

section \<open>Two races\<close>

text \<open>
  The pump checks who holds voice before it hands a packet to the mixer, and the two are not one
  step: a packet checked before voice moves and handed over after it leaves a speaker of the old
  server in the mixer of the new.
\<close>

theorem late_packet_crosses_over:
  assumes "map_of (ap_sessions a) j = Some s" and "voice_session a = Some i" and "i \<noteq> j" and "ap_engine a = Some e"
    and "op_new_decoder op = Inr d"
  shows "voice_session (with_engine (engine_accept op p) (snd (route_voice j a))) = Some j \<and>
    stream_keys (ap_engine (with_engine (engine_accept op p) (snd (route_voice j a)))) = {vd_sender p}"
proof -
  have r: "snd (route_voice j a) = with_engine en_clear_speakers (a\<lparr>ap_voice := Some (j, j)\<rparr>)"
    using assms(1-3) by (simp add: route_voice_def)
  show ?thesis
    unfolding r using assms(4,5)
    by (simp add: voice_session_def with_engine_def stream_keys_def engine_accept_def en_clear_speakers_def clear_speakers_def
        accept_def decoder_new_def)
qed

text \<open>
  A server that drops the connection before it is registered: nothing held voice to release, so the
  first connection takes it, though its pump has ended and nothing will ever be heard on it.
\<close>

theorem early_drop_strands_voice:
  assumes "map_of (ap_connections a) (pd_id p) = Some c" and "voice_session a = None"
    and "b = event_pump h (pd_id p) (EvDisconnected reason) (cn_perms c) a"
  shows "voice_client (connect_finish h p c' b) = Some (pd_id p) \<and>
    (\<exists>d. map_of (ap_connections (connect_finish h p c' b)) (pd_id p) = Some d \<and> \<not> cn_pump d)"
proof -
  have b: "ap_voice b = None" "map_of (ap_connections b) (pd_id p) = Some (c\<lparr>cn_pump := False\<rparr>)"
    using assms(1,2)
    by (simp_all add: assms(3) event_pump_def Let_def voice_clear_if_def voice_session_def emit_def set_perms_def map_of_map_entry)
  have r: "ap_voice (remember_open_connections h x) = ap_voice x" for x
    using remember_ease(1) [of x h x] by (simp add: at_ease_def)
  have "voice_client (connect_finish h p c' b) = Some (pd_id p)"
    using b(1) by (simp add: connect_finish_def Let_def voice_client_def voice_session_def route_voice_def with_engine_def r
        update_conv')
  then show ?thesis using b(2) by simp
qed

end
