(* ===== verification/Pickle_Screen.thy ===== *)
theory Pickle_Screen
  imports Pickle_Cockpit
begin

text \<open>
  What the frontend of the desktop application has been told: for every registered connection, the
  last permissions and roles sent to it are those of the connection's mirror. A first connection is
  run to its end as an example.
\<close>

section \<open>What was last told\<close>

text \<open>The permissions and the roles in a message about a connection, if it has any.\<close>

fun tells_permissions :: "session_id \<Rightarrow> ui_message \<Rightarrow> my_permissions_dto option" where
  "tells_permissions i (UiConnected k d) = (if k = i then Some (cnd_permissions d) else None)"
| "tells_permissions i (UiEvent k (DtoPermissionsChanged p)) = (if k = i then Some p else None)"
| "tells_permissions i _ = None"

fun tells_roles :: "session_id \<Rightarrow> ui_message \<Rightarrow> role_dto_record list option" where
  "tells_roles i (UiConnected k d) = (if k = i then Some (cnd_roles d) else None)"
| "tells_roles i (UiEvent k (DtoRolesChanged rs)) = (if k = i then Some rs else None)"
| "tells_roles i _ = None"

definition last_told :: "(ui_message \<Rightarrow> 'x option) \<Rightarrow> ui_message list \<Rightarrow> 'x option" where
  "last_told f ms = fold (\<lambda>m s. case f m of None \<Rightarrow> s | Some x \<Rightarrow> Some x) ms None"

lemma last_told_append [simp]: "last_told f (ms @ [m]) = (case f m of None \<Rightarrow> last_told f ms | Some x \<Rightarrow> Some x)"
  by (simp add: last_told_def split: option.split)

lemma last_told_quiet: "(\<And>m. m \<in> set ns \<Longrightarrow> f m = None) \<Longrightarrow> last_told f (ms @ ns) = last_told f ms"
proof (induction ns rule: rev_induct)
  case (snoc n ns)
  then show ?case by (simp flip: append_assoc)
qed simp

definition screen_told :: "session_id \<Rightarrow> ui_message list \<Rightarrow> my_permissions_dto option \<times> role_dto_record list option" where
  "screen_told i ms = (last_told (tells_permissions i) ms, last_told (tells_roles i) ms)"

definition mirror_told :: "perm_mirror \<Rightarrow> my_permissions_dto option \<times> role_dto_record list option" where
  "mirror_told m = (Some (my_permissions m), Some (roles_dto m))"

definition screen_ok :: "'d app \<Rightarrow> bool" where
  "screen_ok a \<longleftrightarrow> (\<forall>i c. map_of (ap_sessions a) i \<noteq> None \<longrightarrow> map_of (ap_connections a) i = Some c \<longrightarrow>
     screen_told i (ap_ui a) = mirror_told (cn_perms c))"

section \<open>The mirror announces its changes\<close>

lemma my_permissions_cong:
  assumes "pm_fingerprint m' = pm_fingerprint m" "pm_owner m' = pm_owner m" "pm_roles m' = pm_roles m" "pm_my_roles m' = pm_my_roles m"
    "pm_channels m' = pm_channels m"
  shows "my_permissions m' = my_permissions m"
  by (simp add: my_permissions_def mirror_bits_def assms)

text \<open>An event that does not count as a change of permissions changes none.\<close>

lemma unannounced_permissions:
  assumes "\<not> fst (mirror_apply cr ev m)"
  shows "my_permissions (snd (mirror_apply cr ev m)) = my_permissions m"
  using assms by (cases ev) (auto simp: mirror_user_def Let_def intro!: my_permissions_cong split: if_splits)

lemma untouched_roles:
  assumes "\<not> touches_roles ev"
  shows "roles_dto (snd (mirror_apply cr ev m)) = roles_dto m"
  using assms by (cases ev) (auto simp: mirror_user_def Let_def roles_dto_def)

lemma raw_events_tell_nothing:
  assumes "from_event cr ev = Some e"
  shows "tells_permissions i (UiEvent k e) = None" "tells_roles i (UiEvent k e) = None"
  using assms by (cases ev; auto)+

section \<open>Steps\<close>

lemma told_quiet:
  assumes "quiet_ui a b"
  shows "screen_told i (ap_ui b) = screen_told i (ap_ui a)"
proof -
  obtain vs where vs: "ap_ui b = ap_ui a @ map UiVoiceState vs" using assms by (auto simp: quiet_ui_def)
  then show ?thesis by (auto simp: screen_told_def intro!: last_told_quiet)
qed

lemma screen_ease:
  assumes "at_ease a b" and "screen_ok a"
  shows "screen_ok b"
  unfolding screen_ok_def
proof (intro allI impI)
  fix i c'
  assume s: "map_of (ap_sessions b) i \<noteq> None" and c': "map_of (ap_connections b) i = Some c'"
  then obtain c where c: "map_of (ap_connections a) i = Some c" using at_ease_known [OF assms(1), of i] by fastforce
  have "cn_perms c' = cn_perms c" using at_ease_connections [OF assms(1), of i] by (simp add: c c' same_connection_def)
  moreover have "screen_told i (ap_ui b) = screen_told i (ap_ui a)" using assms(1) by (intro told_quiet) (simp add: at_ease_def)
  moreover have "map_of (ap_sessions a) i \<noteq> None" using s assms(1) by (simp add: at_ease_def)
  ultimately show "screen_told i (ap_ui b) = mirror_told (cn_perms c')" using assms(2) c by (simp add: screen_ok_def)
qed

text \<open>Fewer sessions, or other parts of a connection changed.\<close>

lemma screen_mono:
  assumes "screen_ok a" and "ap_ui b = ap_ui a" and "\<And>i. map_of (ap_sessions b) i \<noteq> None \<Longrightarrow> map_of (ap_sessions a) i \<noteq> None"
    and "\<And>i. map_option cn_perms (map_of (ap_connections b) i) = map_option cn_perms (map_of (ap_connections a) i)"
  shows "screen_ok b"
  unfolding screen_ok_def
proof (intro allI impI)
  fix i c'
  assume s: "map_of (ap_sessions b) i \<noteq> None" and "map_of (ap_connections b) i = Some c'"
  then obtain c where "map_of (ap_connections a) i = Some c" "cn_perms c = cn_perms c'"
    using assms(4) [of i] by (cases "map_of (ap_connections a) i") auto
  then show "screen_told i (ap_ui b) = mirror_told (cn_perms c')" using assms(1,2) assms(3) [OF s] by (simp add: screen_ok_def)
qed

lemma screen_begin:
  assumes "connect_begin h x tp md address password ident a = Some (r, a')" and "lines_ok a" and "screen_ok a"
  shows "screen_ok a'"
  using assms(1)
proof (cases rule: connect_begin_cases)
  case refused
  show ?thesis by (rule screen_ease [OF refused(1) assms(3)])
next
  case (opened b key fp info)
  have b: "screen_ok (b\<lparr>ap_next_session_id := ap_next_session_id b + 1\<rparr>)" "lines_ok b"
    using screen_ease [OF opened(1) assms(3)] lines_at_ease [OF opened(1)] assms(2) by (simp_all add: screen_ok_def)
  from opened(3) show ?thesis
  proof (cases rule: connect_opened_cases)
    case deaf
    show ?thesis by (rule screen_ease [OF deaf(1) b(1)])
  next
    case (connected d c p)
    have "screen_ok d" by (rule screen_ease [OF connected(1) b(1)])
    moreover have "map_of (ap_sessions d) (ap_next_session_id b) = None"
    proof -
      have "\<not> open_connection_at b (ap_next_session_id b)" using b(2) by (auto simp: lines_ok_def open_connection_at_def)
      then have "map_of (ap_sessions b) (ap_next_session_id b) = None" using b(2) unfolding lines_ok_def by blast
      then show ?thesis using connected(1) by (simp add: at_ease_def)
    qed
    ultimately show ?thesis unfolding connected(6) screen_ok_def by (auto simp: update_conv')
  qed
qed

lemma finish_ui: "ap_ui (connect_finish h p c a) =
    ap_ui a @ [UiConnected (pd_id p) (connection_dto_of h (pd_id p) c (pd_identity p))]"
  "ap_sessions (connect_finish h p c a) =
    AList.update (pd_id p) \<lparr>ac_address = pd_address p, ac_identity = pd_identity p\<rparr> (ap_sessions a)"
  by (auto simp: connect_finish_def Let_def remember_open_connections_def persist_settings_def route_voice_def with_engine_def
      split: prod.splits sum.splits option.splits)

lemma screen_finish:
  assumes "screen_ok a" and "map_of (ap_connections a) (pd_id p) = Some c"
  shows "screen_ok (connect_finish h p c a)"
  using assms
  by (auto simp: screen_ok_def finish_ui screen_told_def mirror_told_def connection_dto_of_def update_conv' split: if_splits)

lemma told_emit [simp]:
  "screen_told k (ap_ui (emit i e b)) =
     (case tells_permissions k (UiEvent i e) of None \<Rightarrow> fst (screen_told k (ap_ui b)) | Some x \<Rightarrow> Some x,
      case tells_roles k (UiEvent i e) of None \<Rightarrow> snd (screen_told k (ap_ui b)) | Some x \<Rightarrow> Some x)"
  by (simp add: screen_told_def emit_def split: option.split)

text \<open>What an event that is not voice tells the frontend.\<close>

lemma pump_told:
  assumes "\<And>p. ev \<noteq> EvVoice p"
  shows "screen_told k (ap_ui (event_pump h i ev m a)) =
    (if k = i then (if fst (mirror_apply (h_ext h) ev m) then Some (my_permissions (snd (mirror_apply (h_ext h) ev m)))
                    else fst (screen_told i (ap_ui a)),
                    if touches_roles ev then Some (roles_dto (snd (mirror_apply (h_ext h) ev m))) else snd (screen_told i (ap_ui a)))
     else screen_told k (ap_ui a))"
proof -
  let ?m = "mirror_apply (h_ext h) ev m"
  let ?a = "case from_event (h_ext h) ev of Some e \<Rightarrow> emit i e (set_perms i (snd ?m) a) | None \<Rightarrow> set_perms i (snd ?m) a"
  let ?b = "if touches_roles ev then emit i (DtoRolesChanged (roles_dto (snd ?m))) ?a else ?a"
  let ?c = "if fst ?m then emit i (DtoPermissionsChanged (my_permissions (snd ?m))) ?b else ?b"
  have ui: "ap_ui (event_pump h i ev m a) = ap_ui ?c"
    using assms by (cases ev) (auto simp: event_pump_def Let_def case_prod_beta voice_clear_if_def with_engine_def)
  have "screen_told k (ap_ui ?a) = screen_told k (ap_ui a)" for k
    by (auto simp: set_perms_def raw_events_tell_nothing split: option.splits)
  then show ?thesis unfolding ui by simp
qed

lemma pump_perms:
  assumes "\<And>p. ev \<noteq> EvVoice p"
  shows "map_option cn_perms (map_of (ap_connections (event_pump h i ev m a)) k) =
    (if k = i then map_option (\<lambda>_. snd (mirror_apply (h_ext h) ev m)) (map_of (ap_connections a) i)
     else map_option cn_perms (map_of (ap_connections a) k))"
    "ap_sessions (event_pump h i ev m a) = ap_sessions a"
  using assms
  by (cases ev; auto simp: event_pump_def Let_def case_prod_beta voice_clear_if_def with_engine_def emit_def set_perms_def
      map_of_map_entry option.map_comp comp_def)+

lemma screen_pump:
  assumes "screen_ok a" and "map_of (ap_connections a) i = Some c"
  shows "screen_ok (event_pump h i ev (cn_perms c) a)"
proof (cases "\<exists>p. ev = EvVoice p")
  case True
  then show ?thesis using assms(1) by (auto simp: event_pump_def with_engine_def screen_ok_def)
next
  case False
  then have ev: "\<And>p. ev \<noteq> EvVoice p" by blast
  let ?m = "mirror_apply (h_ext h) ev (cn_perms c)" and ?a = "event_pump h i ev (cn_perms c) a"
  show ?thesis unfolding screen_ok_def
  proof (intro allI impI)
    fix k d
    assume s: "map_of (ap_sessions ?a) k \<noteq> None" and d: "map_of (ap_connections ?a) k = Some d"
    have perms: "map_option cn_perms (Some d) = (if k = i then Some (snd ?m) else map_option cn_perms (map_of (ap_connections a) k))"
      using pump_perms(1) [OF ev, of h i "cn_perms c" a k] d assms(2) by simp
    have s: "map_of (ap_sessions a) k \<noteq> None" using s by (simp add: pump_perms(2) [OF ev])
    show "screen_told k (ap_ui ?a) = mirror_told (cn_perms d)"
    proof (cases "k = i")
      case True
      have "screen_told i (ap_ui a) = mirror_told (cn_perms c)" using assms s True by (simp add: screen_ok_def)
      then show ?thesis
        using perms True unannounced_permissions [of "h_ext h" ev "cn_perms c"] untouched_roles [of ev "h_ext h" "cn_perms c"]
        by (simp add: pump_told [OF ev] mirror_told_def)
    next
      case False
      then obtain d' where "map_of (ap_connections a) k = Some d'" "cn_perms d = cn_perms d'"
        using perms by (cases "map_of (ap_connections a) k") auto
      then show ?thesis using assms(1) s False by (simp add: pump_told [OF ev] screen_ok_def)
    qed
  qed
qed

lemma route_fields: "ap_ui (snd (route_voice i a)) = ap_ui a" "ap_sessions (snd (route_voice i a)) = ap_sessions a"
  by (auto simp: route_voice_def with_engine_def split: option.splits)

lemma screen_invoke:
  assumes "invoke h debug x cmd a = Some ra" and "screen_ok a"
  shows "screen_ok (snd ra)"
proof (cases "\<exists>i. cmd = CmdDisconnect i \<or> cmd = CmdSetVoiceSession i")
  case True
  have "screen_ok (app_end_session i a)" for i
  proof (cases "map_of (ap_sessions a) i")
    case (Some s)
    show ?thesis
      by (rule screen_mono [OF assms(2)])
        (auto simp: end_session_fields [OF Some] delete_conv' map_of_map_entry option.map_comp comp_def split: if_splits)
  qed (use assms(2) in \<open>simp add: app_end_session_def\<close>)
  then have "screen_ok (remember_open_connections h (app_end_session i a))" for i
    using screen_ease [of "app_end_session i a" "remember_open_connections h (app_end_session i a)"] by (simp add: remember_ease)
  moreover have "screen_ok (snd (route_voice i a))" for i
    by (rule screen_mono [OF assms(2)]) (simp_all add: route_fields)
  ultimately show ?thesis using True assms(1) by (auto simp: cmd_disconnect_def)
next
  case False
  have "at_ease a (snd ra)" by (rule invoke_ease [OF assms(1)]) (use False in auto)
  then show ?thesis using assms(2) by (rule screen_ease)
qed

lemma screen_step:
  assumes "app_step h e a a'" and "lines_ok a" and "screen_ok a"
  shows "screen_ok a'"
  using assms(1)
proof cases
  case (begins x tp md address password ident r)
  show ?thesis by (rule screen_begin [OF begins(2) assms(2,3)])
next
  case (finishes p c)
  show ?thesis unfolding finishes(2) by (rule screen_finish [OF assms(3) finishes(4)])
next
  case (invokes debug x cmd r)
  show ?thesis using screen_invoke [OF invokes(2) assms(3)] by simp
next
  case (pumps i c ev)
  show ?thesis unfolding pumps(2) by (rule screen_pump [OF assms(3) pumps(3)])
next
  case (captures fits f)
  show ?thesis unfolding captures(2)
    by (rule screen_mono [OF assms(3)])
      (auto simp: capture_pump_def map_of_on_client option.map_comp comp_def split: option.splits)
next
  case (mined x fp counter)
  have "at_ease a a'" unfolding mined(2) by (simp add: mining_done_def persist_vault_ease split: sum.splits)
  then show ?thesis using assms(3) by (rule screen_ease)
next
  case (rekeyed x passphrase)
  have "at_ease a a'" unfolding rekeyed(2) by (auto simp: set_vault_passphrase_def split: prod.splits sum.splits)
  then show ?thesis using assms(3) by (rule screen_ease)
qed (use assms(3) in \<open>auto simp: with_engine_def screen_ok_def\<close>)

lemma app_run_screen: "app_run h a0 es a ps \<Longrightarrow> lines_ok a0 \<Longrightarrow> screen_ok a0 \<Longrightarrow> lines_ok a \<and> screen_ok a"
  by (induction rule: app_run.induct) (auto dest: lines_step screen_step)

lemma loaded_screen: "load_with_passphrase h x dir nickname passphrase pins d = Inr a0 \<Longrightarrow> screen_ok a0"
  by (auto simp: load_with_passphrase_def screen_ok_def Let_def split: prod.splits sum.splits)


section \<open>A first connection\<close>

definition sample_host :: "(unit, nat) host" where
  "sample_host = \<lparr>h_ext = sample_ext, h_opus = sample_opus, h_vault_lib = sample_vault_lib, h_profile_lib = sample_profile_lib,
     h_trust_from_json = (\<lambda>_. None), h_trust_to_json = (\<lambda>_. []), h_lookup = (\<lambda>_. Inr [[49]]), h_version = [],
     h_connect_text = (\<lambda>_. []), h_vault_text = (\<lambda>_. []), h_trust_text = (\<lambda>_. []), h_settings_text = (\<lambda>_. []),
     h_bookmark_text = (\<lambda>_. []), h_fingerprint_text = (\<lambda>_. []), h_file_mode = 420\<rparr>"

definition sample_chance :: chance where
  "sample_chance = \<lparr>ch_entropy = sample_entropy, ch_now = 0, ch_nanos = 0, ch_probe = replicate 32 0, ch_opened = Inr (),
     ch_trust_fails = False, ch_trust_write = Written\<rparr>"

definition sample_profile :: disk where
  "sample_profile = sample_disk [profile_path [] ''identities'' \<mapsto> \<lparr>f_bytes = [123, 10], f_mode = 384\<rparr>]"

definition sample_ok :: auth_ok where
  "sample_ok = \<lparr>ok_client_id = 3, ok_channels = [], ok_users = [], ok_roles = [], ok_default_channel = None,
     ok_limits = server_limits_default\<rparr>"

definition sample_server :: transport where
  "sample_server = honest_transport sample_ext (s_cert_hash sample_shared) []
     [Hello (hello_frame sample_ext [1] sample_shared), AuthOk sample_ok]"

lemma sample_loads:
  "\<exists>a0. load_with_passphrase sample_host sample_chance [] [] None None sample_profile = Inr a0 \<and> ap_engine a0 = None \<and>
     ap_vault a0 = sample_vault\<lparr>v_path := profile_path [] ''identities''\<rparr> \<and> ap_sessions a0 = [] \<and> ap_connections a0 = [] \<and>
     ap_pending a0 = [] \<and> ap_voice a0 = None \<and> ap_next_session_id a0 = 1 \<and> ap_trust_file a0 = None \<and> ap_ui a0 = []"
proof -
  have "open_with_passphrase sample_ext sample_vault_lib sample_entropy (profile_path [] ''identities'') (profile_path [] ''identity'')
      [] None sample_profile =
    (Inr (sample_vault\<lparr>v_path := profile_path [] ''identities''\<rparr>), sample_profile\<lparr>d_calls := Suc (Suc (d_calls sample_profile))\<rparr>)"
    by (rule sample_opens_file) (simp_all add: sample_profile_def, simp add: sample_disk_def)
  then show ?thesis by (simp add: load_with_passphrase_def sample_host_def sample_chance_def case_prod_beta Let_def)
qed

lemma sample_connect:
  assumes "apply_trust_policy 0 (co_trust opts) (server_key_of opts) (co_address opts)
      (id_fingerprint sample_ext (s_identity sample_shared)) (cfg_name (s_config sample_shared)) st = (Inr (), st', saved)"
  shows "fst (connect sample_ext [] 0 opts ident sample_server st) = Inr (session_of (hello_frame sample_ext [1] sample_shared) sample_ok)"
proof -
  have sig: "ed_verify sample_ext (public_of sample_ext sk) m (ed_sign sample_ext sk m)" for sk m
    by (simp add: sample_signatures)
  have "fst (apply_trust_policy 0 (co_trust opts) (server_key_of opts) (co_address opts)
      (id_fingerprint sample_ext (s_identity sample_shared)) (cfg_name (s_config sample_shared)) st) = Inr ()"
    using assms by simp
  from honest_connect [OF sig sample_cert(1) this refl, where version = "[]" and ident = ident and nonce = "[1]" and rest = "[]"]
  show ?thesis by (force simp: sample_server_def check_verdict_def)
qed

lemma sample_begins:
  assumes "ap_vault a = sample_vault\<lparr>v_path := p\<rparr>" and "ap_trust_file a = None" and "ap_engine a = None"
  shows "\<exists>pins info. connect_begin sample_host sample_chance sample_server None [49] None None a =
    Some (connect_opened sample_host sample_chance None [49] (ve_identity sample_entry) (fp_text sample_ext sample_entry) info
      (a\<lparr>ap_trust_file := pins\<rparr>))"
proof -
  let ?opts = "with_trust OnFirstUse (with_server_key (canonical_address [49]) (connect_options_new [49] [97]))"
  let ?st = "\<lparr>tr_path = u ''known_servers.json'', tr_servers = []\<rparr>"
  have r: "resolve_address sample_host [49] = Inr [49]"
    by (simp add: resolve_address_def sample_host_def trim_def trim_start_def is_whitespace_def)
  have i: "identity_for sample_host None a = Some (Inr (ve_identity sample_entry, [97], fp_text sample_ext sample_entry))"
    by (simp add: identity_for_def active_entry_def assms(1) sample_vault_def sample_host_def) (simp add: sample_entry_def)
  have t: "trust_store_of sample_host sample_chance a = Inr ?st"
    by (simp add: trust_store_of_def trust_open_def assms(2) sample_chance_def)
  have "\<exists>st' saved. apply_trust_policy 0 (co_trust ?opts) (server_key_of ?opts) (co_address ?opts) fp nm ?st = (Inr (), st', saved)" for fp nm
    by (auto simp: with_trust_def with_server_key_def connect_options_new_def apply_trust_policy_def check_def)
  then have c: "\<exists>info. fst (connect sample_ext [] 0 ?opts (ve_identity sample_entry) sample_server ?st) = Inr info"
    using sample_connect by blast
  have s: "\<exists>pins. (if q = ?st then a else snd (save_trust sample_host sample_chance q a)) = a\<lparr>ap_trust_file := pins\<rparr>" for q
  proof (cases "q = ?st")
    case True
    then show ?thesis by (intro exI [of _ "ap_trust_file a"]) simp
  qed (auto simp: save_trust_def split: prod.splits sum.splits)
  obtain info q r' where k: "connect sample_ext [] 0 ?opts (ve_identity sample_entry) sample_server ?st = (Inr info, r', q)"
    using c by (metis prod.collapse)
  obtain pins where "(if q = ?st then a else snd (save_trust sample_host sample_chance q a)) = a\<lparr>ap_trust_file := pins\<rparr>"
    using s by blast
  moreover have "h_ext sample_host = sample_ext" "h_version sample_host = []" "ch_now sample_chance = 0" "nonempty None = None"
    by (simp_all add: sample_host_def sample_chance_def nonempty_def)
  ultimately have "connect_begin sample_host sample_chance sample_server None [49] None None a =
      Some (connect_opened sample_host sample_chance None [49] (ve_identity sample_entry) (fp_text sample_ext sample_entry) info
        (a\<lparr>ap_trust_file := pins\<rparr>))"
    using k by (simp add: connect_begin_def r i t Let_def)
  then show ?thesis by blast
qed

text \<open>The first server is connected, takes voice, and its first speaker is heard.\<close>

definition sample_events :: "app_event list" where
  "sample_events = [ABegin, AFinish 1, APump 1 (EvVoice sample_packet)]"

lemma sample_app_run:
  assumes "load_with_passphrase sample_host sample_chance [] [] None None sample_profile = Inr a0"
  shows "\<exists>a ps s c. app_run sample_host a0 sample_events a ps \<and> ap_voice a = Some (1, 1) \<and> map_of (ap_sessions a) 1 = Some s \<and>
    map_of (ap_connections a) 1 = Some c \<and> ps = [sample_packet] \<and> stream_keys (ap_engine a) = {7}"
proof -
  have a0: "ap_engine a0 = None" "ap_vault a0 = sample_vault\<lparr>v_path := profile_path [] ''identities''\<rparr>" "ap_sessions a0 = []"
    "ap_connections a0 = []" "ap_pending a0 = []" "ap_voice a0 = None" "ap_next_session_id a0 = 1" "ap_trust_file a0 = None"
    using sample_loads assms by auto
  obtain pins info where b: "connect_begin sample_host sample_chance sample_server None [49] None None a0 =
      Some (connect_opened sample_host sample_chance None [49] (ve_identity sample_entry) (fp_text sample_ext sample_entry) info
        (a0\<lparr>ap_trust_file := pins\<rparr>))"
    using sample_begins [OF a0(2,8,1)] by blast
  define p where "p = \<lparr>pd_id = 1, pd_address = [49], pd_identity = fp_text sample_ext sample_entry\<rparr>"
  obtain r a1 c e where a1: "connect_begin sample_host sample_chance sample_server None [49] None None a0 = Some (r, a1)"
    "ap_connections a1 = [(1, c)]" "ap_pending a1 = [p]" "ap_sessions a1 = []" "ap_voice a1 = None" "cn_pump c"
    "ap_engine a1 = Some e" "mx_streams (en_mixer e) = []"
    unfolding b connect_opened_def Let_def
    by (auto simp: ensure_audio_def start_audio_def engine_start_def a0 sample_chance_def take_frames_def mixer_new_def p_def Let_def)
  have 1: "app_run sample_host a0 ([] @ [ABegin]) a1 (line_step a0 ABegin a1 [])"
    by (rule app_run.app_further [OF app_run.app_start app_step.begins [OF a1(1)]]) (simp add: a0)
  let ?a2 = "connect_finish sample_host p c a1"
  have p: "p \<in> set (ap_pending a1)" "map_of (ap_connections a1) (pd_id p) = Some c" using a1 by (simp_all add: p_def)
  note 2 = app_run.app_further [OF 1 app_step.finishes [OF p, of sample_host]]
  have r: "ap_voice (remember_open_connections sample_host b) = ap_voice b" "ap_engine (remember_open_connections sample_host b) = ap_engine b"
    "ap_sessions (remember_open_connections sample_host b) = ap_sessions b" for b :: "nat app"
    by (auto simp: remember_open_connections_def persist_settings_def split: prod.splits sum.splits)
  have a2: "ap_voice ?a2 = Some (1, 1)" "ap_engine ?a2 = Some (en_clear_speakers e)"
    "map_of (ap_sessions ?a2) 1 = Some \<lparr>ac_address = [49], ac_identity = fp_text sample_ext sample_entry\<rparr>"
    by (simp_all add: connect_finish_def Let_def r route_voice_def a1 voice_session_def with_engine_def p_def)
  have c2: "map_of (ap_connections ?a2) 1 = Some c" by (simp add: a1)
  let ?a3 = "event_pump sample_host 1 (EvVoice sample_packet) (cn_perms c) ?a2"
  note 3 = app_run.app_further [OF 2 app_step.pumps [OF c2 a1(6), where ev = "EvVoice sample_packet"]]
  have a3: "?a3 = with_engine (engine_accept sample_opus sample_packet) ?a2"
    using a2(1) by (simp add: event_pump_def voice_session_def sample_host_def)
  have "stream_keys (ap_engine ?a3) = {7}"
    unfolding a3
    by (simp add: with_engine_def a2 stream_keys_def engine_accept_def en_clear_speakers_def clear_speakers_def accept_def
        decoder_new_def sample_opus_def sample_packet_def)
  moreover have "ap_voice ?a3 = Some (1, 1)" "map_of (ap_sessions ?a3) 1 \<noteq> None" "map_of (ap_connections ?a3) 1 = Some c"
    using a2 c2 by (simp_all add: a3 with_engine_def)
  moreover have "line_step ?a2 (APump 1 (EvVoice sample_packet)) ?a3
      (line_step a1 (AFinish (pd_id p)) ?a2 (line_step a0 ABegin a1 [])) = [sample_packet]"
    using a2(1) calculation(2) a1(5) by (simp add: line_step_def voice_session_def)
  moreover have "([] @ [ABegin] @ [AFinish (pd_id p)]) @ [APump 1 (EvVoice sample_packet)] = sample_events"
    by (simp add: sample_events_def p_def)
  ultimately show ?thesis using 3 by (auto simp: sample_events_def p_def)
qed



end
