(* ===== verification/Spec2Isabelle.thy ===== *)
theory Spec2Isabelle
  imports Pickle_System Pickle_Mixer Pickle_Rekey Pickle_Joint Pickle_Screen
begin

text \<open>
  Pickle is a self-hosted voice and text chat: a server (\<open>crates/pickle-server\<close>) that members reach
  over QUIC, a client library (\<open>pickle-client\<close>) under a desktop application
  (\<open>apps/desktop/src-tauri\<close>), and the crates both share: the protocol (\<open>pickle-proto\<close>), identities
  (\<open>pickle-identity\<close>) and audio (\<open>pickle-audio\<close>). A client proves an Ed25519 identity in a handshake,
  then sends control messages on a stream and voice in datagrams; the server resolves permissions,
  changes its state, writes to its database and queues frames for the clients concerned. This
  development models these parts from the sources, one theory per file or group of files, and
  proves what makes each correct and what they guarantee together.

  \<^bold>\<open>How the code is rendered.\<close> A struct is a record, an enum a datatype, an integer a word of its
  width, a Rust string a list of Unicode scalar values, a \<open>HashMap\<close> or \<open>BTreeMap\<close> an association
  list behind the contract \<open>kv_map\<close> of \<open>Pickle_Prelude\<close>. A method on \<open>&mut self\<close> is a function
  returning the new state; \<open>Result\<close> is a sum with the error on the left; a panic is a value of its
  own or \<open>None\<close>. The definitions keep the names of the code, with a prefix where two modules use
  the same one. A lock makes its operation one atomic step, and a handler of the server is one step
  including its database calls. The clock, random bytes, what the network delivers and which file
  or database call fails are arguments, so that every theorem holds for all of them.

  \<^bold>\<open>Shared crates.\<close> \<open>Pickle_Prelude\<close>: machine types, characters, maps, little-endian integers and the
  record \<open>ext\<close> of the cryptographic primitives. \<open>Pickle_Perms\<close> (\<open>pickle-proto/src/perms.rs\<close>): masks,
  roles, overwrites, \<open>resolve\<close>, rank; resolution equals a bitwise specification by precedence.
  \<open>Pickle_Voice\<close> (\<open>voice.rs\<close>) and \<open>Pickle_Frame\<close> (\<open>codec.rs\<close>): the datagram codecs and the framing of the
  control stream with their round trips. \<open>Pickle_Proto\<close> (\<open>lib.rs\<close>): the messages.
  \<open>Pickle_Identity\<close> (\<open>pickle-identity/src/lib.rs\<close>, \<open>pow.rs\<close>): fingerprints, signatures and what they
  are bound to, proof of work. \<open>Pickle_Files\<close> (\<open>keystore.rs\<close>), \<open>Pickle_Sealed\<close> (\<open>sealed.rs\<close>),
  \<open>Pickle_Vault\<close> (\<open>vault.rs\<close>) and \<open>Pickle_Rekey\<close>: key files on a disk where any call may fail and a write
  may break off; the contract \<open>private_writer\<close>, which all private files meet, and that no failure
  loses a key.

  \<^bold>\<open>Server.\<close> \<open>Pickle_Config\<close> (\<open>config.rs\<close>), \<open>Pickle_Store\<close> (\<open>store.rs\<close>: tables and queries, with history
  paging), \<open>Pickle_State\<close> (\<open>state.rs\<close>: the record \<open>shared\<close> and every method of \<open>Shared\<close>). \<open>Pickle_Fanout\<close>
  shows what sending does to the state and gives the contract \<open>stable_invariant\<close>; \<open>Pickle_Roster\<close> extends
  it to sessions (\<open>session_invariant\<close>) with the invariants \<open>wf\<close> and \<open>coherent\<close>. \<open>Pickle_Moderation\<close>
  (\<open>moderation.rs\<close>) and \<open>Pickle_Admin\<close> (\<open>admin.rs\<close>) are the commands; \<open>Pickle_Invariants\<close>
  (\<open>server_invariant\<close>) and \<open>Pickle_Ladder\<close> show what they keep; \<open>Pickle_Power\<close> gives an abstract
  specification of who can change what, which the commands refine, and the absence of escalation.
  \<open>Pickle_Session\<close> (\<open>session.rs\<close>): handshake, dispatch, chat, rate limiter and control loop.
  \<open>Pickle_Boot\<close> (\<open>lib.rs\<close>): \<open>Server::bind\<close>. \<open>Pickle_Persist\<close> (\<open>db_relation\<close>): what the handlers may do
  to the database. \<open>Pickle_System\<close>: the running server as a transition system interleaving all
  sessions; this theory states what holds in every state it reaches.

  \<^bold>\<open>Client.\<close> \<open>Pickle_Trust\<close> (\<open>trust.rs\<close>): pins of server identities. \<open>Pickle_Client\<close>
  (\<open>pickle-client/src/lib.rs\<close>): connecting, requests, events, and a login played end to end against
  the handshake of the server. \<open>Pickle_Mirror\<close> (\<open>apps/desktop/src-tauri/src/perms.rs\<close>): the
  application's copy of roles, channels and members and what the interface offers from it.
  \<open>Pickle_Replica\<close> says when the frames queued for a client lead its copy from one state of the server
  to another; \<open>Pickle_Follow\<close> and \<open>Pickle_Converge\<close> show that every administration command queues
  exactly such frames for everyone connected; \<open>Pickle_Joint\<close> runs the server and all copies
  together and concludes that they never drift apart.

  \<^bold>\<open>Desktop application.\<close> \<open>Pickle_Profile\<close> (\<open>bookmarks.rs\<close>, \<open>settings.rs\<close>): the files of the profile, under
  the contracts \<open>whole_writer\<close> and \<open>private_writer\<close> of the key files. \<open>Pickle_Dto\<close> (\<open>dto.rs\<close>): what the
  frontend is sent. \<open>Pickle_Desktop\<close> (\<open>state.rs\<close>, \<open>bridge.rs\<close>, the handle of \<open>engine.rs\<close>): the record \<open>app\<close>
  of the state, the audio engine, the voice route and the pumps. \<open>Pickle_Commands\<close> (\<open>commands.rs\<close>,
  \<open>shortcuts.rs\<close>): the commands and their table. \<open>Pickle_Cockpit\<close> interleaves commands, connections
  being made, events and frames, and shows that voice stays on one server, that only its holder
  hears the microphone and that only the user unmutes it, and two races the code can lose;
  \<open>Pickle_Screen\<close> that the frontend shows what the mirror of each connection says. A command is one step
  there, although it takes several locks, except connecting, which is two; session numbers are
  taken not to wrap.

  \<^bold>\<open>Audio.\<close> \<open>Pickle_Gate\<close> (\<open>vad.rs\<close>), \<open>Pickle_Capture\<close> (\<open>codec.rs\<close> and the capture pipeline of
  \<open>engine.rs\<close>), \<open>Pickle_Jitter\<close> (\<open>jitter.rs\<close>), \<open>Pickle_Mixer\<close> (\<open>mixer.rs\<close>): from samples to numbered
  bursts of packets, and from packets in any order back to one mixed frame per tick.

  \<^bold>\<open>Bounds and termination.\<close> No model runs on fuel. The walk up the channel tree and the mining loop are
  \<open>partial_function\<close>s whose result is \<open>None\<close> when they do not end, with theorems on when they do; every
  other loop is structural or has a measure. Counters wrap as in a release build; a run
  excludes a wrap only of the 32-bit counter of role ids, for the joint system also that of channel
  ids, and of the 64-bit session and bookmark numbers of the desktop application.

  \<^bold>\<open>Idealised.\<close> Floating point: samples, gains and levels are reals in \<open>Pickle_Gate\<close>, \<open>Pickle_Capture\<close> and
  \<open>Pickle_Mixer\<close>, rate limiter tokens rationals. Cryptography, base64 and base32, JSON, TOML, postcard,
  Opus, the QUIC transport and SQLite's engine are parameters or arguments, with what the code
  relies on as hypotheses of the theorems that need it, shown to be satisfiable by concrete
  functions in their witnesses.

  \<^bold>\<open>Not modelled.\<close> The TLS configuration of both ends (calls into rustls and quinn), opening the
  database and its migrations, the command line, the sound devices and their streams (\<open>devices.rs\<close>,
  the thread of \<open>engine.rs\<close>) and resampling (\<open>resample.rs\<close>: a library's filter), the
  window of the desktop application, its grabs of keys and mouse buttons (calls into operating
  system interfaces) and its frontend, logging, and the fuzz targets.
\<close>

section \<open>Every state of a running server\<close>




lemmas greeting_defs = admit_and_greet_def admit_def sample_config_def config_default_def sample_auth_def
  sanitize_nickname_def trim_def trim_start_def is_whitespace_def is_control_def server_limits_default_def
  Let_def broadcast_def queue_where_def user_def fresh_info_def List.map_filter_simps

lemma sample_login:
  obtains s0 auth r frames s e c where
    "server_bind sample_ext (sample_config\<lparr>min_security_level := 0\<rparr>) \<lparr>id_secret = [], id_counter = 0\<rparr> []
       (store_with empty_db) = Inr s0"
    and "s_perms s0 = perm_state_defaults"
    and "handshake sample_ext 0 [1] True (Some (Inr (Auth auth))) True s0 = (r, frames, s)"
    and "map_of (s_clients s) 1 = Some e" and "\<not> c_gone e" and "channel_get s 1 = Some c"
proof -
  let ?cfg = "sample_config\<lparr>min_security_level := 0\<rparr>" and ?id = "\<lparr>id_secret = [], id_counter = 0\<rparr>"
  let ?auth = "sample_auth\<lparr>ca_signature := sample_key 7 @ auth_challenge [1] []\<rparr>"
  have ok: "config_ok ?cfg" "length (cfg_channels ?cfg) < 2 ^ 32"
    using sample_config_ok by (simp_all add: config_ok_def)
  obtain s0 st where s0: "server_bind sample_ext ?cfg ?id [] (store_with empty_db) = Inr s0"
    and c: "s_channels s0 = fold (\<lambda>c m. bt_insert (ch_id c) c m) (build_channels ?cfg) []"
    and p: "s_perms s0 = perm_state_defaults"
    and st: "s_store s0 = Some st" "t_bans (st_db st) = []"
    using server_bind_ready [OF ok ready_store_with [of empty_db], of sample_ext ?id "[]"]
    by (fastforce simp: store_with_def empty_db_def)
  obtain chans perms n st' where shape: "s0 = (shared_new sample_ext ?cfg ?id [] chans perms)
      \<lparr>s_next_message_id := n, s_store := Some st'\<rparr>"
    using server_bind_shape [OF s0] by blast
  have fields: "s_clients s0 = []" "s_next_client_id s0 = 1" "s_config s0 = ?cfg" "s_cert_hash s0 = []"
      "s_limits s0 = server_limits_default\<lparr>lim_max_users := 64\<rparr>"
    by (simp_all add: shape shared_new_def sample_config_def config_default_def)
  have "\<exists>st''. handshake sample_ext 0 [1] True (Some (Inr (Auth ?auth))) True s0 =
      admit_and_greet sample_ext 0 True (hello_frame sample_ext [1] s0) ?auth (s0\<lparr>s_store := Some st''\<rparr>)"
    using st by (auto simp: handshake_def Let_def verify_auth_def fields sample_auth_def sample_config_def
        config_default_def pi_verify_auth_def sample_ext_def active_ban_def attempt_def split: prod.splits)
  then obtain st'' where h: "handshake sample_ext 0 [1] True (Some (Inr (Auth ?auth))) True s0 =
      admit_and_greet sample_ext 0 True (hello_frame sample_ext [1] s0) ?auth (s0\<lparr>s_store := Some st''\<rparr>)"
    by blast
  let ?h = "handshake sample_ext 0 [1] True (Some (Inr (Auth ?auth))) True s0"
  have "\<exists>e. map_of (s_clients (snd (snd ?h))) 1 = Some e \<and> \<not> c_gone e"
    unfolding h by (simp add: fields greeting_defs)
  moreover have "s_channels (snd (snd ?h)) = s_channels s0"
    unfolding h by (simp add: fields greeting_defs)
  then have "\<exists>c. channel_get (snd (snd ?h)) 1 = Some c"
    by (simp add: channel_get_def c build_channels_def channel_ids_def sample_config_def Let_def
        enumerate_eq_zip)
  moreover have "?h = (fst ?h, fst (snd ?h), snd (snd ?h))" by simp
  ultimately show ?thesis using s0 p that by blast
qed

lemma sample_run:
  obtains s0 s i c where
    "server_bind sample_ext (sample_config\<lparr>min_security_level := 0\<rparr>) \<lparr>id_secret = [], id_counter = 0\<rparr> []
       (store_with empty_db) = Inr s0"
    and "run sample_ext s0 [EConnect] s" and "user s 1 = Some i" and "channel_get s 1 = Some c"
proof -
  obtain s0 auth r frames s e c where l: "server_bind sample_ext (sample_config\<lparr>min_security_level := 0\<rparr>)
      \<lparr>id_secret = [], id_counter = 0\<rparr> [] (store_with empty_db) = Inr s0"
    "handshake sample_ext 0 [1] True (Some (Inr (Auth auth))) True s0 = (r, frames, s)"
    "map_of (s_clients s) 1 = Some e" "channel_get s 1 = Some c" by (rule sample_login)
  have "run sample_ext s0 ([] @ [EConnect]) (snd (snd (handshake sample_ext 0 [1] True (Some (Inr (Auth auth))) True s0)))"
    by (rule run.further [OF run.start server_step.connects])
  then have "run sample_ext s0 [EConnect] s" by (simp add: l(2))
  then show ?thesis using that [OF l(1) _ _ l(4)] l(3) by (simp add: user_def)
qed




definition banned_auth :: client_auth where
  "banned_auth = sample_auth\<lparr>ca_identity := \<lparr>pi_key = sample_key 3, pi_counter = 0\<rparr>\<rparr>"


text \<open>
  C9. History only grows: through any run of the server the stored messages keep every row they
  had, unchanged and in order, and new rows follow them.
\<close>

theorem history_is_append_only:
  assumes "run cr s es t" and "s_store s = Some st"
  shows "\<exists>st' rows. s_store t = Some st' \<and> t_messages (st_db st') = t_messages (st_db st) @ rows"
proof -
  have "messages.moves s t" using messages.moves_run [OF assms(1)] by simp
  then show ?thesis using assms(2) unfolding messages.moves_def by (cases "s_store t") (auto simp: appends_def)
qed

theorem history_is_append_only_witness:
  "\<exists>t st' rows. run sample_ext sample_shared ([] @ [ERequest 3 (SendMessage 1 [65] None 9)]) t \<and>
     s_store t = Some st' \<and> t_messages (st_db st') = t_messages (st_db (store_with sample_db)) @ rows"
proof -
  have "next_role_id (ps_roles (s_perms sample_shared)) \<noteq> 0"
    by (simp add: default_roles_def next_role_id_def EVERYONE_ROLE_ID_def)
  then have run: "run sample_ext sample_shared ([] @ [ERequest 3 (SendMessage 1 [65] None 9)])
      (send_message sample_ext 0 3 1 [65] None 9 sample_shared)"
    by (intro run.further [OF run.start] server_step.requests [where now = 0]) simp_all
  have "s_store sample_shared = Some (store_with sample_db)" by simp
  from history_is_append_only [OF run this] run show ?thesis by blast
qed

end
